(* ===== verification/Prelude.thy ===== *)
theory Prelude
  imports Main
    "HOL-Library.Word"
    "HOL-Library.Finite_Map"
    "HOL-Library.List_Lexorder"
    "HOL-Library.Char_ord"
    "HOL-Library.Product_Lexorder"
    "HOL-Library.Sublist"
    "HOL-Library.Multiset"
begin

text \<open>
  Shared vocabulary of the development.

  \<^item> Go's \<open>int64\<close> values are \<open>int\<close>s. Every arithmetic operation that the source performs
    without an overflow check is written with \<open>wrap64\<close> (two's complement, 64 bits), so
    wrap-around is part of the model; \<open>in64\<close> is the range of the type. Go's \<open>%\<close> truncates
    towards zero (\<open>rem64\<close>), unlike HOL's \<open>mod\<close>.
  \<^item> Go's errors are values of \<open>error\<close>: one constructor per sentinel of the packages
    (\<open>errors.New\<close>), \<open>ErrPlain\<close> for an error made by \<open>fmt.Errorf\<close> that wraps no sentinel,
    \<open>ErrJoin\<close> for an error that wraps two, and \<open>Panic\<close> for a run-time panic.
    \<open>errors_is\<close> is \<open>errors.Is\<close>. A fallible function returns \<open>error + 'a\<close> and \<open>bindE\<close>
    is the \<open>if err != nil { return err }\<close> of the source.
  \<^item> Go's maps are finite maps (\<open>fmap\<close>); \<open>fmget d m k\<close> is \<open>m[k]\<close> with the zero value \<open>d\<close>
    for a missing key. A loop over a map is a walk over its keys in sorted order; the
    source's results do not depend on the order, or sort it away.
\<close>

named_theorems res_simps \<open>equations of the error monad used by all component proofs\<close>
named_theorems i64_simps \<open>facts that remove wrap-around on values in range\<close>

section \<open>Errors and fallible results\<close>

datatype error =
    ErrInvalidDecimal
  | ErrInvalidMarket
  | ErrInvalidOrder
  | ErrInvalidRequest
  | ErrArithmeticOverflow
  | ErrIdempotencyConflict
  | ErrDuplicateOrder
  | ErrBookOrderNotFound
  | ErrInvalidBookOrder
  | ErrDuplicateTransaction
  | ErrUnbalancedTransaction
  | ErrInsufficientBalance
  | ErrInvalidTransaction
  | ErrSequenceConflict
  | ErrMissingStore
  | ErrRecoveryDiverged
  | ErrPersistence
  | ErrContext
  | ErrNotInitialized
  | ErrWriteBlocked
  | ErrInvalidTransition
  | ErrProofIncomplete
  | ErrVersionConflict
  | ErrBindingMismatch
  | ErrTransportEvidence
  | ErrUnsafeReference
  | ErrQuoteBlocked
  | ErrQueueFull
  | ErrUnavailable
  | ErrClosed
  | ErrRecoveryInProgress
  | ErrInvalidPolicy
  | ErrInvalidEvidence
  | ErrInvalidWindow
  | ErrEvidenceLimit
  | ErrLedgerProofFailed
  | ErrInvalidCursor
  | ErrCursorGap
  | ErrCursorConflict
  | ErrCursorRegression
  | ErrReconcileIncomplete
  | ErrPlain string
  | ErrJoin error error
  | Panic

fun errors_is :: "error \<Rightarrow> error \<Rightarrow> bool" where
  "errors_is (ErrJoin a b) t = (ErrJoin a b = t \<or> errors_is a t \<or> errors_is b t)"
| "errors_is e t = (e = t)"

type_synonym 'a res = "error + 'a"

definition bindE :: "'e + 'a \<Rightarrow> ('a \<Rightarrow> 'e + 'b) \<Rightarrow> 'e + 'b" where
  "bindE m f = (case m of Inl e \<Rightarrow> Inl e | Inr x \<Rightarrow> f x)"

definition guardE :: "bool \<Rightarrow> error \<Rightarrow> unit res" where
  "guardE ok e = (if ok then Inr () else Inl e)"

text \<open>A loop over a list whose body may return an error.\<close>

fun foldE :: "('a \<Rightarrow> 's \<Rightarrow> 'e + 's) \<Rightarrow> 'a list \<Rightarrow> 's \<Rightarrow> 'e + 's" where
  "foldE f [] s = Inr s"
| "foldE f (x # xs) s = bindE (f x s) (foldE f xs)"

lemma bindE_simps [simp, res_simps]:
  "bindE (Inl e) f = Inl e" "bindE (Inr x) f = f x"
  by (simp_all add: bindE_def)

lemma bindE_eq_Inr [res_simps]: "bindE m f = Inr y \<longleftrightarrow> (\<exists>x. m = Inr x \<and> f x = Inr y)"
  by (cases m) auto

lemma bindE_eq_Inl: "bindE m f = Inl e \<longleftrightarrow> m = Inl e \<or> (\<exists>x. m = Inr x \<and> f x = Inl e)"
  by (cases m) auto

lemma guardE_eq [simp, res_simps]:
  "guardE ok e = Inr u \<longleftrightarrow> ok" "guardE ok e = Inl e' \<longleftrightarrow> \<not> ok \<and> e = e'"
  by (auto simp: guardE_def)

lemma bindE_cong [fundef_cong]:
  "m = m' \<Longrightarrow> (\<And>x. m' = Inr x \<Longrightarrow> f x = g x) \<Longrightarrow> bindE m f = bindE m' g"
  by (cases m') auto

lemma case_Inr_iff: "(case r of Inl _ \<Rightarrow> False | Inr x \<Rightarrow> P x) \<longleftrightarrow> (\<exists>x. r = Inr x \<and> P x)"
  by (cases r) auto

lemma foldE_append: "foldE f (xs @ ys) s = bindE (foldE f xs s) (foldE f ys)"
  by (induction xs arbitrary: s) (auto simp: bindE_def split: sum.splits)

lemma foldE_invariant:
  assumes "foldE f xs s = Inr t" and "P s"
    and "\<And>x s t. x \<in> set xs \<Longrightarrow> P s \<Longrightarrow> f x s = Inr t \<Longrightarrow> P t"
  shows "P t"
  using assms by (induction xs arbitrary: s) (auto simp: bindE_eq_Inr)

lemma foldE_prefix:
  assumes "foldE f xs s = Inr t" "P [] s"
    and "\<And>ys x s t. x \<in> set xs \<Longrightarrow> P ys s \<Longrightarrow> f x s = Inr t \<Longrightarrow> P (ys @ [x]) t"
  shows "P xs t"
  using assms(1,3)
proof (induction xs arbitrary: t rule: rev_induct)
  case Nil
  then show ?case using assms(2) by simp
next
  case (snoc x xs)
  from snoc.prems(1) obtain u where u: "foldE f xs s = Inr u" "f x u = Inr t"
    by (auto simp: foldE_append bindE_eq_Inr)
  have "P xs u" using u(1) snoc.prems(2) by (intro snoc.IH) auto
  then show ?case using u(2) snoc.prems(2) by simp
qed

section \<open>64-bit signed integers\<close>

definition MaxInt64 :: int where "MaxInt64 = 9223372036854775807"
definition MinInt64 :: int where "MinInt64 = - 9223372036854775808"

definition in64 :: "int \<Rightarrow> bool" where
  "in64 x \<longleftrightarrow> MinInt64 \<le> x \<and> x \<le> MaxInt64"

definition wrap64 :: "int \<Rightarrow> int" where
  "wrap64 x = (x + 9223372036854775808) mod 18446744073709551616 - 9223372036854775808"

definition sub64 :: "int \<Rightarrow> int \<Rightarrow> int" where "sub64 a b = wrap64 (a - b)"
definition add64 :: "int \<Rightarrow> int \<Rightarrow> int" where "add64 a b = wrap64 (a + b)"

text \<open>Go's remainder has the sign of the dividend.\<close>

definition rem64 :: "int \<Rightarrow> int \<Rightarrow> int" where
  "rem64 a b = (if a < 0 then - ((- a) mod \<bar>b\<bar>) else a mod \<bar>b\<bar>)"

lemma int64_consts: "MaxInt64 = 2 ^ 63 - 1" "MinInt64 = - (2 ^ 63)"
  by (simp_all add: MaxInt64_def MinInt64_def)

lemma in64_wrap64: "in64 (wrap64 x)"
  using pos_mod_bound [of "18446744073709551616 :: int" "x + 9223372036854775808"]
  by (simp add: in64_def wrap64_def MaxInt64_def MinInt64_def)

lemma wrap64_id [i64_simps]: "in64 x \<Longrightarrow> wrap64 x = x"
  by (auto simp: in64_def wrap64_def MaxInt64_def MinInt64_def)

lemma wrap64_is_sint: "wrap64 x = sint (word_of_int x :: 64 word)"
  by (simp add: wrap64_def sint_sbintrunc' signed_take_bit_eq_take_bit_shift take_bit_int_def)

lemma sub64_nonneg [i64_simps]: "0 \<le> b \<Longrightarrow> b \<le> a \<Longrightarrow> a \<le> MaxInt64 \<Longrightarrow> sub64 a b = a - b"
  by (simp add: sub64_def wrap64_id in64_def MinInt64_def)

lemma add64_in64 [i64_simps]: "in64 (a + b) \<Longrightarrow> add64 a b = a + b"
  by (simp add: add64_def wrap64_id)

lemma in64_0 [simp]: "in64 0"
  by (simp add: in64_def MaxInt64_def MinInt64_def)

lemma in64_nonnegI: "0 \<le> x \<Longrightarrow> x \<le> y \<Longrightarrow> in64 y \<Longrightarrow> in64 x"
  by (auto simp: in64_def MinInt64_def)

lemma rem64_nonneg [i64_simps]: "0 \<le> a \<Longrightarrow> 0 < b \<Longrightarrow> rem64 a b = a mod b"
  by (simp add: rem64_def)

lemma rem64_eq_0: "0 < b \<Longrightarrow> rem64 a b = 0 \<longleftrightarrow> b dvd a"
  by (auto simp: rem64_def dvd_eq_mod_eq_0 [symmetric])

section \<open>Finite maps\<close>

definition fmget :: "'v \<Rightarrow> ('k, 'v) fmap \<Rightarrow> 'k \<Rightarrow> 'v" where
  "fmget d m k = (case fmlookup m k of None \<Rightarrow> d | Some v \<Rightarrow> v)"

lemma fmget_simps [simp]:
  "fmget d fmempty k = d"
  "fmget d (fmupd a v m) k = (if a = k then v else fmget d m k)"
  "fmget d (fmdrop a m) k = (if a = k then d else fmget d m k)"
  by (auto simp: fmget_def)

lemma fmget_notin: "k |\<notin>| fmdom m \<Longrightarrow> fmget d m k = d"
  by (simp add: fmget_def fmdom_notD)

lemma fmget_Some: "fmlookup m k = Some v \<Longrightarrow> fmget d m k = v"
  by (simp add: fmget_def)

lemma fset_of_list_empty_iff [simp]: "fset_of_list xs = {||} \<longleftrightarrow> xs = []"
  by (cases xs) auto

lemma sorted_list_of_fmap_props:
  "sorted (map fst (sorted_list_of_fmap m))" "distinct (map fst (sorted_list_of_fmap m))"
  "set (sorted_list_of_fmap m) = {(k, v). fmlookup m k = Some v}"
proof -
  have "map fst (sorted_list_of_fmap m) = sorted_list_of_fset (fmdom m)"
    by (simp add: sorted_list_of_fmap_def comp_def)
  then show "sorted (map fst (sorted_list_of_fmap m))" "distinct (map fst (sorted_list_of_fmap m))"
    by (simp_all add: sorted_list_of_fset.rep_eq)
  show "set (sorted_list_of_fmap m) = {(k, v). fmlookup m k = Some v}"
    by (auto simp: sorted_list_of_fmap_def fmlookup_dom_iff image_iff)
qed

section \<open>Decimal numerals\<close>

text \<open>
  \<open>show_nat\<close> is \<open>strconv.FormatInt(n, 10)\<close> and the verb \<open>%d\<close> on a non-negative number,
  \<open>pad0 w\<close> the zero padding of \<open>%0wd\<close>, \<open>read_nat\<close> the value of a string of digits.
\<close>

definition digit_char :: "nat \<Rightarrow> char" where
  "digit_char d = char_of (48 + d)"

definition is_digit :: "char \<Rightarrow> bool" where
  "is_digit c \<longleftrightarrow> 48 \<le> (of_char c :: nat) \<and> (of_char c :: nat) \<le> 57"

definition digit_val :: "char \<Rightarrow> nat" where
  "digit_val c = of_char c - 48"

fun show_nat :: "nat \<Rightarrow> string" where
  "show_nat n = (if n < 10 then [digit_char n] else show_nat (n div 10) @ [digit_char (n mod 10)])"

declare show_nat.simps [simp del]

definition pad0 :: "nat \<Rightarrow> string \<Rightarrow> string" where
  "pad0 w s = replicate (w - length s) (CHR ''0'') @ s"

definition read_nat :: "string \<Rightarrow> nat" where
  "read_nat s = foldl (\<lambda>a c. 10 * a + digit_val c) 0 s"

lemma of_char_digit: "d < 10 \<Longrightarrow> (of_char (digit_char d) :: nat) = 48 + d"
  by (simp add: digit_char_def of_char_of)

lemma digit_val_char [simp]: "d < 10 \<Longrightarrow> digit_val (digit_char d) = d"
  by (simp add: digit_val_def of_char_digit)

lemma is_digit_char [simp]: "d < 10 \<Longrightarrow> is_digit (digit_char d)"
  by (simp add: is_digit_def of_char_digit)

lemma digit_val_less: "is_digit c \<Longrightarrow> digit_val c < 10"
  by (auto simp: is_digit_def digit_val_def)

lemma read_nat_snoc [simp]: "read_nat (s @ [c]) = 10 * read_nat s + digit_val c"
  by (simp add: read_nat_def)

lemma read_nat_Nil [simp]: "read_nat [] = 0"
  by (simp add: read_nat_def)

lemma read_show_nat [simp]: "read_nat (show_nat n) = n"
proof (induction n rule: show_nat.induct)
  case (1 n)
  show ?case
  proof (cases "n < 10")
    case True
    then show ?thesis by (simp add: show_nat.simps [of n] read_nat_def)
  next
    case False
    with 1 show ?thesis by (simp add: show_nat.simps [of n])
  qed
qed

lemma show_nat_digits: "list_all is_digit (show_nat n)"
proof (induction n rule: show_nat.induct)
  case (1 n)
  then show ?case by (cases "n < 10") (simp_all add: show_nat.simps [of n])
qed

lemma show_nat_not_Nil [simp]: "show_nat n \<noteq> []"
  by (subst show_nat.simps) simp

lemma read_nat_zeros: "read_nat (replicate k (CHR ''0'') @ s) = read_nat s"
proof -
  have "foldl (\<lambda>a c. 10 * a + digit_val c) 0 (replicate k (CHR ''0'')) = 0"
    by (induction k) (simp_all add: digit_val_def)
  then show ?thesis by (simp add: read_nat_def)
qed

lemma read_nat_pad0 [simp]: "read_nat (pad0 w s) = read_nat s"
  by (simp add: pad0_def read_nat_zeros)

lemma show_nat_inj [simp]: "show_nat m = show_nat n \<longleftrightarrow> m = n"
  by (metis read_show_nat)

lemma pad0_show_nat_inj [simp]: "pad0 w (show_nat m) = pad0 w (show_nat n) \<longleftrightarrow> m = n"
  by (metis read_show_nat read_nat_pad0)

lemma pad0_digits: "list_all is_digit s \<Longrightarrow> list_all is_digit (pad0 w s)"
  by (auto simp: pad0_def list_all_iff is_digit_def)

lemma read_nat_append:
  "read_nat (s @ t) = read_nat s * 10 ^ length t + read_nat t"
  by (induction t rule: rev_induct) (simp_all flip: append_assoc add: algebra_simps)

lemma read_nat_less: "list_all is_digit s \<Longrightarrow> read_nat s < 10 ^ length s"
proof (induction s rule: rev_induct)
  case Nil
  show ?case by simp
next
  case (snoc c s)
  then have "read_nat s + 1 \<le> 10 ^ length s" and "digit_val c < 10"
    by (simp_all add: digit_val_less)
  then show ?case by simp
qed

section \<open>Text\<close>

text \<open>
  Strings are ASCII: \<open>strings.TrimSpace\<close>, \<open>strings.ToLower\<close>, \<open>strings.ToUpper\<close> and \<open>strings.EqualFold\<close> on the
  alphabet of the accepted values.
\<close>

definition is_space :: "char \<Rightarrow> bool" where
  "is_space c \<longleftrightarrow> (of_char c :: nat) \<in> {9, 10, 11, 12, 13, 32}"

definition lower_char :: "char \<Rightarrow> char" where
  "lower_char c = (if 65 \<le> (of_char c :: nat) \<and> (of_char c :: nat) \<le> 90 then char_of ((of_char c :: nat) + 32) else c)"

definition upper_char :: "char \<Rightarrow> char" where
  "upper_char c = (if 97 \<le> (of_char c :: nat) \<and> (of_char c :: nat) \<le> 122 then char_of ((of_char c :: nat) - 32) else c)"

definition ToLower :: "string \<Rightarrow> string" where "ToLower s = map lower_char s"

definition ToUpper :: "string \<Rightarrow> string" where "ToUpper s = map upper_char s"

definition EqualFold :: "string \<Rightarrow> string \<Rightarrow> bool" where "EqualFold s t \<longleftrightarrow> ToLower s = ToLower t"

definition TrimSpace :: "string \<Rightarrow> string" where
  "TrimSpace s = rev (dropWhile is_space (rev (dropWhile is_space s)))"

section \<open>Integer division, rounded down and up\<close>

lemma le_div_iff_int: "0 < d \<Longrightarrow> q \<le> p div d \<longleftrightarrow> q * d \<le> p" for p q d :: int
proof
  assume d: "0 < d" and "q \<le> p div d"
  then have "q * d \<le> (p div d) * d" by (simp add: mult_right_mono)
  also have "\<dots> \<le> p" using d by (simp add: div_mult_mod_eq [symmetric] minus_mod_eq_div_mult [symmetric])
  finally show "q * d \<le> p" .
next
  assume d: "0 < d" and "q * d \<le> p"
  then have "q * d div d \<le> p div d" by (intro zdiv_mono1) auto
  with d show "q \<le> p div d" by simp
qed

lemma div_less_iff_int: "0 < d \<Longrightarrow> p div d < q \<longleftrightarrow> p < q * d" for p q d :: int
  by (simp add: le_div_iff_int linorder_not_le [symmetric])

definition ceil_div :: "int \<Rightarrow> int \<Rightarrow> int" where
  "ceil_div p d = (if p mod d = 0 then p div d else p div d + 1)"

lemma ceil_div_bounds:
  assumes "0 < d"
  shows "p \<le> ceil_div p d * d" "(ceil_div p d - 1) * d < p"
proof -
  have up: "p < (p div d + 1) * d"
    using div_less_iff_int [OF assms, of p "p div d + 1"] by simp
  have lo: "p div d * d \<le> p"
    using le_div_iff_int [OF assms, of "p div d" p] by simp
  have ne: "p mod d \<noteq> 0 \<Longrightarrow> p div d * d \<noteq> p" and eq: "p mod d = 0 \<Longrightarrow> p div d * d = p"
    by (metis mod_mult_self2_is_0) (simp add: div_mult_mod_eq [symmetric] minus_mod_eq_div_mult [symmetric])
  show "p \<le> ceil_div p d * d" using up eq by (simp add: ceil_div_def)
  show "(ceil_div p d - 1) * d < p"
    using lo ne eq assms by (auto simp: ceil_div_def left_diff_distrib distrib_right)
qed

lemma ceil_div_le_iff: "0 < d \<Longrightarrow> ceil_div p d \<le> q \<longleftrightarrow> p \<le> q * d"
proof
  assume d: "0 < d" and "ceil_div p d \<le> q"
  then have "ceil_div p d * d \<le> q * d" by simp
  with ceil_div_bounds(1) [OF d, of p] show "p \<le> q * d" by simp
next
  assume d: "0 < d" and "p \<le> q * d"
  with ceil_div_bounds(2) [OF d, of p] have "(ceil_div p d - 1) * d < q * d" by linarith
  with d show "ceil_div p d \<le> q" by simp
qed

lemma ceil_div_nonneg: "0 < d \<Longrightarrow> 0 \<le> p \<Longrightarrow> 0 \<le> ceil_div p d"
  by (simp add: ceil_div_def pos_imp_zdiv_nonneg_iff)

lemma floor_le_ceil_div: "p div d \<le> ceil_div p d" "ceil_div p d \<le> p div d + 1"
  by (simp_all add: ceil_div_def)

end
