(* ===== verification/Decimal_Library.thy ===== *)
theory Decimal_Library
  imports Complex_Main Prelude
begin

text \<open>
  The decimal library that the components for market data use (\<open>github.com/shopspring/decimal\<close>), as an
  argument of the model. A \<open>decimal.Decimal\<close> is its value, a rational number; what a component relies on
  of division, printing and parsing is stated where it is used.
\<close>

record DecimalLib =
  dlDiv :: "rat \<Rightarrow> rat \<Rightarrow> rat"
  dlString :: "rat \<Rightarrow> string"
  dlParse :: "string \<Rightarrow> rat option"

end
