(* ===== verification/Domain.thy ===== *)
theory Domain
  imports Prelude
begin

text \<open>
  The package \<open>trading/domain\<close>: identifiers, enumerations, the market configuration, the
  requests and their validation, orders, trades, events, commands and idempotency keys, and
  the checked 64-bit arithmetic that every amount of the exchange goes through.

  Prices are quote atoms per whole base unit, quantities are base atoms. An enumeration of
  the source is a \<open>uint8\<close>; its datatype has the named values and one constructor for every
  other number, so that the \<open>default\<close> branches and the zero value exist in the model.
  The tick, step and scale of a market are divisors: a \<open>Market\<close> reaches the book, the ledger
  and the exchange only through \<open>Market_Validate\<close>, which makes them positive.
\<close>

section \<open>Identifiers and enumerations\<close>

type_synonym Asset = string
type_synonym MarketID = string
type_synonym AccountID = string
type_synonym OrderID = string
type_synonym TradeID = string

datatype Side = SideBuy | SideSell | SideOther nat

fun Side_String :: "Side \<Rightarrow> string" where
  "Side_String SideBuy = ''buy''"
| "Side_String SideSell = ''sell''"
| "Side_String (SideOther _) = ''unknown''"

datatype OrderType = OrderTypeLimit | OrderTypeMarket | OrderTypeOther nat

fun OrderType_String :: "OrderType \<Rightarrow> string" where
  "OrderType_String OrderTypeLimit = ''limit''"
| "OrderType_String OrderTypeMarket = ''market''"
| "OrderType_String (OrderTypeOther _) = ''unknown''"

datatype TimeInForce = TimeInForceGTC | TimeInForceIOC | TimeInForceFOK | TimeInForceOther nat

fun TimeInForce_String :: "TimeInForce \<Rightarrow> string" where
  "TimeInForce_String TimeInForceGTC = ''gtc''"
| "TimeInForce_String TimeInForceIOC = ''ioc''"
| "TimeInForce_String TimeInForceFOK = ''fok''"
| "TimeInForce_String (TimeInForceOther _) = ''unknown''"

datatype OrderStatus =
    OrderStatusReceived
  | OrderStatusRejected
  | OrderStatusOpen
  | OrderStatusPartiallyFilled
  | OrderStatusFilled
  | OrderStatusCanceled
  | OrderStatusOther nat

fun OrderStatus_String :: "OrderStatus \<Rightarrow> string" where
  "OrderStatus_String OrderStatusReceived = ''received''"
| "OrderStatus_String OrderStatusRejected = ''rejected''"
| "OrderStatus_String OrderStatusOpen = ''open''"
| "OrderStatus_String OrderStatusPartiallyFilled = ''partially_filled''"
| "OrderStatus_String OrderStatusFilled = ''filled''"
| "OrderStatus_String OrderStatusCanceled = ''canceled''"
| "OrderStatus_String (OrderStatusOther _) = ''unknown''"

datatype LiquidityRole = LiquidityRoleMaker | LiquidityRoleTaker | LiquidityRoleOther nat

fun LiquidityRole_String :: "LiquidityRole \<Rightarrow> string" where
  "LiquidityRole_String LiquidityRoleMaker = ''maker''"
| "LiquidityRole_String LiquidityRoleTaker = ''taker''"
| "LiquidityRole_String (LiquidityRoleOther _) = ''unknown''"

datatype CommandKind = CommandKindFund | CommandKindSubmitOrder | CommandKindCancelOrder
  | CommandKindOther nat

fun CommandKind_String :: "CommandKind \<Rightarrow> string" where
  "CommandKind_String CommandKindFund = ''fund''"
| "CommandKind_String CommandKindSubmitOrder = ''submit_order''"
| "CommandKind_String CommandKindCancelOrder = ''cancel_order''"
| "CommandKind_String (CommandKindOther _) = ''unknown''"

text \<open>The \<open>uint8\<close> value of a command kind (\<open>iota + 1\<close>); the verb \<open>%d\<close> prints it.\<close>

fun CommandKind_code :: "CommandKind \<Rightarrow> nat" where
  "CommandKind_code CommandKindFund = 1"
| "CommandKind_code CommandKindSubmitOrder = 2"
| "CommandKind_code CommandKindCancelOrder = 3"
| "CommandKind_code (CommandKindOther n) = (if n = 0 then 0 else n + 3)"

datatype EventType =
    EventNone
  | EventAccountFunded
  | EventOrderAccepted
  | EventOrderRejected
  | EventTradeExecuted
  | EventOrderRested
  | EventOrderFilled
  | EventOrderCanceled
  | EventCancelRejected
  | EventSelfTradePrevented

section \<open>Checked arithmetic\<close>

text \<open>\<open>math/bits\<close>: the 128-bit product of two \<open>uint64\<close>, and the division of a 128-bit number,
  which panics when the quotient does not fit.\<close>

definition Mul64 :: "64 word \<Rightarrow> 64 word \<Rightarrow> 64 word \<times> 64 word" where
  "Mul64 x y = (let p = uint x * uint y in (word_of_int (p div 2 ^ 64), word_of_int p))"

definition Div64 :: "64 word \<Rightarrow> 64 word \<Rightarrow> 64 word \<Rightarrow> (64 word \<times> 64 word) res" where
  "Div64 hi lo y =
     (if y = 0 \<or> y \<le> hi then Inl Panic
      else let n = uint hi * 2 ^ 64 + uint lo
           in Inr (word_of_int (n div uint y), word_of_int (n mod uint y)))"

definition CheckedAdd :: "int \<Rightarrow> int \<Rightarrow> int res" where
  "CheckedAdd a b =
     (if (b > 0 \<and> a > sub64 MaxInt64 b) \<or> (b < 0 \<and> a < sub64 MinInt64 b)
      then Inl ErrArithmeticOverflow
      else Inr (add64 a b))"

definition checkedMulDiv :: "int \<Rightarrow> int \<Rightarrow> int \<Rightarrow> (int \<times> 64 word) res" where
  "checkedMulDiv a b denominator =
     (if a < 0 \<or> b < 0 \<or> denominator \<le> 0 then Inl ErrArithmeticOverflow
      else
        let (high, low) = Mul64 (word_of_int a) (word_of_int b);
            divisor = (word_of_int denominator :: 64 word)
        in if high \<ge> divisor then Inl ErrArithmeticOverflow
           else bindE (Div64 high low divisor) (\<lambda>(quotient, remainder).
             if uint quotient > MaxInt64 then Inl ErrArithmeticOverflow
             else Inr (sint quotient, remainder)))"

definition CheckedMulDivFloor :: "int \<Rightarrow> int \<Rightarrow> int \<Rightarrow> int res" where
  "CheckedMulDivFloor a b denominator =
     bindE (checkedMulDiv a b denominator) (\<lambda>(quotient, _). Inr quotient)"

definition CheckedMulDivCeil :: "int \<Rightarrow> int \<Rightarrow> int \<Rightarrow> int res" where
  "CheckedMulDivCeil a b denominator =
     bindE (checkedMulDiv a b denominator) (\<lambda>(quotient, remainder).
       if remainder = 0 then Inr quotient
       else if quotient = MaxInt64 then Inl ErrArithmeticOverflow
       else Inr (add64 quotient 1))"

definition CheckedMul :: "int \<Rightarrow> int \<Rightarrow> int res" where
  "CheckedMul a b = CheckedMulDivFloor a b 1"

definition FeeAmount :: "int \<Rightarrow> int \<Rightarrow> int res" where
  "FeeAmount amount rateBPS =
     (if amount < 0 \<or> rateBPS < 0 \<or> rateBPS \<ge> 10000 then Inl ErrArithmeticOverflow
      else if amount = 0 \<or> rateBPS = 0 then Inr 0
      else CheckedMulDivFloor amount rateBPS 10000)"

text \<open>The loop of \<open>isPowerOfTen\<close>, entered with a positive value.\<close>

function isPowerOfTen_loop :: "int \<Rightarrow> bool" where
  "isPowerOfTen_loop value =
     (if value > 1 then (if rem64 value 10 \<noteq> 0 then False else isPowerOfTen_loop (value div 10))
      else True)"
  by pat_completeness auto
termination
  by (relation "measure nat") auto

declare isPowerOfTen_loop.simps [simp del]

definition isPowerOfTen :: "int \<Rightarrow> bool" where
  "isPowerOfTen value = (if value \<le> 0 then False else isPowerOfTen_loop value)"

section \<open>Markets\<close>

record Market =
  mID :: MarketID
  mBaseAsset :: Asset
  mQuoteAsset :: Asset
  mBaseScale :: int
  mQuoteScale :: int
  mPriceTick :: int
  mQuantityStep :: int
  mMinQuantity :: int
  mMinNotional :: int
  mMakerFeeBPS :: int
  mTakerFeeBPS :: int
  mConfigurationEpoch :: nat

definition Market_Validate :: "Market \<Rightarrow> unit res" where
  "Market_Validate m =
     (if mID m = [] \<or> mBaseAsset m = [] \<or> mQuoteAsset m = [] \<or> mBaseAsset m = mQuoteAsset m
      then Inl ErrInvalidMarket
      else if \<not> isPowerOfTen (mBaseScale m) \<or> \<not> isPowerOfTen (mQuoteScale m)
      then Inl ErrInvalidMarket
      else if mPriceTick m \<le> 0 \<or> mQuantityStep m \<le> 0 \<or> mMinQuantity m \<le> 0 \<or> mMinNotional m \<le> 0
      then Inl ErrInvalidMarket
      else if rem64 (mMinQuantity m) (mQuantityStep m) \<noteq> 0
      then Inl ErrInvalidMarket
      else if mMakerFeeBPS m < 0 \<or> mMakerFeeBPS m \<ge> 10000 \<or> mTakerFeeBPS m < 0 \<or> mTakerFeeBPS m \<ge> 10000
      then Inl ErrInvalidMarket
      else if mConfigurationEpoch m = 0
      then Inl ErrInvalidMarket
      else Inr ())"

definition DefaultBTCUSDTMarket :: Market where
  "DefaultBTCUSDTMarket =
     \<lparr> mID = ''BTC-USDT'', mBaseAsset = ''BTC'', mQuoteAsset = ''USDT'',
       mBaseScale = 100000000, mQuoteScale = 1000000, mPriceTick = 10000,
       mQuantityStep = 100, mMinQuantity = 1000, mMinNotional = 5000000,
       mMakerFeeBPS = 10, mTakerFeeBPS = 20, mConfigurationEpoch = 1 \<rparr>"

definition QuoteAmountFloor :: "Market \<Rightarrow> int \<Rightarrow> int \<Rightarrow> int res" where
  "QuoteAmountFloor m price quantity = CheckedMulDivFloor price quantity (mBaseScale m)"

definition QuoteAmountCeil :: "Market \<Rightarrow> int \<Rightarrow> int \<Rightarrow> int res" where
  "QuoteAmountCeil m price quantity = CheckedMulDivCeil price quantity (mBaseScale m)"

definition AffordableQuantity :: "Market \<Rightarrow> int \<Rightarrow> int \<Rightarrow> int res" where
  "AffordableQuantity m quoteBudget price =
     bindE (CheckedMulDivFloor quoteBudget (mBaseScale m) price)
       (\<lambda>quantity. Inr (sub64 quantity (rem64 quantity (mQuantityStep m))))"

section \<open>Requests\<close>

record FundRequest =
  fRequestID :: string
  fAccountID :: AccountID
  fAsset :: Asset
  fAmount :: int

definition FundRequest_Validate :: "FundRequest \<Rightarrow> Market \<Rightarrow> unit res" where
  "FundRequest_Validate r m =
     (if fRequestID r = [] \<or> fAccountID r = [] \<or> fAmount r \<le> 0 then Inl ErrInvalidRequest
      else if fAsset r \<noteq> mBaseAsset m \<and> fAsset r \<noteq> mQuoteAsset m then Inl ErrInvalidRequest
      else Inr ())"

record NewOrder =
  nClientOrderID :: string
  nAccountID :: AccountID
  nSide :: Side
  nType :: OrderType
  nTimeInForce :: TimeInForce
  nPrice :: int
  nQuantity :: int
  nQuoteBudget :: int
  nPostOnly :: bool

definition NewOrder_ValidateLimit :: "NewOrder \<Rightarrow> Market \<Rightarrow> unit res" where
  "NewOrder_ValidateLimit o' m =
     (if nPrice o' \<le> 0 \<or> rem64 (nPrice o') (mPriceTick m) \<noteq> 0 then Inl ErrInvalidOrder
      else if nQuantity o' < mMinQuantity m \<or> rem64 (nQuantity o') (mQuantityStep m) \<noteq> 0
      then Inl ErrInvalidOrder
      else if nQuoteBudget o' \<noteq> 0 then Inl ErrInvalidOrder
      else if nTimeInForce o' \<noteq> TimeInForceGTC \<and> nTimeInForce o' \<noteq> TimeInForceIOC
              \<and> nTimeInForce o' \<noteq> TimeInForceFOK
      then Inl ErrInvalidOrder
      else if nPostOnly o' \<and> nTimeInForce o' \<noteq> TimeInForceGTC then Inl ErrInvalidOrder
      else
        case QuoteAmountFloor m (nPrice o') (mQuantityStep m) of
          Inl _ \<Rightarrow> Inl ErrInvalidOrder
        | Inr stepNotional \<Rightarrow>
            if stepNotional \<le> 0 then Inl ErrInvalidOrder
            else
              (case QuoteAmountFloor m (nPrice o') (nQuantity o') of
                 Inl _ \<Rightarrow> Inl ErrInvalidOrder
               | Inr notional \<Rightarrow>
                   if notional < mMinNotional m then Inl ErrInvalidOrder else Inr ()))"

definition NewOrder_ValidateMarket :: "NewOrder \<Rightarrow> Market \<Rightarrow> unit res" where
  "NewOrder_ValidateMarket o' m =
     (if nPrice o' \<noteq> 0 \<or> nPostOnly o' \<or> nTimeInForce o' \<noteq> TimeInForceIOC then Inl ErrInvalidOrder
      else
        case nSide o' of
          SideBuy \<Rightarrow>
            if nQuoteBudget o' < mMinNotional m \<or> nQuantity o' \<noteq> 0 then Inl ErrInvalidOrder
            else Inr ()
        | SideSell \<Rightarrow>
            if nQuantity o' < mMinQuantity m \<or> rem64 (nQuantity o') (mQuantityStep m) \<noteq> 0
               \<or> nQuoteBudget o' \<noteq> 0
            then Inl ErrInvalidOrder
            else Inr ()
        | SideOther _ \<Rightarrow> Inr ())"

definition NewOrder_Validate :: "NewOrder \<Rightarrow> Market \<Rightarrow> unit res" where
  "NewOrder_Validate o' m =
     (if nClientOrderID o' = [] \<or> nAccountID o' = [] then Inl ErrInvalidOrder
      else if nSide o' \<noteq> SideBuy \<and> nSide o' \<noteq> SideSell then Inl ErrInvalidOrder
      else
        case nType o' of
          OrderTypeLimit \<Rightarrow> NewOrder_ValidateLimit o' m
        | OrderTypeMarket \<Rightarrow> NewOrder_ValidateMarket o' m
        | OrderTypeOther _ \<Rightarrow> Inl ErrInvalidOrder)"

record CancelOrder =
  cRequestID :: string
  cAccountID :: AccountID
  cOrderID :: OrderID

definition CancelOrder_Validate :: "CancelOrder \<Rightarrow> unit res" where
  "CancelOrder_Validate r =
     (if cRequestID r = [] \<or> cAccountID r = [] \<or> cOrderID r = [] then Inl ErrInvalidRequest
      else Inr ())"

section \<open>Orders, trades, events, commands\<close>

record Order =
  oID :: OrderID
  oClientOrderID :: string
  oAccountID :: AccountID
  oMarketID :: MarketID
  oSide :: Side
  oType :: OrderType
  oTimeInForce :: TimeInForce
  oPostOnly :: bool
  oPrice :: int
  oOriginalQuantity :: int
  oRemainingQuantity :: int
  oFilledQuantity :: int
  oOriginalQuoteBudget :: int
  oRemainingQuoteBudget :: int
  oSpentQuote :: int
  oHeldAsset :: Asset
  oHeldAmount :: int
  oStatus :: OrderStatus
  oAcceptedSequence :: nat
  oLastSequence :: nat
  oRejectReason :: string

text \<open>Go's zero value of the struct: what a lookup of a missing order yields.\<close>

definition zeroOrder :: Order where
  "zeroOrder =
     \<lparr> oID = [], oClientOrderID = [], oAccountID = [], oMarketID = [], oSide = SideOther 0,
       oType = OrderTypeOther 0, oTimeInForce = TimeInForceOther 0, oPostOnly = False, oPrice = 0,
       oOriginalQuantity = 0, oRemainingQuantity = 0, oFilledQuantity = 0,
       oOriginalQuoteBudget = 0, oRemainingQuoteBudget = 0, oSpentQuote = 0, oHeldAsset = [],
       oHeldAmount = 0, oStatus = OrderStatusOther 0, oAcceptedSequence = 0, oLastSequence = 0,
       oRejectReason = [] \<rparr>"

definition IsOpen :: "Order \<Rightarrow> bool" where
  "IsOpen ord \<longleftrightarrow> oStatus ord = OrderStatusOpen \<or> oStatus ord = OrderStatusPartiallyFilled"

record Fee =
  feeAccountID :: AccountID
  feeAsset :: Asset
  feeAmount :: int
  feeRateBPS :: int
  feeRole :: LiquidityRole

record Trade =
  tID :: TradeID
  tMarketID :: MarketID
  tPrice :: int
  tQuantity :: int
  tQuoteAmount :: int
  tMakerOrderID :: OrderID
  tTakerOrderID :: OrderID
  tMakerAccountID :: AccountID
  tTakerAccountID :: AccountID
  tBuyerAccountID :: AccountID
  tSellerAccountID :: AccountID
  tBuyerFee :: Fee
  tSellerFee :: Fee

record Event =
  evSequence :: nat
  evIndex :: nat
  evType :: EventType
  evAccountID :: AccountID
  evOrderID :: OrderID
  evClientOrderID :: string
  evStatus :: OrderStatus
  evSide :: Side
  evPrice :: int
  evQuantity :: int
  evRemaining :: int
  evRemainingQuoteBudget :: "int option"
  evQuoteAmount :: int
  evAsset :: Asset
  evAmount :: int
  evReason :: string
  evTrade :: "Trade option"

text \<open>The zero value that a struct literal with omitted fields starts from.\<close>

definition zeroEvent :: Event where
  "zeroEvent =
     \<lparr> evSequence = 0, evIndex = 0, evType = EventNone, evAccountID = [], evOrderID = [],
       evClientOrderID = [], evStatus = OrderStatusOther 0, evSide = SideOther 0, evPrice = 0,
       evQuantity = 0, evRemaining = 0, evRemainingQuoteBudget = None, evQuoteAmount = 0,
       evAsset = [], evAmount = 0, evReason = [], evTrade = None \<rparr>"

record Result =
  rSequence :: nat
  rOrderID :: OrderID
  rStatus :: OrderStatus
  rEvents :: "Event list"

datatype IdempotencyKey = IdempotencyKey
  (kMarketID: MarketID) (kAccountID: AccountID) (kOperation: CommandKind) (kRequestID: string)

record Command =
  cmdSequence :: nat
  cmdRequestID :: string
  cmdRequestKey :: IdempotencyKey
  cmdFingerprint :: string
  cmdKind :: CommandKind
  cmdFund :: "FundRequest option"
  cmdSubmit :: "NewOrder option"
  cmdCancel :: "CancelOrder option"

definition NewIdempotencyKey ::
  "MarketID \<Rightarrow> AccountID \<Rightarrow> CommandKind \<Rightarrow> string \<Rightarrow> IdempotencyKey" where
  "NewIdempotencyKey marketID accountID operation requestID =
     IdempotencyKey marketID accountID operation requestID"

definition IdempotencyKey_Validate :: "IdempotencyKey \<Rightarrow> unit res" where
  "IdempotencyKey_Validate k =
     (if kMarketID k = [] \<or> kAccountID k = [] \<or> kRequestID k = [] \<or>
         (kOperation k \<noteq> CommandKindFund \<and> kOperation k \<noteq> CommandKindSubmitOrder \<and>
          kOperation k \<noteq> CommandKindCancelOrder)
      then Inl ErrInvalidRequest else Inr ())"

text \<open>The unit separator \<open>\x1f\<close> joins the parts.\<close>

definition key_sep :: string where "key_sep = [char_of (31 :: nat)]"

definition IdempotencyKey_String :: "IdempotencyKey \<Rightarrow> string" where
  "IdempotencyKey_String k =
     kMarketID k @ key_sep @ kAccountID k @ key_sep @ show_nat (CommandKind_code (kOperation k))
       @ key_sep @ kRequestID k"

section \<open>Checked arithmetic is exact arithmetic\<close>

lemma uint_of_nonneg64 [i64_simps]:
  "0 \<le> a \<Longrightarrow> a \<le> MaxInt64 \<Longrightarrow> uint (word_of_int a :: 64 word) = a"
  by (simp add: uint_word_of_int take_bit_int_eq_self_iff MaxInt64_def)

lemma CheckedAdd_spec:
  assumes "in64 a" "in64 b"
  shows "CheckedAdd a b = (if in64 (a + b) then Inr (a + b) else Inl ErrArithmeticOverflow)"
proof -
  have "b > 0 \<Longrightarrow> sub64 MaxInt64 b = MaxInt64 - b" "b < 0 \<Longrightarrow> sub64 MinInt64 b = MinInt64 - b"
    using assms by (auto simp: sub64_def intro!: wrap64_id)
      (auto simp: in64_def MaxInt64_def MinInt64_def)
  with assms show ?thesis
    by (auto simp: CheckedAdd_def add64_in64 in64_def)
qed

lemma CheckedAdd_Inr: "in64 a \<Longrightarrow> in64 b \<Longrightarrow> CheckedAdd a b = Inr c \<longleftrightarrow> c = a + b \<and> in64 (a + b)"
  by (auto simp: CheckedAdd_spec)

lemma mul_lt_2_126:
  assumes "0 \<le> a" "a \<le> MaxInt64" "0 \<le> b" "b \<le> MaxInt64"
  shows "a * b div 2 ^ 64 < 2 ^ 64" "0 \<le> a * b"
proof -
  have "a * b \<le> MaxInt64 * MaxInt64"
    using assms by (intro mult_mono) auto
  then show "a * b div 2 ^ 64 < 2 ^ 64"
    by (simp add: MaxInt64_def)
  show "0 \<le> a * b" using assms by simp
qed

lemma Mul64_of_nonneg:
  assumes "0 \<le> a" "a \<le> MaxInt64" "0 \<le> b" "b \<le> MaxInt64"
  shows "Mul64 (word_of_int a) (word_of_int b) = (word_of_int (a * b div 2 ^ 64), word_of_int (a * b))"
  using assms by (simp add: Mul64_def i64_simps Let_def)

lemma Div64_of_product:
  fixes p d :: int
  assumes "0 \<le> p" "p div 2 ^ 64 < d" "0 < d" "d \<le> MaxInt64"
  shows "Div64 (word_of_int (p div 2 ^ 64)) (word_of_int p) (word_of_int d) =
    Inr (word_of_int (p div d), word_of_int (p mod d))"
proof -
  have d: "uint (word_of_int d :: 64 word) = d"
    using assms by (simp add: i64_simps)
  have hi: "uint (word_of_int (p div 2 ^ 64) :: 64 word) = p div 2 ^ 64"
    using assms by (intro uint_of_nonneg64) auto
  have lo: "uint (word_of_int p :: 64 word) = p mod 2 ^ 64"
    by (simp add: uint_word_of_int take_bit_int_def)
  have "(word_of_int d :: 64 word) \<noteq> 0" using d assms by auto
  moreover have "\<not> (word_of_int d :: 64 word) \<le> word_of_int (p div 2 ^ 64)"
    using assms by (simp only: word_le_def d hi not_le)
  ultimately show ?thesis
    by (simp only: Div64_def d hi lo Let_def if_False simp_thms div_mult_mod_eq)
qed

lemma quotient_lt_2_64:
  fixes p d :: int
  assumes "0 \<le> p" "p div 2 ^ 64 < d" "0 < d"
  shows "p div d < 2 ^ 64"
  using assms by (simp add: div_less_iff_int mult.commute)

lemma quotient_ge_2_64:
  fixes p d :: int
  assumes "d \<le> p div 2 ^ 64" "0 < d"
  shows "2 ^ 64 \<le> p div d"
  using assms by (simp add: le_div_iff_int mult.commute)

lemma sint_small: "0 \<le> q \<Longrightarrow> q \<le> MaxInt64 \<Longrightarrow> sint (word_of_int q :: 64 word) = q"
  by (simp flip: wrap64_is_sint add: wrap64_id in64_def MinInt64_def)

lemma checkedMulDiv_spec:
  assumes "in64 a" "in64 b" "in64 d"
  shows "checkedMulDiv a b d =
    (if 0 \<le> a \<and> 0 \<le> b \<and> 0 < d \<and> a * b div d \<le> MaxInt64
     then Inr (a * b div d, word_of_int (a * b mod d)) else Inl ErrArithmeticOverflow)"
proof (cases "0 \<le> a \<and> 0 \<le> b \<and> 0 < d")
  case False
  then show ?thesis by (auto simp: checkedMulDiv_def)
next
  case True
  then have ran: "0 \<le> a" "a \<le> MaxInt64" "0 \<le> b" "b \<le> MaxInt64" "0 < d" "d \<le> MaxInt64"
    using assms by (auto simp: in64_def)
  let ?p = "a * b"
  note p = mul_lt_2_126 [OF ran(1-4)]
  have d: "uint (word_of_int d :: 64 word) = d" using ran by (simp add: i64_simps)
  have hi: "uint (word_of_int (?p div 2 ^ 64) :: 64 word) = ?p div 2 ^ 64"
    using p by (simp add: uint_word_of_int take_bit_int_eq_self_iff pos_imp_zdiv_nonneg_iff)
  show ?thesis
  proof (cases "d \<le> ?p div 2 ^ 64")
    case big: True
    then have "\<not> ?p div d \<le> MaxInt64"
      using quotient_ge_2_64 [OF big ran(5)] by (simp add: MaxInt64_def)
    moreover have "(word_of_int d :: 64 word) \<le> word_of_int (?p div 2 ^ 64)"
      using big by (simp only: word_le_def d hi)
    ultimately show ?thesis using True
      by (simp add: checkedMulDiv_def Mul64_of_nonneg [OF ran(1-4)])
  next
    case small: False
    then have lt: "?p div 2 ^ 64 < d" by simp
    have q: "uint (word_of_int (?p div d) :: 64 word) = ?p div d"
      using quotient_lt_2_64 [OF p(2) lt ran(5)] p(2) ran(5)
      by (simp add: uint_word_of_int take_bit_int_eq_self_iff pos_imp_zdiv_nonneg_iff)
    have "\<not> (word_of_int d :: 64 word) \<le> word_of_int (?p div 2 ^ 64)"
      using lt by (simp only: word_le_def d hi not_le)
    moreover have "0 \<le> ?p div d" using p(2) ran(5) by (simp add: pos_imp_zdiv_nonneg_iff)
    moreover have "\<not> (a < 0 \<or> b < 0 \<or> d \<le> 0)" using True by auto
    ultimately have "checkedMulDiv a b d =
      (if uint (word_of_int (?p div d) :: 64 word) > MaxInt64 then Inl ErrArithmeticOverflow
       else Inr (sint (word_of_int (?p div d) :: 64 word), word_of_int (?p mod d)))"
      by (simp only: checkedMulDiv_def Mul64_of_nonneg [OF ran(1-4)] Let_def prod.case if_False
          Div64_of_product [OF p(2) lt ran(5,6)] bindE_simps)
    then show ?thesis using True q \<open>0 \<le> ?p div d\<close> by (simp add: sint_small)
  qed
qed

lemma CheckedMulDivFloor_spec:
  assumes "in64 a" "in64 b" "in64 d"
  shows "CheckedMulDivFloor a b d =
    (if 0 \<le> a \<and> 0 \<le> b \<and> 0 < d \<and> a * b div d \<le> MaxInt64
     then Inr (a * b div d) else Inl ErrArithmeticOverflow)"
  using assms by (simp add: CheckedMulDivFloor_def checkedMulDiv_spec)

lemma CheckedMulDivCeil_spec:
  assumes "in64 a" "in64 b" "in64 d"
  shows "CheckedMulDivCeil a b d =
    (if 0 \<le> a \<and> 0 \<le> b \<and> 0 < d \<and> ceil_div (a * b) d \<le> MaxInt64
     then Inr (ceil_div (a * b) d) else Inl ErrArithmeticOverflow)"
proof (cases "0 \<le> a \<and> 0 \<le> b \<and> 0 < d")
  case False
  then show ?thesis using assms by (auto simp: CheckedMulDivCeil_def checkedMulDiv_spec)
next
  case True
  let ?q = "a * b div d"
  have q0: "0 \<le> ?q" using True by (simp add: pos_imp_zdiv_nonneg_iff)
  have "0 \<le> a * b mod d" "a * b mod d \<le> MaxInt64"
    using True assms(3) pos_mod_bound [of d "a * b"] by (auto simp: in64_def simp del: pos_mod_bound)
  then have r: "(word_of_int (a * b mod d) :: 64 word) = 0 \<longleftrightarrow> a * b mod d = 0"
    by (metis uint_of_nonneg64 unsigned_0 word_of_int_0)
  have "?q \<le> MaxInt64 \<Longrightarrow> ?q \<noteq> MaxInt64 \<Longrightarrow> add64 ?q 1 = ?q + 1"
    using q0 by (intro add64_in64) (auto simp: in64_def MinInt64_def)
  then show ?thesis using True assms r
    by (auto simp: CheckedMulDivCeil_def checkedMulDiv_spec ceil_div_def)
qed

section \<open>Fees, affordable quantities, powers of ten\<close>

lemma CheckedMulDivFloor_InrD:
  assumes "CheckedMulDivFloor a b d = Inr q" "in64 a" "in64 b" "in64 d"
  shows "0 \<le> a" "0 \<le> b" "0 < d" "q = a * b div d" "0 \<le> q" "q \<le> MaxInt64"
  using assms by (auto simp: CheckedMulDivFloor_spec pos_imp_zdiv_nonneg_iff split: if_splits)

lemma CheckedMulDivCeil_InrD:
  assumes "CheckedMulDivCeil a b d = Inr q" "in64 a" "in64 b" "in64 d"
  shows "0 \<le> a" "0 \<le> b" "0 < d" "q = ceil_div (a * b) d" "0 \<le> q" "q \<le> MaxInt64"
  using assms by (auto simp: CheckedMulDivCeil_spec ceil_div_nonneg split: if_splits)

lemma FeeAmount_spec:
  assumes "in64 amount" "0 \<le> amount" "0 \<le> rate" "rate < 10000"
  shows "FeeAmount amount rate = Inr (amount * rate div 10000)"
    and "0 \<le> amount * rate div 10000" and "0 < amount \<Longrightarrow> amount * rate div 10000 < amount"
proof -
  show nn: "0 \<le> amount * rate div 10000" using assms by (simp add: pos_imp_zdiv_nonneg_iff)
  show lt: "0 < amount \<Longrightarrow> amount * rate div 10000 < amount"
    using assms by (simp add: div_less_iff_int)
  have "amount * rate div 10000 \<le> MaxInt64"
    using lt assms by (cases "amount = 0") (auto simp: in64_def MaxInt64_def)
  moreover have "in64 rate" "in64 10000"
    using assms by (simp_all add: in64_def MaxInt64_def MinInt64_def)
  ultimately show "FeeAmount amount rate = Inr (amount * rate div 10000)"
    using assms by (simp add: FeeAmount_def CheckedMulDivFloor_spec)
qed

lemma AffordableQuantity_InrD:
  assumes "AffordableQuantity m budget price = Inr q"
    and "in64 budget" "in64 price" "in64 (mBaseScale m)" "0 < mQuantityStep m"
  shows "0 \<le> q" "q \<le> MaxInt64" "mQuantityStep m dvd q" "q * price \<le> budget * mBaseScale m"
    "budget * mBaseScale m < (q + mQuantityStep m) * price" "0 < price" "0 \<le> budget" "0 \<le> mBaseScale m"
proof -
  let ?step = "mQuantityStep m"
  from assms obtain n where n: "CheckedMulDivFloor budget (mBaseScale m) price = Inr n"
    and q: "q = sub64 n (rem64 n ?step)"
    by (auto simp: AffordableQuantity_def bindE_eq_Inr)
  note nD = CheckedMulDivFloor_InrD [OF n assms(2,4,3)]
  have rem: "rem64 n ?step = n mod ?step" "0 \<le> n mod ?step" "n mod ?step \<le> n" "n mod ?step < ?step"
    using nD assms(5) by (simp_all add: rem64_nonneg zmod_le_nonneg_dividend)
  then have qn: "q = n - n mod ?step" using q nD by (simp add: sub64_nonneg)
  show "0 \<le> q" "q \<le> MaxInt64" using qn rem nD by auto
  show "?step dvd q" using qn by simp
  show "0 < price" "0 \<le> budget" "0 \<le> mBaseScale m" using nD by auto
  have "n * price \<le> budget * mBaseScale m" using nD le_div_iff_int by blast
  moreover have "q * price \<le> n * price" using qn rem \<open>0 < price\<close> by (intro mult_right_mono) auto
  ultimately show "q * price \<le> budget * mBaseScale m" by linarith
  have "n + 1 \<le> q + ?step" using qn rem by linarith
  then have "(n + 1) * price \<le> (q + ?step) * price" using \<open>0 < price\<close> by (intro mult_right_mono) auto
  moreover have "budget * mBaseScale m < (n + 1) * price"
    using nD div_less_iff_int [of price "budget * mBaseScale m" "n + 1"] by simp
  ultimately show "budget * mBaseScale m < (q + ?step) * price" by linarith
qed

lemma isPowerOfTen_loop_iff: "0 < v \<Longrightarrow> isPowerOfTen_loop v \<longleftrightarrow> (\<exists>k. v = 10 ^ k)"
proof (induction v rule: isPowerOfTen_loop.induct)
  case (1 v)
  show ?case
  proof (cases "1 < v \<and> rem64 v 10 = 0")
    case True
    then obtain w where v: "v = 10 * w" by (auto simp: rem64_eq_0 dvd_def)
    then have w: "0 < w" "v div 10 = w" using 1(2) by auto
    have "(\<exists>k. w = 10 ^ k) \<longleftrightarrow> (\<exists>k. v = 10 ^ k)"
    proof
      assume "\<exists>k. w = 10 ^ k"
      then show "\<exists>k. v = 10 ^ k" using v by (metis power_Suc)
    next
      assume "\<exists>k. v = 10 ^ k"
      then obtain k where k: "v = 10 ^ k" by blast
      with True have "k \<noteq> 0" by (intro notI) simp
      with k v show "\<exists>k. w = 10 ^ k" by (cases k) auto
    qed
    then show ?thesis using 1 True w by (simp add: isPowerOfTen_loop.simps [of v])
  next
    case False
    have "v = 10 ^ k \<Longrightarrow> 1 < v \<Longrightarrow> rem64 v 10 = 0" for k
      by (cases k) (simp_all add: rem64_eq_0)
    then show ?thesis using False 1(2)
      by (auto simp: isPowerOfTen_loop.simps [of v] intro: exI [of _ 0])
  qed
qed

lemma isPowerOfTen_iff: "isPowerOfTen v \<longleftrightarrow> (\<exists>k. v = 10 ^ k)"
proof (cases "0 < v")
  case True
  then show ?thesis by (simp add: isPowerOfTen_def isPowerOfTen_loop_iff)
next
  case False
  then have "v \<noteq> 10 ^ k" for k by (metis zero_less_power zero_less_numeral)
  with False show ?thesis by (auto simp: isPowerOfTen_def)
qed

section \<open>Valid markets\<close>

definition market_ok :: "Market \<Rightarrow> bool" where
  "market_ok m \<longleftrightarrow> Market_Validate m = Inr () \<and>
     in64 (mBaseScale m) \<and> in64 (mPriceTick m) \<and> in64 (mQuantityStep m) \<and> in64 (mMinQuantity m)
     \<and> in64 (mMinNotional m)"

lemma market_okD:
  assumes "market_ok m"
  shows "mID m \<noteq> []" "mBaseAsset m \<noteq> []" "mQuoteAsset m \<noteq> []" "mBaseAsset m \<noteq> mQuoteAsset m"
    "0 < mPriceTick m" "0 < mQuantityStep m" "0 < mMinQuantity m" "0 < mMinNotional m"
    "mQuantityStep m dvd mMinQuantity m"
    "0 \<le> mMakerFeeBPS m" "mMakerFeeBPS m < 10000" "0 \<le> mTakerFeeBPS m" "mTakerFeeBPS m < 10000"
    "in64 (mBaseScale m)" "in64 (mPriceTick m)" "in64 (mQuantityStep m)" "in64 (mMinQuantity m)"
    "in64 (mMinNotional m)" "Market_Validate m = Inr ()"
  using assms by (auto simp: market_ok_def Market_Validate_def rem64_eq_0 split: if_splits)

lemma market_ok_scale: "market_ok m \<Longrightarrow> 0 < mBaseScale m"
  by (auto simp: market_ok_def Market_Validate_def isPowerOfTen_def split: if_splits)

lemma market_ok_default: "market_ok DefaultBTCUSDTMarket"
  by (simp add: market_ok_def Market_Validate_def DefaultBTCUSDTMarket_def isPowerOfTen_def
      isPowerOfTen_loop.simps rem64_def in64_def MaxInt64_def MinInt64_def)

section \<open>The order of idempotency keys\<close>

text \<open>
  \<open>persisted()\<close> sorts the requests of the exchange by \<open>Key.String()\<close>. The order of the type is
  that one; two keys with the same string (possible only when an account or market identifier
  contains the separator) are ordered by their parts. The source leaves their order open, and so
  does the model of \<open>persisted()\<close>; the order of the type only lists the keys of a map.
\<close>

definition key_parts :: "IdempotencyKey \<Rightarrow> string \<times> string \<times> string \<times> nat \<times> string" where
  "key_parts k = (IdempotencyKey_String k, kMarketID k, kAccountID k,
     CommandKind_code (kOperation k), kRequestID k)"

lemma CommandKind_code_inj: "CommandKind_code a = CommandKind_code b \<longleftrightarrow> a = b"
  by (cases a; cases b) (auto split: if_splits)

lemma key_parts_inj: "key_parts a = key_parts b \<longleftrightarrow> a = b"
  by (cases a; cases b) (auto simp: key_parts_def CommandKind_code_inj)

instantiation IdempotencyKey :: linorder
begin

definition less_eq_IdempotencyKey :: "IdempotencyKey \<Rightarrow> IdempotencyKey \<Rightarrow> bool" where
  "less_eq_IdempotencyKey a b \<longleftrightarrow> key_parts a \<le> key_parts b"

definition less_IdempotencyKey :: "IdempotencyKey \<Rightarrow> IdempotencyKey \<Rightarrow> bool" where
  "less_IdempotencyKey a b \<longleftrightarrow> key_parts a < key_parts b"

instance
proof
  fix a b c :: IdempotencyKey
  show "a < b \<longleftrightarrow> a \<le> b \<and> \<not> b \<le> a"
    by (auto simp: less_eq_IdempotencyKey_def less_IdempotencyKey_def less_le_not_le)
  show "a \<le> a" by (simp add: less_eq_IdempotencyKey_def)
  show "a \<le> b \<Longrightarrow> b \<le> c \<Longrightarrow> a \<le> c" by (auto simp: less_eq_IdempotencyKey_def)
  show "a \<le> b \<Longrightarrow> b \<le> a \<Longrightarrow> a = b"
    by (auto simp: less_eq_IdempotencyKey_def dest: antisym simp: key_parts_inj)
  show "a \<le> b \<or> b \<le> a" by (auto simp: less_eq_IdempotencyKey_def)
qed

end

lemma takeWhile_sep: "c \<notin> set xs \<Longrightarrow> takeWhile (\<lambda>x. x \<noteq> c) (xs @ c # ys) = xs"
  by (induction xs) auto

lemma append_sep_inj:
  assumes "c \<notin> set xs" "c \<notin> set xs'"
  shows "xs @ c # ys = xs' @ c # ys' \<longleftrightarrow> xs = xs' \<and> ys = ys'"
  using assms by (metis append_same_eq takeWhile_sep same_append_eq list.inject)

lemma sep_not_digit: "list_all is_digit s \<Longrightarrow> char_of (31 :: nat) \<notin> set s"
  by (auto simp: list_all_iff is_digit_def)

lemma IdempotencyKey_String_inj:
  assumes "char_of (31 :: nat) \<notin> set (kMarketID a) \<union> set (kAccountID a)"
    and "char_of (31 :: nat) \<notin> set (kMarketID b) \<union> set (kAccountID b)"
  shows "IdempotencyKey_String a = IdempotencyKey_String b \<longleftrightarrow> a = b"
proof -
  have "char_of (31 :: nat) \<notin> set (show_nat n)" for n
    using show_nat_digits sep_not_digit by blast
  then show ?thesis using assms
    by (cases a; cases b)
      (simp add: IdempotencyKey_String_def key_sep_def append_sep_inj CommandKind_code_inj)
qed

lemma IdempotencyKey_String_collision:
  "\<exists>a b. IdempotencyKey_Validate a = Inr () \<and> IdempotencyKey_Validate b = Inr () \<and>
     IdempotencyKey_String a = IdempotencyKey_String b \<and> a \<noteq> b"
proof -
  let ?sep = "char_of (31 :: nat)"
  let ?a = "IdempotencyKey ''M'' ''a'' CommandKindFund (''b'' @ [?sep] @ ''1'' @ [?sep] @ ''c'')"
  let ?b = "IdempotencyKey ''M'' (''a'' @ [?sep] @ ''1'' @ [?sep] @ ''b'') CommandKindFund ''c''"
  have one: "show_nat 1 = ''1''" by code_simp
  have "IdempotencyKey_String ?a = IdempotencyKey_String ?b"
    by (simp add: IdempotencyKey_String_def key_sep_def one [unfolded One_nat_def])
  moreover have "?a \<noteq> ?b" by simp
  ultimately show ?thesis by (intro exI [of _ ?a] exI [of _ ?b]) (simp add: IdempotencyKey_Validate_def)
qed

section \<open>Properties\<close>

text \<open>C34 The 128-bit multiply-and-divide of the source is exact arithmetic: on 64-bit arguments it
  returns the quotient rounded down or up whenever the arguments have the right sign and the
  result fits, and the overflow error otherwise.\<close>

theorem checked_muldiv_exact:
  assumes "in64 a" "in64 b" "in64 d"
  shows "CheckedMulDivFloor a b d =
      (if 0 \<le> a \<and> 0 \<le> b \<and> 0 < d \<and> a * b div d \<le> MaxInt64
       then Inr (a * b div d) else Inl ErrArithmeticOverflow) \<and>
    CheckedMulDivCeil a b d =
      (if 0 \<le> a \<and> 0 \<le> b \<and> 0 < d \<and> ceil_div (a * b) d \<le> MaxInt64
       then Inr (ceil_div (a * b) d) else Inl ErrArithmeticOverflow)"
  using CheckedMulDivFloor_spec [OF assms] CheckedMulDivCeil_spec [OF assms] by blast

lemma int64_range [simp]: "in64 (numeral n) \<longleftrightarrow> numeral n \<le> MaxInt64" "in64 1"
  by (simp_all add: in64_def MaxInt64_def MinInt64_def)

theorem checked_muldiv_exact_witness:
  "CheckedMulDivFloor 9223372036854775807 9223372036854775807 9223372036854775807 = Inr 9223372036854775807 \<and>
   CheckedMulDivCeil 7 5 2 = Inr 18 \<and>
   CheckedMulDivFloor 9223372036854775807 3 2 = Inl ErrArithmeticOverflow"
  using checked_muldiv_exact [of 9223372036854775807 9223372036854775807 9223372036854775807]
    checked_muldiv_exact [of 7 5 2] checked_muldiv_exact [of 9223372036854775807 3 2]
  by (simp add: MaxInt64_def ceil_div_def)

text \<open>A fee is the rounded-down share of the amount and stays below it, so no settlement is
  consumed by its fee.\<close>

theorem fee_below_amount:
  assumes "market_ok m" "in64 amount" "0 < amount" "rate = mMakerFeeBPS m \<or> rate = mTakerFeeBPS m"
  shows "\<exists>fee. FeeAmount amount rate = Inr fee \<and> fee = amount * rate div 10000 \<and> 0 \<le> fee \<and> fee < amount"
  using FeeAmount_spec [of amount rate] market_okD(10-13) [OF assms(1)] assms(2-) by auto

theorem fee_below_amount_witness:
  "\<exists>fee. FeeAmount 500 10 = Inr fee \<and> fee = 500 * 10 div 10000 \<and> 0 \<le> fee \<and> fee < 500"
  using fee_below_amount [OF market_ok_default, of 500 10]
  by (simp add: DefaultBTCUSDTMarket_def MaxInt64_def)

text \<open>The affordable quantity is the largest multiple of the quantity step that the budget pays
  for at the price.\<close>

theorem affordable_quantity_maximal:
  assumes "market_ok m" "in64 budget" "in64 price" "AffordableQuantity m budget price = Inr q"
  shows "0 \<le> q \<and> mQuantityStep m dvd q \<and> q * price \<le> budget * mBaseScale m \<and>
    budget * mBaseScale m < (q + mQuantityStep m) * price"
  using AffordableQuantity_InrD [OF assms(4,2,3) market_okD(14) [OF assms(1)] market_okD(6) [OF assms(1)]] by blast

theorem affordable_quantity_maximal_witness:
  "AffordableQuantity DefaultBTCUSDTMarket 5040083 60000990000 = Inr 8300 \<and>
   5040083 * 100000000 < (8300 + 100) * (60000990000 :: int)"
proof -
  have "AffordableQuantity DefaultBTCUSDTMarket 5040083 60000990000 = Inr 8300"
    by (simp add: AffordableQuantity_def CheckedMulDivFloor_spec DefaultBTCUSDTMarket_def MaxInt64_def
        rem64_def sub64_def wrap64_def)
  with affordable_quantity_maximal [OF market_ok_default _ _ this] show ?thesis
    by (simp add: DefaultBTCUSDTMarket_def MaxInt64_def)
qed

text \<open>C37 The scale check accepts exactly the powers of ten.\<close>

theorem scale_check_powers_of_ten: "isPowerOfTen v \<longleftrightarrow> (\<exists>k. v = 10 ^ k)"
  by (rule isPowerOfTen_iff)

text \<open>Two different valid idempotency keys have the same string when an account contains the
  separator; without it in market and account the string identifies the key.\<close>

theorem idempotency_key_string:
  "(\<exists>a b. IdempotencyKey_Validate a = Inr () \<and> IdempotencyKey_Validate b = Inr () \<and>
      IdempotencyKey_String a = IdempotencyKey_String b \<and> a \<noteq> b) \<and>
   (\<forall>a b. key_sep ! 0 \<notin> set (kMarketID a) \<union> set (kAccountID a) \<and>
      key_sep ! 0 \<notin> set (kMarketID b) \<union> set (kAccountID b) \<and>
      IdempotencyKey_String a = IdempotencyKey_String b \<longrightarrow> a = b)"
  using IdempotencyKey_String_collision IdempotencyKey_String_inj by (simp add: key_sep_def) blast

lemma key_sep_char: "char_of (31 :: nat) = CHR 0x1F"
  by code_simp

theorem idempotency_key_string_witness:
  "IdempotencyKey_String (IdempotencyKey ''M'' ''a'' CommandKindFund ''1'') \<noteq>
   IdempotencyKey_String (IdempotencyKey ''M'' ''a'' CommandKindFund ''2'')"
  using idempotency_key_string [THEN conjunct2, rule_format,
      of "IdempotencyKey ''M'' ''a'' CommandKindFund ''1''" "IdempotencyKey ''M'' ''a'' CommandKindFund ''2''"]
  by (auto simp: key_sep_def key_sep_char)

end
