(* ===== verification/Decimal.thy ===== *)
theory Decimal
  imports Domain
begin

text \<open>
  The package \<open>trading/decimal\<close>: conversion between decimal strings and integer atoms of a scale
  that is a power of ten. Strings are lists of bytes; unsigned 64-bit arithmetic is written with
  \<open>mod 2 ^ 64\<close>. Parsing accepts exactly the strings of \<open>decimal_string\<close> whose value fits, and
  formatting is its inverse.
\<close>

section \<open>Model\<close>

text \<open>\<open>scalePrecision\<close>: the loop divides by ten and counts.\<close>

function scalePrecision_loop :: "int \<Rightarrow> nat \<Rightarrow> nat res" where
  "scalePrecision_loop scale precision =
     (if scale > 1
      then if rem64 scale 10 \<noteq> 0 then Inl ErrInvalidDecimal
           else scalePrecision_loop (scale div 10) (precision + 1)
      else Inr precision)"
  by auto

termination
  by (relation "measure (\<lambda>(scale, _). nat scale)") auto

declare scalePrecision_loop.simps [simp del]

definition scalePrecision :: "int \<Rightarrow> nat res" where
  "scalePrecision scale = (if scale \<le> 0 then Inl ErrInvalidDecimal else scalePrecision_loop scale 0)"

definition digitsOnly :: "string \<Rightarrow> bool" where
  "digitsOnly value \<longleftrightarrow> list_all is_digit value \<and> value \<noteq> []"

text \<open>\<open>strings.Split(value, ".")\<close>.\<close>

fun split_dots :: "string \<Rightarrow> string list" where
  "split_dots [] = [[]]"
| "split_dots (c # cs) =
     (if c = CHR ''.'' then [] # split_dots cs
      else case split_dots cs of [] \<Rightarrow> [[c]] | part # parts \<Rightarrow> (c # part) # parts)"

text \<open>\<open>strings.TrimSpace(value) != value\<close> for the white space of ASCII; other white space is not a
  digit and is refused below with the same error.\<close>

definition spaced :: "string \<Rightarrow> bool" where
  "spaced value \<longleftrightarrow> value \<noteq> [] \<and> (is_space (hd value) \<or> is_space (last value))"

text \<open>\<open>strconv.ParseUint(s, 10, 64)\<close> of a string of digits.\<close>

definition ParseUint :: "string \<Rightarrow> int option" where
  "ParseUint s = (if int (read_nat s) < 2 ^ 64 then Some (int (read_nat s)) else None)"

definition parse_fraction :: "nat \<Rightarrow> string \<Rightarrow> int \<Rightarrow> int res" where
  "parse_fraction precision fraction atoms =
     (if fraction = [] then Inr atoms
      else
        (case ParseUint (fraction @ replicate (precision - length fraction) (CHR ''0'')) of
           None \<Rightarrow> Inl ErrInvalidDecimal
         | Some fractionAtoms \<Rightarrow>
             if atoms > (MaxInt64 - fractionAtoms) mod 2 ^ 64 then Inl ErrInvalidDecimal
             else Inr ((atoms + fractionAtoms) mod 2 ^ 64)))"

definition Decimal_Parse :: "string \<Rightarrow> int \<Rightarrow> int res" where
  "Decimal_Parse value scale =
     bindE (scalePrecision scale) (\<lambda>precision.
       if value = [] \<or> spaced value \<or> prefix ''+'' value \<or> prefix ''-'' value then Inl ErrInvalidDecimal
       else
         (let parts = split_dots value in
          if length parts > 2 \<or> hd parts = [] then Inl ErrInvalidDecimal
          else if \<not> digitsOnly (hd parts) then Inl ErrInvalidDecimal
          else
            (let fraction = (if length parts = 2 then parts ! 1 else []) in
             if length parts = 2 \<and> (fraction = [] \<or> \<not> digitsOnly fraction \<or> length fraction > precision)
             then Inl ErrInvalidDecimal
             else
               (case ParseUint (hd parts) of
                  None \<Rightarrow> Inl ErrInvalidDecimal
                | Some whole \<Rightarrow>
                    if whole > MaxInt64 div scale then Inl ErrInvalidDecimal
                    else bindE (parse_fraction precision fraction (whole * scale mod 2 ^ 64))
                           (\<lambda>atoms. Inr (wrap64 atoms))))))"

definition TrimRight0 :: "string \<Rightarrow> string" where
  "TrimRight0 s = rev (dropWhile (\<lambda>c. c = CHR ''0'') (rev s))"

definition Decimal_Format :: "int \<Rightarrow> int \<Rightarrow> string res" where
  "Decimal_Format atoms scale =
     bindE (scalePrecision scale) (\<lambda>precision.
       if atoms < 0 then Inl ErrInvalidDecimal
       else
         (let whole = atoms div scale;
              fraction = atoms mod scale
          in if precision = 0 \<or> fraction = 0 then Inr (show_nat (nat whole))
             else Inr (TrimRight0 (show_nat (nat whole) @ ''.'' @ pad0 precision (show_nat (nat fraction))))))"

section \<open>Scales\<close>

lemma scalePrecision_loop_power: "scalePrecision_loop (10 ^ k) p = Inr (p + k)"
proof (induction k arbitrary: p)
  case (Suc k)
  have "(1 :: int) < 10 * 10 ^ k" using one_le_power [of "10 :: int" k] by linarith
  with Suc show ?case by (simp add: scalePrecision_loop.simps [of "10 * 10 ^ k"] rem64_def)
qed (simp add: scalePrecision_loop.simps)

lemma scalePrecision_loop_InrD: "scalePrecision_loop s p = Inr q \<Longrightarrow> 0 < s \<Longrightarrow> p \<le> q \<and> s = 10 ^ (q - p)"
proof (induction s p rule: scalePrecision_loop.induct)
  case (1 s p)
  show ?case
  proof (cases "s > 1")
    case True
    then have d: "10 dvd s" and r: "scalePrecision_loop (s div 10) (p + 1) = Inr q"
      using "1.prems"(1) by (auto simp: scalePrecision_loop.simps [of s] rem64_def split: if_splits)
    have "0 < s div 10" using d True by (auto elim!: dvdE)
    from "1.IH" [OF True _ r this] d have "p + 1 \<le> q" "s div 10 = 10 ^ (q - (p + 1))" by (auto simp: rem64_eq_0)
    moreover then have "q - p = Suc (q - (p + 1))" by simp
    ultimately show ?thesis using d by (auto elim!: dvdE)
  next
    case False
    with "1.prems" show ?thesis by (simp add: scalePrecision_loop.simps [of s])
  qed
qed

lemma scalePrecision_iff: "scalePrecision scale = Inr p \<longleftrightarrow> scale = 10 ^ p"
  using scalePrecision_loop_power [of p 0] scalePrecision_loop_InrD [of scale 0 p]
    zero_less_power [of "10 :: int" p]
  by (auto simp: scalePrecision_def simp del: zero_less_power)

section \<open>Splitting and trimming\<close>

lemma split_dots_not_Nil [simp]: "split_dots v \<noteq> []"
  by (cases v) (auto split: list.splits)

lemma split_dots_eq1: "split_dots v = [w] \<longleftrightarrow> w = v \<and> CHR ''.'' \<notin> set v"
proof (induction v arbitrary: w)
  case (Cons c cs)
  show ?case
  proof (cases "c = CHR ''.''")
    case False
    then have "split_dots (c # cs) = [w] \<longleftrightarrow> (\<exists>w'. w = c # w' \<and> split_dots cs = [w'])"
      by (auto split: list.splits)
    with False Cons.IH show ?thesis by (cases w) auto
  qed simp
qed auto

lemma split_dots_eq2: "split_dots v = [w, f] \<longleftrightarrow> v = w @ ''.'' @ f \<and> CHR ''.'' \<notin> set w \<and> CHR ''.'' \<notin> set f"
proof (induction v arbitrary: w)
  case (Cons c cs)
  show ?case
  proof (cases "c = CHR ''.''")
    case True
    then show ?thesis by (cases w) (auto simp: split_dots_eq1)
  next
    case False
    then have "split_dots (c # cs) = [w, f] \<longleftrightarrow> (\<exists>w'. w = c # w' \<and> split_dots cs = [w', f])"
      by (auto split: list.splits)
    with False Cons.IH show ?thesis by (cases w) auto
  qed
qed simp

lemma is_digit_facts:
  "is_digit c \<Longrightarrow> c \<noteq> CHR ''.''" "is_digit c \<Longrightarrow> c \<noteq> CHR ''+''" "is_digit c \<Longrightarrow> c \<noteq> CHR ''-''"
  "is_digit c \<Longrightarrow> \<not> is_space c"
  by (auto simp: is_digit_def is_space_def)

lemma not_digit [simp]: "\<not> is_digit (CHR ''.'')" "\<not> is_digit (CHR ''+'')" "\<not> is_digit (CHR ''-'')"
  by (simp_all add: is_digit_def)

lemma digits_no_dot: "list_all is_digit s \<Longrightarrow> CHR ''.'' \<notin> set s"
  using is_digit_facts(1) by (auto simp: list_all_iff)

lemma TrimRight0_split:
  "\<exists>k. s = TrimRight0 s @ replicate k (CHR ''0'') \<and> (TrimRight0 s = [] \<or> last (TrimRight0 s) \<noteq> CHR ''0'')"
proof -
  let ?d = "dropWhile (\<lambda>c. c = CHR ''0'') (rev s)" and ?t = "takeWhile (\<lambda>c. c = CHR ''0'') (rev s)"
  have "?t = replicate (length ?t) (CHR ''0'')"
    using set_takeWhileD by (intro replicate_eqI) fastforce+
  then have "rev ?t = replicate (length ?t) (CHR ''0'')" by (metis rev_replicate)
  moreover have "s = rev ?d @ rev ?t" by (metis rev_append rev_rev_ident takeWhile_dropWhile_id)
  ultimately have "s = rev ?d @ replicate (length ?t) (CHR ''0'')" by metis
  moreover have "?d = [] \<or> last (rev ?d) \<noteq> CHR ''0''" using hd_dropWhile [of "\<lambda>c. c = CHR ''0''" "rev s"]
    by (auto simp only: last_rev)
  ultimately show ?thesis unfolding TrimRight0_def by (metis Nil_is_rev_conv)
qed

lemma TrimRight0_append: "TrimRight0 t \<noteq> [] \<Longrightarrow> TrimRight0 (s @ t) = s @ TrimRight0 t"
  by (auto simp: TrimRight0_def dropWhile_append)

section \<open>Parsing\<close>

lemma parse_fraction_spec:
  assumes "list_all is_digit f" "length f \<le> p" "10 ^ p \<le> MaxInt64" "0 \<le> atoms" "atoms \<le> MaxInt64"
  shows "parse_fraction p f atoms =
    (let a = atoms + int (read_nat f * 10 ^ (p - length f)) in if a \<le> MaxInt64 then Inr a else Inl ErrInvalidDecimal)"
proof -
  let ?g = "f @ replicate (p - length f) (CHR ''0'')"
  have g: "read_nat ?g = read_nat f * 10 ^ (p - length f)"
    using read_nat_zeros [of "p - length f" "[]"] by (simp add: read_nat_append)
  have "list_all is_digit ?g" using assms(1) by (auto simp: list_all_iff is_digit_def)
  from read_nat_less [OF this] assms(2) have "read_nat ?g < 10 ^ p" by simp
  then have "int (read_nat ?g) < 10 ^ p" by (metis of_nat_less_iff of_nat_numeral of_nat_power)
  then have b: "int (read_nat ?g) \<le> MaxInt64" using assms(3) by linarith
  let ?F = "int (read_nat ?g)"
  have "(MaxInt64 - ?F) mod 2 ^ 64 = MaxInt64 - ?F" using b by (simp add: MaxInt64_def)
  moreover have "atoms + ?F \<le> MaxInt64 \<Longrightarrow> (atoms + ?F) mod 2 ^ 64 = atoms + ?F"
    using assms(4) by (simp add: MaxInt64_def)
  moreover have "ParseUint ?g = Some ?F" using b by (simp add: ParseUint_def MaxInt64_def)
  ultimately show ?thesis using assms(5) unfolding g by (auto simp: parse_fraction_def Let_def)
qed

definition decimal_string :: "string \<Rightarrow> string \<Rightarrow> string" where
  "decimal_string w f = (if f = [] then w else w @ ''.'' @ f)"

lemma Decimal_Parse_parts:
  assumes "10 ^ p \<le> MaxInt64" "digitsOnly w" "list_all is_digit f" "length f \<le> p"
  shows "Decimal_Parse (decimal_string w f) (10 ^ p) =
    (let a = int (read_nat w) * 10 ^ p + int (read_nat f * 10 ^ (p - length f))
     in if a \<le> MaxInt64 then Inr a else Inl ErrInvalidDecimal)"
proof -
  let ?v = "decimal_string w f"
  have w: "list_all is_digit w" "w \<noteq> []" using assms(2) by (auto simp: digitsOnly_def)
  have nd: "CHR ''.'' \<notin> set w" "CHR ''.'' \<notin> set f" using digits_no_dot w assms(3) by auto
  have parts: "split_dots ?v = (if f = [] then [w] else [w, f])"
    using nd by (auto simp: decimal_string_def split_dots_eq1 split_dots_eq2 [of _ w f, simplified])
  have ends: "is_digit (hd ?v)" "is_digit (last ?v)" "?v \<noteq> []"
    using w assms(3) by (auto simp: decimal_string_def list_all_iff)
  have first: "\<not> spaced ?v" "\<not> prefix ''+'' ?v" "\<not> prefix ''-'' ?v"
    using ends is_digit_facts by (auto simp: spaced_def prefix_def)
  have pos: "(0 :: int) < 10 ^ p" by simp
  have big: "int (read_nat w) \<le> MaxInt64 div 10 ^ p \<longleftrightarrow> int (read_nat w) * 10 ^ p \<le> MaxInt64"
    by (rule le_div_iff_int [OF pos])
  have w1: "int (read_nat w) \<le> int (read_nat w) * 10 ^ p" using pos by (simp add: mult_le_cancel_left1)
  have m: "int (read_nat w) * 10 ^ p mod 2 ^ 64 = int (read_nat w) * 10 ^ p"
    if "int (read_nat w) * 10 ^ p \<le> MaxInt64" using that by (simp add: MaxInt64_def)
  show ?thesis
  proof (cases "int (read_nat w) * 10 ^ p \<le> MaxInt64")
    case True
    then have "ParseUint w = Some (int (read_nat w))" using w1 by (simp add: ParseUint_def MaxInt64_def)
    moreover have "wrap64 a = a" if "0 \<le> a" "a \<le> MaxInt64" for a
      using that by (simp add: wrap64_id in64_def MinInt64_def)
    ultimately show ?thesis
      using first ends(3) parts assms(2-4) w True big m parse_fraction_spec [OF assms(3,4,1) _ True]
      by (auto simp: Decimal_Parse_def scalePrecision_iff [THEN iffD2, OF refl] Let_def digitsOnly_def)
  next
    case False
    have "0 \<le> int (read_nat f) * 10 ^ (p - length f)" by simp
    then have "\<not> int (read_nat w) * 10 ^ p + int (read_nat f) * 10 ^ (p - length f) \<le> MaxInt64" using False by linarith
    with False show ?thesis using first ends(3) parts assms(2-4) w big
      by (auto simp: Decimal_Parse_def scalePrecision_iff [THEN iffD2, OF refl] Let_def digitsOnly_def ParseUint_def)
  qed
qed

lemma Decimal_Parse_form:
  assumes "Decimal_Parse v (10 ^ p) = Inr a"
  shows "\<exists>w f. digitsOnly w \<and> list_all is_digit f \<and> length f \<le> p \<and> v = decimal_string w f"
proof -
  let ?parts = "split_dots v"
  have ok: "length ?parts \<le> 2" "digitsOnly (hd ?parts)"
      "length ?parts = 2 \<Longrightarrow> digitsOnly (?parts ! 1) \<and> length (?parts ! 1) \<le> p"
    using assms by (auto simp: Decimal_Parse_def scalePrecision_iff [THEN iffD2, OF refl] Let_def split: if_splits)
  obtain w rest where w: "?parts = w # rest" by (cases ?parts) auto
  show ?thesis
  proof (cases rest)
    case Nil
    then have "v = w" using w split_dots_eq1 [of v w] by simp
    then show ?thesis using ok(2) w by (intro exI [of _ w] exI [of _ "[]"]) (simp add: decimal_string_def)
  next
    case (Cons f r)
    then have f: "?parts = [w, f]" using w ok(1) by simp
    then have "v = w @ ''.'' @ f" using split_dots_eq2 [of v w f] by simp
    then show ?thesis using ok(2,3) f
      by (intro exI [of _ w] exI [of _ f]) (auto simp: decimal_string_def digitsOnly_def)
  qed
qed

lemma Decimal_Parse_iff:
  assumes "10 ^ p \<le> MaxInt64"
  shows "Decimal_Parse v (10 ^ p) = Inr a \<longleftrightarrow>
    (\<exists>w f. digitsOnly w \<and> list_all is_digit f \<and> length f \<le> p \<and> v = decimal_string w f \<and>
       a = int (read_nat w) * 10 ^ p + int (read_nat f * 10 ^ (p - length f)) \<and> a \<le> MaxInt64)"
proof
  assume parse: "Decimal_Parse v (10 ^ p) = Inr a"
  then obtain w f where wf: "digitsOnly w" "list_all is_digit f" "length f \<le> p" "v = decimal_string w f"
    using Decimal_Parse_form by blast
  with Decimal_Parse_parts [OF assms wf(1-3)] parse
  show "\<exists>w f. digitsOnly w \<and> list_all is_digit f \<and> length f \<le> p \<and> v = decimal_string w f \<and>
       a = int (read_nat w) * 10 ^ p + int (read_nat f * 10 ^ (p - length f)) \<and> a \<le> MaxInt64"
    by (intro exI [of _ w] exI [of _ f]) (auto simp: Let_def split: if_splits)
next
  assume "\<exists>w f. digitsOnly w \<and> list_all is_digit f \<and> length f \<le> p \<and> v = decimal_string w f \<and>
       a = int (read_nat w) * 10 ^ p + int (read_nat f * 10 ^ (p - length f)) \<and> a \<le> MaxInt64"
  then show "Decimal_Parse v (10 ^ p) = Inr a" using Decimal_Parse_parts [OF assms] by (auto simp: Let_def)
qed

section \<open>Formatting\<close>

lemma show_nat_length: "n < 10 ^ p \<Longrightarrow> 0 < p \<Longrightarrow> length (show_nat n) \<le> p"
proof (induction n arbitrary: p rule: show_nat.induct)
  case (1 n)
  show ?case
  proof (cases "n < 10")
    case True
    then show ?thesis using "1.prems"(2) by (simp add: show_nat.simps [of n])
  next
    case False
    then obtain q where q: "p = Suc q" "0 < q" using "1.prems" by (cases p) (auto intro: Suc_lessI, metis gr0I less_one power_0 mult_1_right power_Suc)
    have "n div 10 < 10 ^ q" using "1.prems"(1) q(1) by (simp add: less_mult_imp_div_less mult.commute)
    from "1.IH" [OF False this q(2)] show ?thesis using False q(1) by (simp add: show_nat.simps [of n])
  qed
qed

lemma digitsOnly_show_nat [simp]: "digitsOnly (show_nat n)"
  by (simp add: digitsOnly_def show_nat_digits)

text \<open>The digits behind the point: what is trimmed are zeros.\<close>

lemma TrimRight0_fraction:
  assumes "0 < F" "F < 10 ^ p"
  defines "f \<equiv> TrimRight0 (pad0 p (show_nat F))"
  shows "f \<noteq> []" "list_all is_digit f" "length f \<le> p" "read_nat f * 10 ^ (p - length f) = F" "last f \<noteq> CHR ''0''"
proof -
  let ?g = "pad0 p (show_nat F)"
  have p: "0 < p" using assms(1,2) by (cases p) auto
  have len: "length ?g = p" using show_nat_length [OF assms(2) p] by (simp add: pad0_def)
  obtain k where k: "?g = f @ replicate k (CHR ''0'')" "f = [] \<or> last f \<noteq> CHR ''0''"
    using TrimRight0_split [of ?g] unfolding f_def by blast
  have F: "read_nat ?g = F" by simp
  have "read_nat (f @ replicate k (CHR ''0'')) = read_nat f * 10 ^ k"
    using read_nat_zeros [of k "[]"] by (simp add: read_nat_append)
  with k(1) F have F': "read_nat f * 10 ^ k = F" by metis
  have k': "p = length f + k" using len k(1) by (metis length_append length_replicate)
  then show "length f \<le> p" "read_nat f * 10 ^ (p - length f) = F" using F' by simp_all
  show ne: "f \<noteq> []" using F' assms(1) by auto
  then show "last f \<noteq> CHR ''0''" using k(2) by simp
  have "list_all is_digit ?g" by (simp add: pad0_digits show_nat_digits)
  then show "list_all is_digit f" unfolding k(1) by simp
qed

lemma Decimal_Format_spec:
  assumes "0 \<le> atoms"
  shows "\<exists>f. Decimal_Format atoms (10 ^ p) = Inr (decimal_string (show_nat (nat (atoms div 10 ^ p))) f) \<and>
    list_all is_digit f \<and> length f \<le> p \<and> int (read_nat f * 10 ^ (p - length f)) = atoms mod 10 ^ p \<and>
    (f = [] \<or> last f \<noteq> CHR ''0'')"
proof (cases "atoms mod 10 ^ p = 0")
  case True
  then show ?thesis using assms
    by (intro exI [of _ "[]"]) (simp add: Decimal_Format_def scalePrecision_iff [THEN iffD2, OF refl] decimal_string_def)
next
  case False
  let ?F = "nat (atoms mod 10 ^ p)" and ?w = "show_nat (nat (atoms div 10 ^ p))"
  have pos: "(0 :: int) < 10 ^ p" by simp
  have F: "int ?F = atoms mod 10 ^ p" using pos_mod_sign [OF pos, of atoms] by simp
  have F0: "0 < ?F" using False pos_mod_sign [OF pos, of atoms] by linarith
  have F1: "?F < 10 ^ p"
    using pos_mod_bound [OF pos, of atoms] F by (metis of_nat_less_iff of_nat_numeral of_nat_power)
  note T = TrimRight0_fraction [OF F0 F1]
  have p: "p \<noteq> 0" using False by (auto intro: ccontr)
  have "Decimal_Format atoms (10 ^ p) = Inr (TrimRight0 ((?w @ ''.'') @ pad0 p (show_nat ?F)))"
    using False assms p by (simp add: Decimal_Format_def scalePrecision_iff [THEN iffD2, OF refl] Let_def)
  also have "TrimRight0 ((?w @ ''.'') @ pad0 p (show_nat ?F)) = decimal_string ?w (TrimRight0 (pad0 p (show_nat ?F)))"
    using TrimRight0_append [OF T(1), of "?w @ ''.''"] T(1) by (simp add: decimal_string_def)
  finally show ?thesis using T F by (intro exI [of _ "TrimRight0 (pad0 p (show_nat ?F))"]) simp
qed

lemma Decimal_roundtrip:
  assumes "0 \<le> atoms" "atoms \<le> MaxInt64" "10 ^ p \<le> MaxInt64"
  shows "\<exists>v. Decimal_Format atoms (10 ^ p) = Inr v \<and> Decimal_Parse v (10 ^ p) = Inr atoms"
proof -
  obtain f where f: "Decimal_Format atoms (10 ^ p) = Inr (decimal_string (show_nat (nat (atoms div 10 ^ p))) f)"
    "list_all is_digit f" "length f \<le> p" "int (read_nat f * 10 ^ (p - length f)) = atoms mod 10 ^ p"
    using Decimal_Format_spec [OF assms(1)] by blast
  have "int (read_nat (show_nat (nat (atoms div 10 ^ p)))) * 10 ^ p + int (read_nat f * 10 ^ (p - length f)) = atoms"
    unfolding f(4) using assms(1) div_mult_mod_eq [of atoms "10 ^ p"] by (simp add: pos_imp_zdiv_nonneg_iff)
  with Decimal_Parse_parts [OF assms(3) digitsOnly_show_nat f(2,3)] assms(2) f(1) show ?thesis by (simp add: Let_def)
qed

section \<open>Properties\<close>

text \<open>C36 Formatting and parsing are inverse: every non-negative amount prints, in a form without
  trailing zeros, to a string that parses to it.\<close>

theorem decimal_roundtrip:
  assumes "scale = 10 ^ p" "scale \<le> MaxInt64" "0 \<le> atoms" "atoms \<le> MaxInt64"
  shows "\<exists>v. Decimal_Format atoms scale = Inr v \<and> Decimal_Parse v scale = Inr atoms"
  using Decimal_roundtrip assms by simp

theorem decimal_roundtrip_witness:
  "\<exists>v. Decimal_Format 123450000 100000000 = Inr v \<and> Decimal_Parse v 100000000 = Inr 123450000"
  by (rule decimal_roundtrip [where p = 8]) (simp_all add: MaxInt64_def)

text \<open>Parsing is exact and rejects everything else: a string is accepted if and only if it is digits,
  optionally followed by a point and at most as many digits as the scale has zeros, and its
  value in atoms fits 64 bits; the result is that value, without rounding.\<close>

theorem decimal_parse_exact:
  assumes "scale = 10 ^ p" "scale \<le> MaxInt64"
  shows "Decimal_Parse v scale = Inr a \<longleftrightarrow>
    (\<exists>w f. digitsOnly w \<and> list_all is_digit f \<and> length f \<le> p \<and> v = decimal_string w f \<and>
       a = int (read_nat w) * 10 ^ p + int (read_nat f * 10 ^ (p - length f)) \<and> a \<le> MaxInt64)"
  using Decimal_Parse_iff assms by simp

theorem decimal_parse_exact_witness:
  "Decimal_Parse ''1.5'' 100 = Inr 150 \<and> (\<forall>a. Decimal_Parse ''1.555'' 100 \<noteq> Inr a)"
proof -
  have "Decimal_Parse ''1.5'' 100 = Inr 150"
  proof (subst decimal_parse_exact [where p = 2])
    show "\<exists>w f. digitsOnly w \<and> list_all is_digit f \<and> length f \<le> 2 \<and> ''1.5'' = decimal_string w f \<and>
      150 = int (read_nat w) * 10 ^ 2 + int (read_nat f * 10 ^ (2 - length f)) \<and> (150 :: int) \<le> MaxInt64"
      by (rule exI [of _ "''1''"], rule exI [of _ "''5''"])
        (simp add: digitsOnly_def is_digit_def decimal_string_def read_nat_def digit_val_def MaxInt64_def)
  qed (simp_all add: MaxInt64_def)
  moreover have "Decimal_Parse ''1.555'' 100 = Inl ErrInvalidDecimal"
    by (simp add: Decimal_Parse_def scalePrecision_iff [of 100 2, simplified] Let_def spaced_def is_space_def
        digitsOnly_def is_digit_def)
  ultimately show ?thesis by simp
qed

end
