(* ===== verification/Recovery.thy ===== *)
theory Recovery
  imports Decimal
begin

text \<open>
  The package \<open>trading/recovery\<close>: the coordinator that decides when a market accepts writes after a
  start (\<open>coordinator.go\<close>), and its in-memory store (\<open>memory_store.go\<close>).

  \<^item> A coordinator is the pair of the durable store's state and its own fields (the record
    \<open>Coordinator\<close>); an operation returns the pair after it and its result. The mutex makes an
    operation on the fields atomic.
  \<^item> The clock and the source of epoch identifiers are arguments of the operations that read
    them; an instant is a number of nanoseconds, 0 the zero time, and a difference saturates
    at the range of \<open>time.Duration\<close>.
  \<^item> \<open>net/url\<close> is the argument \<open>u\<close> of type \<open>UrlLib\<close>; \<open>msg\<close> is the method \<open>Error\<close> of errors.
\<close>

section \<open>Data\<close>

datatype Phase = PhaseBootstrap | PhaseDependenciesReady | PhaseTradingReplay | PhaseReconciling
  | PhaseReadOnly | PhaseTransportWarmup | PhaseWritable | PhaseOffline | PhaseManualReview
  | PhaseOther string

record Proof =
  pfRuntimeSequence :: nat
  pfStateHash :: string
  pfLedgerBalanced :: bool
  pfEventContinuous :: bool
  pfProjectionCaughtUp :: bool
  pfOutboxCaughtUp :: bool
  pfTransportHealthy :: bool

definition zeroProof :: Proof where
  "zeroProof = \<lparr> pfRuntimeSequence = 0, pfStateHash = [], pfLedgerBalanced = False, pfEventContinuous = False,
     pfProjectionCaughtUp = False, pfOutboxCaughtUp = False, pfTransportHealthy = False \<rparr>"

record Provenance =
  pvProductionOrigin :: string
  pvDeploymentID :: string
  pvDeploymentURL :: string
  pvReleaseCommit :: string
  pvSourceDigest :: string

definition zeroProvenance :: Provenance where
  "zeroProvenance = \<lparr> pvProductionOrigin = [], pvDeploymentID = [], pvDeploymentURL = [],
     pvReleaseCommit = [], pvSourceDigest = [] \<rparr>"

record Binding =
  bdMarketID :: MarketID
  bdEpochID :: string
  bdVersion :: nat
  bdRuntimeSequence :: nat
  bdStateHash :: string
  bdProvenance :: Provenance

type_synonym instant = int

record TransportEvidence =
  teSampleCount :: int
  teFirstSampleAt :: instant
  teLastSampleAt :: instant
  teMaximumGapMS :: int
  teEvidenceSHA256 :: string
  teProvenance :: Provenance

definition zeroEvidence :: TransportEvidence where
  "zeroEvidence = \<lparr> teSampleCount = 0, teFirstSampleAt = 0, teLastSampleAt = 0, teMaximumGapMS = 0,
     teEvidenceSHA256 = [], teProvenance = zeroProvenance \<rparr>"

datatype AdmissionMode = AdmissionNormal | AdmissionSafetyCancel | AdmissionBootstrap | AdmissionOther string

record Admission =
  adMarketID :: MarketID
  adEpochID :: string
  adVersion :: nat
  adPhase :: Phase
  adMode :: AdmissionMode
  adAccountID :: AccountID

record Status =
  rsSchemaVersion :: nat
  rsMarketID :: MarketID
  rsEpochID :: string
  rsPhase :: Phase
  rsProof :: Proof
  rsTransport :: TransportEvidence
  rsProvenance :: Provenance
  rsWritesEnabled :: bool
  rsLastError :: string
  rsVersion :: nat
  rsStartedAt :: instant
  rsUpdatedAt :: instant
  rsContinuityUncertain :: bool
  rsContinuityError :: string

definition SchemaVersion :: nat where "SchemaVersion = 2"
definition MinimumTransportSamples :: int where "MinimumTransportSamples = 7"
definition MinimumTransportWindow :: int where "MinimumTransportWindow = 30 * 1000000000"
definition MaximumTransportGap :: int where "MaximumTransportGap = 8 * 1000000000"

text \<open>The interface \<open>Store\<close>.\<close>

record 's RecoveryStore =
  stLoad :: "error option \<Rightarrow> MarketID \<Rightarrow> 's \<Rightarrow> Status option res"
  stSave :: "error option \<Rightarrow> nat \<Rightarrow> Status \<Rightarrow> 's \<Rightarrow> 's \<times> unit res"

record Coordinator =
  coMarketID :: MarketID
  coLastObservedEpoch :: string
  coContinuityEpoch :: string
  coContinuityUncertain :: bool
  coContinuityError :: string
  coExpectedProvenance :: Provenance

text \<open>What the source uses of \<open>net/url\<close>: parsing, printing, and the fields of the result;
  \<open>urRest\<close> stands for the fields that are not named.\<close>

record Url =
  urScheme :: string
  urHost :: string
  urHostname :: string
  urPort :: string
  urUser :: bool
  urPath :: string
  urRawQuery :: string
  urFragment :: string
  urRest :: string

record UrlLib =
  ulParse :: "string \<Rightarrow> Url option"
  ulString :: "Url \<Rightarrow> string"

section \<open>Provenance, proofs and evidence\<close>

definition is_hex :: "char \<Rightarrow> bool" where
  "is_hex c \<longleftrightarrow> is_digit c \<or> 97 \<le> (of_char c :: nat) \<and> (of_char c :: nat) \<le> 102 \<or>
     65 \<le> (of_char c :: nat) \<and> (of_char c :: nat) \<le> 70"

text \<open>The number of bytes that \<open>hex.DecodeString\<close> returns, or its error.\<close>

definition hex_decoded :: "string \<Rightarrow> nat option" where
  "hex_decoded s = (if even (length s) \<and> list_all is_hex s then Some (length s div 2) else None)"

definition is_alnum :: "char \<Rightarrow> bool" where
  "is_alnum c \<longleftrightarrow> is_digit c \<or> 97 \<le> (of_char c :: nat) \<and> (of_char c :: nat) \<le> 122 \<or>
     65 \<le> (of_char c :: nat) \<and> (of_char c :: nat) \<le> 90"

definition deploymentIdentifier :: "string \<Rightarrow> bool" where
  "deploymentIdentifier s \<longleftrightarrow>
     prefix ''dpl_'' s \<and> (let rest = drop 4 s in 8 \<le> length rest \<and> length rest \<le> 128 \<and> list_all is_alnum rest)"

definition TrimSlash :: "string \<Rightarrow> string" where
  "TrimSlash s = (if suffix ''/'' s then butlast s else s)"

definition validProvenance :: "UrlLib \<Rightarrow> Provenance \<Rightarrow> bool" where
  "validProvenance u value \<longleftrightarrow>
     (case ulParse u (pvProductionOrigin value) of
        None \<Rightarrow> False
      | Some p \<Rightarrow> urHost p \<noteq> [] \<and> \<not> urUser p \<and> urRawQuery p = [] \<and> urFragment p = [] \<and> urPath p = [] \<and>
          urScheme p = ''https'') \<and>
     (case ulParse u (pvDeploymentURL value) of
        None \<Rightarrow> False
      | Some d \<Rightarrow> urScheme d = ''https'' \<and> urHost d \<noteq> [] \<and> urPort d = [] \<and> \<not> urUser d \<and> urRawQuery d = [] \<and>
          urFragment d = [] \<and> urPath d = [] \<and> suffix ''.vercel.app'' (ToLower (urHostname d))) \<and>
     pvDeploymentURL value \<noteq> pvProductionOrigin value \<and> deploymentIdentifier (pvDeploymentID value) \<and>
     pvDeploymentURL value \<noteq> [] \<and> length (pvReleaseCommit value) = 40 \<and> length (pvSourceDigest value) = 64 \<and>
     hex_decoded (pvReleaseCommit value) = Some 20 \<and> hex_decoded (pvSourceDigest value) = Some 32"

definition NormalizeProvenance :: "UrlLib \<Rightarrow> Provenance \<Rightarrow> Provenance res" where
  "NormalizeProvenance u value =
     (case ulParse u (TrimSpace (pvProductionOrigin value)) of
        None \<Rightarrow> Inl (ErrPlain ''invalid recovery production origin'')
      | Some p \<Rightarrow>
          if urHost p = [] \<or> urUser p \<or> urRawQuery p \<noteq> [] \<or> urFragment p \<noteq> [] \<or>
             (urPath p \<noteq> [] \<and> urPath p \<noteq> ''/'')
          then Inl (ErrPlain ''invalid recovery production origin'')
          else if urScheme p \<noteq> ''https'' then Inl (ErrPlain ''recovery production origin must use HTTPS'')
          else
            (let value1 = value\<lparr> pvProductionOrigin := TrimSlash (ulString u (p\<lparr> urPath := [] \<rparr>)),
                                 pvDeploymentID := TrimSpace (pvDeploymentID value) \<rparr>
             in case ulParse u (TrimSpace (pvDeploymentURL value)) of
                  None \<Rightarrow> Inl (ErrPlain ''recovery deployment URL must be an HTTPS vercel.app origin'')
                | Some d \<Rightarrow>
                    if urScheme d \<noteq> ''https'' \<or> \<not> suffix ''.vercel.app'' (ToLower (urHostname d)) \<or> urUser d \<or>
                       urRawQuery d \<noteq> [] \<or> urFragment d \<noteq> [] \<or> (urPath d \<noteq> [] \<and> urPath d \<noteq> ''/'')
                    then Inl (ErrPlain ''recovery deployment URL must be an HTTPS vercel.app origin'')
                    else
                      (let value2 = value1\<lparr> pvDeploymentURL := TrimSlash (ulString u (d\<lparr> urPath := [] \<rparr>)) \<rparr>
                       in if pvDeploymentURL value2 = pvProductionOrigin value2
                          then Inl (ErrPlain ''immutable deployment URL must differ from production origin'')
                          else
                            (let value3 = value2\<lparr> pvReleaseCommit := ToLower (TrimSpace (pvReleaseCommit value)),
                                                  pvSourceDigest := ToLower (TrimSpace (pvSourceDigest value)) \<rparr>
                             in if \<not> validProvenance u value3
                                then Inl (ErrPlain ''invalid recovery deployment provenance'')
                                else Inr value3))))"

definition time_sub :: "instant \<Rightarrow> instant \<Rightarrow> int" where
  "time_sub a b = max MinInt64 (min MaxInt64 (a - b))"

definition validTransportEvidence :: "UrlLib \<Rightarrow> TransportEvidence \<Rightarrow> Provenance \<Rightarrow> instant \<Rightarrow> bool" where
  "validTransportEvidence u evidence expected now \<longleftrightarrow>
     \<not> (teSampleCount evidence < MinimumTransportSamples \<or>
        teProvenance evidence \<noteq> expected \<or> \<not> validProvenance u (teProvenance evidence) \<or>
        teFirstSampleAt evidence = 0 \<or>
        teLastSampleAt evidence < teFirstSampleAt evidence \<or>
        teMaximumGapMS evidence \<le> 0 \<or>
        teMaximumGapMS evidence > MaximumTransportGap div 1000000 \<or>
        teLastSampleAt evidence > now + 1000000000 \<or>
        time_sub now (teLastSampleAt evidence) > MaximumTransportGap) \<and>
     hex_decoded (teEvidenceSHA256 evidence) = Some 32 \<and>
     (let span = time_sub (teLastSampleAt evidence) (teFirstSampleAt evidence);
          maximumGap = teMaximumGapMS evidence * 1000000;
          requiredIntervals = span div maximumGap + (if span mod maximumGap \<noteq> 0 then 1 else 0)
      in span \<ge> MinimumTransportWindow \<and> requiredIntervals \<le> teSampleCount evidence - 1)"

definition localProofComplete :: "Proof \<Rightarrow> bool" where
  "localProofComplete proof' \<longleftrightarrow>
     length (pfStateHash proof') = 64 \<and> pfLedgerBalanced proof' \<and> pfEventContinuous proof' \<and>
     pfProjectionCaughtUp proof' \<and> pfOutboxCaughtUp proof'"

definition requiresLocalProof :: "Phase \<Rightarrow> bool" where
  "requiresLocalProof phase \<longleftrightarrow> phase = PhaseReadOnly \<or> phase = PhaseTransportWarmup \<or> phase = PhaseWritable"

definition mergeProof :: "Proof \<Rightarrow> Proof \<Rightarrow> Proof" where
  "mergeProof current update =
     \<lparr> pfRuntimeSequence = (if pfRuntimeSequence update \<noteq> 0 \<or> pfRuntimeSequence current = 0
                             then pfRuntimeSequence update else pfRuntimeSequence current),
       pfStateHash = (if pfStateHash update \<noteq> [] then pfStateHash update else pfStateHash current),
       pfLedgerBalanced = (pfLedgerBalanced current \<or> pfLedgerBalanced update),
       pfEventContinuous = (pfEventContinuous current \<or> pfEventContinuous update),
       pfProjectionCaughtUp = (pfProjectionCaughtUp current \<or> pfProjectionCaughtUp update),
       pfOutboxCaughtUp = (pfOutboxCaughtUp current \<or> pfOutboxCaughtUp update),
       pfTransportHealthy = pfTransportHealthy update \<rparr>"

fun allowedTransition :: "Phase \<Rightarrow> Phase \<Rightarrow> bool" where
  "allowedTransition current nextPhase =
     (if nextPhase = PhaseOffline \<or> nextPhase = PhaseManualReview
      then current \<noteq> PhaseOffline \<and> current \<noteq> PhaseManualReview
      else case current of
             PhaseBootstrap \<Rightarrow> nextPhase = PhaseDependenciesReady
           | PhaseDependenciesReady \<Rightarrow> nextPhase = PhaseTradingReplay
           | PhaseTradingReplay \<Rightarrow> nextPhase = PhaseReconciling
           | PhaseReconciling \<Rightarrow> nextPhase = PhaseReadOnly
           | PhaseReadOnly \<Rightarrow> nextPhase = PhaseTransportWarmup
           | _ \<Rightarrow> False)"

definition matchesBinding :: "UrlLib \<Rightarrow> Status \<Rightarrow> Binding \<Rightarrow> bool" where
  "matchesBinding u status binding \<longleftrightarrow>
     bdMarketID binding = rsMarketID status \<and>
     bdEpochID binding \<noteq> [] \<and> bdEpochID binding = rsEpochID status \<and>
     bdVersion binding = rsVersion status \<and>
     bdRuntimeSequence binding = pfRuntimeSequence (rsProof status) \<and>
     length (bdStateHash binding) = 64 \<and> bdStateHash binding = pfStateHash (rsProof status) \<and>
     bdProvenance binding = rsProvenance status \<and> validProvenance u (bdProvenance binding)"

section \<open>Continuity\<close>

definition markContinuityUncertain :: "string \<Rightarrow> Coordinator \<Rightarrow> Coordinator" where
  "markContinuityUncertain cause c =
     (if coContinuityUncertain c then c
      else c\<lparr> coContinuityUncertain := True, coContinuityEpoch := coLastObservedEpoch c,
              coContinuityError := cause \<rparr>)"

definition observeEpoch :: "string \<Rightarrow> Coordinator \<Rightarrow> Coordinator" where
  "observeEpoch epochID c =
     (let c1 = c\<lparr> coLastObservedEpoch := epochID \<rparr> in
      if coContinuityUncertain c1 \<and> coContinuityEpoch c1 \<noteq> [] \<and> coContinuityEpoch c1 \<noteq> epochID
      then c1\<lparr> coContinuityUncertain := False, coContinuityEpoch := [], coContinuityError := [] \<rparr>
      else c1)"

definition observeNewEpoch :: "string \<Rightarrow> Coordinator \<Rightarrow> Coordinator" where
  "observeNewEpoch epochID c =
     c\<lparr> coLastObservedEpoch := epochID, coContinuityUncertain := False, coContinuityEpoch := [],
        coContinuityError := [] \<rparr>"

definition provenance_error :: string where
  "provenance_error = ''durable recovery provenance does not match trusted service configuration''"

definition continuity_error :: string where
  "continuity_error = ''recovery store continuity is uncertain; a new epoch is required''"

definition effectiveStatus :: "UrlLib \<Rightarrow> Coordinator \<Rightarrow> Status \<Rightarrow> Status" where
  "effectiveStatus u c current =
     (if validProvenance u (coExpectedProvenance c) \<and> rsProvenance current \<noteq> coExpectedProvenance c
      then current\<lparr> rsWritesEnabled := False,
                    rsProof := (rsProof current)\<lparr> pfTransportHealthy := False \<rparr>,
                    rsContinuityUncertain := True, rsContinuityError := provenance_error,
                    rsLastError := (if rsLastError current = [] then provenance_error else rsLastError current) \<rparr>
      else if \<not> coContinuityUncertain c \<or> (coContinuityEpoch c \<noteq> [] \<and> coContinuityEpoch c \<noteq> rsEpochID current)
      then current
      else current\<lparr> rsWritesEnabled := False,
                    rsProof := (rsProof current)\<lparr> pfTransportHealthy := False \<rparr>,
                    rsContinuityUncertain := True, rsContinuityError := coContinuityError c,
                    rsLastError := (if rsLastError current = [] then continuity_error else rsLastError current) \<rparr>)"

section \<open>Operations\<close>

record 's RecoveryEnv =
  reStore :: "'s RecoveryStore"
  reUrls :: UrlLib
  reMessage :: "error \<Rightarrow> string"

type_synonym 's coordinator = "'s \<times> Coordinator"

definition NewCoordinator :: "UrlLib \<Rightarrow> 's RecoveryStore option \<Rightarrow> MarketID \<Rightarrow> Provenance list \<Rightarrow> Coordinator res" where
  "NewCoordinator u store marketID expected =
     (if store = None \<or> marketID = [] then Inl (ErrPlain ''recovery store and market id are required'')
      else if length expected > 1 then Inl (ErrPlain ''at most one recovery provenance is supported'')
      else bindE (case expected of [] \<Rightarrow> Inr zeroProvenance | value # _ \<Rightarrow> NormalizeProvenance u value) (\<lambda>provenance.
        Inr \<lparr> coMarketID = marketID, coLastObservedEpoch = [], coContinuityEpoch = [],
              coContinuityUncertain = False, coContinuityError = [], coExpectedProvenance = provenance \<rparr>))"

definition initial_status :: "MarketID \<Rightarrow> string \<Rightarrow> nat \<Rightarrow> instant \<Rightarrow> Provenance \<Rightarrow> Status" where
  "initial_status marketID epochID version now provenance =
     \<lparr> rsSchemaVersion = SchemaVersion, rsMarketID = marketID, rsEpochID = epochID, rsPhase = PhaseBootstrap,
       rsProof = zeroProof, rsTransport = zeroEvidence, rsProvenance = provenance, rsWritesEnabled = False,
       rsLastError = [], rsVersion = version, rsStartedAt = now, rsUpdatedAt = now,
       rsContinuityUncertain = False, rsContinuityError = [] \<rparr>"

definition Begin ::
  "'s RecoveryEnv \<Rightarrow> error option \<Rightarrow> string res \<Rightarrow> instant \<Rightarrow> 's coordinator \<Rightarrow> 's coordinator \<times> Status res" where
  "Begin env ctx newID now x =
     (let (st, c) = x in
      if \<not> validProvenance (reUrls env) (coExpectedProvenance c) then (x, Inl ErrProofIncomplete)
      else case stLoad (reStore env) ctx (coMarketID c) st of
        Inl err \<Rightarrow> ((st, markContinuityUncertain (reMessage env err) c), Inl err)
      | Inr found \<Rightarrow>
          (let c1 = (case found of None \<Rightarrow> c | Some current \<Rightarrow> observeEpoch (rsEpochID current) c);
               expected = (case found of None \<Rightarrow> 0 | Some current \<Rightarrow> rsVersion current)
           in case newID of
                Inl err \<Rightarrow> ((st, c1), Inl err)
              | Inr epochID \<Rightarrow>
                  (let nxt = initial_status (coMarketID c) epochID (expected + 1) now (coExpectedProvenance c) in
                   case stSave (reStore env) ctx expected nxt st of
                     (st', Inl err) \<Rightarrow> ((st', markContinuityUncertain (reMessage env err) c1), Inl err)
                   | (st', Inr _) \<Rightarrow> ((st', observeNewEpoch epochID c1), Inr nxt))))"

definition Coordinator_Status ::
  "'s RecoveryEnv \<Rightarrow> error option \<Rightarrow> 's coordinator \<Rightarrow> 's coordinator \<times> Status res" where
  "Coordinator_Status env ctx x =
     (let (st, c) = x in
      case stLoad (reStore env) ctx (coMarketID c) st of
        Inl err \<Rightarrow> ((st, markContinuityUncertain (reMessage env err) c), Inl err)
      | Inr None \<Rightarrow> (x, Inl ErrNotInitialized)
      | Inr (Some current) \<Rightarrow>
          (let c1 = observeEpoch (rsEpochID current) c
           in ((st, c1), Inr (effectiveStatus (reUrls env) c1 current))))"

text \<open>Saving the next status, as \<open>Advance\<close>, \<open>Promote\<close> and \<open>Fail\<close> do at their end.\<close>

definition save_next ::
  "'s RecoveryEnv \<Rightarrow> error option \<Rightarrow> nat \<Rightarrow> Status \<Rightarrow> 's coordinator \<Rightarrow> 's coordinator \<times> Status res" where
  "save_next env ctx expected nxt x =
     (let (st, c) = x in
      case stSave (reStore env) ctx expected nxt st of
        (st', Inl err) \<Rightarrow> ((st', markContinuityUncertain (reMessage env err) c), Inl err)
      | (st', Inr _) \<Rightarrow> ((st', c), Inr nxt))"

definition Advance ::
  "'s RecoveryEnv \<Rightarrow> error option \<Rightarrow> instant \<Rightarrow> Phase \<Rightarrow> Proof \<Rightarrow> 's coordinator \<Rightarrow> 's coordinator \<times> Status res" where
  "Advance env ctx now nextPhase update x =
     (if nextPhase = PhaseWritable then (x, Inl ErrInvalidTransition)
      else case Coordinator_Status env ctx x of
        (x1, Inl err) \<Rightarrow> (x1, Inl err)
      | (x1, Inr current) \<Rightarrow>
          if rsContinuityUncertain current then (x1, Inl ErrWriteBlocked)
          else if \<not> allowedTransition (rsPhase current) nextPhase then (x1, Inl ErrInvalidTransition)
          else
            (let merged = mergeProof (rsProof current) update in
             if requiresLocalProof nextPhase \<and> \<not> localProofComplete merged then (x1, Inl ErrProofIncomplete)
             else save_next env ctx (rsVersion current)
                    (current\<lparr> rsPhase := nextPhase, rsProof := merged,
                              rsWritesEnabled := (nextPhase = PhaseWritable), rsLastError := [],
                              rsVersion := rsVersion current + 1, rsUpdatedAt := now \<rparr>) x1))"

definition Promote ::
  "'s RecoveryEnv \<Rightarrow> error option \<Rightarrow> instant \<Rightarrow> instant \<Rightarrow> Binding \<Rightarrow> TransportEvidence \<Rightarrow> 's coordinator
     \<Rightarrow> 's coordinator \<times> Status res" where
  "Promote env ctx now later binding evidence x =
     (case Coordinator_Status env ctx x of
        (x1, Inl err) \<Rightarrow> (x1, Inl err)
      | (x1, Inr current) \<Rightarrow>
          if rsContinuityUncertain current then (x1, Inl ErrWriteBlocked)
          else if rsPhase current \<noteq> PhaseTransportWarmup \<or> \<not> matchesBinding (reUrls env) current binding
          then (x1, Inl ErrBindingMismatch)
          else if \<not> localProofComplete (rsProof current) \<or>
                  \<not> validTransportEvidence (reUrls env) evidence (rsProvenance current) now
          then (x1, Inl ErrTransportEvidence)
          else save_next env ctx (rsVersion current)
                 (current\<lparr> rsPhase := PhaseWritable,
                           rsProof := (rsProof current)\<lparr> pfTransportHealthy := True \<rparr>,
                           rsTransport := evidence, rsWritesEnabled := True, rsLastError := [],
                           rsVersion := rsVersion current + 1, rsUpdatedAt := later \<rparr>) x1)"

definition Coordinator_Fail ::
  "'s RecoveryEnv \<Rightarrow> error option \<Rightarrow> instant \<Rightarrow> Phase \<Rightarrow> error option \<Rightarrow> 's coordinator
     \<Rightarrow> 's coordinator \<times> Status res" where
  "Coordinator_Fail env ctx now phase cause x =
     (if phase \<noteq> PhaseOffline \<and> phase \<noteq> PhaseManualReview then (x, Inl ErrInvalidTransition)
      else case Coordinator_Status env ctx x of
        (x1, Inl err) \<Rightarrow> (x1, Inl err)
      | (x1, Inr current) \<Rightarrow>
          save_next env ctx (rsVersion current)
            (current\<lparr> rsPhase := phase, rsWritesEnabled := False, rsVersion := rsVersion current + 1,
                      rsUpdatedAt := now,
                      rsLastError := (case cause of None \<Rightarrow> rsLastError current | Some e \<Rightarrow> reMessage env e) \<rparr>) x1)"

definition writable :: "UrlLib \<Rightarrow> Status \<Rightarrow> bool" where
  "writable u current \<longleftrightarrow>
     rsPhase current = PhaseWritable \<and> rsWritesEnabled current \<and> localProofComplete (rsProof current) \<and>
     pfTransportHealthy (rsProof current) \<and> validProvenance u (rsProvenance current)"

definition RequireWritable ::
  "'s RecoveryEnv \<Rightarrow> error option \<Rightarrow> 's coordinator \<Rightarrow> 's coordinator \<times> unit res" where
  "RequireWritable env ctx x =
     (case Coordinator_Status env ctx x of
        (x1, Inl err) \<Rightarrow> (x1, Inl (ErrJoin ErrWriteBlocked err))
      | (x1, Inr current) \<Rightarrow> (x1, if \<not> writable (reUrls env) current then Inl ErrWriteBlocked else Inr ()))"

definition demo_maker :: AccountID where "demo_maker = ''system:demo-maker''"

definition authorize :: "UrlLib \<Rightarrow> Status \<Rightarrow> AdmissionMode \<Rightarrow> AccountID \<Rightarrow> unit res" where
  "authorize u current mode accountID =
     (if rsContinuityUncertain current then Inl ErrWriteBlocked
      else case mode of
        AdmissionNormal \<Rightarrow> if writable u current then Inr () else Inl ErrWriteBlocked
      | AdmissionSafetyCancel \<Rightarrow>
          if accountID = demo_maker \<and>
             rsPhase current \<in> {PhaseTradingReplay, PhaseWritable, PhaseOffline, PhaseManualReview}
          then Inr () else Inl ErrWriteBlocked
      | AdmissionBootstrap \<Rightarrow>
          if accountID = demo_maker \<and> rsPhase current = PhaseTradingReplay \<and> \<not> rsWritesEnabled current
          then Inr () else Inl ErrWriteBlocked
      | AdmissionOther _ \<Rightarrow> Inl ErrWriteBlocked)"

definition Admit ::
  "'s RecoveryEnv \<Rightarrow> error option \<Rightarrow> AdmissionMode \<Rightarrow> AccountID \<Rightarrow> 's coordinator \<Rightarrow> 's coordinator \<times> Admission res" where
  "Admit env ctx mode accountID x =
     (case Coordinator_Status env ctx x of
        (x1, Inl err) \<Rightarrow> (x1, Inl (ErrJoin ErrWriteBlocked err))
      | (x1, Inr current) \<Rightarrow>
          (x1, bindE (authorize (reUrls env) current mode accountID) (\<lambda>_.
             Inr \<lparr> adMarketID = coMarketID (snd x), adEpochID = rsEpochID current, adVersion = rsVersion current,
                   adPhase = rsPhase current, adMode = mode, adAccountID = accountID \<rparr>)))"

definition ValidateAdmission ::
  "'s RecoveryEnv \<Rightarrow> error option \<Rightarrow> Admission \<Rightarrow> 's coordinator \<Rightarrow> 's coordinator \<times> unit res" where
  "ValidateAdmission env ctx admission x =
     (case Coordinator_Status env ctx x of
        (x1, Inl err) \<Rightarrow> (x1, Inl (ErrJoin ErrWriteBlocked err))
      | (x1, Inr current) \<Rightarrow>
          (x1, if adMarketID admission \<noteq> rsMarketID current \<or> adEpochID admission = [] \<or>
                  adEpochID admission \<noteq> rsEpochID current \<or> adVersion admission \<noteq> rsVersion current \<or>
                  adPhase admission \<noteq> rsPhase current
               then Inl ErrWriteBlocked
               else authorize (reUrls env) current (adMode admission) (adAccountID admission)))"

definition AuthorizeSafetyCancel ::
  "'s RecoveryEnv \<Rightarrow> error option \<Rightarrow> AccountID \<Rightarrow> 's coordinator \<Rightarrow> 's coordinator \<times> unit res" where
  "AuthorizeSafetyCancel env ctx accountID x =
     (let (x1, r) = Admit env ctx AdmissionSafetyCancel accountID x in (x1, bindE r (\<lambda>_. Inr ())))"

definition AuthorizeBootstrapFund ::
  "'s RecoveryEnv \<Rightarrow> error option \<Rightarrow> AccountID \<Rightarrow> 's coordinator \<Rightarrow> 's coordinator \<times> unit res" where
  "AuthorizeBootstrapFund env ctx accountID x =
     (let (x1, r) = Admit env ctx AdmissionBootstrap accountID x in (x1, bindE r (\<lambda>_. Inr ())))"

section \<open>The in-memory store\<close>

record MemoryStore =
  msCurrent :: "(MarketID, Status) fmap"
  msHistory :: "(MarketID, Status list) fmap"

definition NewMemoryStore :: MemoryStore where
  "NewMemoryStore = \<lparr> msCurrent = fmempty, msHistory = fmempty \<rparr>"

definition MemoryStore_Load :: "error option \<Rightarrow> MarketID \<Rightarrow> MemoryStore \<Rightarrow> Status option res" where
  "MemoryStore_Load ctx marketID s = Inr (fmlookup (msCurrent s) marketID)"

definition MemoryStore_Save :: "error option \<Rightarrow> nat \<Rightarrow> Status \<Rightarrow> MemoryStore \<Rightarrow> MemoryStore \<times> unit res" where
  "MemoryStore_Save ctx expectedVersion nxt s =
     (if (case fmlookup (msCurrent s) (rsMarketID nxt) of
            None \<Rightarrow> expectedVersion \<noteq> 0
          | Some current \<Rightarrow> rsVersion current \<noteq> expectedVersion)
      then (s, Inl ErrVersionConflict)
      else if rsVersion nxt \<noteq> expectedVersion + 1 then (s, Inl ErrVersionConflict)
      else (s\<lparr> msCurrent := fmupd (rsMarketID nxt) nxt (msCurrent s),
               msHistory := fmupd (rsMarketID nxt) (fmget [] (msHistory s) (rsMarketID nxt) @ [nxt]) (msHistory s) \<rparr>,
            Inr ()))"

definition MemoryStore_History :: "MarketID \<Rightarrow> MemoryStore \<Rightarrow> Status list" where
  "MemoryStore_History marketID s = fmget [] (msHistory s) marketID"

definition Memory_RecoveryStore :: "MemoryStore RecoveryStore" where
  "Memory_RecoveryStore = \<lparr> stLoad = MemoryStore_Load, stSave = MemoryStore_Save \<rparr>"

end
