(* ===== verification/Recovery_Invariant.thy ===== *)
theory Recovery_Invariant
  imports Recovery
begin

text \<open>
  Correctness of the recovery coordinator. The locale \<open>recovery_store\<close> is the contract of the
  durable store; inside it every operation of any coordinator moves a market's row only along
  \<open>legal_next\<close>, the abstract state machine of recovery, from which the invariant \<open>row_ok\<close>, the
  dequeue fence and the fail-closed behaviour follow. The in-memory store interprets it and keeps
  a legal history.
\<close>

section \<open>The contract of the store\<close>

text \<open>
  \<open>row m s\<close> is the durable row of a market. Saving is a compare-and-swap on the version of the
  row. An error of \<open>Save\<close> may hide a commit, as a lost acknowledgement does; that is what the
  continuity fields of the coordinator are for.
\<close>

definition row_version :: "Status option \<Rightarrow> nat" where
  "row_version r = (case r of None \<Rightarrow> 0 | Some status \<Rightarrow> rsVersion status)"

lemma row_version_simps [simp]: "row_version None = 0" "row_version (Some r) = rsVersion r"
  by (simp_all add: row_version_def)

locale recovery_store =
  fixes store :: "'s RecoveryStore" and row :: "MarketID \<Rightarrow> 's \<Rightarrow> Status option"
  assumes load: "stLoad store ctx m s = Inr r \<Longrightarrow> r = row m s"
    and save: "stSave store ctx n nxt s = (s', res) \<Longrightarrow>
      s' = s \<and> res \<noteq> Inr () \<or>
      (n = row_version (row (rsMarketID nxt) s) \<and> rsVersion nxt = n + 1 \<and>
       row (rsMarketID nxt) s' = Some nxt \<and> (\<forall>m. m \<noteq> rsMarketID nxt \<longrightarrow> row m s' = row m s))"

interpretation ms: recovery_store Memory_RecoveryStore "\<lambda>m s. fmlookup (msCurrent s) m"
proof
  show "stLoad Memory_RecoveryStore ctx m s = Inr r \<Longrightarrow> r = fmlookup (msCurrent s) m" for ctx m s r
    by (simp add: Memory_RecoveryStore_def MemoryStore_Load_def)
  show "stSave Memory_RecoveryStore ctx n nxt s = (s', res) \<Longrightarrow>
      s' = s \<and> res \<noteq> Inr () \<or>
      (n = row_version (fmlookup (msCurrent s) (rsMarketID nxt)) \<and> rsVersion nxt = n + 1 \<and>
       fmlookup (msCurrent s') (rsMarketID nxt) = Some nxt \<and>
       (\<forall>m. m \<noteq> rsMarketID nxt \<longrightarrow> fmlookup (msCurrent s') m = fmlookup (msCurrent s) m))"
    for ctx n nxt s s' res
    by (auto simp: Memory_RecoveryStore_def MemoryStore_Save_def row_version_def split: if_splits option.splits)
qed

section \<open>Legal histories of a market's row\<close>

definition legal_begin :: "UrlLib \<Rightarrow> Status \<Rightarrow> bool" where
  "legal_begin u new \<longleftrightarrow> rsPhase new = PhaseBootstrap \<and> \<not> rsWritesEnabled new \<and> validProvenance u (rsProvenance new)"

definition legal_advance :: "Status \<Rightarrow> Status \<Rightarrow> bool" where
  "legal_advance old new \<longleftrightarrow>
     rsPhase new \<noteq> PhaseWritable \<and> allowedTransition (rsPhase old) (rsPhase new) \<and> \<not> rsWritesEnabled new \<and>
     (requiresLocalProof (rsPhase new) \<longrightarrow> localProofComplete (rsProof new))"

definition legal_promote :: "UrlLib \<Rightarrow> Status \<Rightarrow> Status \<Rightarrow> bool" where
  "legal_promote u old new \<longleftrightarrow>
     rsPhase old = PhaseTransportWarmup \<and> rsPhase new = PhaseWritable \<and> rsWritesEnabled new \<and>
     localProofComplete (rsProof new) \<and> pfTransportHealthy (rsProof new) \<and>
     (\<exists>now. validTransportEvidence u (rsTransport new) (rsProvenance new) now)"

definition legal_fail :: "Status \<Rightarrow> bool" where
  "legal_fail new \<longleftrightarrow> (rsPhase new = PhaseOffline \<or> rsPhase new = PhaseManualReview) \<and> \<not> rsWritesEnabled new"

definition legal_next :: "UrlLib \<Rightarrow> Status option \<Rightarrow> Status \<Rightarrow> bool" where
  "legal_next u old new \<longleftrightarrow>
     rsVersion new = row_version old + 1 \<and>
     (legal_begin u new \<or>
      (\<exists>r. old = Some r \<and> rsEpochID new = rsEpochID r \<and> rsProvenance new = rsProvenance r \<and>
         (legal_advance r new \<or> legal_promote u r new \<or> legal_fail new)))"

definition row_ok :: "UrlLib \<Rightarrow> Status \<Rightarrow> bool" where
  "row_ok u r \<longleftrightarrow>
     (rsWritesEnabled r \<longleftrightarrow> rsPhase r = PhaseWritable) \<and> validProvenance u (rsProvenance r) \<and>
     (requiresLocalProof (rsPhase r) \<longrightarrow> localProofComplete (rsProof r)) \<and>
     (rsPhase r = PhaseWritable \<longrightarrow>
        pfTransportHealthy (rsProof r) \<and> (\<exists>now. validTransportEvidence u (rsTransport r) (rsProvenance r) now))"

lemma legal_next_row_ok:
  assumes "legal_next u old new" "\<And>r. old = Some r \<Longrightarrow> row_ok u r"
  shows "row_ok u new"
proof -
  have n: "\<not> requiresLocalProof PhaseBootstrap" "\<not> requiresLocalProof PhaseOffline" "\<not> requiresLocalProof PhaseManualReview"
    by (simp_all add: requiresLocalProof_def)
  from assms(1) consider "legal_begin u new"
    | r where "old = Some r" "rsProvenance new = rsProvenance r" "legal_advance r new \<or> legal_fail new"
    | r where "old = Some r" "rsProvenance new = rsProvenance r" "legal_promote u r new"
    unfolding legal_next_def by blast
  then show ?thesis
  proof cases
    case 1
    then show ?thesis using n by (simp add: row_ok_def legal_begin_def)
  next
    case (2 r)
    have "validProvenance u (rsProvenance r)" using assms(2) [OF 2(1)] by (simp add: row_ok_def)
    with 2 n show ?thesis by (auto simp: row_ok_def legal_advance_def legal_fail_def)
  next
    case (3 r)
    have "validProvenance u (rsProvenance r)" using assms(2) [OF 3(1)] by (simp add: row_ok_def)
    with 3 show ?thesis by (simp add: row_ok_def legal_promote_def)
  qed
qed

section \<open>Steps\<close>

text \<open>A step is an operation of some coordinator of the store, whatever it has observed so far.\<close>

inductive recovery_step :: "'s RecoveryEnv \<Rightarrow> 's \<Rightarrow> 's \<Rightarrow> bool" for env :: "'s RecoveryEnv" where
  step_begin: "recovery_step env st (fst (fst (Begin env ctx newID now (st, c))))"
| step_advance: "recovery_step env st (fst (fst (Advance env ctx now phase update (st, c))))"
| step_promote: "recovery_step env st (fst (fst (Promote env ctx now later binding evidence (st, c))))"
| step_fail: "recovery_step env st (fst (fst (Coordinator_Fail env ctx now phase cause (st, c))))"

lemma effectiveStatus_simps [simp]:
  "rsMarketID (effectiveStatus u c r) = rsMarketID r" "rsEpochID (effectiveStatus u c r) = rsEpochID r"
  "rsVersion (effectiveStatus u c r) = rsVersion r" "rsPhase (effectiveStatus u c r) = rsPhase r"
  "rsProvenance (effectiveStatus u c r) = rsProvenance r" "rsTransport (effectiveStatus u c r) = rsTransport r"
  by (simp_all add: effectiveStatus_def)

lemma effectiveStatus_certain:
  "\<not> rsContinuityUncertain (effectiveStatus u c r) \<Longrightarrow> effectiveStatus u c r = r"
  by (auto simp: effectiveStatus_def split: if_splits)

lemma Coordinator_Status_store: "fst (fst (Coordinator_Status env ctx x)) = fst x"
  by (auto simp: Coordinator_Status_def Let_def split: prod.splits sum.splits option.splits)

definition rows_named :: "(MarketID \<Rightarrow> 's \<Rightarrow> Status option) \<Rightarrow> 's \<Rightarrow> bool" where
  "rows_named row st \<longleftrightarrow> (\<forall>m r. row m st = Some r \<longrightarrow> rsMarketID r = m)"

definition moved :: "UrlLib \<Rightarrow> (MarketID \<Rightarrow> 's \<Rightarrow> Status option) \<Rightarrow> 's \<Rightarrow> 's \<Rightarrow> bool" where
  "moved u row st st' \<longleftrightarrow> st' = st \<or>
     (\<exists>new. legal_next u (row (rsMarketID new) st) new \<and> row (rsMarketID new) st' = Some new \<and>
        (\<forall>m. m \<noteq> rsMarketID new \<longrightarrow> row m st' = row m st))"

lemma moved_refl [simp]: "moved u row st st"
  by (simp add: moved_def)

context recovery_store
begin

lemma save_moved:
  assumes "stSave store ctx n nxt st = (s', res)" "legal_next u (row (rsMarketID nxt) st) nxt"
  shows "moved u row st s'"
  using save [OF assms(1)] assms(2) unfolding moved_def by metis

lemma save_next_moved:
  assumes "reStore env = store" "legal_next u (row (rsMarketID nxt) st) nxt"
  shows "moved u row st (fst (fst (save_next env ctx n nxt (st, c))))"
proof -
  obtain s' res where s: "stSave store ctx n nxt st = (s', res)" by (cases "stSave store ctx n nxt st")
  then have "fst (fst (save_next env ctx n nxt (st, c))) = s'"
    using assms(1) by (auto simp: save_next_def split: sum.splits)
  with save_moved [OF s assms(2)] show ?thesis by simp
qed

lemma status_current:
  assumes "Coordinator_Status env ctx (st, c) = (x1, Inr current)" "reStore env = store" "rows_named row st"
  obtains r c1 where "row (coMarketID c) st = Some r" "x1 = (st, c1)" "current = effectiveStatus (reUrls env) c1 r"
    "rsMarketID r = coMarketID c" "c1 = observeEpoch (rsEpochID r) c"
proof -
  obtain r where r: "stLoad store ctx (coMarketID c) st = Inr (Some r)"
    "x1 = (st, observeEpoch (rsEpochID r) c)" "current = effectiveStatus (reUrls env) (observeEpoch (rsEpochID r) c) r"
    using assms(1,2) by (auto simp: Coordinator_Status_def Let_def split: sum.splits option.splits)
  from load [OF r(1)] have row: "row (coMarketID c) st = Some r" by simp
  with assms(3) have "rsMarketID r = coMarketID c" by (auto simp: rows_named_def)
  with r row that show ?thesis by blast
qed

text \<open>An operation that first reads the status and then goes on with \<open>f\<close>.\<close>

lemma guarded_moved:
  assumes "reStore env = store" "rows_named row st"
    and "\<And>r c1. row (coMarketID c) st = Some r \<Longrightarrow> rsMarketID r = coMarketID c \<Longrightarrow>
      moved u row st (fst (fst (f (st, c1) (effectiveStatus (reUrls env) c1 r))))"
  shows "moved u row st (fst (fst (case Coordinator_Status env ctx (st, c) of
      (x1, Inl err) \<Rightarrow> (x1, Inl err) | (x1, Inr current) \<Rightarrow> f x1 current)))"
proof -
  obtain x1 res where stat: "Coordinator_Status env ctx (st, c) = (x1, res)" by (cases "Coordinator_Status env ctx (st, c)")
  show ?thesis
  proof (cases res)
    case (Inl e)
    then show ?thesis using stat Coordinator_Status_store [of env ctx "(st, c)"] by simp
  next
    case (Inr current)
    from status_current [OF stat [unfolded Inr] assms(1,2)] assms(3) stat Inr show ?thesis by fastforce
  qed
qed

lemma Begin_moved:
  assumes "reStore env = store"
  shows "moved (reUrls env) row st (fst (fst (Begin env ctx newID now (st, c))))"
proof (cases "validProvenance (reUrls env) (coExpectedProvenance c) \<and>
    (\<exists>r e. stLoad store ctx (coMarketID c) st = Inr r \<and> newID = Inr e)")
  case False
  then have "fst (fst (Begin env ctx newID now (st, c))) = st"
    using assms by (auto simp: Begin_def Let_def split: sum.splits)
  then show ?thesis by simp
next
  case True
  then obtain r e where r: "stLoad store ctx (coMarketID c) st = Inr r" and e: "newID = Inr e" by blast
  let ?n = "initial_status (coMarketID c) e (row_version r + 1) now (coExpectedProvenance c)"
  obtain s' res where s: "stSave store ctx (row_version r) ?n st = (s', res)" by (cases "stSave store ctx (row_version r) ?n st")
  then have "fst (fst (Begin env ctx newID now (st, c))) = s'" using assms True r e
    by (auto simp: Begin_def Let_def row_version_def split: sum.splits)
  moreover have "legal_next (reUrls env) (row (rsMarketID ?n) st) ?n"
    using True load [OF r] by (simp add: legal_next_def legal_begin_def initial_status_def)
  ultimately show ?thesis using save_moved [OF s] by simp
qed

lemma Advance_moved:
  assumes "reStore env = store" "rows_named row st"
  shows "moved (reUrls env) row st (fst (fst (Advance env ctx now phase update (st, c))))"
proof (cases "phase = PhaseWritable")
  case False
  then show ?thesis unfolding Advance_def if_not_P [OF False]
  proof (intro guarded_moved [OF assms])
    fix r c1 assume r: "row (coMarketID c) st = Some r" "rsMarketID r = coMarketID c"
    let ?current = "effectiveStatus (reUrls env) c1 r"
    let ?n = "?current\<lparr> rsPhase := phase, rsProof := mergeProof (rsProof ?current) update,
        rsWritesEnabled := (phase = PhaseWritable), rsLastError := [],
        rsVersion := rsVersion ?current + 1, rsUpdatedAt := now \<rparr>"
    have "legal_next (reUrls env) (row (rsMarketID ?n) st) ?n"
      if "allowedTransition (rsPhase r) phase"
        "requiresLocalProof phase \<longrightarrow> localProofComplete (mergeProof (rsProof ?current) update)"
      using that r False by (simp add: legal_next_def legal_advance_def)
    then show "moved (reUrls env) row st (fst (fst (
        if rsContinuityUncertain ?current then ((st, c1), Inl ErrWriteBlocked)
        else if \<not> allowedTransition (rsPhase ?current) phase then ((st, c1), Inl ErrInvalidTransition)
        else let merged = mergeProof (rsProof ?current) update in
          if requiresLocalProof phase \<and> \<not> localProofComplete merged then ((st, c1), Inl ErrProofIncomplete)
          else save_next env ctx (rsVersion ?current)
            (?current\<lparr> rsPhase := phase, rsProof := merged, rsWritesEnabled := (phase = PhaseWritable),
               rsLastError := [], rsVersion := rsVersion ?current + 1, rsUpdatedAt := now \<rparr>) (st, c1))))"
      using save_next_moved [OF assms(1)] by (simp add: Let_def del: allowedTransition.simps)
  qed
qed (simp add: Advance_def)

lemma Promote_moved:
  assumes "reStore env = store" "rows_named row st"
  shows "moved (reUrls env) row st (fst (fst (Promote env ctx now later binding evidence (st, c))))"
  unfolding Promote_def
proof (intro guarded_moved [OF assms])
  fix r c1 assume r: "row (coMarketID c) st = Some r" "rsMarketID r = coMarketID c"
  let ?current = "effectiveStatus (reUrls env) c1 r"
  let ?n = "?current\<lparr> rsPhase := PhaseWritable, rsProof := (rsProof ?current)\<lparr> pfTransportHealthy := True \<rparr>,
      rsTransport := evidence, rsWritesEnabled := True, rsLastError := [],
      rsVersion := rsVersion ?current + 1, rsUpdatedAt := later \<rparr>"
  have "legal_next (reUrls env) (row (rsMarketID ?n) st) ?n"
    if "rsPhase r = PhaseTransportWarmup" "localProofComplete (rsProof ?current)"
      "validTransportEvidence (reUrls env) evidence (rsProvenance r) now"
    using that r by (auto simp: legal_next_def legal_promote_def localProofComplete_def)
  then show "moved (reUrls env) row st (fst (fst (
      if rsContinuityUncertain ?current then ((st, c1), Inl ErrWriteBlocked)
      else if rsPhase ?current \<noteq> PhaseTransportWarmup \<or> \<not> matchesBinding (reUrls env) ?current binding
      then ((st, c1), Inl ErrBindingMismatch)
      else if \<not> localProofComplete (rsProof ?current) \<or>
        \<not> validTransportEvidence (reUrls env) evidence (rsProvenance ?current) now
      then ((st, c1), Inl ErrTransportEvidence)
      else save_next env ctx (rsVersion ?current) ?n (st, c1))))"
    using save_next_moved [OF assms(1)] by simp
qed

lemma Fail_moved:
  assumes "reStore env = store" "rows_named row st"
  shows "moved (reUrls env) row st (fst (fst (Coordinator_Fail env ctx now phase cause (st, c))))"
proof (cases "phase \<noteq> PhaseOffline \<and> phase \<noteq> PhaseManualReview")
  case False
  show ?thesis unfolding Coordinator_Fail_def if_not_P [OF False]
  proof (intro guarded_moved [OF assms])
    fix r c1 assume r: "row (coMarketID c) st = Some r" "rsMarketID r = coMarketID c"
    show "moved (reUrls env) row st (fst (fst (save_next env ctx (rsVersion (effectiveStatus (reUrls env) c1 r))
      ((effectiveStatus (reUrls env) c1 r)\<lparr> rsPhase := phase, rsWritesEnabled := False,
          rsVersion := rsVersion (effectiveStatus (reUrls env) c1 r) + 1, rsUpdatedAt := now,
          rsLastError := (case cause of None \<Rightarrow> rsLastError (effectiveStatus (reUrls env) c1 r)
            | Some e \<Rightarrow> reMessage env e) \<rparr>) (st, c1))))"
      by (rule save_next_moved [OF assms(1)]) (use r False in \<open>auto simp: legal_next_def legal_fail_def\<close>)
  qed
qed (simp add: Coordinator_Fail_def)

lemma step_moved:
  assumes "recovery_step env st st'" "reStore env = store" "rows_named row st"
  shows "moved (reUrls env) row st st'"
  using assms(1) Begin_moved [OF assms(2)] Advance_moved [OF assms(2,3)] Promote_moved [OF assms(2,3)]
    Fail_moved [OF assms(2,3)]
  by cases simp_all

end

section \<open>Invariants of every history\<close>

definition rows_ok :: "UrlLib \<Rightarrow> (MarketID \<Rightarrow> 's \<Rightarrow> Status option) \<Rightarrow> 's \<Rightarrow> bool" where
  "rows_ok u row st \<longleftrightarrow> rows_named row st \<and> (\<forall>m r. row m st = Some r \<longrightarrow> row_ok u r)"

lemma moved_rows_ok:
  assumes "moved u row st st'" "rows_ok u row st"
  shows "rows_ok u row st'"
proof (cases "st' = st")
  case False
  then obtain new where new: "legal_next u (row (rsMarketID new) st) new" "row (rsMarketID new) st' = Some new"
    "\<And>m. m \<noteq> rsMarketID new \<Longrightarrow> row m st' = row m st"
    using assms(1) unfolding moved_def by blast
  have "row_ok u new" using legal_next_row_ok [OF new(1)] assms(2) by (auto simp: rows_ok_def)
  then have "rsMarketID r = m \<and> row_ok u r" if "row m st' = Some r" for m r
    using that new(2) new(3) [of m] assms(2) by (cases "m = rsMarketID new") (auto simp: rows_ok_def rows_named_def)
  then show ?thesis by (simp add: rows_ok_def rows_named_def)
qed (use assms(2) in simp)

lemma moved_version:
  assumes "moved u row st st'" "row m st = Some r"
  shows "\<exists>r'. row m st' = Some r' \<and> rsVersion r \<le> rsVersion r' \<and> (rsVersion r' = rsVersion r \<longrightarrow> r' = r)"
proof (cases "st' = st")
  case False
  then obtain new where new: "legal_next u (row (rsMarketID new) st) new" "row (rsMarketID new) st' = Some new"
    "\<And>m. m \<noteq> rsMarketID new \<Longrightarrow> row m st' = row m st"
    using assms(1) unfolding moved_def by blast
  show ?thesis
  proof (cases "m = rsMarketID new")
    case True
    then show ?thesis using new(1,2) assms(2) by (auto simp: legal_next_def)
  next
    case False
    then show ?thesis using new(3) [OF False] assms(2) by simp
  qed
qed (use assms(2) in simp)

context recovery_store
begin

lemma steps_rows_ok:
  assumes "(recovery_step env)\<^sup>*\<^sup>* st st'" "reStore env = store" "rows_ok (reUrls env) row st"
  shows "rows_ok (reUrls env) row st'"
  using assms(1)
proof (induction rule: rtranclp_induct)
  case (step y z)
  then have "rows_named row y" by (simp add: rows_ok_def)
  from moved_rows_ok [OF step_moved [OF step.hyps(2) assms(2) this] step.IH] show ?case .
qed (rule assms(3))

lemma steps_version:
  assumes "(recovery_step env)\<^sup>*\<^sup>* st st'" "reStore env = store" "rows_ok (reUrls env) row st" "row m st = Some r"
  shows "\<exists>r'. row m st' = Some r' \<and> rsVersion r \<le> rsVersion r' \<and> (rsVersion r' = rsVersion r \<longrightarrow> r' = r)"
  using assms(1)
proof (induction rule: rtranclp_induct)
  case (step y z)
  then obtain r' where r': "row m y = Some r'" "rsVersion r \<le> rsVersion r'" "rsVersion r' = rsVersion r \<longrightarrow> r' = r" by blast
  have "rows_named row y" using steps_rows_ok [OF step.hyps(1) assms(2,3)] by (simp add: rows_ok_def)
  from moved_version [OF step_moved [OF step.hyps(2) assms(2) this] r'(1)] r' show ?case by fastforce
qed (use assms(4) in simp)

text \<open>The fence: an admission that is still valid was given for the very row that is there now.\<close>

lemma admission_current:
  assumes "Admit env ctx mode accountID (st, c) = (x1, Inr adm)" "reStore env = store" "rows_ok (reUrls env) row st"
    and "(recovery_step env)\<^sup>*\<^sup>* st st'" "ValidateAdmission env ctx' adm (st', c') = (x2, Inr ())"
  shows "\<exists>r. row (adMarketID adm) st = Some r \<and> row (adMarketID adm) st' = Some r \<and>
    authorize (reUrls env) (effectiveStatus (reUrls env) (snd x2) r) mode accountID = Inr ()"
proof -
  have named: "rows_named row st" "rows_named row st'"
    using assms(3) steps_rows_ok [OF assms(4,2,3)] by (auto simp: rows_ok_def)
  obtain current y1 where a: "Coordinator_Status env ctx (st, c) = (y1, Inr current)"
    "adm = \<lparr> adMarketID = coMarketID c, adEpochID = rsEpochID current, adVersion = rsVersion current,
       adPhase = rsPhase current, adMode = mode, adAccountID = accountID \<rparr>"
    using assms(1) by (auto simp: Admit_def bindE_eq_Inr split: prod.splits sum.splits)
  obtain current' where b: "Coordinator_Status env ctx' (st', c') = (x2, Inr current')"
    "adMarketID adm = rsMarketID current'" "adVersion adm = rsVersion current'"
    "authorize (reUrls env) current' (adMode adm) (adAccountID adm) = Inr ()"
    using assms(5) by (auto simp: ValidateAdmission_def split: prod.splits sum.splits if_splits)
  obtain r c1 where r: "row (coMarketID c) st = Some r" "current = effectiveStatus (reUrls env) c1 r"
    "rsMarketID r = coMarketID c" using status_current [OF a(1) assms(2) named(1)] by metis
  obtain r' c2 where r': "row (coMarketID c') st' = Some r'" "x2 = (st', c2)" "current' = effectiveStatus (reUrls env) c2 r'"
    "rsMarketID r' = coMarketID c'" using status_current [OF b(1) assms(2) named(2)] by metis
  have m: "coMarketID c' = coMarketID c" using b(2) a(2) r'(3,4) by simp
  have v: "rsVersion r' = rsVersion r" using b(3) a(2) r(2) r'(3) by simp
  with steps_version [OF assms(4,2,3) r(1)] r'(1) m have "r' = r" by simp
  then show ?thesis using r(1) r'(1,2,3) m a(2) b(4) by simp
qed

text \<open>While continuity is uncertain for the epoch of the row, nothing is admitted.\<close>

lemma uncertain_refuses:
  assumes "reStore env = store" "rows_named row st" "row (coMarketID c) st = Some r"
    and "coContinuityUncertain c" "coContinuityEpoch c = [] \<or> coContinuityEpoch c = rsEpochID r"
  shows "\<exists>x e. Admit env ctx mode accountID (st, c) = (x, Inl e) \<and> errors_is e ErrWriteBlocked"
proof (cases "Coordinator_Status env ctx (st, c)")
  case (Pair x1 res)
  show ?thesis
  proof (cases res)
    case (Inl e)
    then show ?thesis using Pair by (simp add: Admit_def)
  next
    case (Inr current)
    from status_current [OF Pair [unfolded Inr] assms(1,2)] assms(3) have
      c: "current = effectiveStatus (reUrls env) (observeEpoch (rsEpochID r) c) r" by (metis option.inject)
    have "coContinuityUncertain (observeEpoch (rsEpochID r) c)" "coContinuityEpoch (observeEpoch (rsEpochID r) c) = coContinuityEpoch c"
      using assms(4,5) by (auto simp: observeEpoch_def)
    then have "rsContinuityUncertain current" using c assms(5) by (auto simp: effectiveStatus_def)
    then show ?thesis using Pair Inr by (simp add: Admit_def authorize_def)
  qed
qed

end

section \<open>Histories in the in-memory store\<close>

fun legal_history :: "UrlLib \<Rightarrow> Status option \<Rightarrow> Status list \<Rightarrow> bool" where
  "legal_history u old [] = True"
| "legal_history u old (r # rs) = (legal_next u old r \<and> legal_history u (Some r) rs)"

lemma legal_history_snoc:
  "legal_history u old (rs @ [new]) \<longleftrightarrow>
     legal_history u old rs \<and> legal_next u (if rs = [] then old else Some (last rs)) new"
  by (induction rs arbitrary: old) auto

text \<open>The current row is the last of the history.\<close>

definition last_row :: "Status list \<Rightarrow> Status option" where
  "last_row rs = (if rs = [] then None else Some (last rs))"

definition history_ok :: "UrlLib \<Rightarrow> MemoryStore \<Rightarrow> bool" where
  "history_ok u s \<longleftrightarrow> (\<forall>m. fmlookup (msCurrent s) m = last_row (MemoryStore_History m s) \<and>
     legal_history u None (MemoryStore_History m s))"

text \<open>The states that one call of \<open>Save\<close> at most can lead to.\<close>

definition saves :: "'s RecoveryStore \<Rightarrow> 's \<Rightarrow> 's set" where
  "saves store st = insert st {s'. \<exists>ctx n nxt. s' = fst (stSave store ctx n nxt st)}"

lemma saves_simps [simp]: "st \<in> saves store st" "fst (stSave store ctx n nxt st) \<in> saves store st"
  "fst (fst (save_next env ctx n nxt (st, c))) \<in> saves (reStore env) st"
  by (auto simp: saves_def save_next_def split: prod.splits sum.splits) (metis fst_conv)+

lemma step_saved:
  assumes "recovery_step env st st'"
  shows "st' \<in> saves (reStore env) st"
  using assms
proof cases
  case (step_begin ctx newID now c)
  have "s' \<in> saves (reStore env) st" if "stSave (reStore env) ctx n nxt st = (s', r)" for s' n nxt r
    using saves_simps(2) [of "reStore env" ctx n nxt st] that by simp
  then show ?thesis using step_begin by (auto simp: Begin_def Let_def split: sum.splits prod.splits)
next
  case (step_advance ctx now phase update c)
  have "fst (fst (Coordinator_Status env ctx (st, c))) = st" using Coordinator_Status_store by force
  then show ?thesis using step_advance
    by (cases "Coordinator_Status env ctx (st, c)") (auto simp: Advance_def Let_def split: sum.splits)
next
  case (step_promote ctx now later binding evidence c)
  have "fst (fst (Coordinator_Status env ctx (st, c))) = st" using Coordinator_Status_store by force
  then show ?thesis using step_promote
    by (cases "Coordinator_Status env ctx (st, c)") (auto simp: Promote_def split: sum.splits)
next
  case (step_fail ctx now phase cause c)
  have "fst (fst (Coordinator_Status env ctx (st, c))) = st" using Coordinator_Status_store by force
  then show ?thesis using step_fail
    by (cases "Coordinator_Status env ctx (st, c)") (auto simp: Coordinator_Fail_def split: sum.splits)
qed

lemma Save_changes:
  assumes "s' = fst (MemoryStore_Save ctx n nxt s)" "s' \<noteq> s"
  shows "rsVersion nxt = row_version (fmlookup (msCurrent s) (rsMarketID nxt)) + 1"
    and "s' = s\<lparr> msCurrent := fmupd (rsMarketID nxt) nxt (msCurrent s),
      msHistory := fmupd (rsMarketID nxt) (MemoryStore_History (rsMarketID nxt) s @ [nxt]) (msHistory s) \<rparr>"
  using assms by (auto simp: MemoryStore_Save_def MemoryStore_History_def row_version_def split: if_splits option.splits)

lemma step_history_ok:
  assumes "recovery_step env s s'" "reStore env = Memory_RecoveryStore"
    and "rows_named (\<lambda>m s. fmlookup (msCurrent s) m) s" "history_ok (reUrls env) s"
  shows "history_ok (reUrls env) s'"
proof (cases "s' = s")
  case False
  then obtain ctx n nxt where "s' = fst (MemoryStore_Save ctx n nxt s)"
    using step_saved [OF assms(1)] assms(2) by (auto simp: Memory_RecoveryStore_def saves_def)
  note S = Save_changes [OF this False]
  let ?row = "\<lambda>m s. fmlookup (msCurrent s) m"
  obtain new where new: "legal_next (reUrls env) (?row (rsMarketID new) s) new" "?row (rsMarketID new) s' = Some new"
    "\<And>m. m \<noteq> rsMarketID new \<Longrightarrow> ?row m s' = ?row m s"
    using ms.step_moved [OF assms(1-3)] False unfolding moved_def by blast
  have nxt: "?row (rsMarketID nxt) s' = Some nxt" using S(2) by simp
  have "rsMarketID nxt = rsMarketID new"
  proof (rule ccontr)
    assume "rsMarketID nxt \<noteq> rsMarketID new"
    from new(3) [OF this] nxt have "?row (rsMarketID nxt) s = Some nxt" by simp
    with S(1) show False by simp
  qed
  with new(2) nxt have "new = nxt" by simp
  with new(1) have "legal_next (reUrls env) (last_row (MemoryStore_History (rsMarketID nxt) s)) nxt"
    using assms(4) by (simp add: history_ok_def)
  then have "legal_history (reUrls env) None (MemoryStore_History (rsMarketID nxt) s @ [nxt])"
    using assms(4) by (simp add: history_ok_def legal_history_snoc last_row_def)
  then show ?thesis using assms(4) S(2)
    by (auto simp: history_ok_def MemoryStore_History_def last_row_def)
qed (use assms(4) in simp)

lemma memory_initial: "rows_ok u (\<lambda>m s. fmlookup (msCurrent s) m) NewMemoryStore" "history_ok u NewMemoryStore"
  by (simp_all add: rows_ok_def rows_named_def history_ok_def NewMemoryStore_def MemoryStore_History_def last_row_def)

lemma steps_history_ok:
  assumes "(recovery_step env)\<^sup>*\<^sup>* NewMemoryStore s" "reStore env = Memory_RecoveryStore"
  shows "history_ok (reUrls env) s"
  using assms(1)
proof (induction rule: rtranclp_induct)
  case (step y z)
  have "rows_named (\<lambda>m s. fmlookup (msCurrent s) m) y"
    using ms.steps_rows_ok [OF step.hyps(1) assms(2) memory_initial(1)] by (simp add: rows_ok_def)
  from step_history_ok [OF step.hyps(2) assms(2) this step.IH] show ?case .
qed (rule memory_initial)

section \<open>Properties\<close>

text \<open>The run of the examples: an epoch from its begin to writable.\<close>

definition sample_urls :: UrlLib where
  "sample_urls = \<lparr> ulParse = (\<lambda>s. if prefix ''https://'' s then Some \<lparr> urScheme = ''https'', urHost = drop 8 s,
       urHostname = drop 8 s, urPort = [], urUser = False, urPath = [], urRawQuery = [], urFragment = [], urRest = [] \<rparr> else None),
     ulString = (\<lambda>url. ''https://'' @ urHost url) \<rparr>"

definition sample_provenance :: Provenance where
  "sample_provenance = \<lparr> pvProductionOrigin = ''https://qiu.example'', pvDeploymentID = ''dpl_abcdefgh'',
     pvDeploymentURL = ''https://q.vercel.app'', pvReleaseCommit = replicate 40 (CHR ''a''),
     pvSourceDigest = replicate 64 (CHR ''b'') \<rparr>"

definition sample_env :: "MemoryStore RecoveryEnv" where
  "sample_env = \<lparr> reStore = Memory_RecoveryStore, reUrls = sample_urls, reMessage = (\<lambda>_. ''error'') \<rparr>"

definition sample_coordinator :: Coordinator where
  "sample_coordinator = \<lparr> coMarketID = ''BTC-USDT'', coLastObservedEpoch = ''e1'', coContinuityEpoch = [],
     coContinuityUncertain = False, coContinuityError = [], coExpectedProvenance = sample_provenance \<rparr>"

definition sample_proof :: Proof where
  "sample_proof = \<lparr> pfRuntimeSequence = 7, pfStateHash = replicate 64 (CHR ''c''), pfLedgerBalanced = True,
     pfEventContinuous = True, pfProjectionCaughtUp = True, pfOutboxCaughtUp = True, pfTransportHealthy = False \<rparr>"

definition sample_binding :: Binding where
  "sample_binding = \<lparr> bdMarketID = ''BTC-USDT'', bdEpochID = ''e1'', bdVersion = 6, bdRuntimeSequence = 7,
     bdStateHash = replicate 64 (CHR ''c''), bdProvenance = sample_provenance \<rparr>"

definition sample_evidence :: TransportEvidence where
  "sample_evidence = \<lparr> teSampleCount = 9, teFirstSampleAt = 1000000000, teLastSampleAt = 33000000000,
     teMaximumGapMS = 5000, teEvidenceSHA256 = replicate 64 (CHR ''d''), teProvenance = sample_provenance \<rparr>"

definition sample_advance :: "Phase \<Rightarrow> MemoryStore \<Rightarrow> MemoryStore" where
  "sample_advance phase st = fst (fst (Advance sample_env None 2 phase sample_proof (st, sample_coordinator)))"

definition sample_warm :: MemoryStore where
  "sample_warm = sample_advance PhaseTransportWarmup (sample_advance PhaseReadOnly (sample_advance PhaseReconciling
     (sample_advance PhaseTradingReplay (sample_advance PhaseDependenciesReady
       (fst (fst (Begin sample_env None (Inr ''e1'') 1 (NewMemoryStore, sample_coordinator))))))))"

definition sample_writable :: MemoryStore where
  "sample_writable = fst (fst (Promote sample_env None 34000000000 34000000000 sample_binding sample_evidence
     (sample_warm, sample_coordinator)))"

lemma sample_advance_step: "recovery_step sample_env st (sample_advance phase st)"
  unfolding sample_advance_def by (rule step_advance)

lemma sample_steps: "(recovery_step sample_env)\<^sup>*\<^sup>* NewMemoryStore sample_writable"
proof -
  have "recovery_step sample_env NewMemoryStore
      (fst (fst (Begin sample_env None (Inr ''e1'') 1 (NewMemoryStore, sample_coordinator))))" by (rule step_begin)
  then have "(recovery_step sample_env)\<^sup>*\<^sup>* NewMemoryStore sample_warm"
    unfolding sample_warm_def by (meson sample_advance_step r_into_rtranclp rtranclp.rtrancl_into_rtrancl)
  moreover have "recovery_step sample_env sample_warm sample_writable"
    unfolding sample_writable_def by (rule step_promote)
  ultimately show ?thesis by (rule rtranclp.rtrancl_into_rtrancl)
qed

lemma sample_store: "reStore sample_env = Memory_RecoveryStore"
  by (simp add: sample_env_def)

lemma sample_row: "case fmlookup (msCurrent sample_writable) ''BTC-USDT'' of None \<Rightarrow> False
    | Some r \<Rightarrow> rsWritesEnabled r \<and> rsEpochID r = ''e1'' \<and> rsMarketID r = ''BTC-USDT'' \<and>
        \<not> rsContinuityUncertain r \<and> rsProvenance r = sample_provenance \<and> writable sample_urls r"
  by code_simp

text \<open>C12 Writes are guarded: whatever coordinators did to the store, a market's row enables writes only
  in the writable phase, with a complete local proof, a healthy transport, a valid provenance
  and transport evidence for that provenance.\<close>

theorem recovery_writes_guarded:
  assumes "(recovery_step env)\<^sup>*\<^sup>* NewMemoryStore s" "reStore env = Memory_RecoveryStore"
    and "fmlookup (msCurrent s) m = Some r" "rsWritesEnabled r"
  shows "writable (reUrls env) r \<and> (\<exists>now. validTransportEvidence (reUrls env) (rsTransport r) (rsProvenance r) now)"
proof -
  have "row_ok (reUrls env) r"
    using ms.steps_rows_ok [OF assms(1,2) memory_initial(1)] assms(3) by (simp add: rows_ok_def)
  with assms(4) show ?thesis by (auto simp: row_ok_def writable_def requiresLocalProof_def)
qed

theorem recovery_writes_guarded_witness:
  "\<exists>r. fmlookup (msCurrent sample_writable) ''BTC-USDT'' = Some r \<and> writable sample_urls r"
proof -
  obtain r where r: "fmlookup (msCurrent sample_writable) ''BTC-USDT'' = Some r" "rsWritesEnabled r"
    using sample_row by (auto split: option.splits)
  with recovery_writes_guarded [OF sample_steps sample_store r] show ?thesis by (simp add: sample_env_def)
qed

text \<open>C13 The history of a market's row is legal: versions count up from one; each row begins an epoch,
  advances one phase with the proof that the phase requires, is the promotion of a warmed-up
  transport, or is a failure that disables writes; the current row is the last.\<close>

theorem recovery_history_legal:
  assumes "(recovery_step env)\<^sup>*\<^sup>* NewMemoryStore s" "reStore env = Memory_RecoveryStore"
  shows "legal_history (reUrls env) None (MemoryStore_History m s) \<and>
    fmlookup (msCurrent s) m = last_row (MemoryStore_History m s)"
  using steps_history_ok [OF assms] by (simp add: history_ok_def)

theorem recovery_history_legal_witness:
  "legal_history sample_urls None (MemoryStore_History ''BTC-USDT'' sample_writable) \<and>
   length (MemoryStore_History ''BTC-USDT'' sample_writable) = 7"
proof -
  have "length (MemoryStore_History ''BTC-USDT'' sample_writable) = 7" by code_simp
  with recovery_history_legal [OF sample_steps sample_store, of "''BTC-USDT''"] show ?thesis by (simp add: sample_env_def)
qed

text \<open>C14 The dequeue fence is sound: an admission that validates after any operations of any coordinators
  was given for exactly the durable row that is current then, which still authorizes it.\<close>

theorem admission_fence:
  assumes "(recovery_step env)\<^sup>*\<^sup>* NewMemoryStore st" "reStore env = Memory_RecoveryStore"
    and "Admit env ctx mode accountID (st, c) = (x1, Inr adm)" "(recovery_step env)\<^sup>*\<^sup>* st st'"
    and "ValidateAdmission env ctx' adm (st', c') = (x2, Inr ())"
  shows "\<exists>r. fmlookup (msCurrent st) (adMarketID adm) = Some r \<and> fmlookup (msCurrent st') (adMarketID adm) = Some r \<and>
    authorize (reUrls env) (effectiveStatus (reUrls env) (snd x2) r) mode accountID = Inr ()"
  by (rule ms.admission_current [OF assms(3,2) ms.steps_rows_ok [OF assms(1,2) memory_initial(1)] assms(4,5)])

lemma sample_admitted:
  "\<exists>adm. Admit sample_env None AdmissionNormal ''ann'' (sample_writable, sample_coordinator) =
       ((sample_writable, sample_coordinator), Inr adm) \<and>
     ValidateAdmission sample_env None adm (sample_writable, sample_coordinator) = ((sample_writable, sample_coordinator), Inr ())"
proof -
  obtain r where r: "fmlookup (msCurrent sample_writable) ''BTC-USDT'' = Some r" "rsEpochID r = ''e1''"
    "rsMarketID r = ''BTC-USDT''" "\<not> rsContinuityUncertain r" "rsProvenance r = sample_provenance" "writable sample_urls r"
    using sample_row by (auto split: option.splits)
  have "Coordinator_Status sample_env None (sample_writable, sample_coordinator) = ((sample_writable, sample_coordinator), Inr r)"
    using r by (simp add: Coordinator_Status_def sample_env_def Memory_RecoveryStore_def MemoryStore_Load_def
        sample_coordinator_def observeEpoch_def effectiveStatus_def)
  moreover have "authorize sample_urls r AdmissionNormal ''ann'' = Inr ()" using r(4,6) by (simp add: authorize_def)
  ultimately show ?thesis using r(2,3)
    by (simp add: Admit_def ValidateAdmission_def sample_env_def) (simp add: sample_coordinator_def)
qed

theorem admission_fence_witness:
  "\<exists>r c. fmlookup (msCurrent sample_writable) ''BTC-USDT'' = Some r \<and>
     authorize sample_urls (effectiveStatus sample_urls c r) AdmissionNormal ''ann'' = Inr ()"
proof -
  obtain x1 adm x2 where a: "Admit sample_env None AdmissionNormal ''ann'' (sample_writable, sample_coordinator) = (x1, Inr adm)"
    and v2: "ValidateAdmission sample_env None adm (sample_writable, sample_coordinator) = (x2, Inr ())"
    using sample_admitted by blast
  have "adMarketID adm = ''BTC-USDT''"
    using a by (auto simp: Admit_def bindE_eq_Inr sample_coordinator_def split: prod.splits sum.splits)
  with admission_fence [OF sample_steps sample_store a rtranclp.rtrancl_refl v2] show ?thesis
    by (auto simp: sample_env_def)
qed

text \<open>The coordinator fails closed: after a store error in the current epoch it admits nothing, in any
  mode, until a new epoch begins.\<close>

theorem uncertain_continuity_refuses:
  assumes "(recovery_step env)\<^sup>*\<^sup>* NewMemoryStore st" "reStore env = Memory_RecoveryStore"
    and "fmlookup (msCurrent st) (coMarketID c) = Some r"
    and "coLastObservedEpoch c = rsEpochID r" "\<not> coContinuityUncertain c"
  shows "\<exists>x e. Admit env ctx mode accountID (st, markContinuityUncertain cause c) = (x, Inl e) \<and> errors_is e ErrWriteBlocked"
proof (rule ms.uncertain_refuses [OF assms(2), where r = r])
  show "rows_named (\<lambda>m s. fmlookup (msCurrent s) m) st"
    using ms.steps_rows_ok [OF assms(1,2) memory_initial(1)] by (simp add: rows_ok_def)
qed (use assms(3-5) in \<open>simp_all add: markContinuityUncertain_def\<close>)

theorem uncertain_continuity_refuses_witness:
  "\<exists>x e. Admit sample_env None AdmissionNormal ''ann'' (sample_writable, markContinuityUncertain ''lost'' sample_coordinator) = (x, Inl e) \<and>
     errors_is e ErrWriteBlocked"
proof -
  obtain r where r: "fmlookup (msCurrent sample_writable) ''BTC-USDT'' = Some r" "rsEpochID r = ''e1''"
    using sample_row by (auto split: option.splits)
  show ?thesis
    by (rule uncertain_continuity_refuses [OF sample_steps sample_store, where r = r])
      (use r in \<open>simp_all add: sample_coordinator_def\<close>)
qed

end
