(* ===== verification/Ledger.thy ===== *)
theory Ledger
  imports Domain
begin

text \<open>
  The package \<open>trading/ledger\<close>: a double-entry ledger. The state is the map of balances, the
  journal of posted transactions and the set of their identifiers (\<open>Ledger\<close>); \<open>Post\<close> is the
  only operation that changes a balance, and the other operations are transactions for it.
  Every \<open>Post\<close> either returns an error and leaves the ledger as it was, or applies all entries
  and appends the transaction to the journal.

  The invariant \<open>ledger_ok\<close> says that a ledger is the replay of its own journal. From it follow
  conservation (the balances of an asset sum to zero), non-negative balances outside the
  treasury, the round trip of snapshots, and that \<open>Compact\<close> always succeeds and changes no
  balance.
\<close>

section \<open>Data\<close>

record Entry =
  eAccount :: string
  eAsset :: Asset
  eAmount :: int

record Transaction =
  txID :: string
  txReference :: string
  txEntries :: "Entry list"

record Balance =
  bAccount :: string
  bAsset :: Asset
  bAmount :: int

record LedgerSnapshot =
  lsBalances :: "Balance list"
  lsJournal :: "Transaction list"

type_synonym balanceKey = "string \<times> Asset"

record Ledger =
  lBalances :: "(balanceKey, int) fmap"
  lJournal :: "Transaction list"
  lTransactionIDs :: "string fset"

definition Ledger_New :: Ledger where
  "Ledger_New = \<lparr> lBalances = fmempty, lJournal = [], lTransactionIDs = {||} \<rparr>"

definition UserAvailable :: "AccountID \<Rightarrow> string" where
  "UserAvailable accountID = ''user:'' @ accountID @ '':available''"

definition UserHeld :: "AccountID \<Rightarrow> string" where
  "UserHeld accountID = ''user:'' @ accountID @ '':held''"

definition PlatformFee :: "Asset \<Rightarrow> string" where
  "PlatformFee asset = ''platform:fee:'' @ asset"

definition SystemTreasury :: "Asset \<Rightarrow> string" where
  "SystemTreasury asset = ''system:treasury:'' @ asset"

definition isNegativeBalanceAllowed :: "string \<Rightarrow> bool" where
  "isNegativeBalanceAllowed account = prefix ''system:treasury:'' account"

text \<open>Slices of entries are immutable values here, so the copies of the source are the values.\<close>

definition cloneTransaction :: "Transaction \<Rightarrow> Transaction" where
  "cloneTransaction tx = tx"

definition cloneJournal :: "Transaction list \<Rightarrow> Transaction list" where
  "cloneJournal journal = map cloneTransaction journal"

definition Ledger_Clone :: "Ledger \<Rightarrow> Ledger" where
  "Ledger_Clone l =
     \<lparr> lBalances = lBalances l, lJournal = cloneJournal (lJournal l),
       lTransactionIDs = lTransactionIDs l \<rparr>"

section \<open>Posting\<close>

text \<open>The body of the loop over the entries: it accumulates the sum per asset and the pending
  balance per key.\<close>

definition post_entry ::
  "Ledger \<Rightarrow> Entry \<Rightarrow> (Asset, int) fmap \<times> (balanceKey, int) fmap
     \<Rightarrow> ((Asset, int) fmap \<times> (balanceKey, int) fmap) res" where
  "post_entry l entry st =
     (let (sums, pending) = st in
      if eAccount entry = [] \<or> eAsset entry = [] \<or> eAmount entry = 0 then Inl ErrInvalidTransaction
      else
        (case CheckedAdd (fmget 0 sums (eAsset entry)) (eAmount entry) of
           Inl _ \<Rightarrow> Inl ErrInvalidTransaction
         | Inr assetSum \<Rightarrow>
             (let key = (eAccount entry, eAsset entry);
                  current = (case fmlookup pending key of
                               Some v \<Rightarrow> v
                             | None \<Rightarrow> fmget 0 (lBalances l) key)
              in (case CheckedAdd current (eAmount entry) of
                    Inl _ \<Rightarrow> Inl ErrInvalidTransaction
                  | Inr nxt \<Rightarrow>
                      if nxt < 0 \<and> \<not> isNegativeBalanceAllowed (eAccount entry)
                      then Inl ErrInsufficientBalance
                      else Inr (fmupd (eAsset entry) assetSum sums, fmupd key nxt pending)))))"

definition Post :: "Ledger \<Rightarrow> Transaction \<Rightarrow> Ledger res" where
  "Post l tx =
     (if txID tx = [] \<or> txReference tx = [] \<or> length (txEntries tx) < 2
      then Inl ErrInvalidTransaction
      else if txID tx |\<in>| lTransactionIDs l then Inl ErrDuplicateTransaction
      else bindE (foldE (post_entry l) (txEntries tx) (fmempty, fmempty)) (\<lambda>(sums, pending).
        if \<not> fmpred (\<lambda>_ assetSum. assetSum = 0) sums then Inl ErrUnbalancedTransaction
        else Inr \<lparr> lBalances = lBalances l ++\<^sub>f pending,
                   lJournal = lJournal l @ [cloneTransaction tx],
                   lTransactionIDs = finsert (txID tx) (lTransactionIDs l) \<rparr>))"

definition FundVirtual ::
  "Ledger \<Rightarrow> string \<Rightarrow> string \<Rightarrow> AccountID \<Rightarrow> Asset \<Rightarrow> int \<Rightarrow> Ledger res" where
  "FundVirtual l txid reference accountID asset amount =
     (if amount \<le> 0 then Inl ErrInvalidTransaction
      else Post l \<lparr> txID = txid, txReference = reference,
        txEntries = [\<lparr> eAccount = SystemTreasury asset, eAsset = asset, eAmount = sub64 0 amount \<rparr>,
                     \<lparr> eAccount = UserAvailable accountID, eAsset = asset, eAmount = amount \<rparr>] \<rparr>)"

definition Ledger_move ::
  "Ledger \<Rightarrow> string \<Rightarrow> string \<Rightarrow> string \<Rightarrow> string \<Rightarrow> Asset \<Rightarrow> int \<Rightarrow> Ledger res" where
  "Ledger_move l txid reference from to asset amount =
     (if amount \<le> 0 then Inl ErrInvalidTransaction
      else Post l \<lparr> txID = txid, txReference = reference,
        txEntries = [\<lparr> eAccount = from, eAsset = asset, eAmount = sub64 0 amount \<rparr>,
                     \<lparr> eAccount = to, eAsset = asset, eAmount = amount \<rparr>] \<rparr>)"

definition Hold :: "Ledger \<Rightarrow> string \<Rightarrow> string \<Rightarrow> AccountID \<Rightarrow> Asset \<Rightarrow> int \<Rightarrow> Ledger res" where
  "Hold l txid reference accountID asset amount =
     Ledger_move l txid reference (UserAvailable accountID) (UserHeld accountID) asset amount"

definition Release :: "Ledger \<Rightarrow> string \<Rightarrow> string \<Rightarrow> AccountID \<Rightarrow> Asset \<Rightarrow> int \<Rightarrow> Ledger res" where
  "Release l txid reference accountID asset amount =
     Ledger_move l txid reference (UserHeld accountID) (UserAvailable accountID) asset amount"

section \<open>Reading\<close>

definition Ledger_Balance :: "Ledger \<Rightarrow> string \<Rightarrow> Asset \<Rightarrow> int" where
  "Ledger_Balance l account asset = fmget 0 (lBalances l) (account, asset)"

definition UserBalance :: "Ledger \<Rightarrow> AccountID \<Rightarrow> Asset \<Rightarrow> int \<times> int" where
  "UserBalance l accountID asset =
     (Ledger_Balance l (UserAvailable accountID) asset, Ledger_Balance l (UserHeld accountID) asset)"

text \<open>The balances sorted by account and then by asset, which is the order of the keys.\<close>

definition Balances :: "Ledger \<Rightarrow> Balance list" where
  "Balances l =
     map (\<lambda>((account, asset), amount). \<lparr> bAccount = account, bAsset = asset, bAmount = amount \<rparr>)
       (sorted_list_of_fmap (lBalances l))"

definition Ledger_Journal :: "Ledger \<Rightarrow> Transaction list" where
  "Ledger_Journal l = cloneJournal (lJournal l)"

definition JournalLen :: "Ledger \<Rightarrow> nat" where
  "JournalLen l = length (lJournal l)"

definition JournalFrom :: "Ledger \<Rightarrow> int \<Rightarrow> Transaction list res" where
  "JournalFrom l index =
     (if index < 0 \<or> index > int (length (lJournal l)) then Inl ErrInvalidTransaction
      else Inr (cloneJournal (drop (nat index) (lJournal l))))"

definition Ledger_Snapshot :: "Ledger \<Rightarrow> LedgerSnapshot" where
  "Ledger_Snapshot l = \<lparr> lsBalances = Balances l, lsJournal = Ledger_Journal l \<rparr>"

section \<open>Replay, validation and compaction\<close>

definition post_all :: "Transaction list \<Rightarrow> Ledger \<Rightarrow> Ledger res" where
  "post_all = foldE (\<lambda>tx l. Post l tx)"

definition Ledger_FromSnapshot :: "LedgerSnapshot \<Rightarrow> Ledger res" where
  "Ledger_FromSnapshot snapshot =
     bindE (post_all (lsJournal snapshot) Ledger_New) (\<lambda>restored.
       let actual = Balances restored;
           expected = sort_key (\<lambda>b. (bAccount b, bAsset b)) (lsBalances snapshot)
       in if length actual \<noteq> length expected
          then Inl (ErrPlain ''restore ledger: balance count mismatch'')
          else if actual \<noteq> expected
          then Inl (ErrPlain ''restore ledger: balance mismatch at index'')
          else Inr restored)"

definition Ledger_Validate :: "Ledger \<Rightarrow> unit res" where
  "Ledger_Validate l =
     bindE (post_all (lJournal l) Ledger_New) (\<lambda>recomputed.
       let actual = Balances l;
           expected = Balances recomputed
       in if length actual \<noteq> length expected
          then Inl (ErrPlain ''ledger balance count mismatch'')
          else if actual \<noteq> expected then Inl (ErrPlain ''ledger balance mismatch at index'')
          else Inr ())"

text \<open>The entries of the checkpoint, grouped by asset: zero balances are dropped.\<close>

definition compact_byAsset :: "Balance list \<Rightarrow> (Asset, Entry list) fmap" where
  "compact_byAsset balances =
     fold (\<lambda>balance byAsset.
        if bAmount balance = 0 then byAsset
        else fmupd (bAsset balance)
               (fmget [] byAsset (bAsset balance) @
                [\<lparr> eAccount = bAccount balance, eAsset = bAsset balance, eAmount = bAmount balance \<rparr>])
               byAsset)
      balances fmempty"

definition checkpoint_id :: "Asset \<Rightarrow> string" where
  "checkpoint_id asset = ''runtime-checkpoint:'' @ asset"

definition checkpoint_tx :: "Asset \<Rightarrow> Entry list \<Rightarrow> Transaction" where
  "checkpoint_tx asset entries =
     \<lparr> txID = checkpoint_id asset, txReference = ''runtime-ledger-checkpoint'',
       txEntries = entries \<rparr>"

definition Compact :: "Ledger \<Rightarrow> Ledger res" where
  "Compact l =
     (let byAsset = compact_byAsset (Balances l);
          assets = sorted_list_of_fset (fmdom byAsset)
      in bindE
           (foldE (\<lambda>asset compacted.
              let entries = fmget [] byAsset asset in
              if length entries < 2 then Inl ErrUnbalancedTransaction
              else Post compacted (checkpoint_tx asset entries)) assets Ledger_New)
           (\<lambda>compacted. bindE (Ledger_Validate compacted) (\<lambda>_. Inr compacted)))"

section \<open>The effect of a transaction\<close>

abbreviation entry_key :: "Entry \<Rightarrow> balanceKey" where
  "entry_key e \<equiv> (eAccount e, eAsset e)"

definition entry_net :: "Entry list \<Rightarrow> balanceKey \<Rightarrow> int" where
  "entry_net es k = (\<Sum>e\<leftarrow>es. if entry_key e = k then eAmount e else 0)"

definition asset_net :: "Entry list \<Rightarrow> Asset \<Rightarrow> int" where
  "asset_net es a = (\<Sum>e\<leftarrow>es. if eAsset e = a then eAmount e else 0)"

definition pend_cur :: "Ledger \<Rightarrow> (balanceKey, int) fmap \<Rightarrow> balanceKey \<Rightarrow> int" where
  "pend_cur l p k = (case fmlookup p k of Some v \<Rightarrow> v | None \<Rightarrow> fmget 0 (lBalances l) k)"

abbreviation bal :: "Ledger \<Rightarrow> balanceKey \<Rightarrow> int" where
  "bal l k \<equiv> fmget 0 (lBalances l) k"

definition tx64 :: "Transaction \<Rightarrow> bool" where
  "tx64 tx \<longleftrightarrow> (\<forall>e \<in> set (txEntries tx). in64 (eAmount e))"

definition bal64 :: "Ledger \<Rightarrow> bool" where
  "bal64 l \<longleftrightarrow> (\<forall>k. in64 (bal l k))"

lemma net_simps [simp]:
  "entry_net [] k = 0" "asset_net [] a = 0"
  "entry_net (e # es) k = (if entry_key e = k then eAmount e else 0) + entry_net es k"
  "asset_net (e # es) a = (if eAsset e = a then eAmount e else 0) + asset_net es a"
  by (simp_all add: entry_net_def asset_net_def)

lemma pend_cur_simps [simp]:
  "pend_cur l fmempty k = bal l k"
  "pend_cur l (fmupd k' v p) k = (if k' = k then v else pend_cur l p k)"
  by (simp_all add: pend_cur_def)

lemma bal_fmadd: "fmget 0 (lBalances l ++\<^sub>f p) k = pend_cur l p k"
  by (auto simp: pend_cur_def fmget_def fmlookup_dom_iff split: option.splits)

lemma post_entry_Inr:
  assumes "in64 (eAmount e)" "in64 (fmget 0 s (eAsset e))" "in64 (pend_cur l p (entry_key e))"
  shows "post_entry l e (s, p) = Inr sp \<longleftrightarrow>
    eAccount e \<noteq> [] \<and> eAsset e \<noteq> [] \<and> eAmount e \<noteq> 0 \<and>
    in64 (fmget 0 s (eAsset e) + eAmount e) \<and> in64 (pend_cur l p (entry_key e) + eAmount e) \<and>
    (0 \<le> pend_cur l p (entry_key e) + eAmount e \<or> isNegativeBalanceAllowed (eAccount e)) \<and>
    sp = (fmupd (eAsset e) (fmget 0 s (eAsset e) + eAmount e) s,
          fmupd (entry_key e) (pend_cur l p (entry_key e) + eAmount e) p)"
  using assms
  by (auto simp: post_entry_def pend_cur_def [symmetric] Let_def CheckedAdd_spec)

lemma post_entries_spec:
  assumes "foldE (post_entry l) es (s, p) = Inr (s', p')"
    and "\<forall>e \<in> set es. in64 (eAmount e)" "\<forall>a. in64 (fmget 0 s a)" "\<forall>k. in64 (pend_cur l p k)"
  shows "(\<forall>a. fmget 0 s' a = fmget 0 s a + asset_net es a) \<and>
    (\<forall>k. pend_cur l p' k = pend_cur l p k + entry_net es k) \<and>
    (\<forall>k. in64 (pend_cur l p' k)) \<and>
    fmdom s' = fmdom s |\<union>| fset_of_list (map eAsset es) \<and>
    fmdom p' = fmdom p |\<union>| fset_of_list (map entry_key es) \<and>
    (\<forall>e \<in> set es. eAccount e \<noteq> [] \<and> eAsset e \<noteq> [] \<and> eAmount e \<noteq> 0) \<and>
    (\<forall>k. 0 \<le> pend_cur l p k \<or> isNegativeBalanceAllowed (fst k) \<longrightarrow>
         0 \<le> pend_cur l p' k \<or> isNegativeBalanceAllowed (fst k))"
  using assms
proof (induction es arbitrary: s p)
  case Nil
  then show ?case by simp
next
  case (Cons e es)
  from Cons.prems obtain s1 p1 where 1: "post_entry l e (s, p) = Inr (s1, p1)"
    and 2: "foldE (post_entry l) es (s1, p1) = Inr (s', p')"
    by (auto simp: bindE_eq_Inr)
  from Cons.prems have "in64 (eAmount e)" "in64 (fmget 0 s (eAsset e))"
    "in64 (pend_cur l p (entry_key e))" by auto
  note step = 1 [unfolded post_entry_Inr [OF this]]
  then have s1: "s1 = fmupd (eAsset e) (fmget 0 s (eAsset e) + eAmount e) s"
    and p1: "p1 = fmupd (entry_key e) (pend_cur l p (entry_key e) + eAmount e) p" by auto
  have "\<forall>e \<in> set es. in64 (eAmount e)" "\<forall>a. in64 (fmget 0 s1 a)" "\<forall>k. in64 (pend_cur l p1 k)"
    using step Cons.prems s1 p1 by auto
  note all = Cons.IH [OF 2 this]
  then have IH: "\<forall>a. fmget 0 s' a = fmget 0 s1 a + asset_net es a"
    "\<forall>k. pend_cur l p' k = pend_cur l p1 k + entry_net es k" "\<forall>k. in64 (pend_cur l p' k)"
    "fmdom s' = fmdom s1 |\<union>| fset_of_list (map eAsset es)"
    "fmdom p' = fmdom p1 |\<union>| fset_of_list (map entry_key es)"
    "\<forall>e \<in> set es. eAccount e \<noteq> [] \<and> eAsset e \<noteq> [] \<and> eAmount e \<noteq> 0"
    "\<forall>k. 0 \<le> pend_cur l p1 k \<or> isNegativeBalanceAllowed (fst k) \<longrightarrow>
         0 \<le> pend_cur l p' k \<or> isNegativeBalanceAllowed (fst k)"
    by blast+
  have "0 \<le> pend_cur l p1 k \<or> isNegativeBalanceAllowed (fst k)"
    if "0 \<le> pend_cur l p k \<or> isNegativeBalanceAllowed (fst k)" for k
    using that step p1 by (cases "k = entry_key e") auto
  moreover have "pend_cur l p' k = pend_cur l p k + entry_net (e # es) k" for k
    using IH(2) by (auto simp: p1 simp del: split_paired_All)
  moreover have "fmget 0 s' a = fmget 0 s a + asset_net (e # es) a" for a
    using IH(1) by (auto simp: s1)
  moreover have "fmdom s' = fmdom s |\<union>| fset_of_list (map eAsset (e # es))"
    "fmdom p' = fmdom p |\<union>| fset_of_list (map entry_key (e # es))"
    "\<forall>e \<in> set (e # es). eAccount e \<noteq> [] \<and> eAsset e \<noteq> [] \<and> eAmount e \<noteq> 0"
    using IH(4-6) step by (simp_all add: s1 p1)
  ultimately show ?case using IH(3,7) by blast
qed

text \<open>What a successful \<open>Post\<close> says of the transaction and of the ledger after it.\<close>

lemma Post_InrD:
  assumes "Post l tx = Inr l'" "tx64 tx" "bal64 l"
  shows "\<And>k. bal l' k = bal l k + entry_net (txEntries tx) k"
    and "\<And>a. asset_net (txEntries tx) a = 0"
    and "bal64 l'"
    and "fmdom (lBalances l') = fmdom (lBalances l) |\<union>| fset_of_list (map entry_key (txEntries tx))"
    and "\<forall>e \<in> set (txEntries tx). eAccount e \<noteq> [] \<and> eAsset e \<noteq> [] \<and> eAmount e \<noteq> 0"
    and "\<And>k. 0 \<le> bal l k \<or> isNegativeBalanceAllowed (fst k) \<Longrightarrow>
             0 \<le> bal l' k \<or> isNegativeBalanceAllowed (fst k)"
    and "lJournal l' = lJournal l @ [tx]" "lTransactionIDs l' = finsert (txID tx) (lTransactionIDs l)"
    and "txID tx |\<notin>| lTransactionIDs l" "txID tx \<noteq> []" "txReference tx \<noteq> []"
proof -
  from assms(1) obtain s p where
    loop: "foldE (post_entry l) (txEntries tx) (fmempty, fmempty) = Inr (s, p)"
    and zero: "fmpred (\<lambda>_ x. x = 0) s"
    and l': "l' = \<lparr> lBalances = lBalances l ++\<^sub>f p, lJournal = lJournal l @ [tx],
                    lTransactionIDs = finsert (txID tx) (lTransactionIDs l) \<rparr>"
    and ids: "txID tx |\<notin>| lTransactionIDs l" "txID tx \<noteq> []" "txReference tx \<noteq> []"
    by (auto simp: Post_def bindE_eq_Inr cloneTransaction_def split: if_splits)
  have pre: "\<forall>e \<in> set (txEntries tx). in64 (eAmount e)"
    "\<forall>a. in64 (fmget 0 (fmempty :: (Asset, int) fmap) a)" "\<forall>k. in64 (pend_cur l fmempty k)"
    using assms(2,3) by (auto simp: tx64_def bal64_def)
  note spec = post_entries_spec [OF loop pre]
  have bal': "bal l' k = pend_cur l p k" for k by (simp add: l' bal_fmadd)
  show "\<And>k. bal l' k = bal l k + entry_net (txEntries tx) k"
    using spec unfolding bal' by (simp del: split_paired_All)
  show "bal64 l'" using spec unfolding bal64_def bal' by blast
  show "fmdom (lBalances l') = fmdom (lBalances l) |\<union>| fset_of_list (map entry_key (txEntries tx))"
    using spec by (simp add: l')
  show "\<forall>e \<in> set (txEntries tx). eAccount e \<noteq> [] \<and> eAsset e \<noteq> [] \<and> eAmount e \<noteq> 0"
    using spec by simp
  show "0 \<le> bal l' k \<or> isNegativeBalanceAllowed (fst k)"
    if "0 \<le> bal l k \<or> isNegativeBalanceAllowed (fst k)" for k
    using spec that unfolding bal' pend_cur_simps(1) by blast
  show "asset_net (txEntries tx) a = 0" for a
  proof -
    have "fmget 0 s a = 0"
      using zero by (auto simp: fmget_def fmpred_iff split: option.splits)
    then show ?thesis using spec by (simp del: split_paired_All)
  qed
  show "lJournal l' = lJournal l @ [tx]" "lTransactionIDs l' = finsert (txID tx) (lTransactionIDs l)"
    by (simp_all add: l')
qed (use assms in \<open>auto simp: Post_def split: if_splits\<close>)

section \<open>The ledger is the replay of its journal\<close>

definition ledger_ok :: "Ledger \<Rightarrow> bool" where
  "ledger_ok l \<longleftrightarrow> post_all (lJournal l) Ledger_New = Inr l \<and> (\<forall>tx \<in> set (lJournal l). tx64 tx)"

lemma post_all_simps [simp]:
  "post_all [] l = Inr l"
  "post_all (tx # txs) l = bindE (Post l tx) (post_all txs)"
  "post_all (txs @ txs') l = bindE (post_all txs l) (post_all txs')"
  by (simp_all add: post_all_def foldE_append)

lemma ledger_ok_New [simp, intro]: "ledger_ok Ledger_New"
  by (simp add: ledger_ok_def Ledger_New_def)

lemma post_all_journal: "post_all txs l = Inr l' \<Longrightarrow> lJournal l' = lJournal l @ txs"
  by (induction txs arbitrary: l)
    (auto simp: bindE_eq_Inr Post_def cloneTransaction_def split: if_splits)

lemma ledger_ok_Post: "ledger_ok l \<Longrightarrow> tx64 tx \<Longrightarrow> Post l tx = Inr l' \<Longrightarrow> ledger_ok l'"
  by (auto simp: ledger_ok_def Post_def cloneTransaction_def bindE_eq_Inr split: if_splits)

lemma ledger_ok_post_all:
  "ledger_ok l \<Longrightarrow> \<forall>tx \<in> set txs. tx64 tx \<Longrightarrow> post_all txs l = Inr l' \<Longrightarrow> ledger_ok l'"
  by (induction txs arbitrary: l) (auto simp: bindE_eq_Inr dest: ledger_ok_Post)

text \<open>Induction over the transactions that built the ledger.\<close>

lemma ledger_ok_induct [consumes 1, case_names New Post]:
  assumes "ledger_ok l"
    and "P Ledger_New"
    and "\<And>l tx l'. ledger_ok l \<Longrightarrow> P l \<Longrightarrow> tx64 tx \<Longrightarrow> Post l tx = Inr l' \<Longrightarrow> P l'"
  shows "P l"
proof -
  have "post_all txs Ledger_New = Inr l \<Longrightarrow> \<forall>tx \<in> set txs. tx64 tx \<Longrightarrow> P l \<and> ledger_ok l" for txs l
  proof (induction txs arbitrary: l rule: rev_induct)
    case Nil
    then show ?case using assms(2) by simp
  next
    case (snoc tx txs)
    then obtain l1 where "post_all txs Ledger_New = Inr l1" "Post l1 tx = Inr l"
      by (auto simp: bindE_eq_Inr)
    with snoc assms(3) show ?case by (auto intro: ledger_ok_Post)
  qed
  with assms(1) show ?thesis by (auto simp: ledger_ok_def)
qed

lemma ledger_ok_bal64: "ledger_ok l \<Longrightarrow> bal64 l"
  by (induction rule: ledger_ok_induct) (simp_all add: bal64_def Ledger_New_def Post_InrD(3) [unfolded bal64_def])

lemma ledger_ok_nonneg: "ledger_ok l \<Longrightarrow> 0 \<le> bal l k \<or> isNegativeBalanceAllowed (fst k)"
proof (induction rule: ledger_ok_induct)
  case New
  show ?case by (simp add: Ledger_New_def)
next
  case (Post l tx l')
  then show ?case using Post_InrD(6) ledger_ok_bal64 by blast
qed

lemma ledger_ok_keys: "ledger_ok l \<Longrightarrow> k |\<in>| fmdom (lBalances l) \<Longrightarrow> fst k \<noteq> [] \<and> snd k \<noteq> []"
proof (induction rule: ledger_ok_induct)
  case New
  then show ?case by (simp add: Ledger_New_def)
next
  case (Post l tx l')
  then show ?case
    using Post_InrD(4,5) [OF Post.hyps(3,2) ledger_ok_bal64 [OF Post.hyps(1)]]
    by (auto simp: fset_of_list_elem)
qed

text \<open>Conservation: the balances of an asset, over all accounts, sum to zero.\<close>

definition asset_total :: "Ledger \<Rightarrow> Asset \<Rightarrow> int" where
  "asset_total l a = (\<Sum>k \<in> fset (fmdom (lBalances l)). if snd k = a then bal l k else 0)"

lemma asset_total_superset:
  assumes "finite A" "fset (fmdom (lBalances l)) \<subseteq> A"
  shows "asset_total l a = (\<Sum>k \<in> A. if snd k = a then bal l k else 0)"
  unfolding asset_total_def
  using assms by (intro sum.mono_neutral_left) (auto simp: fmget_notin)

lemma sum_entry_net:
  assumes "finite A" "entry_key ` set es \<subseteq> A"
  shows "(\<Sum>k \<in> A. if snd k = a then entry_net es k else 0) = asset_net es a"
  using assms(2)
proof (induction es)
  case Nil
  show ?case by (simp cong: if_cong)
next
  case (Cons e es)
  have "(\<Sum>k \<in> A. if snd k = a then if entry_key e = k then eAmount e else 0 else 0) =
        (\<Sum>k \<in> A. if k = entry_key e then if eAsset e = a then eAmount e else 0 else 0)"
    by (intro sum.cong) auto
  also have "\<dots> = (if eAsset e = a then eAmount e else 0)"
    using Cons.prems assms(1) by simp
  finally have one: "(\<Sum>k \<in> A. if snd k = a then if entry_key e = k then eAmount e else 0 else 0) =
      (if eAsset e = a then eAmount e else 0)" .
  have "(\<Sum>k \<in> A. if snd k = a then entry_net (e # es) k else 0) =
      (\<Sum>k \<in> A. (if snd k = a then if entry_key e = k then eAmount e else 0 else 0) +
        (if snd k = a then entry_net es k else 0))"
    by (intro sum.cong) auto
  with one Cons show ?case by (simp add: sum.distrib)
qed

lemma ledger_ok_asset_total: "ledger_ok l \<Longrightarrow> asset_total l a = 0"
proof (induction rule: ledger_ok_induct)
  case New
  show ?case by (simp add: asset_total_def Ledger_New_def)
next
  case (Post l tx l')
  note D = Post_InrD [OF Post.hyps(3,2) ledger_ok_bal64 [OF Post.hyps(1)]]
  let ?A = "fset (fmdom (lBalances l'))"
  have sub: "fset (fmdom (lBalances l)) \<subseteq> ?A" "entry_key ` set (txEntries tx) \<subseteq> ?A"
    by (auto simp: D(4) fset_of_list.rep_eq)
  have "asset_total l' a = (\<Sum>k \<in> ?A. (if snd k = a then bal l k else 0) +
      (if snd k = a then entry_net (txEntries tx) k else 0))"
    unfolding asset_total_def by (intro sum.cong) (auto simp: D(1))
  also have "\<dots> = asset_total l a + asset_net (txEntries tx) a"
    by (simp add: sum.distrib sum_entry_net [OF _ sub(2)] asset_total_superset [OF _ sub(1)])
  finally show ?case using Post D(2) by simp
qed

section \<open>Snapshots round trip\<close>

lemma Balances_sorted: "sorted (map (\<lambda>b. (bAccount b, bAsset b)) (Balances l))"
  and Balances_distinct: "distinct (map (\<lambda>b. (bAccount b, bAsset b)) (Balances l))"
proof -
  have "map (\<lambda>b. (bAccount b, bAsset b)) (Balances l) = map fst (sorted_list_of_fmap (lBalances l))"
    by (simp add: Balances_def comp_def case_prod_beta)
  then show "sorted (map (\<lambda>b. (bAccount b, bAsset b)) (Balances l))"
    "distinct (map (\<lambda>b. (bAccount b, bAsset b)) (Balances l))"
    by (simp_all only: sorted_list_of_fmap_props)
qed

lemma set_Balances: "b \<in> set (Balances l) \<longleftrightarrow> fmlookup (lBalances l) (bAccount b, bAsset b) = Some (bAmount b)"
  by (auto simp: Balances_def sorted_list_of_fmap_props image_iff intro!: exI)

lemma clone_id [simp]:
  "cloneJournal j = j" "Ledger_Journal l = lJournal l" "Ledger_Clone l = l"
proof -
  show "cloneJournal j = j" for j
    by (simp add: cloneJournal_def cloneTransaction_def map_idI)
  then show "Ledger_Journal l = lJournal l" "Ledger_Clone l = l"
    by (simp_all add: Ledger_Journal_def Ledger_Clone_def)
qed

lemma Ledger_FromSnapshot_Snapshot: "ledger_ok l \<Longrightarrow> Ledger_FromSnapshot (Ledger_Snapshot l) = Inr l"
  by (simp add: Ledger_FromSnapshot_def Ledger_Snapshot_def ledger_ok_def Let_def
      sort_key_id_if_sorted Balances_sorted)

lemma Ledger_Validate_ok: "ledger_ok l \<Longrightarrow> Ledger_Validate l = Inr ()"
  by (simp add: Ledger_Validate_def ledger_ok_def)

lemma Ledger_FromSnapshot_ok:
  "Ledger_FromSnapshot s = Inr l \<Longrightarrow> \<forall>tx \<in> set (lsJournal s). tx64 tx \<Longrightarrow> ledger_ok l \<and> lJournal l = lsJournal s"
  using post_all_journal [of "lsJournal s" Ledger_New l]
  by (auto simp: Ledger_FromSnapshot_def bindE_eq_Inr Let_def ledger_ok_def Ledger_New_def split: if_splits)

section \<open>Accounts of the exchange\<close>

definition exchange_account :: "balanceKey \<Rightarrow> bool" where
  "exchange_account k \<longleftrightarrow>
     fst k = SystemTreasury (snd k) \<or> fst k = PlatformFee (snd k) \<or> prefix ''user:'' (fst k)"

definition accounts_ok :: "Ledger \<Rightarrow> bool" where
  "accounts_ok l \<longleftrightarrow> (\<forall>k. k |\<in>| fmdom (lBalances l) \<longrightarrow> exchange_account k)"

definition tx_accounts_ok :: "Transaction \<Rightarrow> bool" where
  "tx_accounts_ok tx \<longleftrightarrow> (\<forall>e \<in> set (txEntries tx). exchange_account (entry_key e))"

lemma account_names [simp]:
  "UserAvailable a = UserAvailable b \<longleftrightarrow> a = b" "UserHeld a = UserHeld b \<longleftrightarrow> a = b"
  "UserAvailable a \<noteq> UserHeld b" "UserHeld a \<noteq> UserAvailable b"
  "UserAvailable a \<noteq> []" "UserHeld a \<noteq> []" "PlatformFee x \<noteq> []" "SystemTreasury x \<noteq> []"
  "PlatformFee x \<noteq> UserAvailable a" "PlatformFee x \<noteq> UserHeld a"
  "SystemTreasury x \<noteq> UserAvailable a" "SystemTreasury x \<noteq> UserHeld a"
  "UserAvailable a \<noteq> PlatformFee x" "UserHeld a \<noteq> PlatformFee x"
  "UserAvailable a \<noteq> SystemTreasury x" "UserHeld a \<noteq> SystemTreasury x"
  "SystemTreasury x = SystemTreasury y \<longleftrightarrow> x = y" "PlatformFee x = PlatformFee y \<longleftrightarrow> x = y"
  "PlatformFee x \<noteq> SystemTreasury y" "SystemTreasury x \<noteq> PlatformFee y"
proof -
  have "last (UserAvailable a) = CHR ''e''" "last (UserHeld b) = CHR ''d''" for a b
    by (simp_all add: UserAvailable_def UserHeld_def)
  moreover have last_chars: "CHR ''e'' \<noteq> CHR ''d''" by simp
  ultimately show "UserAvailable a \<noteq> UserHeld b" "UserHeld a \<noteq> UserAvailable b"
    by (metis last_chars)+
qed (simp_all add: UserAvailable_def UserHeld_def PlatformFee_def SystemTreasury_def)

lemma negative_allowed [simp]:
  "\<not> isNegativeBalanceAllowed (UserAvailable a)" "\<not> isNegativeBalanceAllowed (UserHeld a)"
  "\<not> isNegativeBalanceAllowed (PlatformFee x)" "isNegativeBalanceAllowed (SystemTreasury x)"
  by (simp_all add: isNegativeBalanceAllowed_def UserAvailable_def UserHeld_def PlatformFee_def SystemTreasury_def)

lemma exchange_account_simps [simp]:
  "exchange_account (UserAvailable a, x)" "exchange_account (UserHeld a, x)"
  "exchange_account (PlatformFee x, x)" "exchange_account (SystemTreasury x, x)"
  by (simp_all add: exchange_account_def UserAvailable_def UserHeld_def)

lemma exchange_account_negative:
  "exchange_account k \<Longrightarrow> isNegativeBalanceAllowed (fst k) \<longleftrightarrow> fst k = SystemTreasury (snd k)"
  by (auto simp: exchange_account_def isNegativeBalanceAllowed_def PlatformFee_def SystemTreasury_def
      prefix_def)

text \<open>The sorted order of the accounts of an asset: fees, then the treasury, then users.\<close>

lemma exchange_account_before_treasury:
  assumes "exchange_account k" "fst k \<le> SystemTreasury (snd k)" "fst k \<noteq> SystemTreasury (snd k)"
  shows "fst k = PlatformFee (snd k)"
proof -
  have "\<not> prefix ''user:'' (fst k)"
    using assms(2) by (auto simp: prefix_def SystemTreasury_def less_eq_char_def)
  with assms show ?thesis by (auto simp: exchange_account_def)
qed

lemma accounts_ok_New [simp]: "accounts_ok Ledger_New"
  by (simp add: accounts_ok_def Ledger_New_def)

lemma accounts_ok_Post:
  assumes "ledger_ok l" "accounts_ok l" "tx64 tx" "tx_accounts_ok tx" "Post l tx = Inr l'"
  shows "accounts_ok l'"
  using assms Post_InrD(4) [OF assms(5,3) ledger_ok_bal64 [OF assms(1)]]
  by (auto simp: accounts_ok_def tx_accounts_ok_def fset_of_list_elem)

section \<open>Compaction\<close>

abbreviation balance_entry :: "Balance \<Rightarrow> Entry" where
  "balance_entry b \<equiv> \<lparr> eAccount = bAccount b, eAsset = bAsset b, eAmount = bAmount b \<rparr>"

definition asset_entries :: "Ledger \<Rightarrow> Asset \<Rightarrow> Entry list" where
  "asset_entries l a = map balance_entry (filter (\<lambda>b. bAsset b = a \<and> bAmount b \<noteq> 0) (Balances l))"

lemma compact_byAsset_fold:
  "fmlookup (fold (\<lambda>balance byAsset.
        if bAmount balance = 0 then byAsset
        else fmupd (bAsset balance)
               (fmget [] byAsset (bAsset balance) @ [balance_entry balance]) byAsset) bs m) a =
   (let es = map balance_entry (filter (\<lambda>b. bAsset b = a \<and> bAmount b \<noteq> 0) bs)
    in if es = [] then fmlookup m a else Some (fmget [] m a @ es))"
  by (induction bs arbitrary: m) (auto simp: Let_def fmget_def split: option.splits)

lemma compact_byAsset_lookup:
  "fmlookup (compact_byAsset (Balances l)) a =
     (if asset_entries l a = [] then None else Some (asset_entries l a))"
  unfolding compact_byAsset_def compact_byAsset_fold by (simp add: asset_entries_def Let_def)

lemma compact_assets: "a |\<in>| fmdom (compact_byAsset (Balances l)) \<longleftrightarrow> asset_entries l a \<noteq> []"
  by (auto simp: fmlookup_dom_iff compact_byAsset_lookup)

lemma asset_entries_mem:
  "e \<in> set (asset_entries l a) \<longleftrightarrow>
     eAsset e = a \<and> eAmount e \<noteq> 0 \<and> fmlookup (lBalances l) (entry_key e) = Some (eAmount e)"
proof (cases e)
  case (fields acc ast amt)
  then show ?thesis
    by (auto simp: asset_entries_def set_Balances image_iff
        intro!: exI [of _ "\<lparr> bAccount = acc, bAsset = ast, bAmount = amt \<rparr>"])
qed

lemma asset_entries_distinct: "distinct (map entry_key (asset_entries l a))"
proof -
  have "map entry_key (asset_entries l a) =
      map (\<lambda>b. (bAccount b, bAsset b)) (filter (\<lambda>b. bAsset b = a \<and> bAmount b \<noteq> 0) (Balances l))"
    by (simp add: asset_entries_def comp_def)
  then show ?thesis using Balances_distinct [of l] by (simp add: distinct_map_filter)
qed

lemma asset_entries_sorted: "sorted (map eAccount (asset_entries l a))"
proof -
  have "sorted_wrt (\<lambda>b c. (bAccount b, bAsset b) \<le> (bAccount c, bAsset c)) (Balances l)"
    using Balances_sorted [of l] by (simp add: sorted_map)
  then have "sorted_wrt (\<lambda>b c. bAccount b \<le> bAccount c) (Balances l)"
    by (rule sorted_wrt_mono_rel [rotated]) auto
  then have "sorted_wrt (\<lambda>b c. bAccount b \<le> bAccount c)
      (filter (\<lambda>b. bAsset b = a \<and> bAmount b \<noteq> 0) (Balances l))"
    by (rule sorted_wrt_filter)
  then show ?thesis by (simp add: asset_entries_def comp_def sorted_map)
qed

lemma entry_net_distinct:
  "distinct (map entry_key es) \<Longrightarrow> e \<in> set es \<Longrightarrow> entry_net es (entry_key e) = eAmount e"
proof (induction es)
  case Nil
  then show ?case by simp
next
  case (Cons x es)
  have "k \<notin> entry_key ` set es \<Longrightarrow> entry_net es k = 0" for k
    by (induction es) auto
  with Cons show ?case by (auto simp: image_iff)
qed

lemma entry_net_notin: "k \<notin> entry_key ` set es \<Longrightarrow> entry_net es k = 0"
  by (induction es) auto

lemma asset_entries_net: "entry_net (asset_entries l a) k = (if snd k = a then bal l k else 0)"
proof (cases "k \<in> entry_key ` set (asset_entries l a)")
  case True
  then obtain e where e: "e \<in> set (asset_entries l a)" "k = entry_key e" by auto
  then show ?thesis
    using entry_net_distinct [OF asset_entries_distinct e(1)]
    by (auto simp: asset_entries_mem fmget_def)
next
  case False
  have "bal l k = 0" if "snd k = a"
  proof (rule ccontr)
    assume nz: "bal l k \<noteq> 0"
    then have "fmlookup (lBalances l) k = Some (bal l k)"
      by (auto simp: fmget_def split: option.splits)
    with that nz have "\<lparr> eAccount = fst k, eAsset = a, eAmount = bal l k \<rparr> \<in> set (asset_entries l a)"
      by (auto simp: asset_entries_mem)
    with False that show False by (force simp: image_iff)
  qed
  with False show ?thesis by (simp add: entry_net_notin)
qed

lemma asset_entries_sum:
  assumes "ledger_ok l"
  shows "(\<Sum>e\<leftarrow>asset_entries l a. eAmount e) = 0"
proof -
  let ?es = "asset_entries l a" and ?A = "fset (fmdom (lBalances l))"
  have "(\<Sum>e\<leftarrow>?es. eAmount e) = asset_net ?es a"
    unfolding asset_net_def
    by (intro arg_cong [of _ _ sum_list] map_cong) (auto simp: asset_entries_mem)
  also have "\<dots> = (\<Sum>k \<in> ?A. if snd k = a then entry_net ?es k else 0)"
    by (rule sum_entry_net [symmetric]) (auto simp: asset_entries_mem fmlookup_dom_iff)
  also have "\<dots> = asset_total l a"
    unfolding asset_total_def by (intro sum.cong) (auto simp: asset_entries_net)
  finally show ?thesis using assms by (simp add: ledger_ok_asset_total)
qed


lemma asset_entries_split_sum:
  assumes "ledger_ok l" "accounts_ok l" "asset_entries l a = xs @ ys"
  shows "in64 (\<Sum>e\<leftarrow>xs. eAmount e)"
proof -
  let ?T = "\<lambda>e. eAccount e = SystemTreasury a"
  have mem: "eAsset e = a \<and> eAmount e = bal l (entry_key e) \<and> exchange_account (entry_key e) \<and>
      in64 (eAmount e)" if "e \<in> set xs \<union> set ys" for e
  proof -
    from that have "e \<in> set (asset_entries l a)" using assms(3) by auto
    then have "eAsset e = a" "fmlookup (lBalances l) (entry_key e) = Some (eAmount e)"
      by (auto simp: asset_entries_mem)
    moreover from this have "eAmount e = bal l (entry_key e)" by (simp add: fmget_Some)
    ultimately show ?thesis
      using assms(2) ledger_ok_bal64 [OF assms(1)] by (auto simp: accounts_ok_def bal64_def fmdomI)
  qed
  have pos: "0 \<le> eAmount e" if "e \<in> set xs \<union> set ys" "\<not> ?T e" for e
    using mem [OF that(1)] that(2) ledger_ok_nonneg [OF assms(1), of "entry_key e"]
      exchange_account_negative [of "entry_key e"] by auto
  have total: "(\<Sum>e\<leftarrow>xs. eAmount e) + (\<Sum>e\<leftarrow>ys. eAmount e) = 0"
    using asset_entries_sum [OF assms(1), of a] assms(3) by simp
  have nn: "0 \<le> (\<Sum>e\<leftarrow>zs. eAmount e)" if "set zs \<subseteq> set xs \<union> set ys" "\<forall>e \<in> set zs. \<not> ?T e" for zs
    using that pos by (intro sum_list_nonneg) auto
  have dist: "distinct (map eAccount (xs @ ys))"
    using asset_entries_distinct [of l a] mem
    by (auto simp: assms(3) distinct_map inj_on_def)
  show ?thesis
  proof (cases "\<exists>t \<in> set xs. ?T t")
    case True
    then obtain t us vs where xs: "xs = us @ t # vs" and t: "?T t" by (meson split_list)
    then have "\<forall>e \<in> set (us @ vs @ ys). \<not> ?T e" using dist by (auto simp: image_iff)
    then have "0 \<le> (\<Sum>e\<leftarrow>us @ vs. eAmount e)" "0 \<le> (\<Sum>e\<leftarrow>ys. eAmount e)"
      using nn [of "us @ vs"] nn [of ys] xs by auto
    moreover have "in64 (eAmount t)" using mem [of t] xs by auto
    ultimately show ?thesis using total xs by (auto simp: in64_def MaxInt64_def)
  next
    case noT: False
    then have nonneg: "0 \<le> (\<Sum>e\<leftarrow>xs. eAmount e)" using nn [of xs] by auto
    show ?thesis
    proof (cases "\<exists>t \<in> set ys. ?T t")
      case True
      then obtain t where t: "t \<in> set ys" "?T t" by auto
      have fee: "eAccount e = PlatformFee a" if "e \<in> set xs" for e
      proof -
        have "eAccount e \<le> eAccount t"
          using asset_entries_sorted [of l a] t(1) that by (auto simp: assms(3) sorted_append)
        then have "eAccount e \<le> SystemTreasury a" using t(2) by simp
        then show ?thesis using exchange_account_before_treasury [of "entry_key e"] mem [of e] that noT
          by auto
      qed
      then have "card (set (map eAccount xs)) \<le> card {PlatformFee a}"
        by (intro card_mono) auto
      moreover have "card (set (map eAccount xs)) = length xs"
        using dist distinct_card [of "map eAccount xs"] by simp
      ultimately have "length xs \<le> 1" by simp
      moreover have "\<forall>e \<in> set xs. in64 (eAmount e)" using mem by blast
      ultimately show ?thesis by (cases xs) auto
    next
      case False
      then have "0 \<le> (\<Sum>e\<leftarrow>ys. eAmount e)" using nn [of ys] by auto
      with nonneg total show ?thesis by (simp add: in64_def MaxInt64_def MinInt64_def)
    qed
  qed
qed

lemma post_entries_fresh:
  assumes "distinct (map entry_key es)"
    and "\<forall>e \<in> set es. eAccount e \<noteq> [] \<and> eAsset e \<noteq> [] \<and> eAmount e \<noteq> 0 \<and> in64 (eAmount e) \<and> eAsset e = a"
    and "\<forall>e \<in> set es. pend_cur l p (entry_key e) = 0"
    and "\<forall>e \<in> set es. 0 \<le> eAmount e \<or> isNegativeBalanceAllowed (eAccount e)"
    and "\<And>xs ys. es = xs @ ys \<Longrightarrow> in64 (fmget 0 s a + (\<Sum>e\<leftarrow>xs. eAmount e))"
  shows "\<exists>s' p'. foldE (post_entry l) es (s, p) = Inr (s', p')"
  using assms
proof (induction es arbitrary: s p)
  case Nil
  show ?case by simp
next
  case (Cons e es)
  let ?s = "fmupd (eAsset e) (fmget 0 s (eAsset e) + eAmount e) s"
  let ?p = "fmupd (entry_key e) (pend_cur l p (entry_key e) + eAmount e) p"
  have "in64 (fmget 0 s a)" using Cons.prems(5) [of "[]"] by simp
  moreover have "in64 (fmget 0 s a + eAmount e)" using Cons.prems(5) [of "[e]"] by simp
  ultimately have "post_entry l e (s, p) = Inr (?s, ?p)"
    using Cons.prems(2-4) by (subst post_entry_Inr) auto
  moreover have "\<exists>s' p'. foldE (post_entry l) es (?s, ?p) = Inr (s', p')"
  proof (rule Cons.IH)
    fix xs ys assume "es = xs @ ys"
    then show "in64 (fmget 0 ?s a + (\<Sum>e\<leftarrow>xs. eAmount e))"
      using Cons.prems(5) [of "e # xs" ys] Cons.prems(2) by (simp add: ac_simps)
  qed (use Cons.prems in auto)
  ultimately show ?case by simp
qed


lemma checkpoint_id_inj [simp]: "checkpoint_id a = checkpoint_id b \<longleftrightarrow> a = b" "checkpoint_id a \<noteq> []"
  by (simp_all add: checkpoint_id_def)

lemma asset_net_same:
  "\<forall>e \<in> set es. eAsset e = a \<Longrightarrow> asset_net es x = (if x = a then (\<Sum>e\<leftarrow>es. eAmount e) else 0)"
  by (induction es) auto

lemma asset_entries_length:
  assumes "ledger_ok l" "asset_entries l a \<noteq> []"
  shows "2 \<le> length (asset_entries l a)"
proof (rule ccontr)
  assume "\<not> 2 \<le> length (asset_entries l a)"
  with assms(2) obtain e where "asset_entries l a = [e]"
    by (cases "asset_entries l a"; cases "tl (asset_entries l a)") auto
  with asset_entries_sum [OF assms(1), of a] asset_entries_mem [of e l a] show False by simp
qed

text \<open>The checkpoint of one asset can be posted on any ledger that holds nothing of the asset.\<close>

lemma Post_checkpoint:
  assumes "ledger_ok l" "accounts_ok l" "asset_entries l a \<noteq> []"
    and "ledger_ok c" "\<And>k. snd k = a \<Longrightarrow> bal c k = 0"
    and "txID (checkpoint_tx a es) |\<notin>| lTransactionIDs c" "es = asset_entries l a"
  shows "\<exists>c'. Post c (checkpoint_tx a es) = Inr c'"
proof -
  have mem: "eAsset e = a \<and> eAmount e = bal l (entry_key e) \<and> entry_key e |\<in>| fmdom (lBalances l)
      \<and> eAmount e \<noteq> 0" if "e \<in> set es" for e
    using that assms(7) by (auto simp: asset_entries_mem fmdomI fmget_Some)
  have "\<exists>s p. foldE (post_entry c) es (fmempty, fmempty) = Inr (s, p)"
  proof (rule post_entries_fresh [where a = a])
    show "distinct (map entry_key es)" using asset_entries_distinct assms(7) by simp
    show "\<forall>e \<in> set es. eAccount e \<noteq> [] \<and> eAsset e \<noteq> [] \<and> eAmount e \<noteq> 0 \<and> in64 (eAmount e) \<and> eAsset e = a"
      using mem ledger_ok_keys [OF assms(1)] ledger_ok_bal64 [OF assms(1)] by (force simp: bal64_def)
    show "\<forall>e \<in> set es. pend_cur c fmempty (entry_key e) = 0" using mem assms(5) by simp
    show "\<forall>e \<in> set es. 0 \<le> eAmount e \<or> isNegativeBalanceAllowed (eAccount e)"
      using mem ledger_ok_nonneg [OF assms(1)] by force
    show "in64 (fmget 0 (fmempty :: (Asset, int) fmap) a + (\<Sum>e\<leftarrow>xs. eAmount e))" if "es = xs @ ys" for xs ys
      using asset_entries_split_sum [OF assms(1,2)] that assms(7) by simp
  qed
  then obtain s p where loop: "foldE (post_entry c) es (fmempty, fmempty) = Inr (s, p)" by blast
  have spec: "\<forall>x. fmget 0 s x = fmget 0 fmempty x + asset_net es x"
    using post_entries_spec [OF loop] mem ledger_ok_bal64 [OF assms(1)] ledger_ok_bal64 [OF assms(4)]
    by (auto simp: bal64_def)
  have "asset_net es x = 0" for x
    using asset_net_same [of es a x] mem asset_entries_sum [OF assms(1)] assms(7) by auto
  with spec have "fmpred (\<lambda>_ x. x = 0) s" by (auto simp: fmpred_iff fmget_def split: option.splits)
  then show ?thesis
    using loop assms(6,7) asset_entries_length [OF assms(1,3)]
    by (auto simp: Post_def checkpoint_tx_def)
qed


lemma Compact_loop:
  assumes l: "ledger_ok l" "accounts_ok l"
    and "distinct assets" "\<forall>a \<in> set assets. asset_entries l a \<noteq> []"
  shows "\<exists>c. foldE (\<lambda>asset compacted.
        let entries = fmget [] (compact_byAsset (Balances l)) asset in
        if length entries < 2 then Inl ErrUnbalancedTransaction
        else Post compacted (checkpoint_tx asset entries)) assets Ledger_New = Inr c \<and>
      ledger_ok c \<and> accounts_ok c \<and> (\<forall>k. bal c k = (if snd k \<in> set assets then bal l k else 0)) \<and>
      lTransactionIDs c = fset_of_list (map checkpoint_id assets) \<and>
      lJournal c = map (\<lambda>a. checkpoint_tx a (asset_entries l a)) assets"
  using assms(3,4)
proof (induction assets rule: rev_induct)
  case Nil
  show ?case by simp (simp add: Ledger_New_def)
next
  case (snoc a assets)
  then obtain c where c: "foldE (\<lambda>asset compacted.
        let entries = fmget [] (compact_byAsset (Balances l)) asset in
        if length entries < 2 then Inl ErrUnbalancedTransaction
        else Post compacted (checkpoint_tx asset entries)) assets Ledger_New = Inr c"
    and ok: "ledger_ok c" "accounts_ok c"
    and bal: "\<And>k. bal c k = (if snd k \<in> set assets then bal l k else 0)"
    and ids: "lTransactionIDs c = fset_of_list (map checkpoint_id assets)"
    and jrn: "lJournal c = map (\<lambda>a. checkpoint_tx a (asset_entries l a)) assets"
    by auto
  let ?es = "asset_entries l a" and ?tx = "checkpoint_tx a (asset_entries l a)"
  have ne: "?es \<noteq> []" and new: "a \<notin> set assets" using snoc.prems by auto
  have entries: "fmget [] (compact_byAsset (Balances l)) a = ?es"
    using ne by (simp add: fmget_def compact_byAsset_lookup)
  have fresh: "txID ?tx |\<notin>| lTransactionIDs c"
    using new by (auto simp: ids checkpoint_tx_def fset_of_list_elem)
  have "bal c k = 0" if "snd k = a" for k using bal new that by simp
  from Post_checkpoint [OF l ne ok(1) this fresh refl] obtain c' where c': "Post c ?tx = Inr c'"
    by blast
  have tx: "tx64 ?tx" "tx_accounts_ok ?tx"
    using l ledger_ok_bal64 [OF l(1)]
    by (auto simp: tx64_def tx_accounts_ok_def checkpoint_tx_def asset_entries_mem bal64_def
        accounts_ok_def fmdomI dest: fmget_Some [of _ _ _ 0] split: if_splits) (metis fmget_Some)
  note D = Post_InrD [OF c' tx(1) ledger_ok_bal64 [OF ok(1)]]
  have "bal c' k = (if snd k \<in> set (assets @ [a]) then bal l k else 0)" for k
    using D(1) new by (auto simp: bal asset_entries_net checkpoint_tx_def)
  moreover have "ledger_ok c'" "accounts_ok c'"
    using ledger_ok_Post [OF ok(1) tx(1) c'] accounts_ok_Post [OF ok tx c'] by auto
  moreover have "lTransactionIDs c' = fset_of_list (map checkpoint_id (assets @ [a]))"
    using D(8) by (simp add: ids checkpoint_tx_def)
  ultimately show ?case
    using c c' asset_entries_length [OF l(1) ne] D(7)
    by (simp add: foldE_append entries jrn del: split_paired_All)
qed

text \<open>
  Compaction never fails on a ledger of the exchange, and no balance changes: only the journal
  and the transaction identifiers are replaced by one balanced checkpoint per asset.
\<close>

lemma Compact_spec:
  assumes "ledger_ok l" "accounts_ok l"
  shows "\<exists>c. Compact l = Inr c \<and> ledger_ok c \<and> accounts_ok c \<and> (\<forall>k. bal c k = bal l k) \<and>
    (\<forall>i. i |\<in>| lTransactionIDs c \<longrightarrow> prefix ''runtime-checkpoint:'' i)"
proof -
  let ?assets = "sorted_list_of_fset (fmdom (compact_byAsset (Balances l)))"
  have set: "a \<in> set ?assets \<longleftrightarrow> asset_entries l a \<noteq> []" for a
    by (simp add: compact_assets)
  have "distinct ?assets" by (simp add: sorted_list_of_fset.rep_eq)
  from Compact_loop [OF assms this] set obtain c where c: "foldE (\<lambda>asset compacted.
        let entries = fmget [] (compact_byAsset (Balances l)) asset in
        if length entries < 2 then Inl ErrUnbalancedTransaction
        else Post compacted (checkpoint_tx asset entries)) ?assets Ledger_New = Inr c"
    and ok: "ledger_ok c" "accounts_ok c"
    and bal: "\<forall>k. bal c k = (if snd k \<in> set ?assets then bal l k else 0)"
    and ids: "lTransactionIDs c = fset_of_list (map checkpoint_id ?assets)"
    by auto
  have "Compact l = Inr c"
    unfolding Compact_def Let_def c [unfolded Let_def] by (simp add: Ledger_Validate_ok [OF ok(1)])
  moreover have "bal c k = bal l k" for k
  proof (cases "snd k \<in> set ?assets")
    case True
    with bal show ?thesis by (simp del: split_paired_All)
  next
    case False
    then have "entry_net (asset_entries l (snd k)) k = 0" using set [of "snd k"] by simp
    with False bal asset_entries_net [of l "snd k" k] show ?thesis by (simp del: split_paired_All)
  qed
  moreover have "\<forall>i. i |\<in>| lTransactionIDs c \<longrightarrow> prefix ''runtime-checkpoint:'' i"
    by (auto simp: ids fset_of_list_elem checkpoint_id_def)
  ultimately show ?thesis using ok by blast
qed

section \<open>Funding, holding and releasing\<close>

abbreviation move_tx :: "string \<Rightarrow> string \<Rightarrow> string \<Rightarrow> string \<Rightarrow> Asset \<Rightarrow> int \<Rightarrow> Transaction" where
  "move_tx txid reference from to asset amount \<equiv>
     \<lparr> txID = txid, txReference = reference,
       txEntries = [\<lparr> eAccount = from, eAsset = asset, eAmount = sub64 0 amount \<rparr>,
                    \<lparr> eAccount = to, eAsset = asset, eAmount = amount \<rparr>] \<rparr>"

lemma neg64: "0 < amount \<Longrightarrow> in64 amount \<Longrightarrow> sub64 0 amount = - amount"
  by (auto simp: sub64_def in64_def MaxInt64_def MinInt64_def intro!: wrap64_id)

lemma move_tx_ok:
  "in64 amount \<Longrightarrow> tx64 (move_tx txid reference from to asset amount)"
  "exchange_account (from, asset) \<Longrightarrow> exchange_account (to, asset) \<Longrightarrow>
     tx_accounts_ok (move_tx txid reference from to asset amount)"
  by (auto simp: tx64_def tx_accounts_ok_def sub64_def in64_wrap64)

lemma Post_move_InrD:
  assumes "Post l (move_tx txid reference from to asset amount) = Inr l'"
    and "ledger_ok l" "0 < amount" "in64 amount"
  shows "ledger_ok l'"
    "\<And>k. bal l' k = bal l k + (if k = (to, asset) then amount else 0)
                       - (if k = (from, asset) then amount else 0)"
    "lJournal l' = lJournal l @ [move_tx txid reference from to asset amount]"
    "lTransactionIDs l' = finsert txid (lTransactionIDs l)"
  using Post_InrD(1,7,8) [OF assms(1) move_tx_ok(1) [OF assms(4)] ledger_ok_bal64 [OF assms(2)]]
    ledger_ok_Post [OF assms(2) move_tx_ok(1) [OF assms(4)] assms(1)]
  by (auto simp: neg64 [OF assms(3,4)])

lemma Post_move_accounts:
  assumes "Post l (move_tx txid reference from to asset amount) = Inr l'"
    and "ledger_ok l" "accounts_ok l" "in64 amount" "exchange_account (from, asset)" "exchange_account (to, asset)"
  shows "accounts_ok l'"
  using accounts_ok_Post [OF assms(2,3) move_tx_ok(1) [OF assms(4)] move_tx_ok(2) [OF assms(5,6)] assms(1)] .

text \<open>Every outcome of a transfer between two accounts that may not go negative.\<close>

lemma Ledger_move_spec:
  assumes "ledger_ok l" "in64 amount" "from \<noteq> to" "from \<noteq> []" "to \<noteq> []" "asset \<noteq> []"
    and "txid \<noteq> []" "reference \<noteq> []" "txid |\<notin>| lTransactionIDs l"
    and "\<not> isNegativeBalanceAllowed from" "\<not> isNegativeBalanceAllowed to"
  shows "Ledger_move l txid reference from to asset amount =
    (if amount \<le> 0 then Inl ErrInvalidTransaction
     else if bal l (from, asset) < amount then Inl ErrInsufficientBalance
     else if bal l (to, asset) + amount > MaxInt64 then Inl ErrInvalidTransaction
     else Inr \<lparr> lBalances = fmupd (to, asset) (bal l (to, asset) + amount)
                  (fmupd (from, asset) (bal l (from, asset) - amount) (lBalances l)),
                lJournal = lJournal l @ [move_tx txid reference from to asset amount],
                lTransactionIDs = finsert txid (lTransactionIDs l) \<rparr>)"
proof (cases "0 < amount")
  case False
  then show ?thesis by (simp add: Ledger_move_def)
next
  case True
  let ?f = "bal l (from, asset)" and ?t = "bal l (to, asset)"
  have nn: "0 \<le> ?f" "0 \<le> ?t"
    using ledger_ok_nonneg [OF assms(1), of "(from, asset)"] ledger_ok_nonneg [OF assms(1), of "(to, asset)"]
      assms(10,11) by auto
  have i: "in64 ?f" "in64 ?t" using ledger_ok_bal64 [OF assms(1)] by (auto simp: bal64_def)
  have r: "in64 (- amount)" "in64 (?f - amount)"
    using True assms(2) nn i by (auto simp: in64_def MaxInt64_def MinInt64_def)
  have t: "in64 (?t + amount) \<longleftrightarrow> ?t + amount \<le> MaxInt64"
    using nn True by (auto simp: in64_def MinInt64_def)
  show ?thesis
    using True assms(3-11) r i nn assms(2)
    by (simp add: Ledger_move_def Post_def neg64 post_entry_def CheckedAdd_spec Let_def
        fmget_def [symmetric] cloneTransaction_def t fmpred_iff)
qed

lemma Ledger_move_InrD:
  assumes "Ledger_move l txid reference from to asset amount = Inr l'"
  shows "0 < amount" "Post l (move_tx txid reference from to asset amount) = Inr l'"
  using assms by (auto simp: Ledger_move_def split: if_splits)

lemma FundVirtual_InrD:
  assumes "FundVirtual l txid reference acc asset amount = Inr l'"
  shows "0 < amount"
    "Post l (move_tx txid reference (SystemTreasury asset) (UserAvailable acc) asset amount) = Inr l'"
  using assms by (auto simp: FundVirtual_def split: if_splits)

lemma FundVirtual_effect:
  assumes "FundVirtual l txid reference acc asset amount = Inr l'" "ledger_ok l" "in64 amount"
  shows "UserBalance l' acc asset = (fst (UserBalance l acc asset) + amount, snd (UserBalance l acc asset))"
    and "Ledger_Balance l' (SystemTreasury asset) asset = Ledger_Balance l (SystemTreasury asset) asset - amount"
  using Post_move_InrD(2) [OF FundVirtual_InrD(2) [OF assms(1)] assms(2) FundVirtual_InrD(1) [OF assms(1)] assms(3)]
  by (simp_all add: UserBalance_def Ledger_Balance_def)

lemma Hold_effect:
  assumes "Hold l txid reference acc asset amount = Inr l'" "ledger_ok l" "in64 amount"
  shows "UserBalance l' acc asset =
      (fst (UserBalance l acc asset) - amount, snd (UserBalance l acc asset) + amount)"
    and "0 < amount" "amount \<le> fst (UserBalance l acc asset)"
proof -
  note D = Ledger_move_InrD [OF assms(1) [unfolded Hold_def]]
  note E = Post_move_InrD [OF D(2) assms(2) D(1) assms(3)]
  show "UserBalance l' acc asset =
      (fst (UserBalance l acc asset) - amount, snd (UserBalance l acc asset) + amount)"
    by (simp add: UserBalance_def Ledger_Balance_def E(2))
  show "0 < amount" by (rule D)
  show "amount \<le> fst (UserBalance l acc asset)"
    using E(2) [of "(UserAvailable acc, asset)"] ledger_ok_nonneg [OF E(1), of "(UserAvailable acc, asset)"]
    by (simp add: UserBalance_def Ledger_Balance_def)
qed

lemma Release_Hold_roundtrip:
  assumes "Hold l txid reference acc asset amount = Inr l1"
    and "Release l1 txid' reference' acc asset amount = Inr l2" "ledger_ok l" "in64 amount"
  shows "Ledger_Balance l2 a x = Ledger_Balance l a x"
proof -
  note D = Ledger_move_InrD [OF assms(1) [unfolded Hold_def]]
  note E = Post_move_InrD [OF D(2) assms(3) D(1) assms(4)]
  note D' = Ledger_move_InrD [OF assms(2) [unfolded Release_def]]
  note E' = Post_move_InrD [OF D'(2) E(1) D'(1) assms(4)]
  show ?thesis by (simp add: Ledger_Balance_def E'(2) E(2))
qed

section \<open>Properties\<close>

text \<open>C10 Double entry: in a ledger built by any sequence of postings the balances of an asset sum to
  zero, and only a treasury account may be negative; every balance is in the 64-bit range.\<close>

theorem ledger_conservation:
  assumes "post_all txs Ledger_New = Inr l" "\<forall>tx \<in> set txs. tx64 tx"
  shows "asset_total l a = 0 \<and> in64 (Ledger_Balance l account a) \<and>
    (0 \<le> Ledger_Balance l account a \<or> isNegativeBalanceAllowed account)"
proof -
  have "ledger_ok l" using ledger_ok_post_all [OF ledger_ok_New assms(2,1)] .
  then show ?thesis using ledger_ok_asset_total ledger_ok_nonneg [of l "(account, a)"] ledger_ok_bal64 [of l]
    by (auto simp: Ledger_Balance_def bal64_def)
qed

definition sample_fund :: Transaction where
  "sample_fund = move_tx ''f1'' ''r1'' (SystemTreasury ''BTC'') (UserAvailable ''ann'') ''BTC'' 500"

lemma sample_fund_post: "\<exists>l. post_all [sample_fund] Ledger_New = Inr l" "tx64 sample_fund"
proof -
  have "\<exists>l. Post Ledger_New sample_fund = Inr l"
    by (simp add: Post_def sample_fund_def Ledger_New_def post_entry_def CheckedAdd_def sub64_def add64_def
        wrap64_def MaxInt64_def MinInt64_def fmpred_iff)
  then show "\<exists>l. post_all [sample_fund] Ledger_New = Inr l" by auto
  show "tx64 sample_fund" by (simp add: sample_fund_def tx64_def in64_def MaxInt64_def MinInt64_def sub64_def wrap64_def)
qed

theorem ledger_conservation_witness:
  "\<exists>l. post_all [sample_fund] Ledger_New = Inr l \<and> asset_total l ''BTC'' = 0"
  using sample_fund_post ledger_conservation [of "[sample_fund]" _ "''BTC''"] by auto

text \<open>C33 A posting is atomic and exact: it is accepted only when it is balanced, its identifier is new
  and no ordinary account goes below zero, and then every balance changes by the sum of its
  entries.\<close>

theorem post_exact:
  assumes "ledger_ok l" "tx64 tx" "Post l tx = Inr l'"
  shows "Ledger_Balance l' account asset =
      Ledger_Balance l account asset + entry_net (txEntries tx) (account, asset) \<and>
    asset_net (txEntries tx) a = 0 \<and> lJournal l' = lJournal l @ [tx] \<and>
    txID tx |\<notin>| lTransactionIDs l"
  using Post_InrD [OF assms(3,2) ledger_ok_bal64 [OF assms(1)]] by (simp add: Ledger_Balance_def)

theorem post_exact_witness:
  "\<exists>l. Post Ledger_New sample_fund = Inr l \<and> Ledger_Balance l (UserAvailable ''ann'') ''BTC'' = 500"
proof -
  obtain l where l: "Post Ledger_New sample_fund = Inr l"
    using sample_fund_post(1) by (auto simp: bindE_eq_Inr)
  have "entry_net (txEntries sample_fund) (UserAvailable ''ann'', ''BTC'') = 500"
    by (simp add: sample_fund_def)
  moreover have "Ledger_Balance Ledger_New (UserAvailable ''ann'') ''BTC'' = 0"
    by (simp add: Ledger_Balance_def Ledger_New_def)
  ultimately show ?thesis
    using l post_exact [OF ledger_ok_New sample_fund_post(2) l, of "UserAvailable ''ann''" "''BTC''"] by simp
qed

text \<open>Holding funds succeeds exactly when the amount is positive, available and representable, and
  reports the reason otherwise; the ledger after it differs in the two balances of the user.\<close>

theorem hold_cases:
  assumes "ledger_ok l" "in64 amount" "asset \<noteq> []" "txid \<noteq> []" "reference \<noteq> []"
    and "txid |\<notin>| lTransactionIDs l"
  shows "Hold l txid reference accountID asset amount =
    (let (available, held) = UserBalance l accountID asset in
     if amount \<le> 0 then Inl ErrInvalidTransaction
     else if available < amount then Inl ErrInsufficientBalance
     else if held + amount > MaxInt64 then Inl ErrInvalidTransaction
     else Inr \<lparr> lBalances = fmupd (UserHeld accountID, asset) (held + amount)
                  (fmupd (UserAvailable accountID, asset) (available - amount) (lBalances l)),
                lJournal = lJournal l @
                  [move_tx txid reference (UserAvailable accountID) (UserHeld accountID) asset amount],
                lTransactionIDs = finsert txid (lTransactionIDs l) \<rparr>)"
  unfolding Hold_def
  using Ledger_move_spec [OF assms(1,2), of "UserAvailable accountID" "UserHeld accountID" asset txid reference]
    assms(3-) by (simp add: UserBalance_def Ledger_Balance_def)

theorem hold_cases_witness:
  "Hold Ledger_New ''h1'' ''r1'' ''ann'' ''BTC'' 7 = Inl ErrInsufficientBalance \<and>
   Hold Ledger_New ''h1'' ''r1'' ''ann'' ''BTC'' 0 = Inl ErrInvalidTransaction"
  using hold_cases [OF ledger_ok_New, of 7 "''BTC''" "''h1''" "''r1''" "''ann''"]
    hold_cases [OF ledger_ok_New, of 0 "''BTC''" "''h1''" "''r1''" "''ann''"]
  by (simp add: Ledger_New_def UserBalance_def Ledger_Balance_def in64_def MaxInt64_def MinInt64_def)

text \<open>A ledger restored from its snapshot is the same ledger, and its validation succeeds.\<close>

theorem ledger_snapshot_roundtrip:
  assumes "ledger_ok l"
  shows "Ledger_FromSnapshot (Ledger_Snapshot l) = Inr l \<and> Ledger_Validate l = Inr ()"
  using Ledger_FromSnapshot_Snapshot [OF assms] Ledger_Validate_ok [OF assms] by blast

theorem ledger_snapshot_roundtrip_witness:
  "Ledger_FromSnapshot (Ledger_Snapshot Ledger_New) = Inr Ledger_New \<and> Ledger_Validate Ledger_New = Inr ()"
  by (rule ledger_snapshot_roundtrip [OF ledger_ok_New])

text \<open>Compaction never fails on a ledger of the exchange and keeps every balance.\<close>

theorem compact_keeps_balances:
  assumes "ledger_ok l" "accounts_ok l"
  shows "\<exists>c. Compact l = Inr c \<and> ledger_ok c \<and>
    (\<forall>account asset. Ledger_Balance c account asset = Ledger_Balance l account asset)"
  using Compact_spec [OF assms] by (auto simp: Ledger_Balance_def)

theorem compact_keeps_balances_witness:
  "\<exists>c. Compact Ledger_New = Inr c \<and> ledger_ok c \<and>
    (\<forall>account asset. Ledger_Balance c account asset = Ledger_Balance Ledger_New account asset)"
  by (rule compact_keeps_balances) simp_all

end
