(* ===== verification/Orderbook.thy ===== *)
theory Orderbook
  imports Domain
begin

text \<open>
  The package \<open>trading/orderbook\<close>: a price-time priority book. A \<open>Book\<close> has, per side, a map
  from prices to queues of order identifiers and the sorted list of prices, and an index of the
  resting orders. \<open>Match\<close> executes an incoming order against the best opposing orders until
  the order or the liquidity is used up, the price limit is reached, or the next maker belongs
  to the same account.

  A function that mutates the book returns the new one; when it returns an error the caller
  drops the book (the exchange works on a clone), so the error carries no book.
  \<open>bestOpposing\<close> indexes an empty queue only in a book whose levels are corrupt; that is the
  \<open>Panic\<close> branch.
\<close>

section \<open>Data\<close>

datatype StopReason = StopNone | StopInputExhausted | StopNoLiquidity | StopPriceLimit
  | StopBudgetExhausted | StopSelfTrade

record RawFill =
  rfMakerOrderID :: OrderID
  rfMakerAccountID :: AccountID
  rfMakerSide :: Side
  rfMakerRemaining :: int
  rfPrice :: int
  rfQuantity :: int
  rfQuoteAmount :: int

record MatchResult =
  mrFills :: "RawFill list"
  mrStopReason :: StopReason

record BookSnapshot =
  bsBids :: "Order list"
  bsAsks :: "Order list"

record Book =
  bkMarket :: Market
  bkBids :: "(int, OrderID list) fmap"
  bkAsks :: "(int, OrderID list) fmap"
  bkBidPrices :: "int list"
  bkAskPrices :: "int list"
  bkOrders :: "(OrderID, Order) fmap"

section \<open>Sorted price lists\<close>

text \<open>\<open>sort.Search\<close>: the binary search of the standard library.\<close>

function Search_loop :: "(nat \<Rightarrow> bool) \<Rightarrow> nat \<Rightarrow> nat \<Rightarrow> nat" where
  "Search_loop f i j =
     (if i < j
      then let h = (i + j) div 2 in
           if \<not> f h then Search_loop f (h + 1) j else Search_loop f i h
      else i)"
  by pat_completeness auto
termination
  by (relation "measure (\<lambda>(f, i, j). j - i)") auto

declare Search_loop.simps [simp del]

definition Search :: "nat \<Rightarrow> (nat \<Rightarrow> bool) \<Rightarrow> nat" where
  "Search n f = Search_loop f 0 n"

definition insertPrice :: "int list \<Rightarrow> int \<Rightarrow> bool \<Rightarrow> int list" where
  "insertPrice prices price descending =
     (let index = Search (length prices)
            (\<lambda>i. if descending then prices ! i \<le> price else prices ! i \<ge> price)
      in if index < length prices \<and> prices ! index = price then prices
         else take index prices @ [price] @ drop index prices)"

fun removePrice :: "int list \<Rightarrow> int \<Rightarrow> int list" where
  "removePrice [] price = []"
| "removePrice (candidate # prices) price =
     (if candidate = price then prices else candidate # removePrice prices price)"

text \<open>\<open>sort.SliceIsSorted\<close>: no element is less than the one before it.\<close>

fun SliceIsSorted :: "('a \<Rightarrow> 'a \<Rightarrow> bool) \<Rightarrow> 'a list \<Rightarrow> bool" where
  "SliceIsSorted lt (x # y # zs) = (\<not> lt y x \<and> SliceIsSorted lt (y # zs))"
| "SliceIsSorted lt _ = True"

section \<open>Adding and removing\<close>

definition Book_New :: "Market \<Rightarrow> Book res" where
  "Book_New market =
     (case Market_Validate market of
        Inl _ \<Rightarrow> Inl ErrInvalidBookOrder
      | Inr _ \<Rightarrow> Inr \<lparr> bkMarket = market, bkBids = fmempty, bkAsks = fmempty,
                      bkBidPrices = [], bkAskPrices = [], bkOrders = fmempty \<rparr>)"

definition Book_Add :: "Book \<Rightarrow> Order \<Rightarrow> Book res" where
  "Book_Add b order =
     (if oID order = [] \<or> oType order \<noteq> OrderTypeLimit \<or> oTimeInForce order \<noteq> TimeInForceGTC \<or>
         oMarketID order \<noteq> mID (bkMarket b) \<or> oPrice order \<le> 0 \<or>
         rem64 (oPrice order) (mPriceTick (bkMarket b)) \<noteq> 0 \<or>
         oRemainingQuantity order \<le> 0 \<or>
         rem64 (oRemainingQuantity order) (mQuantityStep (bkMarket b)) \<noteq> 0 \<or> \<not> IsOpen order
      then Inl ErrInvalidBookOrder
      else if oID order |\<in>| fmdom (bkOrders b) then Inl ErrDuplicateOrder
      else
        (let orders = fmupd (oID order) order (bkOrders b) in
         case oSide order of
           SideBuy \<Rightarrow>
             Inr (b\<lparr> bkOrders := orders,
                     bkBidPrices :=
                       (if oPrice order |\<in>| fmdom (bkBids b) then bkBidPrices b
                        else insertPrice (bkBidPrices b) (oPrice order) True),
                     bkBids := fmupd (oPrice order)
                       (fmget [] (bkBids b) (oPrice order) @ [oID order]) (bkBids b) \<rparr>)
         | SideSell \<Rightarrow>
             Inr (b\<lparr> bkOrders := orders,
                     bkAskPrices :=
                       (if oPrice order |\<in>| fmdom (bkAsks b) then bkAskPrices b
                        else insertPrice (bkAskPrices b) (oPrice order) False),
                     bkAsks := fmupd (oPrice order)
                       (fmget [] (bkAsks b) (oPrice order) @ [oID order]) (bkAsks b) \<rparr>)
         | SideOther _ \<Rightarrow> Inl ErrInvalidBookOrder))"

text \<open>The queue without the first occurrence of the order, \<open>None\<close> when it is absent.\<close>

fun removeID :: "OrderID list \<Rightarrow> OrderID \<Rightarrow> OrderID list option" where
  "removeID [] orderID = None"
| "removeID (i # queue) orderID =
     (if i = orderID then Some queue else map_option ((#) i) (removeID queue orderID))"

text \<open>The part of \<open>remove\<close> that works on the levels and prices of one side.\<close>

definition remove_level ::
  "(int, OrderID list) fmap \<Rightarrow> int list \<Rightarrow> Order \<Rightarrow> ((int, OrderID list) fmap \<times> int list) res" where
  "remove_level levels prices order =
     (case fmlookup levels (oPrice order) of
        None \<Rightarrow> Inl (ErrPlain ''missing price level'')
      | Some queue \<Rightarrow>
          (case removeID queue (oID order) of
             None \<Rightarrow> Inl (ErrPlain ''missing from price level'')
           | Some queue' \<Rightarrow>
               if queue' = []
               then Inr (fmdrop (oPrice order) levels, removePrice prices (oPrice order))
               else Inr (fmupd (oPrice order) queue' levels, prices)))"

definition Book_remove :: "Book \<Rightarrow> Order \<Rightarrow> Book res" where
  "Book_remove b order =
     (case oSide order of
        SideBuy \<Rightarrow>
          bindE (remove_level (bkBids b) (bkBidPrices b) order) (\<lambda>(levels, prices).
            Inr (b\<lparr> bkBids := levels, bkBidPrices := prices, bkOrders := fmdrop (oID order) (bkOrders b) \<rparr>))
      | SideSell \<Rightarrow>
          bindE (remove_level (bkAsks b) (bkAskPrices b) order) (\<lambda>(levels, prices).
            Inr (b\<lparr> bkAsks := levels, bkAskPrices := prices, bkOrders := fmdrop (oID order) (bkOrders b) \<rparr>))
      | SideOther _ \<Rightarrow> Inl ErrInvalidBookOrder)"

definition Book_Cancel :: "Book \<Rightarrow> OrderID \<Rightarrow> (Book \<times> Order) res" where
  "Book_Cancel b orderID =
     (case fmlookup (bkOrders b) orderID of
        None \<Rightarrow> Inl ErrBookOrderNotFound
      | Some order \<Rightarrow> bindE (Book_remove b order) (\<lambda>b'. Inr (b', order)))"

definition Book_Order :: "Book \<Rightarrow> OrderID \<Rightarrow> Order option" where
  "Book_Order b orderID = fmlookup (bkOrders b) orderID"

definition Book_Update :: "Book \<Rightarrow> Order \<Rightarrow> Book res" where
  "Book_Update b order =
     (case fmlookup (bkOrders b) (oID order) of
        None \<Rightarrow> Inl ErrBookOrderNotFound
      | Some current \<Rightarrow>
          if oSide current \<noteq> oSide order \<or> oPrice current \<noteq> oPrice order \<or>
             oAccountID current \<noteq> oAccountID order \<or>
             oAcceptedSequence current \<noteq> oAcceptedSequence order \<or>
             \<not> IsOpen order \<or> oRemainingQuantity order \<le> 0
          then Inl ErrInvalidBookOrder
          else Inr (b\<lparr> bkOrders := fmupd (oID order) order (bkOrders b) \<rparr>))"

section \<open>Matching\<close>

definition crosses :: "Side \<Rightarrow> OrderType \<Rightarrow> int \<Rightarrow> int \<Rightarrow> bool" where
  "crosses side orderType incomingPrice makerPrice =
     (if orderType = OrderTypeMarket then True
      else case side of
        SideBuy \<Rightarrow> incomingPrice \<ge> makerPrice
      | SideSell \<Rightarrow> incomingPrice \<le> makerPrice
      | SideOther _ \<Rightarrow> False)"

definition WouldCross :: "Book \<Rightarrow> Side \<Rightarrow> int \<Rightarrow> bool" where
  "WouldCross b side price =
     (case side of
        SideBuy \<Rightarrow> (case bkAskPrices b of [] \<Rightarrow> False | best # _ \<Rightarrow> price \<ge> best)
      | SideSell \<Rightarrow> (case bkBidPrices b of [] \<Rightarrow> False | best # _ \<Rightarrow> price \<le> best)
      | SideOther _ \<Rightarrow> False)"

text \<open>The two nested loops of \<open>CanFillFOK\<close>: the inner one returns a verdict or the remaining
  quantity, the outer one stops at the first price that does not cross.\<close>

fun fok_queue :: "Book \<Rightarrow> AccountID \<Rightarrow> OrderID list \<Rightarrow> int \<Rightarrow> bool + int" where
  "fok_queue b accountID [] remaining = Inr remaining"
| "fok_queue b accountID (orderID # queue) remaining =
     (let maker = fmget zeroOrder (bkOrders b) orderID in
      if oAccountID maker = accountID then Inl False
      else if oRemainingQuantity maker \<ge> remaining then Inl True
      else fok_queue b accountID queue (sub64 remaining (oRemainingQuantity maker)))"

fun fok_prices ::
  "Book \<Rightarrow> AccountID \<Rightarrow> Side \<Rightarrow> int \<Rightarrow> (int, OrderID list) fmap \<Rightarrow> int list \<Rightarrow> int \<Rightarrow> bool" where
  "fok_prices b accountID side limitPrice levels [] remaining = False"
| "fok_prices b accountID side limitPrice levels (price # prices) remaining =
     (if \<not> crosses side OrderTypeLimit limitPrice price then False
      else case fok_queue b accountID (fmget [] levels price) remaining of
        Inl verdict \<Rightarrow> verdict
      | Inr remaining' \<Rightarrow> fok_prices b accountID side limitPrice levels prices remaining')"

definition CanFillFOK :: "Book \<Rightarrow> AccountID \<Rightarrow> Side \<Rightarrow> int \<Rightarrow> int \<Rightarrow> bool res" where
  "CanFillFOK b accountID side limitPrice quantity =
     (if quantity \<le> 0 then Inr False
      else case side of
        SideBuy \<Rightarrow> Inr (fok_prices b accountID side limitPrice (bkAsks b) (bkAskPrices b) quantity)
      | SideSell \<Rightarrow> Inr (fok_prices b accountID side limitPrice (bkBids b) (bkBidPrices b) quantity)
      | SideOther _ \<Rightarrow> Inl ErrInvalidBookOrder)"

definition best_of :: "Book \<Rightarrow> (int, OrderID list) fmap \<Rightarrow> int list \<Rightarrow> Order option res" where
  "best_of b levels prices =
     (case prices of
        [] \<Rightarrow> Inr None
      | best # _ \<Rightarrow>
          (case fmget [] levels best of
             [] \<Rightarrow> Inl Panic
           | orderID # _ \<Rightarrow> Inr (Some (fmget zeroOrder (bkOrders b) orderID))))"

definition bestOpposing :: "Book \<Rightarrow> Side \<Rightarrow> Order option res" where
  "bestOpposing b side =
     (case side of
        SideBuy \<Rightarrow> best_of b (bkAsks b) (bkAskPrices b)
      | SideSell \<Rightarrow> best_of b (bkBids b) (bkBidPrices b)
      | SideOther _ \<Rightarrow> Inr None)"

definition executableQuantity :: "Book \<Rightarrow> Order \<Rightarrow> Order \<Rightarrow> (int \<times> StopReason) res" where
  "executableQuantity b incoming maker =
     (if oType incoming = OrderTypeMarket \<and> oSide incoming = SideBuy
      then bindE (AffordableQuantity (bkMarket b) (oRemainingQuoteBudget incoming) (oPrice maker))
             (\<lambda>affordable.
                if affordable = 0 then Inr (0, StopBudgetExhausted)
                else if oRemainingQuantity maker < affordable
                then Inr (oRemainingQuantity maker, StopNone)
                else Inr (affordable, StopNone))
      else if oRemainingQuantity incoming \<le> 0 then Inr (0, StopInputExhausted)
      else if oRemainingQuantity maker < oRemainingQuantity incoming
      then Inr (oRemainingQuantity maker, StopNone)
      else Inr (oRemainingQuantity incoming, StopNone))"

abbreviation market_buy :: "Order \<Rightarrow> bool" where
  "market_buy ord \<equiv> oType ord = OrderTypeMarket \<and> oSide ord = SideBuy"

text \<open>One execution: the maker is updated and leaves the book when it is filled, the incoming
  order is updated, and the fill is recorded.\<close>

definition Match_maker :: "Book \<Rightarrow> Order \<Rightarrow> Order \<Rightarrow> int \<Rightarrow> int \<Rightarrow> (Book \<times> Order) res" where
  "Match_maker b incoming maker quantity quoteAmount =
     bindE (CheckedAdd (oFilledQuantity maker) quantity) (\<lambda>filled.
     bindE (CheckedAdd (oSpentQuote maker) quoteAmount) (\<lambda>spent.
       let maker' = maker\<lparr> oRemainingQuantity := sub64 (oRemainingQuantity maker) quantity,
                           oFilledQuantity := filled, oSpentQuote := spent,
                           oLastSequence := oAcceptedSequence incoming \<rparr>
       in if oRemainingQuantity maker' = 0
          then let maker'' = maker'\<lparr> oStatus := OrderStatusFilled \<rparr>
               in bindE (Book_remove b maker'') (\<lambda>b'. Inr (b', maker''))
          else let maker'' = maker'\<lparr> oStatus := OrderStatusPartiallyFilled \<rparr>
               in Inr (b\<lparr> bkOrders := fmupd (oID maker) maker'' (bkOrders b) \<rparr>, maker'')))"

definition Match_taker :: "Order \<Rightarrow> int \<Rightarrow> int \<Rightarrow> Order res" where
  "Match_taker incoming quantity quoteAmount =
     bindE (CheckedAdd (oFilledQuantity incoming) quantity) (\<lambda>filled.
     bindE (CheckedAdd (oSpentQuote incoming) quoteAmount) (\<lambda>spent.
       let incoming' = incoming\<lparr> oFilledQuantity := filled, oSpentQuote := spent,
                                 oLastSequence := oAcceptedSequence incoming \<rparr>
       in Inr (if market_buy incoming
               then incoming'\<lparr> oRemainingQuoteBudget := sub64 (oRemainingQuoteBudget incoming) quoteAmount \<rparr>
               else incoming'\<lparr> oRemainingQuantity := sub64 (oRemainingQuantity incoming) quantity \<rparr>)))"

definition Match_fill ::
  "Book \<Rightarrow> Order \<Rightarrow> Order \<Rightarrow> int \<Rightarrow> int \<Rightarrow> (Book \<times> Order \<times> RawFill) res" where
  "Match_fill b incoming maker quantity quoteAmount =
     bindE (Match_maker b incoming maker quantity quoteAmount) (\<lambda>(b', maker').
     bindE (Match_taker incoming quantity quoteAmount) (\<lambda>incoming'.
       Inr (b', incoming',
            \<lparr> rfMakerOrderID = oID maker', rfMakerAccountID = oAccountID maker',
              rfMakerSide = oSide maker', rfMakerRemaining = oRemainingQuantity maker',
              rfPrice = oPrice maker', rfQuantity = quantity, rfQuoteAmount = quoteAmount \<rparr>)))"

lemma CheckedMulDivFloor_sign:
  assumes "CheckedMulDivFloor a b d = Inr q"
  shows "0 \<le> a" "0 \<le> b" "0 < d" "0 \<le> q" "q \<le> MaxInt64" "a = 0 \<Longrightarrow> q = 0" "b = 0 \<Longrightarrow> q = 0"
proof -
  from assms have ran: "0 \<le> a" "0 \<le> b" "0 < d"
    by (auto simp: CheckedMulDivFloor_def checkedMulDiv_def bindE_eq_Inr split: if_splits)
  from assms ran obtain w :: "64 word" where q: "q = sint w" and w: "uint w \<le> MaxInt64"
    by (auto simp: CheckedMulDivFloor_def checkedMulDiv_def bindE_eq_Inr Let_def
        split: if_splits prod.splits)
  have "q = uint w"
    using sint_small [OF uint_ge_0 w] q by simp
  then show "0 \<le> q" "q \<le> MaxInt64" using w by auto
  show "0 \<le> a" "0 \<le> b" "0 < d" using ran by auto
  show "a = 0 \<Longrightarrow> q = 0" "b = 0 \<Longrightarrow> q = 0"
    using assms by (auto simp: CheckedMulDivFloor_def checkedMulDiv_def Mul64_def Div64_def
        bindE_eq_Inr Let_def split: if_splits)
qed

text \<open>What is left of the incoming order gets smaller with every execution.\<close>

definition match_measure :: "Order \<Rightarrow> nat" where
  "match_measure incoming =
     (if market_buy incoming then nat (oRemainingQuoteBudget incoming)
      else nat (oRemainingQuantity incoming))"

lemma sub64_decreases:
  "0 < q \<Longrightarrow> q \<le> MaxInt64 \<or> q \<le> r \<Longrightarrow> 0 < r \<Longrightarrow> sub64 r q < r"
proof (cases "r \<le> MaxInt64")
  case True
  assume "0 < q" "q \<le> MaxInt64 \<or> q \<le> r" "0 < r"
  moreover from this True have "sub64 r q = r - q"
    by (auto simp: sub64_def in64_def MinInt64_def MaxInt64_def intro!: wrap64_id)
  ultimately show ?thesis by simp
next
  case False
  moreover have "sub64 r q \<le> MaxInt64" using in64_wrap64 by (simp add: sub64_def in64_def)
  moreover assume "0 < r"
  ultimately show ?thesis by simp
qed

lemma Match_fill_taker:
  assumes "Match_fill b incoming maker quantity quoteAmount = Inr (b', incoming', fill)"
  shows "oType incoming' = oType incoming" "oSide incoming' = oSide incoming"
    "market_buy incoming \<Longrightarrow>
       oRemainingQuoteBudget incoming' = sub64 (oRemainingQuoteBudget incoming) quoteAmount"
    "\<not> market_buy incoming \<Longrightarrow>
       oRemainingQuantity incoming' = sub64 (oRemainingQuantity incoming) quantity"
  using assms by (auto simp: Match_fill_def Match_taker_def bindE_eq_Inr Let_def split: if_splits)

lemma match_measure_decreases:
  assumes "executableQuantity b incoming maker = Inr (quantity, stop)" "quantity \<noteq> 0"
    and "QuoteAmountFloor m price quantity = Inr quoteAmount" "0 < quoteAmount"
    and "Match_fill b incoming maker quantity quoteAmount = Inr (b', incoming', fill)"
  shows "match_measure incoming' < match_measure incoming"
proof -
  note quote = CheckedMulDivFloor_sign [OF assms(3) [unfolded QuoteAmountFloor_def]]
  note taker = Match_fill_taker [OF assms(5)]
  show ?thesis
  proof (cases "market_buy incoming")
    case True
    from assms(1,2) True obtain n where
      n: "CheckedMulDivFloor (oRemainingQuoteBudget incoming) (mBaseScale (bkMarket b)) (oPrice maker) = Inr n"
      and "sub64 n (rem64 n (mQuantityStep (bkMarket b))) \<noteq> 0"
      by (auto simp: executableQuantity_def AffordableQuantity_def bindE_eq_Inr split: if_splits)
    then have "n \<noteq> 0" by (auto simp: sub64_def rem64_def wrap64_def)
    then have "0 < oRemainingQuoteBudget incoming"
      using CheckedMulDivFloor_sign(1,6) [OF n] by force
    then show ?thesis using True taker assms(4) quote(5)
      by (simp add: match_measure_def sub64_decreases)
  next
    case False
    have q: "0 < quantity" using quote(2) assms(2) by simp
    from assms(1,2) False have "0 < oRemainingQuantity incoming" "quantity \<le> oRemainingQuantity incoming"
      by (auto simp: executableQuantity_def split: if_splits)
    then show ?thesis using False taker(1,2,4) q by (auto simp: match_measure_def sub64_decreases)
  qed
qed


text \<open>The loop of \<open>Match\<close>; \<open>fills\<close> is \<open>result.Fills\<close>.\<close>

function Match_loop :: "Book \<Rightarrow> Order \<Rightarrow> RawFill list \<Rightarrow> (Book \<times> Order \<times> MatchResult) res" where
  "Match_loop b incoming fills =
     bindE (bestOpposing b (oSide incoming)) (\<lambda>best.
       case best of
         None \<Rightarrow> Inr (b, incoming, \<lparr> mrFills = fills, mrStopReason = StopNoLiquidity \<rparr>)
       | Some maker \<Rightarrow>
           if \<not> crosses (oSide incoming) (oType incoming) (oPrice incoming) (oPrice maker)
           then Inr (b, incoming, \<lparr> mrFills = fills, mrStopReason = StopPriceLimit \<rparr>)
           else if oAccountID maker = oAccountID incoming
           then Inr (b, incoming, \<lparr> mrFills = fills, mrStopReason = StopSelfTrade \<rparr>)
           else
             bindE (executableQuantity b incoming maker) (\<lambda>(quantity, stop).
               if quantity = 0
               then Inr (b, incoming, \<lparr> mrFills = fills, mrStopReason = stop \<rparr>)
               else
                 bindE (QuoteAmountFloor (bkMarket b) (oPrice maker) quantity) (\<lambda>quoteAmount.
                   if quoteAmount \<le> 0
                   then Inl (ErrPlain ''match quote amount must be positive'')
                   else
                     bindE (Match_fill b incoming maker quantity quoteAmount) (\<lambda>(b', incoming', fill).
                       if market_buy incoming
                       then if oRemainingQuoteBudget incoming' = 0
                            then Inr (b', incoming', \<lparr> mrFills = fills @ [fill],
                                                       mrStopReason = StopBudgetExhausted \<rparr>)
                            else Match_loop b' incoming' (fills @ [fill])
                       else if oRemainingQuantity incoming' = 0
                       then Inr (b', incoming', \<lparr> mrFills = fills @ [fill],
                                                  mrStopReason = StopInputExhausted \<rparr>)
                       else Match_loop b' incoming' (fills @ [fill])))))"
  by pat_completeness auto
termination
  by (relation "measure (\<lambda>(b, incoming, fills). match_measure incoming)")
    (auto intro: match_measure_decreases)

declare Match_loop.simps [simp del]

definition Match :: "Book \<Rightarrow> Order \<Rightarrow> (Book \<times> Order \<times> MatchResult) res" where
  "Match b incoming =
     (if oID incoming = [] then Inl ErrInvalidBookOrder else Match_loop b incoming [])"

section \<open>Snapshots and validation\<close>

abbreviation level_orders :: "Book \<Rightarrow> (int, OrderID list) fmap \<Rightarrow> int \<Rightarrow> Order list" where
  "level_orders b levels price \<equiv> map (fmget zeroOrder (bkOrders b)) (fmget [] levels price)"

definition Book_Snapshot :: "Book \<Rightarrow> BookSnapshot" where
  "Book_Snapshot b =
     \<lparr> bsBids = concat (map (level_orders b (bkBids b)) (bkBidPrices b)),
       bsAsks = concat (map (level_orders b (bkAsks b)) (bkAskPrices b)) \<rparr>"

text \<open>The closure \<open>check\<close> of \<open>Validate\<close>, with the set \<open>seen\<close> passed through.\<close>

definition check_order :: "Book \<Rightarrow> Side \<Rightarrow> int \<Rightarrow> OrderID \<Rightarrow> OrderID fset \<Rightarrow> OrderID fset res" where
  "check_order b side price orderID seen =
     (if orderID |\<in>| seen then Inl (ErrPlain ''order occurs more than once'')
      else case fmlookup (bkOrders b) orderID of
        None \<Rightarrow> Inl (ErrPlain ''price level references missing order'')
      | Some order \<Rightarrow>
          if oSide order \<noteq> side \<or> oPrice order \<noteq> price \<or> \<not> IsOpen order \<or> oRemainingQuantity order \<le> 0
          then Inl (ErrPlain ''order is inconsistent with its price level'')
          else Inr (finsert orderID seen))"

definition check_level ::
  "Book \<Rightarrow> Side \<Rightarrow> (int, OrderID list) fmap \<Rightarrow> int \<Rightarrow> OrderID fset \<Rightarrow> OrderID fset res" where
  "check_level b side levels price seen =
     (let queue = fmget [] levels price in
      if queue = [] then Inl (ErrPlain ''empty price level'')
      else foldE (check_order b side price) queue seen)"

definition Book_Validate :: "Book \<Rightarrow> unit res" where
  "Book_Validate b =
     (if \<not> SliceIsSorted (>) (bkBidPrices b)
      then Inl (ErrPlain ''bid prices are not strictly descending'')
      else if \<not> SliceIsSorted (<) (bkAskPrices b)
      then Inl (ErrPlain ''ask prices are not strictly ascending'')
      else bindE (foldE (check_level b SideBuy (bkBids b)) (bkBidPrices b) {||}) (\<lambda>seen.
           bindE (foldE (check_level b SideSell (bkAsks b)) (bkAskPrices b) seen) (\<lambda>seen'.
             if fcard seen' \<noteq> fcard (fmdom (bkOrders b))
             then Inl (ErrPlain ''order index and price levels differ in size'')
             else Inr ())))"

text \<open>The two loops of \<open>FromSnapshot\<close> differ in the side they require.\<close>

definition restore_side :: "Side \<Rightarrow> Order list \<Rightarrow> Book \<Rightarrow> Book res" where
  "restore_side side =
     foldE (\<lambda>order b.
       if oSide order \<noteq> side then Inl (ErrPlain ''restore order book: wrong side'')
       else Book_Add b order)"

definition Book_FromSnapshot :: "Market \<Rightarrow> BookSnapshot \<Rightarrow> Book res" where
  "Book_FromSnapshot market snapshot =
     bindE (Book_New market) (\<lambda>b0.
     bindE (restore_side SideBuy (bsBids snapshot) b0) (\<lambda>b1.
     bindE (restore_side SideSell (bsAsks snapshot) b1) (\<lambda>b2.
     bindE (Book_Validate b2) (\<lambda>_. Inr b2))))"

definition Book_Clone :: "Book \<Rightarrow> Book res" where
  "Book_Clone b = Book_FromSnapshot (bkMarket b) (Book_Snapshot b)"

end
