(* ===== verification/Book_Invariant.thy ===== *)
theory Book_Invariant
  imports Orderbook
begin

text \<open>
  What holds of every book that the operations of \<open>trading/orderbook\<close> build, and what the
  operations do to it. \<open>book_ok\<close> relates the three parts of a book (levels, price lists, order
  index); \<open>side_list\<close> abstracts a side to its orders in price-time priority. \<open>Add\<close> inserts
  into that list by priority, \<open>Cancel\<close> deletes from it, an update replaces one element, and two
  books with the same lists are equal, from which the round trip of snapshots follows.
\<close>

section \<open>Binary search and sorted insertion\<close>

lemma Search_loop_spec:
  assumes "\<forall>k k'. k \<le> k' \<and> k' < n \<and> f k \<longrightarrow> f k'" "i \<le> j" "j \<le> n"
  shows "i \<le> Search_loop f i j \<and> Search_loop f i j \<le> j \<and>
    (\<forall>k. i \<le> k \<and> k < Search_loop f i j \<longrightarrow> \<not> f k) \<and>
    (Search_loop f i j < j \<longrightarrow> f (Search_loop f i j))"
  using assms
proof (induction f i j rule: Search_loop.induct)
  case (1 f i j)
  let ?h = "(i + j) div 2"
  show ?case
  proof (cases "i < j")
    case False
    with 1(4) have "i = j" by simp
    moreover have "Search_loop f i j = i" using False by (subst Search_loop.simps) simp
    ultimately show ?thesis by auto
  next
    case True
    then have h: "i \<le> ?h" "?h < j" by auto
    show ?thesis
    proof (cases "f ?h")
      case fh: True
      have eq: "Search_loop f i j = Search_loop f i ?h"
        using True fh by (simp add: Search_loop.simps [of f i j] Let_def)
      have "i \<le> Search_loop f i ?h \<and> Search_loop f i ?h \<le> ?h \<and>
          (\<forall>k. i \<le> k \<and> k < Search_loop f i ?h \<longrightarrow> \<not> f k) \<and>
          (Search_loop f i ?h < ?h \<longrightarrow> f (Search_loop f i ?h))"
        by (rule 1(2) [OF True refl _ 1(3)]) (use fh h 1(5) in simp_all)
      then show ?thesis using fh h unfolding eq
        by (cases "Search_loop f i ?h = ?h") auto
    next
      case fh: False
      have eq: "Search_loop f i j = Search_loop f (?h + 1) j"
        using True fh by (simp add: Search_loop.simps [of f i j] Let_def)
      have "?h + 1 \<le> Search_loop f (?h + 1) j \<and> Search_loop f (?h + 1) j \<le> j \<and>
          (\<forall>k. ?h + 1 \<le> k \<and> k < Search_loop f (?h + 1) j \<longrightarrow> \<not> f k) \<and>
          (Search_loop f (?h + 1) j < j \<longrightarrow> f (Search_loop f (?h + 1) j))"
        by (rule 1(1) [OF True refl fh 1(3)]) (use h 1(5) in simp_all)
      note IH = this
      have low: "\<not> f k" if "k \<le> ?h" for k
      proof
        assume "f k"
        with 1(3) that h(2) 1(5) have "f ?h" by (meson less_le_trans)
        with fh show False ..
      qed
      have "\<not> f k" if "i \<le> k \<and> k < Search_loop f (?h + 1) j" for k
        using IH low [of k] that by (cases "k \<le> ?h") auto
      then show ?thesis using h(1) IH unfolding eq by auto
    qed
  qed
qed

lemma Search_spec:
  assumes "\<forall>k k'. k \<le> k' \<and> k' < n \<and> f k \<longrightarrow> f k'"
  shows "Search n f \<le> n" "\<And>k. k < Search n f \<Longrightarrow> \<not> f k" "Search n f < n \<Longrightarrow> f (Search n f)"
  using Search_loop_spec [OF assms, of 0 n] by (auto simp: Search_def)

text \<open>Bids are sorted downwards, asks upwards; \<open>better side p q\<close>: \<open>p\<close> comes strictly before \<open>q\<close>.\<close>

definition better :: "Side \<Rightarrow> int \<Rightarrow> int \<Rightarrow> bool" where
  "better side p q = (if side = SideBuy then p > q else p < q)"

lemma better_order:
  "\<not> better s p p" "better s p q \<Longrightarrow> better s q r \<Longrightarrow> better s p r"
  "better s p q \<Longrightarrow> \<not> better s q p" "p \<noteq> q \<Longrightarrow> better s p q \<or> better s q p"
  by (auto simp: better_def split: if_splits)

lemma insertPrice_new:
  assumes "sorted_wrt (better s) ps" "p \<notin> set ps" "desc \<longleftrightarrow> s = SideBuy"
  shows "insertPrice ps p desc = takeWhile (\<lambda>q. better s q p) ps @ p # dropWhile (\<lambda>q. better s q p) ps"
proof -
  let ?f = "\<lambda>i. if desc then ps ! i \<le> p else ps ! i \<ge> p"
  let ?n = "Search (length ps) ?f"
  have f: "?f i \<longleftrightarrow> \<not> better s (ps ! i) p" for i
    using assms(3) by (auto simp: better_def)
  have mono: "\<forall>k k'. k \<le> k' \<and> k' < length ps \<and> ?f k \<longrightarrow> ?f k'"
    unfolding f using assms(1) better_order
    by (metis le_neq_implies_less sorted_wrt_iff_nth_less)
  note S = Search_spec [OF mono]
  have tw: "takeWhile (\<lambda>q. better s q p) ps = take ?n ps"
    by (rule takeWhile_eq_take_P_nth) (use S f in auto)
  moreover have "dropWhile (\<lambda>q. better s q p) ps = drop ?n ps"
    using S(1) by (simp add: dropWhile_eq_drop tw)
  moreover have "\<not> (?n < length ps \<and> ps ! ?n = p)" using assms(2) by (metis nth_mem)
  ultimately show ?thesis
    by (simp only: insertPrice_def Let_def if_False append.simps)
qed

lemma removePrice_remove1: "removePrice ps p = remove1 p ps"
  by (induction ps) auto

lemma removeID_remove1: "removeID q i = (if i \<in> set q then Some (remove1 i q) else None)"
  by (induction q) auto

lemma SliceIsSorted_iff:
  "SliceIsSorted (>) ps \<longleftrightarrow> sorted_wrt (\<ge>) ps" "SliceIsSorted (<) ps \<longleftrightarrow> sorted_wrt (\<le>) ps"
  for ps :: "int list"
proof -
  show "SliceIsSorted (>) ps \<longleftrightarrow> sorted_wrt (\<ge>) ps"
    by (induction ps rule: induct_list012) force+
  show "SliceIsSorted (<) ps \<longleftrightarrow> sorted_wrt (\<le>) ps"
    by (induction ps rule: induct_list012) force+
qed

section \<open>The two sides of a book\<close>

fun opposite :: "Side \<Rightarrow> Side" where
  "opposite SideBuy = SideSell"
| "opposite SideSell = SideBuy"
| "opposite (SideOther n) = SideOther n"

definition sideLevels :: "Book \<Rightarrow> Side \<Rightarrow> (int, OrderID list) fmap" where
  "sideLevels b s = (case s of SideBuy \<Rightarrow> bkBids b | SideSell \<Rightarrow> bkAsks b | SideOther _ \<Rightarrow> fmempty)"

definition sidePrices :: "Book \<Rightarrow> Side \<Rightarrow> int list" where
  "sidePrices b s = (case s of SideBuy \<Rightarrow> bkBidPrices b | SideSell \<Rightarrow> bkAskPrices b | SideOther _ \<Rightarrow> [])"

abbreviation is_side :: "Side \<Rightarrow> bool" where
  "is_side s \<equiv> s = SideBuy \<or> s = SideSell"

text \<open>The resting orders of a side in priority order: the list that the snapshot shows.\<close>

definition side_list :: "Book \<Rightarrow> Side \<Rightarrow> Order list" where
  "side_list b s = concat (map (level_orders b (sideLevels b s)) (sidePrices b s))"

lemma Book_Snapshot_side_list:
  "Book_Snapshot b = \<lparr> bsBids = side_list b SideBuy, bsAsks = side_list b SideSell \<rparr>"
  by (simp add: Book_Snapshot_def side_list_def sideLevels_def sidePrices_def)

text \<open>The amounts of an order are in the range of their type.\<close>

definition order64 :: "Order \<Rightarrow> bool" where
  "order64 ord \<longleftrightarrow>
     in64 (oPrice ord) \<and> in64 (oOriginalQuantity ord) \<and> in64 (oRemainingQuantity ord) \<and>
     in64 (oFilledQuantity ord) \<and> in64 (oOriginalQuoteBudget ord) \<and>
     in64 (oRemainingQuoteBudget ord) \<and> in64 (oSpentQuote ord) \<and> in64 (oHeldAmount ord)"

text \<open>What \<open>Add\<close> requires of an order.\<close>

definition resting_ok :: "Market \<Rightarrow> Order \<Rightarrow> bool" where
  "resting_ok m ord \<longleftrightarrow>
     oID ord \<noteq> [] \<and> oType ord = OrderTypeLimit \<and> oTimeInForce ord = TimeInForceGTC \<and>
     oMarketID ord = mID m \<and> 0 < oPrice ord \<and> mPriceTick m dvd oPrice ord \<and>
     0 < oRemainingQuantity ord \<and> mQuantityStep m dvd oRemainingQuantity ord \<and> IsOpen ord \<and>
     is_side (oSide ord) \<and> order64 ord"

definition level_ok :: "Book \<Rightarrow> Side \<Rightarrow> int \<Rightarrow> bool" where
  "level_ok b s p \<longleftrightarrow>
     fmget [] (sideLevels b s) p \<noteq> [] \<and> distinct (fmget [] (sideLevels b s) p) \<and>
     (\<forall>i \<in> set (fmget [] (sideLevels b s) p).
        \<exists>ord. fmlookup (bkOrders b) i = Some ord \<and> oSide ord = s \<and> oPrice ord = p)"

definition side_ok :: "Book \<Rightarrow> Side \<Rightarrow> bool" where
  "side_ok b s \<longleftrightarrow>
     sorted_wrt (better s) (sidePrices b s) \<and>
     fset (fmdom (sideLevels b s)) = set (sidePrices b s) \<and>
     (\<forall>p \<in> set (sidePrices b s). level_ok b s p)"

definition index_ok :: "Book \<Rightarrow> bool" where
  "index_ok b \<longleftrightarrow>
     (\<forall>i ord. fmlookup (bkOrders b) i = Some ord \<longrightarrow>
        oID ord = i \<and> resting_ok (bkMarket b) ord \<and>
        i \<in> set (fmget [] (sideLevels b (oSide ord)) (oPrice ord)))"

definition book_ok :: "Book \<Rightarrow> bool" where
  "book_ok b \<longleftrightarrow> market_ok (bkMarket b) \<and> side_ok b SideBuy \<and> side_ok b SideSell \<and> index_ok b"

lemma book_okD:
  assumes "book_ok b"
  shows "market_ok (bkMarket b)" "is_side s \<Longrightarrow> side_ok b s" "index_ok b"
  using assms by (auto simp: book_ok_def)

lemma fmget_level_nonempty: "x \<in> set (fmget [] m p) \<Longrightarrow> p |\<in>| fmdom m"
  by (cases "fmlookup m p") (auto simp: fmget_def fmlookup_dom_iff)

lemma level_order:
  assumes "side_ok b s" "index_ok b" "i \<in> set (fmget [] (sideLevels b s) p)"
  obtains ord where "fmlookup (bkOrders b) i = Some ord" "oSide ord = s" "oPrice ord = p" "oID ord = i"
    "resting_ok (bkMarket b) ord" "fmget zeroOrder (bkOrders b) i = ord"
proof -
  from assms(1,3) have "p \<in> set (sidePrices b s)"
    using fmget_level_nonempty by (fastforce simp: side_ok_def)
  with assms(1,3) obtain ord where ord: "fmlookup (bkOrders b) i = Some ord" "oSide ord = s" "oPrice ord = p"
    unfolding side_ok_def level_ok_def by blast
  with assms(2) have "oID ord = i" "resting_ok (bkMarket b) ord" by (auto simp: index_ok_def)
  with ord that show ?thesis by (simp add: fmget_Some)
qed

lemma side_list_mem:
  assumes "book_ok b" "is_side s"
  shows "ord \<in> set (side_list b s) \<longleftrightarrow> fmlookup (bkOrders b) (oID ord) = Some ord \<and> oSide ord = s"
proof
  assume "ord \<in> set (side_list b s)"
  then obtain p i where "i \<in> set (fmget [] (sideLevels b s) p)" "ord = fmget zeroOrder (bkOrders b) i"
    by (auto simp: side_list_def)
  with level_order [OF book_okD(2) [OF assms] book_okD(3) [OF assms(1)]]
  show "fmlookup (bkOrders b) (oID ord) = Some ord \<and> oSide ord = s" by metis
next
  assume l: "fmlookup (bkOrders b) (oID ord) = Some ord \<and> oSide ord = s"
  then have "oID ord \<in> set (fmget [] (sideLevels b s) (oPrice ord))"
    using book_okD(3) [OF assms(1)] by (auto simp: index_ok_def)
  moreover from this have "oPrice ord \<in> set (sidePrices b s)"
    using fmget_level_nonempty book_okD(2) [OF assms] by (fastforce simp: side_ok_def)
  moreover have "fmget zeroOrder (bkOrders b) (oID ord) = ord" using l by (simp add: fmget_Some)
  ultimately show "ord \<in> set (side_list b s)"
    unfolding side_list_def by (force simp: image_iff)
qed

lemma level_orders_props:
  assumes "book_ok b" "is_side s" "x \<in> set (level_orders b (sideLevels b s) p)"
  shows "oPrice x = p" "oSide x = s" "oID x \<in> set (fmget [] (sideLevels b s) p)"
    "resting_ok (bkMarket b) x"
proof -
  from assms(3) obtain i where "i \<in> set (fmget [] (sideLevels b s) p)" "x = fmget zeroOrder (bkOrders b) i"
    by auto
  with level_order [OF book_okD(2) [OF assms(1,2)] book_okD(3) [OF assms(1)]]
  show "oPrice x = p" "oSide x = s" "oID x \<in> set (fmget [] (sideLevels b s) p)"
    "resting_ok (bkMarket b) x" by metis+
qed

lemma level_orders_ids:
  assumes "book_ok b" "is_side s"
  shows "map oID (level_orders b (sideLevels b s) p) = fmget [] (sideLevels b s) p"
proof -
  have "oID (fmget zeroOrder (bkOrders b) i) = i" if "i \<in> set (fmget [] (sideLevels b s) p)" for i
    using level_order [OF book_okD(2) [OF assms] book_okD(3) [OF assms(1)] that] by metis
  then show ?thesis by (auto intro: map_idI)
qed

section \<open>Adding an order\<close>

lemma side_cases: "is_side s \<Longrightarrow> (s = SideBuy \<Longrightarrow> P) \<Longrightarrow> (s = SideSell \<Longrightarrow> P) \<Longrightarrow> P"
  by auto

lemma index_okD:
  assumes "index_ok b" "fmlookup (bkOrders b) i = Some x"
  shows "oID x = i" "resting_ok (bkMarket b) x" "i \<in> set (fmget [] (sideLevels b (oSide x)) (oPrice x))"
  using assms by (auto simp: index_ok_def)

lemma Book_Add_InrD:
  assumes "Book_Add b ord = Inr b'"
  shows "bkMarket b' = bkMarket b" "bkOrders b' = fmupd (oID ord) ord (bkOrders b)"
    "oID ord |\<notin>| fmdom (bkOrders b)" "is_side (oSide ord)"
    "\<And>s. sideLevels b' s =
       (if s = oSide ord
        then fmupd (oPrice ord) (fmget [] (sideLevels b s) (oPrice ord) @ [oID ord]) (sideLevels b s)
        else sideLevels b s)"
    "\<And>s. sidePrices b' s =
       (if s = oSide ord \<and> oPrice ord |\<notin>| fmdom (sideLevels b s)
        then insertPrice (sidePrices b s) (oPrice ord) (s = SideBuy) else sidePrices b s)"
  using assms
  by (auto simp: Book_Add_def sideLevels_def sidePrices_def Let_def split: if_splits Side.splits)

lemma Book_Add_resting:
  assumes "market_ok (bkMarket b)" "order64 ord"
  shows "(\<exists>b'. Book_Add b ord = Inr b') \<longleftrightarrow>
    resting_ok (bkMarket b) ord \<and> oID ord |\<notin>| fmdom (bkOrders b)"
  using assms(2) market_okD(5,6) [OF assms(1)]
  by (cases "oSide ord") (auto simp: Book_Add_def resting_ok_def rem64_eq_0 Let_def)

lemma Book_Add_error: "Book_Add b ord = Inl e \<Longrightarrow> e = ErrInvalidBookOrder \<or> e = ErrDuplicateOrder"
  by (auto simp: Book_Add_def Let_def split: if_splits Side.splits)

lemma sidePrices_dom: "side_ok b s \<Longrightarrow> p |\<in>| fmdom (sideLevels b s) \<longleftrightarrow> p \<in> set (sidePrices b s)"
  by (auto simp: side_ok_def)

lemma insertPrice_sorted:
  assumes "sorted_wrt (better s) ps" "p \<notin> set ps"
  shows "sorted_wrt (better s) (insertPrice ps p (s = SideBuy))"
    "set (insertPrice ps p (s = SideBuy)) = insert p (set ps)"
proof -
  let ?P = "\<lambda>q. better s q p"
  note eq = insertPrice_new [OF assms refl]
  have split: "set ps = set (takeWhile ?P ps) \<union> set (dropWhile ?P ps)"
    by (metis set_append takeWhile_dropWhile_id)
  then show "set (insertPrice ps p (s = SideBuy)) = insert p (set ps)" unfolding eq by auto
  have sorted: "sorted_wrt (better s) (takeWhile ?P ps @ dropWhile ?P ps)" using assms(1) by simp
  have "better s p q" if q: "q \<in> set (dropWhile ?P ps)" for q
  proof -
    obtain r rs where r: "dropWhile ?P ps = r # rs" using q by (cases "dropWhile ?P ps") auto
    have "r \<in> set ps" using r split by auto
    then have "r \<noteq> p" "\<not> better s r p" using r assms(2) hd_dropWhile [of ?P ps] by auto
    then have "better s p r" using better_order(4) by blast
    moreover have "r = q \<or> better s r q" using sorted q r by (auto simp: sorted_wrt_append)
    ultimately show ?thesis using better_order(2) by blast
  qed
  moreover have "better s q p" if "q \<in> set (takeWhile ?P ps)" for q
    using that by (rule set_takeWhileD [THEN conjunct2])
  ultimately show "sorted_wrt (better s) (insertPrice ps p (s = SideBuy))"
    unfolding eq sorted_wrt_append sorted_wrt.simps list.set
    using sorted [unfolded sorted_wrt_append] by blast
qed

text \<open>Lookups after the three ways in which the operations change the index and the levels.\<close>

lemma level_ok_cong:
  assumes "level_ok b s p" "fmget [] (sideLevels b' s) p = fmget [] (sideLevels b s) p"
    and "\<And>i. i \<in> set (fmget [] (sideLevels b s) p) \<Longrightarrow> fmlookup (bkOrders b') i = fmlookup (bkOrders b) i"
  shows "level_ok b' s p"
  using assms by (auto simp: level_ok_def)

lemma level_ids_dom:
  assumes "book_ok b" "is_side s" "i \<in> set (fmget [] (sideLevels b s) p)"
  shows "i |\<in>| fmdom (bkOrders b)"
  using level_order [OF book_okD(2) [OF assms(1,2)] book_okD(3) [OF assms(1)] assms(3)]
  by (metis fmdomI)

lemma book_ok_Add:
  assumes "book_ok b" "Book_Add b ord = Inr b'" "order64 ord"
  shows "book_ok b'"
proof -
  note A = Book_Add_InrD [OF assms(2)]
  have rest: "resting_ok (bkMarket b) ord"
    using Book_Add_resting [OF book_okD(1) [OF assms(1)] assms(3)] assms(2) by auto
  let ?t = "oSide ord" and ?p = "oPrice ord"
  note fresh = level_ids_dom [OF assms(1)]
  have side: "side_ok b' s" if s: "is_side s" for s
  proof -
    note ok = book_okD(2) [OF assms(1) s]
    have sorted: "sorted_wrt (better s) (sidePrices b s)" using ok by (simp add: side_ok_def)
    have lev: "level_ok b' s q" if q: "q \<in> set (sidePrices b s)" "\<not> (s = ?t \<and> q = ?p)" for q
      by (rule level_ok_cong [of b]) (use q ok A fresh [OF s, of _ q] in \<open>auto simp: side_ok_def\<close>)
    have new: "level_ok b' ?t ?p" if "s = ?t"
    proof -
      have old: "level_ok b s ?p" if "?p \<in> set (sidePrices b s)" using that ok by (simp add: side_ok_def)
      have empty: "fmget [] (sideLevels b s) ?p = []" if "?p \<notin> set (sidePrices b s)"
        using that sidePrices_dom [OF ok] by (simp add: fmget_notin)
      show ?thesis using old empty A fresh [OF s, of _ ?p] \<open>s = ?t\<close>
        by (cases "?p \<in> set (sidePrices b s)") (auto simp: level_ok_def)
    qed
    show ?thesis
    proof (cases "s = ?t \<and> ?p \<notin> set (sidePrices b s)")
      case True
      then show ?thesis using insertPrice_sorted [OF sorted, of ?p] A(5,6) sidePrices_dom [OF ok] lev new ok
        by (auto simp: side_ok_def)
    next
      case False
      then show ?thesis using A(5,6) sidePrices_dom [OF ok] lev new ok
        by (auto simp: side_ok_def)
    qed
  qed
  have "index_ok b'"
    unfolding index_ok_def
  proof (intro allI impI)
    fix i x assume x: "fmlookup (bkOrders b') i = Some x"
    show "oID x = i \<and> resting_ok (bkMarket b') x \<and> i \<in> set (fmget [] (sideLevels b' (oSide x)) (oPrice x))"
    proof (cases "i = oID ord")
      case True
      then show ?thesis using x A rest by simp
    next
      case False
      then have "fmlookup (bkOrders b) i = Some x" using x A(2) by simp
      note index_okD [OF book_okD(3) [OF assms(1)] this]
      then show ?thesis using A(1) by (cases "oSide x = oSide ord") (simp_all add: A(5))
    qed
  qed
  then show ?thesis using side A(1) book_okD(1) [OF assms(1)] by (simp add: book_ok_def)
qed

section \<open>The operations on the priority lists\<close>

text \<open>A new order goes behind every order whose price is at least as good.\<close>

definition insert_order :: "Side \<Rightarrow> Order \<Rightarrow> Order list \<Rightarrow> Order list" where
  "insert_order s ord L =
     takeWhile (\<lambda>x. \<not> better s (oPrice ord) (oPrice x)) L @ ord #
     dropWhile (\<lambda>x. \<not> better s (oPrice ord) (oPrice x)) L"

lemma takeWhile_concat:
  assumes "\<forall>q \<in> set ps. F q \<noteq> [] \<and> (\<forall>x \<in> set (F q). g x = q)"
  shows "takeWhile (\<lambda>x. P (g x)) (concat (map F ps)) = concat (map F (takeWhile P ps))"
    and "dropWhile (\<lambda>x. P (g x)) (concat (map F ps)) = concat (map F (dropWhile P ps))"
proof -
  have "takeWhile (\<lambda>x. P (g x)) (concat (map F ps)) = concat (map F (takeWhile P ps)) \<and>
    dropWhile (\<lambda>x. P (g x)) (concat (map F ps)) = concat (map F (dropWhile P ps))"
    using assms
  proof (induction ps)
    case Nil
    show ?case by simp
  next
    case (Cons q ps)
    show ?case
    proof (cases "P q")
      case True
      then have "\<forall>x \<in> set (F q). P (g x)" using Cons.prems by auto
      then show ?thesis using Cons True by (simp add: takeWhile_append dropWhile_append)
    next
      case False
      moreover obtain x xs where "F q = x # xs" "g x = q" using Cons.prems by (cases "F q") auto
      ultimately show ?thesis by simp
    qed
  qed
  then show "takeWhile (\<lambda>x. P (g x)) (concat (map F ps)) = concat (map F (takeWhile P ps))"
    "dropWhile (\<lambda>x. P (g x)) (concat (map F ps)) = concat (map F (dropWhile P ps))" by auto
qed

lemma level_orders_nonempty:
  assumes "book_ok b" "is_side s" "p \<in> set (sidePrices b s)"
  shows "level_orders b (sideLevels b s) p \<noteq> []"
  using book_okD(2) [OF assms(1,2)] assms(3) by (auto simp: side_ok_def level_ok_def)

lemma insert_order_concat:
  assumes "book_ok b" "is_side s"
  shows "insert_order s ord (side_list b s) =
    concat (map (level_orders b (sideLevels b s))
      (takeWhile (\<lambda>q. \<not> better s (oPrice ord) q) (sidePrices b s))) @ ord #
    concat (map (level_orders b (sideLevels b s))
      (dropWhile (\<lambda>q. \<not> better s (oPrice ord) q) (sidePrices b s)))"
proof -
  have "\<forall>q \<in> set (sidePrices b s). level_orders b (sideLevels b s) q \<noteq> [] \<and>
      (\<forall>x \<in> set (level_orders b (sideLevels b s) q). oPrice x = q)"
    using level_orders_nonempty [OF assms] level_orders_props(1) [OF assms] by blast
  note takeWhile_concat [OF this, where P = "\<lambda>q. \<not> better s (oPrice ord) q"]
  then show ?thesis by (simp add: insert_order_def side_list_def)
qed

lemma level_orders_cong:
  assumes "fmget [] lv' p = fmget [] lv p"
    and "\<And>i. i \<in> set (fmget [] lv p) \<Longrightarrow> fmlookup (bkOrders b') i = fmlookup (bkOrders b) i"
  shows "level_orders b' lv' p = level_orders b lv p"
  using assms by (auto simp: fmget_def)

lemma takeWhile_sorted_split:
  assumes "sorted_wrt (better s) ps" "p \<in> set ps"
  obtains xs ys where "ps = xs @ p # ys" "takeWhile (\<lambda>q. \<not> better s p q) ps = xs @ [p]"
    "dropWhile (\<lambda>q. \<not> better s p q) ps = ys" "p \<notin> set xs" "p \<notin> set ys"
proof -
  obtain xs ys where ps: "ps = xs @ p # ys" using assms(2) by (meson split_list)
  have xs: "\<forall>q \<in> set xs. \<not> better s p q" and ys: "\<forall>q \<in> set ys. better s p q"
    using assms(1) better_order(3) unfolding ps by (auto simp: sorted_wrt_append)
  moreover have "p \<notin> set xs" "p \<notin> set ys"
    using assms(1) better_order(1) unfolding ps by (auto simp: sorted_wrt_append)
  moreover have "takeWhile (\<lambda>q. \<not> better s p q) ys = []" "dropWhile (\<lambda>q. \<not> better s p q) ys = ys"
    using ys by (cases ys; simp)+
  ultimately show ?thesis using that [OF ps] better_order(1) xs
    by (simp add: ps takeWhile_append dropWhile_append)
qed

lemma side_list_Add:
  assumes "book_ok b" "Book_Add b ord = Inr b'" "is_side s"
  shows "side_list b' s = (if s = oSide ord then insert_order s ord (side_list b s) else side_list b s)"
proof -
  note A = Book_Add_InrD [OF assms(2)] and ok = book_okD(2) [OF assms(1,3)]
  let ?p = "oPrice ord" and ?F = "level_orders b (sideLevels b s)" and ?F' = "level_orders b' (sideLevels b' s)"
  have dom: "i \<noteq> oID ord" if "i \<in> set (fmget [] (sideLevels b s) q)" for i q
    using level_ids_dom [OF assms(1,3) that] A(3) by auto
  have F: "?F' q = ?F q" if "s \<noteq> oSide ord \<or> q \<noteq> ?p" for q
    by (rule level_orders_cong) (use that A(2,5) dom [of _ q] in auto)
  have Fs: "map ?F' qs = map ?F qs" if "?p \<notin> set qs" for qs
    by (rule map_cong [OF refl], rule F) (use that in auto)
  show ?thesis
  proof (cases "s = oSide ord")
    case False
    then show ?thesis using F A(6) by (simp add: side_list_def)
  next
    case s: True
    have Fp: "?F' ?p = ?F ?p @ [ord]"
      using s A(2,5) dom [of _ ?p] by (auto simp: fmget_def)
    have sorted: "sorted_wrt (better s) (sidePrices b s)" using ok by (simp add: side_ok_def)
    show ?thesis
    proof (cases "?p \<in> set (sidePrices b s)")
      case True
      have ps': "sidePrices b' s = sidePrices b s" using A(6) True sidePrices_dom [OF ok] by simp
      obtain xs ys where ps: "sidePrices b s = xs @ ?p # ys"
        "takeWhile (\<lambda>q. \<not> better s ?p q) (sidePrices b s) = xs @ [?p]"
        "dropWhile (\<lambda>q. \<not> better s ?p q) (sidePrices b s) = ys" "?p \<notin> set xs" "?p \<notin> set ys"
        using takeWhile_sorted_split [OF sorted True] by blast
      note eqs = Fs [OF ps(4)] Fs [OF ps(5)]
      have "side_list b' s = insert_order s ord (side_list b s)"
        unfolding insert_order_concat [OF assms(1,3)] ps(2,3)
        by (simp only: side_list_def ps' ps(1) eqs map_append list.map concat_append concat.simps Fp
            append.assoc append.simps)
      with s show ?thesis by simp
    next
      case False
      let ?P = "\<lambda>q. \<not> better s ?p q"
      have ps': "sidePrices b' s = takeWhile ?P (sidePrices b s) @ ?p # dropWhile ?P (sidePrices b s)"
      proof -
        have "\<And>q. q \<in> set (sidePrices b s) \<Longrightarrow> better s q ?p \<longleftrightarrow> ?P q"
          using False better_order(3,4) by metis
        then have "takeWhile (\<lambda>q. better s q ?p) (sidePrices b s) = takeWhile ?P (sidePrices b s)"
          "dropWhile (\<lambda>q. better s q ?p) (sidePrices b s) = dropWhile ?P (sidePrices b s)"
          by (auto intro: takeWhile_cong dropWhile_cong)
        moreover have "sidePrices b' s = insertPrice (sidePrices b s) ?p (s = SideBuy)"
          using s False sidePrices_dom [OF ok] by (simp add: A(6))
        ultimately show ?thesis by (simp only: insertPrice_new [OF sorted False refl])
      qed
      have "?p \<notin> set (takeWhile ?P (sidePrices b s))" "?p \<notin> set (dropWhile ?P (sidePrices b s))"
        using False by (auto dest: set_takeWhileD set_dropWhileD)
      note eqs = this [THEN Fs]
      have "?F ?p = []" using False sidePrices_dom [OF ok] by (simp add: fmget_notin)
      then have "side_list b' s = insert_order s ord (side_list b s)"
        unfolding insert_order_concat [OF assms(1,3)] unfolding side_list_def ps'
        by (simp only: eqs map_append list.map concat_append concat.simps Fp append.simps)
      with s show ?thesis by simp
    qed
  qed
qed

subsection \<open>Removing an order\<close>

lemma level_distinct:
  assumes "side_ok b s"
  shows "distinct (fmget [] (sideLevels b s) p)"
proof (cases "p \<in> set (sidePrices b s)")
  case True
  then show ?thesis using assms by (simp add: side_ok_def level_ok_def)
next
  case False
  then show ?thesis using sidePrices_dom [OF assms] by (simp add: fmget_notin)
qed

lemma level_member:
  assumes "book_ok b" "fmlookup (bkOrders b) i = Some ord" "is_side s"
  shows "i \<in> set (fmget [] (sideLevels b s) q) \<longleftrightarrow> s = oSide ord \<and> q = oPrice ord"
proof
  assume "i \<in> set (fmget [] (sideLevels b s) q)"
  then obtain x where "fmlookup (bkOrders b) i = Some x" "oSide x = s" "oPrice x = q"
    using level_order [OF book_okD(2) [OF assms(1,3)] book_okD(3) [OF assms(1)]] by metis
  then show "s = oSide ord \<and> q = oPrice ord" using assms(2) by auto
next
  assume "s = oSide ord \<and> q = oPrice ord"
  then show "i \<in> set (fmget [] (sideLevels b s) q)"
    using index_okD(3) [OF book_okD(3) [OF assms(1)] assms(2)] by simp
qed

lemma resting_side: "book_ok b \<Longrightarrow> fmlookup (bkOrders b) i = Some ord \<Longrightarrow> is_side (oSide ord)"
  using index_okD(2) [OF book_okD(3)] by (auto simp: resting_ok_def)

lemma Book_remove_lift:
  assumes "remove_level (sideLevels b (oSide x)) (sidePrices b (oSide x)) x = Inr (lv, ps)"
    and "is_side (oSide x)"
  obtains b' where "Book_remove b x = Inr b'" "bkMarket b' = bkMarket b"
    "bkOrders b' = fmdrop (oID x) (bkOrders b)"
    "sideLevels b' (oSide x) = lv" "sidePrices b' (oSide x) = ps"
    "\<And>t. is_side t \<Longrightarrow> t \<noteq> oSide x \<Longrightarrow> sideLevels b' t = sideLevels b t \<and> sidePrices b' t = sidePrices b t"
proof (cases "oSide x = SideBuy")
  case True
  then show ?thesis using assms(1)
    by (intro that [of "b\<lparr> bkBids := lv, bkBidPrices := ps, bkOrders := fmdrop (oID x) (bkOrders b) \<rparr>"])
      (auto simp: Book_remove_def sideLevels_def sidePrices_def)
next
  case False
  then show ?thesis using assms
    by (intro that [of "b\<lparr> bkAsks := lv, bkAskPrices := ps, bkOrders := fmdrop (oID x) (bkOrders b) \<rparr>"])
      (auto simp: Book_remove_def sideLevels_def sidePrices_def)
qed

text \<open>The queue of every level loses the order, and the levels left empty disappear.\<close>

lemma Book_remove_spec:
  assumes ok: "book_ok b" and x: "fmlookup (bkOrders b) (oID x) = Some ord"
    and same: "oSide x = oSide ord" "oPrice x = oPrice ord"
  shows "\<exists>b'. Book_remove b x = Inr b' \<and> bkMarket b' = bkMarket b \<and>
    bkOrders b' = fmdrop (oID x) (bkOrders b) \<and>
    (\<forall>s q. is_side s \<longrightarrow>
       fmget [] (sideLevels b' s) q = filter (\<lambda>i. i \<noteq> oID x) (fmget [] (sideLevels b s) q)) \<and>
    (\<forall>s. is_side s \<longrightarrow>
       sidePrices b' s = filter (\<lambda>q. fmget [] (sideLevels b' s) q \<noteq> []) (sidePrices b s) \<and>
       fset (fmdom (sideLevels b' s)) = set (sidePrices b' s))"
proof -
  let ?s = "oSide x" and ?p = "oPrice x" and ?i = "oID x"
  let ?q = "fmget [] (sideLevels b ?s) ?p"
  let ?q' = "remove1 ?i ?q"
  have s: "is_side ?s" using resting_side [OF ok x] same by simp
  note side = book_okD(2) [OF ok s]
  have mem: "?i \<in> set ?q" using level_member [OF ok x s] same by simp
  have look: "fmlookup (sideLevels b ?s) ?p = Some ?q"
    using mem by (cases "fmlookup (sideLevels b ?s) ?p") (simp_all add: fmget_def)
  have rm: "remove_level (sideLevels b ?s) (sidePrices b ?s) x =
    Inr (if ?q' = [] then (fmdrop ?p (sideLevels b ?s), remove1 ?p (sidePrices b ?s))
         else (fmupd ?p ?q' (sideLevels b ?s), sidePrices b ?s))"
    using mem by (simp add: remove_level_def look removeID_remove1 removePrice_remove1)
  obtain lv ps where lp: "(lv, ps) =
      (if ?q' = [] then (fmdrop ?p (sideLevels b ?s), remove1 ?p (sidePrices b ?s))
       else (fmupd ?p ?q' (sideLevels b ?s), sidePrices b ?s))"
    by (metis surj_pair)
  obtain b' where b': "Book_remove b x = Inr b'" "bkMarket b' = bkMarket b"
    "bkOrders b' = fmdrop ?i (bkOrders b)" "sideLevels b' ?s = lv" "sidePrices b' ?s = ps"
    "\<And>t. is_side t \<Longrightarrow> t \<noteq> ?s \<Longrightarrow> sideLevels b' t = sideLevels b t \<and> sidePrices b' t = sidePrices b t"
    using Book_remove_lift [OF rm [folded lp] s] by blast
  have q': "?q' = filter (\<lambda>i. i \<noteq> ?i) ?q"
    using distinct_remove1_removeAll [OF level_distinct [OF side, of ?p]]
    by (simp add: removeAll_filter_not_eq neq_commute)
  have idle: "fmget [] (sideLevels b t) q = filter (\<lambda>i. i \<noteq> ?i) (fmget [] (sideLevels b t) q)"
    if "is_side t" "\<not> (t = ?s \<and> q = ?p)" for t q
    using level_member [OF ok x that(1)] that(2) same by (auto intro: filter_True [symmetric])
  have queues: "fmget [] (sideLevels b' t) q = filter (\<lambda>i. i \<noteq> ?i) (fmget [] (sideLevels b t) q)"
    if t: "is_side t" for t q
  proof (cases "t = ?s")
    case True
    then show ?thesis using b'(4) lp idle [of ?s q] s q'
      by (cases "q = ?p") (auto split: if_splits)
  next
    case False
    then show ?thesis using b'(6) [OF t] idle [OF t] by simp
  qed
  have prices: "sidePrices b' t = filter (\<lambda>q. fmget [] (sideLevels b' t) q \<noteq> []) (sidePrices b t) \<and>
      fset (fmdom (sideLevels b' t)) = set (sidePrices b' t)" if t: "is_side t" for t
  proof (cases "t = ?s")
    case False
    note old = book_okD(2) [OF ok t]
    have "\<forall>q \<in> set (sidePrices b t). fmget [] (sideLevels b t) q \<noteq> []"
      using old by (simp add: side_ok_def level_ok_def)
    then show ?thesis using b'(6) [OF t False] old by (simp add: side_ok_def)
  next
    case t: True
    have ne: "\<forall>q \<in> set (sidePrices b ?s). fmget [] (sideLevels b ?s) q \<noteq> []"
      using side by (simp add: side_ok_def level_ok_def)
    have "distinct (sidePrices b ?s)" using side better_order(1)
      by (auto simp: side_ok_def distinct_conv_nth sorted_wrt_iff_nth_less nat_neq_iff) metis+
    then have rem: "remove1 ?p (sidePrices b ?s) = filter (\<lambda>q. q \<noteq> ?p) (sidePrices b ?s)"
      by (simp add: distinct_remove1_removeAll removeAll_filter_not_eq neq_commute)
    have dom: "fset (fmdom (sideLevels b ?s)) = set (sidePrices b ?s)" using side by (simp add: side_ok_def)
    have p: "?p \<in> set (sidePrices b ?s)" using look dom by (metis fmdomI)
    show ?thesis
    proof (cases "?q' = []")
      case True
      then have "lv = fmdrop ?p (sideLevels b ?s)" "ps = filter (\<lambda>q. q \<noteq> ?p) (sidePrices b ?s)"
        using lp rem by auto
      then show ?thesis using t b'(4,5) dom ne by (auto intro!: filter_cong)
    next
      case False
      then have "lv = fmupd ?p ?q' (sideLevels b ?s)" "ps = sidePrices b ?s" using lp by auto
      then show ?thesis using t b'(4,5) dom ne p False by (auto simp: filter_id_conv)
    qed
  qed
  show ?thesis using b'(1-3) queues prices by blast
qed

lemma concat_map_nonempty:
  "(\<And>x. \<not> P x \<Longrightarrow> f x = []) \<Longrightarrow> concat (map f (filter P xs)) = concat (map f xs)"
  by (induction xs) auto

lemma Book_remove_ok:
  assumes ok: "book_ok b" and x: "fmlookup (bkOrders b) (oID x) = Some ord"
    and same: "oSide x = oSide ord" "oPrice x = oPrice ord"
  shows "\<exists>b'. Book_remove b x = Inr b' \<and> book_ok b' \<and> bkMarket b' = bkMarket b \<and>
    bkOrders b' = fmdrop (oID x) (bkOrders b) \<and>
    (\<forall>s. is_side s \<longrightarrow> side_list b' s = filter (\<lambda>y. oID y \<noteq> oID x) (side_list b s))"
proof -
  let ?i = "oID x"
  obtain b' where b': "Book_remove b x = Inr b'" "bkMarket b' = bkMarket b"
    "bkOrders b' = fmdrop ?i (bkOrders b)"
    and queues: "\<And>s q. is_side s \<Longrightarrow>
       fmget [] (sideLevels b' s) q = filter (\<lambda>i. i \<noteq> ?i) (fmget [] (sideLevels b s) q)"
    and prices: "\<And>s. is_side s \<Longrightarrow>
       sidePrices b' s = filter (\<lambda>q. fmget [] (sideLevels b' s) q \<noteq> []) (sidePrices b s)"
      "\<And>s. is_side s \<Longrightarrow> fset (fmdom (sideLevels b' s)) = set (sidePrices b' s)"
    using Book_remove_spec [OF assms] by (elim exE conjE) (rule that, assumption+, metis+)
  have side: "side_ok b' s" if s: "is_side s" for s
  proof -
    note old = book_okD(2) [OF ok s]
    have "sorted_wrt (better s) (sidePrices b' s)"
      using old unfolding prices(1) [OF s] by (simp add: side_ok_def sorted_wrt_filter)
    moreover have "level_ok b' s q" if q: "q \<in> set (sidePrices b' s)" for q
    proof -
      have "fmget [] (sideLevels b' s) q \<noteq> []" "q \<in> set (sidePrices b s)"
        using q unfolding prices(1) [OF s] by auto
      then show ?thesis using old b'(3) by (auto simp: side_ok_def level_ok_def queues [OF s])
    qed
    ultimately show ?thesis using prices(2) [OF s] by (simp add: side_ok_def)
  qed
  have "index_ok b'"
    unfolding index_ok_def
  proof (intro allI impI)
    fix i y assume y: "fmlookup (bkOrders b') i = Some y"
    then have y': "fmlookup (bkOrders b) i = Some y" "i \<noteq> ?i" using b'(3) by (auto split: if_splits)
    then show "oID y = i \<and> resting_ok (bkMarket b') y \<and> i \<in> set (fmget [] (sideLevels b' (oSide y)) (oPrice y))"
      using index_okD [OF book_okD(3) [OF ok] y'(1)] b'(2) queues [OF resting_side [OF ok y'(1)]] by auto
  qed
  then have "book_ok b'" using side b'(2) book_okD(1) [OF ok] by (simp add: book_ok_def)
  moreover have "side_list b' s = filter (\<lambda>y. oID y \<noteq> ?i) (side_list b s)" if s: "is_side s" for s
  proof -
    have level: "level_orders b' (sideLevels b' s) q = filter (\<lambda>y. oID y \<noteq> ?i) (level_orders b (sideLevels b s) q)" for q
    proof -
      have "oID (fmget zeroOrder (bkOrders b) i) = i" if "i \<in> set (fmget [] (sideLevels b s) q)" for i
        using level_order [OF book_okD(2) [OF ok s] book_okD(3) [OF ok] that] by metis
      then show ?thesis using b'(3)
        by (simp add: queues [OF s] filter_map o_def cong: filter_cong map_cong)
    qed
    have "concat (map (level_orders b' (sideLevels b' s)) (sidePrices b' s)) =
        concat (map (level_orders b' (sideLevels b' s)) (sidePrices b s))"
      unfolding prices(1) [OF s] by (rule concat_map_nonempty) simp
    then show ?thesis by (simp add: side_list_def level filter_concat o_def)
  qed
  ultimately show ?thesis using b'(1-3) by blast
qed

subsection \<open>Replacing an order in place\<close>

lemma Book_replace_ok:
  assumes ok: "book_ok b" and x: "fmlookup (bkOrders b) (oID y) = Some x"
    and same: "oSide y = oSide x" "oPrice y = oPrice x" and rest: "resting_ok (bkMarket b) y"
  defines "b' \<equiv> b\<lparr> bkOrders := fmupd (oID y) y (bkOrders b) \<rparr>"
  shows "book_ok b'" "is_side s \<Longrightarrow> side_list b' s = map (\<lambda>z. if oID z = oID y then y else z) (side_list b s)"
proof -
  have b': "bkMarket b' = bkMarket b" "bkOrders b' = fmupd (oID y) y (bkOrders b)"
    "\<And>t. sideLevels b' t = sideLevels b t" "\<And>t. sidePrices b' t = sidePrices b t"
    by (simp_all add: b'_def sideLevels_def sidePrices_def split: Side.split)
  have level: "level_ok b' t q" if "level_ok b t q" for t q
    using that x same by (fastforce simp: level_ok_def b')
  have "index_ok b'"
    unfolding index_ok_def
  proof (intro allI impI)
    fix i z assume z: "fmlookup (bkOrders b') i = Some z"
    show "oID z = i \<and> resting_ok (bkMarket b') z \<and> i \<in> set (fmget [] (sideLevels b' (oSide z)) (oPrice z))"
    proof (cases "i = oID y")
      case True
      then show ?thesis using z rest same index_okD(3) [OF book_okD(3) [OF ok] x] by (auto simp: b')
    next
      case False
      then show ?thesis using z index_okD [OF book_okD(3) [OF ok], of i z] by (simp add: b')
    qed
  qed
  moreover have "side_ok b' t" if "is_side t" for t
    using book_okD(2) [OF ok that] level by (simp add: side_ok_def b')
  ultimately show "book_ok b'" using book_okD(1) [OF ok] by (simp add: book_ok_def b')
  show "side_list b' s = map (\<lambda>z. if oID z = oID y then y else z) (side_list b s)" if s: "is_side s"
  proof -
    have "level_orders b' (sideLevels b' s) q =
        map (\<lambda>z. if oID z = oID y then y else z) (level_orders b (sideLevels b s) q)" for q
    proof -
      have "oID (fmget zeroOrder (bkOrders b) i) = i" if "i \<in> set (fmget [] (sideLevels b s) q)" for i
        using level_order [OF book_okD(2) [OF ok s] book_okD(3) [OF ok] that] by metis
      then show ?thesis by (auto simp: b')
    qed
    then show ?thesis by (simp only: side_list_def b'(4) map_concat map_map o_def)
  qed
qed

section \<open>Books are determined by their priority lists\<close>

text \<open>Price-time order of a list of resting orders.\<close>

abbreviation price_sorted :: "Side \<Rightarrow> Order list \<Rightarrow> bool" where
  "price_sorted s \<equiv> sorted_wrt (\<lambda>x y. \<not> better s (oPrice y) (oPrice x))"

lemma better_trans_not: "\<not> better s q p \<Longrightarrow> \<not> better s r q \<Longrightarrow> \<not> better s r p"
  by (auto simp: better_def split: if_splits)

lemma side_list_sorted:
  assumes "book_ok b" "is_side s"
  shows "price_sorted s (side_list b s)"
proof -
  have "price_sorted s (concat (map F ps))"
    if "sorted_wrt (better s) ps" "\<forall>q \<in> set ps. \<forall>x \<in> set (F q). oPrice x = q" for F and ps :: "int list"
    using that
  proof (induction ps)
    case (Cons q ps)
    have "price_sorted s (F q)"
      using Cons.prems better_order(1) by (auto simp: sorted_wrt_iff_nth_less)
    with Cons show ?case by (auto simp: sorted_wrt_append dest: better_order(3))
  qed simp
  note this [of "sidePrices b s" "level_orders b (sideLevels b s)"]
  moreover have "\<forall>q \<in> set (sidePrices b s). \<forall>x \<in> set (level_orders b (sideLevels b s) q). oPrice x = q"
    using level_orders_props(1) [OF assms] by blast
  ultimately show ?thesis using book_okD(2) [OF assms] by (simp only: side_list_def side_ok_def)
qed

lemma distinct_concat_map:
  assumes "distinct ps" "\<And>p q. p \<noteq> q \<Longrightarrow> set (F p) \<inter> set (F q) = {}" "\<And>p. distinct (F p)"
  shows "distinct (concat (map F ps))"
  using assms(1)
proof (induction ps)
  case (Cons p ps)
  then show ?case using assms(2) [of p] assms(3) by fastforce
qed simp

lemma side_list_ids: "book_ok b \<Longrightarrow> is_side s \<Longrightarrow>
  map oID (side_list b s) = concat (map (fmget [] (sideLevels b s)) (sidePrices b s))"
proof -
  assume "book_ok b" "is_side s"
  then have "map oID \<circ> level_orders b (sideLevels b s) = fmget [] (sideLevels b s)"
    using level_orders_ids by (simp only: o_def)
  then show ?thesis by (simp only: side_list_def map_concat map_map)
qed

lemma sidePrices_distinct: "book_ok b \<Longrightarrow> is_side s \<Longrightarrow> distinct (sidePrices b s)"
  using book_okD(2) [of b s] better_order(1)
  by (auto simp: side_ok_def distinct_conv_nth sorted_wrt_iff_nth_less nat_neq_iff) metis+

lemma side_list_distinct:
  assumes "book_ok b" "is_side s"
  shows "distinct (map oID (side_list b s))"
proof -
  have "set (fmget [] (sideLevels b s) p) \<inter> set (fmget [] (sideLevels b s) q) = {}" if "p \<noteq> q" for p q
    using level_order [OF book_okD(2) [OF assms] book_okD(3) [OF assms(1)]] that
    by (metis disjoint_iff option.inject)
  moreover have "distinct (fmget [] (sideLevels b s) p)" for p
    by (rule level_distinct [OF book_okD(2) [OF assms]])
  ultimately show ?thesis unfolding side_list_ids [OF assms]
    by (intro distinct_concat_map sidePrices_distinct [OF assms])
qed

lemma sorted_better_unique:
  assumes "sorted_wrt (better s) ps" "sorted_wrt (better s) qs" "set ps = set qs"
  shows "ps = qs"
proof (cases "s = SideBuy")
  case True
  then have "sorted_wrt (<) (rev ps)" "sorted_wrt (<) (rev qs)"
    using assms(1,2) by (auto simp: better_def sorted_wrt_rev elim: sorted_wrt_mono_rel [rotated])
  then have "rev ps = rev qs" using assms(3) by (intro strict_sorted_equal) auto
  then show ?thesis by simp
next
  case False
  then have "sorted_wrt (<) ps" "sorted_wrt (<) qs"
    using assms(1,2) by (auto simp: better_def elim: sorted_wrt_mono_rel [rotated])
  then show ?thesis using assms(3) by (intro strict_sorted_equal) auto
qed

lemma side_list_prices:
  assumes "book_ok b" "is_side s"
  shows "set (sidePrices b s) = oPrice ` set (side_list b s)"
proof -
  have "\<exists>x \<in> set (level_orders b (sideLevels b s) p). oPrice x = p" if "p \<in> set (sidePrices b s)" for p
    using level_orders_nonempty [OF assms that] level_orders_props(1) [OF assms]
    by (metis list.set_intros(1) neq_Nil_conv)
  moreover have "set (side_list b s) = (\<Union>p \<in> set (sidePrices b s). set (level_orders b (sideLevels b s) p))"
    by (simp add: side_list_def)
  ultimately show ?thesis using level_orders_props(1) [OF assms] by (simp only:) blast
qed

lemma filter_concat_level:
  assumes "distinct ps" "\<forall>q \<in> set ps. \<forall>x \<in> set (F q). g x = q"
  shows "filter (\<lambda>x. g x = p) (concat (map F ps)) = (if p \<in> set ps then F p else [])"
  using assms
proof (induction ps)
  case (Cons q ps)
  then have "filter (\<lambda>x. g x = p) (F q) = (if q = p then F q else [])" by auto
  with Cons show ?case by auto
qed simp

lemma level_of_side_list:
  assumes "book_ok b" "is_side s"
  shows "fmget [] (sideLevels b s) p = map oID (filter (\<lambda>x. oPrice x = p) (side_list b s))"
proof -
  have "filter (\<lambda>x. oPrice x = p) (side_list b s) =
      (if p \<in> set (sidePrices b s) then level_orders b (sideLevels b s) p else [])"
    unfolding side_list_def using level_orders_props(1) [OF assms] sidePrices_distinct [OF assms]
    by (intro filter_concat_level) blast+
  then show ?thesis using level_orders_ids [OF assms, of p] sidePrices_dom [OF book_okD(2) [OF assms], of p]
    by (auto simp: fmget_notin)
qed

lemma book_ext:
  assumes "book_ok b" "book_ok c" "bkMarket b = bkMarket c"
    and "\<And>s. is_side s \<Longrightarrow> side_list b s = side_list c s"
  shows "b = c"
proof -
  have prices: "sidePrices b s = sidePrices c s" if s: "is_side s" for s
  proof (rule sorted_better_unique)
    show "sorted_wrt (better s) (sidePrices b s)" "sorted_wrt (better s) (sidePrices c s)"
      using book_okD(2) [OF assms(1) s] book_okD(2) [OF assms(2) s] by (auto simp: side_ok_def)
    show "set (sidePrices b s) = set (sidePrices c s)"
      using side_list_prices [OF assms(1) s] side_list_prices [OF assms(2) s] assms(4) [OF s] by simp
  qed
  have levels: "sideLevels b s = sideLevels c s" if s: "is_side s" for s
  proof (rule fmap_ext)
    fix p
    have "fmget [] (sideLevels b s) p = fmget [] (sideLevels c s) p"
      using level_of_side_list [OF assms(1) s] level_of_side_list [OF assms(2) s] assms(4) [OF s] by simp
    moreover have "p |\<in>| fmdom (sideLevels b s) \<longleftrightarrow> p |\<in>| fmdom (sideLevels c s)"
      using sidePrices_dom book_okD(2) assms(1,2) s prices by metis
    ultimately show "fmlookup (sideLevels b s) p = fmlookup (sideLevels c s) p"
      by (auto simp: fmget_def fmlookup_dom_iff split: option.splits)
  qed
  have look: "fmlookup (bkOrders c) i = Some x"
    if "book_ok b" "book_ok c" "\<And>s. is_side s \<Longrightarrow> side_list b s = side_list c s"
      "fmlookup (bkOrders b) i = Some x" for b c i x
  proof -
    have "oID x = i" using index_okD(1) [OF book_okD(3)] that by blast
    moreover have s: "is_side (oSide x)" using resting_side that by blast
    ultimately have "x \<in> set (side_list b (oSide x))" using side_list_mem [OF that(1) s] that(4) by simp
    then show ?thesis using side_list_mem [OF that(2) s] that(3) [OF s] \<open>oID x = i\<close> by simp
  qed
  have orders: "bkOrders b = bkOrders c"
  proof (rule fmap_ext)
    fix i show "fmlookup (bkOrders b) i = fmlookup (bkOrders c) i"
      using look [OF assms(1,2,4)] look [OF assms(2,1) assms(4) [symmetric]]
      by (metis option.exhaust)
  qed
  show ?thesis
    using assms(3) orders prices [of SideBuy] prices [of SideSell] levels [of SideBuy] levels [of SideSell]
    by (cases b; cases c) (simp add: sideLevels_def sidePrices_def)
qed

section \<open>Validation and the round trip of snapshots\<close>

lemma check_order_ok:
  assumes "\<forall>i \<in> set q. \<exists>x. fmlookup (bkOrders b) i = Some x \<and> oSide x = s \<and> oPrice x = p \<and>
      IsOpen x \<and> 0 < oRemainingQuantity x"
    and "distinct q" "set q \<inter> fset seen = {}"
  shows "foldE (check_order b s p) q seen = Inr (seen |\<union>| fset_of_list q)"
  using assms
proof (induction q arbitrary: seen)
  case (Cons i q)
  then obtain x where "fmlookup (bkOrders b) i = Some x" "oSide x = s" "oPrice x = p" "IsOpen x"
    "0 < oRemainingQuantity x" "i |\<notin>| seen" by auto
  then have "check_order b s p i seen = Inr (finsert i seen)" by (simp add: check_order_def)
  with Cons show ?case by simp
qed simp

lemma check_levels_ok:
  assumes ok: "book_ok b" and s: "is_side s"
    and "set ps \<subseteq> set (sidePrices b s)" "distinct ps"
    and "\<forall>p \<in> set ps. set (fmget [] (sideLevels b s) p) \<inter> fset seen = {}"
  shows "foldE (check_level b s (sideLevels b s)) ps seen =
    Inr (seen |\<union>| fset_of_list (concat (map (fmget [] (sideLevels b s)) ps)))"
  using assms(3-)
proof (induction ps arbitrary: seen)
  case (Cons p ps)
  let ?q = "fmget [] (sideLevels b s) p"
  note side = book_okD(2) [OF ok s]
  have members: "\<forall>i \<in> set ?q. \<exists>x. fmlookup (bkOrders b) i = Some x \<and> oSide x = s \<and> oPrice x = p \<and>
      IsOpen x \<and> 0 < oRemainingQuantity x"
    using level_order [OF side book_okD(3) [OF ok], of _ p] unfolding resting_ok_def by metis
  have "?q \<noteq> []" using Cons.prems(1) side by (auto simp: side_ok_def level_ok_def)
  then have head: "check_level b s (sideLevels b s) p seen = Inr (seen |\<union>| fset_of_list ?q)"
    using check_order_ok [OF members level_distinct [OF side]] Cons.prems(3) by (simp add: check_level_def)
  have "set (fmget [] (sideLevels b s) q) \<inter> set ?q = {}" if "q \<in> set ps" for q
    using level_order [OF side book_okD(3) [OF ok]] Cons.prems(2) that
    by (metis disjoint_iff option.inject distinct.simps(2))
  then have "\<forall>q \<in> set ps. set (fmget [] (sideLevels b s) q) \<inter> fset (seen |\<union>| fset_of_list ?q) = {}"
    using Cons.prems(3) by (auto simp: fset_of_list.rep_eq)
  from Cons.IH [OF _ _ this] Cons.prems head show ?case by (simp add: funion_assoc)
qed simp

lemma book_ids:
  assumes "book_ok b"
  shows "fset (fmdom (bkOrders b)) = oID ` set (side_list b SideBuy) \<union> oID ` set (side_list b SideSell)"
    and "oID ` set (side_list b SideBuy) \<inter> oID ` set (side_list b SideSell) = {}"
proof -
  have "i \<in> oID ` set (side_list b (oSide x)) \<and> is_side (oSide x)" if "fmlookup (bkOrders b) i = Some x" for i x
    using side_list_mem [OF assms resting_side [OF assms that]] that index_okD(1) [OF book_okD(3) [OF assms] that]
      resting_side [OF assms that] by force
  then show "fset (fmdom (bkOrders b)) = oID ` set (side_list b SideBuy) \<union> oID ` set (side_list b SideSell)"
    using side_list_mem [OF assms] by (fastforce simp: fmlookup_dom_iff)
  show "oID ` set (side_list b SideBuy) \<inter> oID ` set (side_list b SideSell) = {}"
    using side_list_mem [OF assms] by (force simp: disjoint_iff)
qed

lemma Book_Validate_ok:
  assumes "book_ok b"
  shows "Book_Validate b = Inr ()"
proof -
  let ?ids = "\<lambda>s. fset_of_list (map oID (side_list b s))"
  have sorted: "sorted_wrt (better SideBuy) (bkBidPrices b)" "sorted_wrt (better SideSell) (bkAskPrices b)"
    using book_okD(2) [OF assms, of SideBuy] book_okD(2) [OF assms, of SideSell]
    by (auto simp: side_ok_def sidePrices_def)
  then have "SliceIsSorted (>) (bkBidPrices b)" "SliceIsSorted (<) (bkAskPrices b)"
    unfolding SliceIsSorted_iff by (auto simp: better_def elim: sorted_wrt_mono_rel [rotated])
  moreover have bids: "foldE (check_level b SideBuy (bkBids b)) (bkBidPrices b) {||} = Inr (?ids SideBuy)"
    using check_levels_ok [OF assms, of SideBuy "sidePrices b SideBuy" "{||}"] sidePrices_distinct [OF assms]
    by (simp add: side_list_ids [OF assms]) (simp add: sideLevels_def sidePrices_def)
  moreover have disj: "\<forall>p \<in> set (sidePrices b SideSell). set (fmget [] (sideLevels b SideSell) p) \<inter> fset (?ids SideBuy) = {}"
  proof
    fix p assume "p \<in> set (sidePrices b SideSell)"
    then have "set (fmget [] (sideLevels b SideSell) p) \<subseteq> set (map oID (side_list b SideSell))"
      unfolding side_list_ids [OF assms, of SideSell, simplified] by auto
    then show "set (fmget [] (sideLevels b SideSell) p) \<inter> fset (?ids SideBuy) = {}"
      using book_ids(2) [OF assms] by (auto simp: fset_of_list.rep_eq)
  qed
  moreover from disj have asks: "foldE (check_level b SideSell (bkAsks b)) (bkAskPrices b) (?ids SideBuy) =
      Inr (?ids SideBuy |\<union>| ?ids SideSell)"
    using check_levels_ok [OF assms, of SideSell "sidePrices b SideSell" "?ids SideBuy"] sidePrices_distinct [OF assms]
    by (simp add: side_list_ids [OF assms, of SideSell]) (simp add: sideLevels_def sidePrices_def)
  moreover have "?ids SideBuy |\<union>| ?ids SideSell = fmdom (bkOrders b)"
    using book_ids(1) [OF assms] by (auto simp: fset_eq_iff fset_of_list.rep_eq)
  ultimately show ?thesis by (simp add: Book_Validate_def)
qed

lemma insert_order_last:
  assumes "price_sorted s (K @ [ord])"
  shows "insert_order s ord K = K @ [ord]"
proof -
  have "\<forall>x \<in> set K. \<not> better s (oPrice ord) (oPrice x)" using assms by (auto simp: sorted_wrt_append)
  then show ?thesis by (simp add: insert_order_def takeWhile_eq_all_conv [THEN iffD2] dropWhile_eq_Nil_conv [THEN iffD2])
qed

lemma restore_side_ok:
  assumes "book_ok c" "is_side s" "price_sorted s (side_list c s @ L)"
    and "\<forall>x \<in> set L. resting_ok (bkMarket c) x \<and> oSide x = s"
    and "distinct (map oID L)" "\<forall>x \<in> set L. oID x |\<notin>| fmdom (bkOrders c)"
  shows "\<exists>c'. restore_side s L c = Inr c' \<and> book_ok c' \<and> bkMarket c' = bkMarket c \<and>
    (\<forall>t. is_side t \<longrightarrow> side_list c' t = (if t = s then side_list c t @ L else side_list c t)) \<and>
    fset (fmdom (bkOrders c')) = fset (fmdom (bkOrders c)) \<union> oID ` set L"
  using assms
proof (induction L arbitrary: c)
  case Nil
  then show ?case by (simp add: restore_side_def)
next
  case (Cons x L)
  have x: "resting_ok (bkMarket c) x" "oSide x = s" "oID x |\<notin>| fmdom (bkOrders c)" "order64 x"
    using Cons.prems by (auto simp: resting_ok_def)
  then obtain d where d: "Book_Add c x = Inr d"
    using Book_Add_resting [OF book_okD(1) [OF Cons.prems(1)] x(4)] by auto
  note A = Book_Add_InrD(1,2) [OF d]
  have "price_sorted s (side_list c s @ [x])" using Cons.prems(3) by (auto simp: sorted_wrt_append)
  then have lists: "side_list d t = (if t = s then side_list c t @ [x] else side_list c t)" if "is_side t" for t
    using side_list_Add [OF Cons.prems(1) d that] x(2) insert_order_last by simp
  have "\<exists>c'. restore_side s L d = Inr c' \<and> book_ok c' \<and> bkMarket c' = bkMarket d \<and>
    (\<forall>t. is_side t \<longrightarrow> side_list c' t = (if t = s then side_list d t @ L else side_list d t)) \<and>
    fset (fmdom (bkOrders c')) = fset (fmdom (bkOrders d)) \<union> oID ` set L"
  proof (rule Cons.IH)
    show "book_ok d" by (rule book_ok_Add [OF Cons.prems(1) d x(4)])
    show "price_sorted s (side_list d s @ L)" using Cons.prems(3) lists [OF assms(2)] by simp
    show "\<forall>y \<in> set L. oID y |\<notin>| fmdom (bkOrders d)" using Cons.prems(5,6) A(2) by (force simp: image_iff)
  qed (use Cons.prems A in auto)
  then show ?case using d x(2) A lists by (auto simp: restore_side_def)
qed

lemma Book_New_ok:
  assumes "market_ok m"
  shows "\<exists>b. Book_New m = Inr b \<and> book_ok b \<and> bkMarket b = m \<and> side_list b s = [] \<and> fmdom (bkOrders b) = {||}"
  using assms market_okD(19) [OF assms]
  by (auto simp: Book_New_def book_ok_def side_ok_def index_ok_def side_list_def sideLevels_def sidePrices_def
      split: Side.split)

lemma Book_FromSnapshot_lists:
  assumes "market_ok m"
    and "\<And>x. x \<in> set (bsBids sn) \<Longrightarrow> resting_ok m x \<and> oSide x = SideBuy"
    and "\<And>x. x \<in> set (bsAsks sn) \<Longrightarrow> resting_ok m x \<and> oSide x = SideSell"
    and "price_sorted SideBuy (bsBids sn)" "price_sorted SideSell (bsAsks sn)"
    and "distinct (map oID (bsBids sn @ bsAsks sn))"
  shows "\<exists>b. Book_FromSnapshot m sn = Inr b \<and> book_ok b \<and> bkMarket b = m \<and>
    side_list b SideBuy = bsBids sn \<and> side_list b SideSell = bsAsks sn"
proof -
  obtain b0 where b0: "Book_New m = Inr b0" "book_ok b0" "bkMarket b0 = m"
    "side_list b0 SideBuy = []" "side_list b0 SideSell = []" "fmdom (bkOrders b0) = {||}"
    using Book_New_ok [OF assms(1)] by (metis sum.inject(2))
  then obtain b1 where b1: "restore_side SideBuy (bsBids sn) b0 = Inr b1" "book_ok b1" "bkMarket b1 = m"
    "side_list b1 SideBuy = bsBids sn" "side_list b1 SideSell = []"
    "fset (fmdom (bkOrders b1)) = oID ` set (bsBids sn)"
    using restore_side_ok [of b0 SideBuy "bsBids sn"] assms by auto
  then obtain b2 where b2: "restore_side SideSell (bsAsks sn) b1 = Inr b2" "book_ok b2" "bkMarket b2 = m"
    "side_list b2 SideBuy = bsBids sn" "side_list b2 SideSell = bsAsks sn"
  proof -
    have "\<forall>x \<in> set (bsAsks sn). oID x \<notin> oID ` set (bsBids sn)" using assms(6) by (force simp: disjoint_iff)
    then show ?thesis using that restore_side_ok [of b1 SideSell "bsAsks sn"] assms b1 by auto
  qed
  then show ?thesis using b0 b1 Book_Validate_ok [OF b2(2)] by (simp add: Book_FromSnapshot_def)
qed

lemma Book_FromSnapshot_Snapshot:
  assumes "book_ok b"
  shows "Book_FromSnapshot (bkMarket b) (Book_Snapshot b) = Inr b"
proof -
  have mem: "resting_ok (bkMarket b) x \<and> oSide x = s" if "x \<in> set (side_list b s)" "is_side s" for x s
    using side_list_mem [OF assms that(2)] that(1) index_okD(2) [OF book_okD(3) [OF assms]] by blast
  have "\<exists>c. Book_FromSnapshot (bkMarket b) (Book_Snapshot b) = Inr c \<and> book_ok c \<and> bkMarket c = bkMarket b \<and>
      side_list c SideBuy = side_list b SideBuy \<and> side_list c SideSell = side_list b SideSell"
    using Book_FromSnapshot_lists [OF book_okD(1) [OF assms], of "Book_Snapshot b"] mem
      side_list_sorted [OF assms] side_list_distinct [OF assms] book_ids(2) [OF assms]
    by (simp add: Book_Snapshot_side_list)
  then show ?thesis using book_ext [OF assms] by metis
qed

lemma Book_Clone_id: "book_ok b \<Longrightarrow> Book_Clone b = Inr b"
  by (simp add: Book_Clone_def Book_FromSnapshot_Snapshot)

section \<open>Cancellation, updates and queries\<close>

lemma Book_Cancel_spec:
  assumes "book_ok b"
  shows "Book_Cancel b i =
    (case fmlookup (bkOrders b) i of None \<Rightarrow> Inl ErrBookOrderNotFound
     | Some ord \<Rightarrow> map_sum id (\<lambda>b'. (b', ord)) (Book_remove b ord))"
    and "fmlookup (bkOrders b) i = Some ord \<Longrightarrow>
      \<exists>b'. Book_Cancel b i = Inr (b', ord) \<and> book_ok b' \<and> bkMarket b' = bkMarket b \<and>
        bkOrders b' = fmdrop i (bkOrders b) \<and>
        (\<forall>s. is_side s \<longrightarrow> side_list b' s = filter (\<lambda>y. oID y \<noteq> i) (side_list b s))"
proof -
  show "Book_Cancel b i = (case fmlookup (bkOrders b) i of None \<Rightarrow> Inl ErrBookOrderNotFound
     | Some ord \<Rightarrow> map_sum id (\<lambda>b'. (b', ord)) (Book_remove b ord))"
    by (auto simp: Book_Cancel_def bindE_def split: option.splits sum.splits)
  assume l: "fmlookup (bkOrders b) i = Some ord"
  then have "oID ord = i" using index_okD(1) [OF book_okD(3) [OF assms]] by blast
  with l Book_remove_ok [OF assms, of ord ord]
  show "\<exists>b'. Book_Cancel b i = Inr (b', ord) \<and> book_ok b' \<and> bkMarket b' = bkMarket b \<and>
        bkOrders b' = fmdrop i (bkOrders b) \<and>
        (\<forall>s. is_side s \<longrightarrow> side_list b' s = filter (\<lambda>y. oID y \<noteq> i) (side_list b s))"
    by (auto simp: Book_Cancel_def)
qed

lemma Book_Cancel_InrD:
  assumes "Book_Cancel b i = Inr (b', ord)" "book_ok b"
  shows "fmlookup (bkOrders b) i = Some ord" "book_ok b'" "bkMarket b' = bkMarket b"
    "bkOrders b' = fmdrop i (bkOrders b)"
    "\<And>s. is_side s \<Longrightarrow> side_list b' s = filter (\<lambda>y. oID y \<noteq> i) (side_list b s)"
proof -
  show l: "fmlookup (bkOrders b) i = Some ord"
    using assms(1) by (auto simp: Book_Cancel_def bindE_eq_Inr split: option.splits)
  from Book_Cancel_spec(2) [OF assms(2) l] assms(1)
  show "book_ok b'" "bkMarket b' = bkMarket b" "bkOrders b' = fmdrop i (bkOrders b)"
    "\<And>s. is_side s \<Longrightarrow> side_list b' s = filter (\<lambda>y. oID y \<noteq> i) (side_list b s)" by auto
qed

text \<open>Cancelling what was just added gives the book back: the queue, the price list and the index.\<close>

lemma insert_order_filter:
  "oID ord \<notin> oID ` set L \<Longrightarrow> filter (\<lambda>y. oID y \<noteq> oID ord) (insert_order s ord L) = L"
proof -
  assume "oID ord \<notin> oID ` set L"
  then have "\<forall>y \<in> set L. oID y \<noteq> oID ord" by (metis imageI)
  then have "filter (\<lambda>y. oID y \<noteq> oID ord) (takeWhile P L) = takeWhile P L"
    "filter (\<lambda>y. oID y \<noteq> oID ord) (dropWhile P L) = dropWhile P L" for P
    by (auto intro!: filter_True dest: set_takeWhileD set_dropWhileD)
  then show ?thesis by (simp add: insert_order_def)
qed

lemma Book_Cancel_Add:
  assumes "book_ok b" "Book_Add b ord = Inr b'" "order64 ord"
  shows "Book_Cancel b' (oID ord) = Inr (b, ord)"
proof -
  note A = Book_Add_InrD [OF assms(2)]
  note ok = book_ok_Add [OF assms]
  have "fmlookup (bkOrders b') (oID ord) = Some ord" using A(2) by simp
  from Book_Cancel_spec(2) [OF ok this] obtain c where c: "Book_Cancel b' (oID ord) = Inr (c, ord)"
    "book_ok c" "bkMarket c = bkMarket b'"
    "\<And>s. is_side s \<Longrightarrow> side_list c s = filter (\<lambda>y. oID y \<noteq> oID ord) (side_list b' s)" by blast
  have new: "oID ord \<notin> oID ` set (side_list b s)" if "is_side s" for s
    using A(3) book_ids(1) [OF assms(1)] that by blast
  have "c = b"
  proof (rule book_ext [OF c(2) assms(1)])
    show "bkMarket c = bkMarket b" using c(3) A(1) by simp
    fix s assume s: "is_side s"
    have "filter (\<lambda>y. oID y \<noteq> oID ord) (side_list b s) = side_list b s"
      using new [OF s] by (intro filter_True) (metis imageI)
    then show "side_list c s = side_list b s"
      using c(4) [OF s] side_list_Add [OF assms(1,2) s] insert_order_filter [OF new [OF s], of s]
      by (cases "s = oSide ord") simp_all
  qed
  then show ?thesis using c(1) by simp
qed

lemma Book_Update_InrD:
  assumes "Book_Update b ord = Inr b'"
  shows "\<exists>x. fmlookup (bkOrders b) (oID ord) = Some x \<and> oSide ord = oSide x \<and> oPrice ord = oPrice x \<and>
      oAccountID ord = oAccountID x \<and> oAcceptedSequence ord = oAcceptedSequence x"
    and "IsOpen ord" "0 < oRemainingQuantity ord"
    and "b' = b\<lparr> bkOrders := fmupd (oID ord) ord (bkOrders b) \<rparr>"
  using assms by (auto simp: Book_Update_def split: option.splits if_splits)

lemma book_ok_Update:
  assumes "book_ok b" "Book_Update b ord = Inr b'" "order64 ord" "oID ord \<noteq> []"
    and "oType ord = OrderTypeLimit" "oTimeInForce ord = TimeInForceGTC" "oMarketID ord = mID (bkMarket b)"
    and "mQuantityStep (bkMarket b) dvd oRemainingQuantity ord"
  shows "book_ok b'"
    "is_side s \<Longrightarrow> side_list b' s = map (\<lambda>z. if oID z = oID ord then ord else z) (side_list b s)"
proof -
  note U = Book_Update_InrD [OF assms(2)]
  obtain x where x: "fmlookup (bkOrders b) (oID ord) = Some x" "oSide ord = oSide x" "oPrice ord = oPrice x"
    using U(1) by blast
  have "resting_ok (bkMarket b) ord"
    using index_okD(2) [OF book_okD(3) [OF assms(1)] x(1)] x U(2,3) assms(3-) by (simp add: resting_ok_def)
  from Book_replace_ok [OF assms(1) x this]
  show "book_ok b'" "is_side s \<Longrightarrow> side_list b' s = map (\<lambda>z. if oID z = oID ord then ord else z) (side_list b s)"
    unfolding U(4) by auto
qed

text \<open>The best opposing order is the head of the opposite list.\<close>

lemma side_list_head:
  assumes "book_ok b" "is_side s"
  shows "best_of b (sideLevels b s) (sidePrices b s) =
    Inr (case side_list b s of [] \<Rightarrow> None | x # _ \<Rightarrow> Some x)"
proof (cases "sidePrices b s")
  case Nil
  then show ?thesis by (simp add: best_of_def side_list_def)
next
  case (Cons p ps)
  then obtain i q where "fmget [] (sideLevels b s) p = i # q"
    using book_okD(2) [OF assms] by (cases "fmget [] (sideLevels b s) p") (auto simp: side_ok_def level_ok_def)
  with Cons show ?thesis by (simp add: best_of_def side_list_def)
qed

lemma bestOpposing_head:
  assumes "book_ok b" "is_side s"
  shows "bestOpposing b s = Inr (case side_list b (opposite s) of [] \<Rightarrow> None | x # _ \<Rightarrow> Some x)"
  using side_list_head [OF assms(1), of "opposite s"] assms(2)
  by (auto simp: bestOpposing_def sideLevels_def sidePrices_def)

lemma WouldCross_head:
  assumes "book_ok b" "is_side s"
  shows "WouldCross b s price \<longleftrightarrow>
    (case side_list b (opposite s) of [] \<Rightarrow> False | x # _ \<Rightarrow> crosses s OrderTypeLimit price (oPrice x))"
proof -
  have head: "side_list b t = [] \<longleftrightarrow> sidePrices b t = []" if "is_side t" for t
    using side_list_prices [OF assms(1) that] by auto
  have price: "oPrice x = p" if "is_side t" "side_list b t = x # xs" "sidePrices b t = p # ps" for t x xs p ps
  proof -
    from that(3) level_orders_nonempty [OF assms(1) that(1), of p]
    obtain y ys where "level_orders b (sideLevels b t) p = y # ys"
      by (cases "level_orders b (sideLevels b t) p") auto
    moreover from this have "x = y" using that(2,3) by (simp add: side_list_def)
    ultimately show ?thesis using level_orders_props(1) [OF assms(1) that(1), of y p] by simp
  qed
  have "WouldCross b s price \<longleftrightarrow>
      (case sidePrices b (opposite s) of [] \<Rightarrow> False | p # _ \<Rightarrow> crosses s OrderTypeLimit price p)"
    using assms(2) by (auto simp: WouldCross_def crosses_def sidePrices_def split: list.splits)
  moreover have "is_side (opposite s)" using assms(2) by auto
  ultimately show ?thesis using head [of "opposite s"] price [of "opposite s"]
    by (auto split: list.splits)
qed

section \<open>Properties\<close>

text \<open>The book of the examples: one ask of 8400 base atoms at 60000.99.\<close>

definition sample_ask :: Order where
  "sample_ask = zeroOrder\<lparr> oID := ''O-1'', oAccountID := ''sam'', oMarketID := ''BTC-USDT'', oSide := SideSell,
     oType := OrderTypeLimit, oTimeInForce := TimeInForceGTC, oPrice := 60000990000,
     oOriginalQuantity := 8400, oRemainingQuantity := 8400, oHeldAsset := ''BTC'', oHeldAmount := 8400,
     oStatus := OrderStatusOpen, oAcceptedSequence := 1, oLastSequence := 1 \<rparr>"

definition empty_book :: Book where
  "empty_book = \<lparr> bkMarket = DefaultBTCUSDTMarket, bkBids = fmempty, bkAsks = fmempty,
     bkBidPrices = [], bkAskPrices = [], bkOrders = fmempty \<rparr>"

lemma sample_ask_ok: "order64 sample_ask" "resting_ok DefaultBTCUSDTMarket sample_ask"
  by (simp_all add: order64_def resting_ok_def sample_ask_def zeroOrder_def DefaultBTCUSDTMarket_def IsOpen_def
      in64_def MaxInt64_def MinInt64_def)

lemma empty_book_ok: "book_ok empty_book" "Book_New DefaultBTCUSDTMarket = Inr empty_book"
  "side_list empty_book s = []" "bkMarket empty_book = DefaultBTCUSDTMarket" "bkOrders empty_book = fmempty"
proof -
  show new: "Book_New DefaultBTCUSDTMarket = Inr empty_book"
    using market_okD(19) [OF market_ok_default] by (simp add: Book_New_def empty_book_def)
  from Book_New_ok [OF market_ok_default, of s] new show "book_ok empty_book" "side_list empty_book s = []" by auto
  show "bkMarket empty_book = DefaultBTCUSDTMarket" "bkOrders empty_book = fmempty" by (simp_all add: empty_book_def)
qed

definition sample_book :: Book where
  "sample_book = \<lparr> bkMarket = DefaultBTCUSDTMarket, bkBids = fmempty,
     bkAsks = fmupd 60000990000 [''O-1''] fmempty, bkBidPrices = [], bkAskPrices = [60000990000],
     bkOrders = fmupd ''O-1'' sample_ask fmempty \<rparr>"

lemma sample_book_Add: "Book_Add empty_book sample_ask = Inr sample_book"
  by (simp add: Book_Add_def empty_book_def sample_book_def sample_ask_def DefaultBTCUSDTMarket_def IsOpen_def
      rem64_def insertPrice_def Search_def Search_loop.simps)

lemma sample_book_ok: "book_ok sample_book"
  by (rule book_ok_Add [OF empty_book_ok(1) sample_book_Add sample_ask_ok(1)])

text \<open>C11 Every operation of the book keeps its invariant, and does on the priority lists of the book
  what its name says: adding inserts behind the orders with a price at least as good, and
  cancelling takes the order out and nothing else.\<close>

theorem add_inserts_by_priority:
  assumes "book_ok b" "order64 ord" "Book_Add b ord = Inr b'"
  shows "book_ok b' \<and>
    (\<forall>s. s = SideBuy \<or> s = SideSell \<longrightarrow>
       side_list b' s = (if s = oSide ord then insert_order s ord (side_list b s) else side_list b s))"
  using book_ok_Add [OF assms(1,3,2)] side_list_Add [OF assms(1,3)] by blast

theorem add_inserts_by_priority_witness:
  "book_ok sample_book \<and> side_list sample_book SideSell = [sample_ask]"
  using add_inserts_by_priority [OF empty_book_ok(1) sample_ask_ok(1) sample_book_Add] empty_book_ok(3)
  by (simp add: insert_order_def) (simp add: sample_ask_def)

text \<open>Cancelling an order that was just added gives the book back, with its levels, price lists and
  index.\<close>

theorem cancel_undoes_add:
  assumes "book_ok b" "order64 ord" "Book_Add b ord = Inr b'"
  shows "Book_Cancel b' (oID ord) = Inr (b, ord)"
  by (rule Book_Cancel_Add [OF assms(1,3,2)])

theorem cancel_undoes_add_witness:
  "Book_Cancel sample_book ''O-1'' = Inr (empty_book, sample_ask)"
  using cancel_undoes_add [OF empty_book_ok(1) sample_ask_ok(1) sample_book_Add] by (simp add: sample_ask_def)

text \<open>C32 A book is restored from its snapshot, and so cloned, exactly; its validation succeeds.\<close>

theorem book_snapshot_roundtrip:
  assumes "book_ok b"
  shows "Book_FromSnapshot (bkMarket b) (Book_Snapshot b) = Inr b \<and> Book_Clone b = Inr b \<and>
    Book_Validate b = Inr ()"
  using Book_FromSnapshot_Snapshot [OF assms] Book_Clone_id [OF assms] Book_Validate_ok [OF assms] by blast

theorem book_snapshot_roundtrip_witness:
  "Book_FromSnapshot DefaultBTCUSDTMarket \<lparr> bsBids = [], bsAsks = [sample_ask] \<rparr> = Inr sample_book"
proof -
  have "Book_Snapshot sample_book = \<lparr> bsBids = [], bsAsks = [sample_ask] \<rparr>"
    by (simp add: Book_Snapshot_def sample_book_def)
  moreover have "bkMarket sample_book = DefaultBTCUSDTMarket" by (simp add: sample_book_def)
  ultimately show ?thesis using book_snapshot_roundtrip [OF sample_book_ok] by simp
qed

end
