(* ===== verification/Matching.thy ===== *)
theory Matching
  imports Book_Invariant
begin

text \<open>
  What \<open>Match\<close> of \<open>trading/orderbook\<close> does, stated on the priority lists of the book.
  \<open>match_spec\<close> is the contract of a matching run: the fills, replayed one by one, always hit the
  head of the opposite list (price-time priority), respect the limit and the account of the
  incoming order, and account exactly for the change of the incoming order; the stop reason
  tells why the run ended. \<open>Match_loop_spec\<close> proves it for the loop of the source. On top of it:
  \<open>CanFillFOK\<close> predicts a complete fill exactly, a post-only order that does not cross fills
  nothing, and matching never leaves a crossed book.
\<close>

section \<open>What a matching run means\<close>

text \<open>The maker and the taker after executions, with exact arithmetic.\<close>

definition maker_filled :: "nat \<Rightarrow> RawFill \<Rightarrow> Order \<Rightarrow> Order" where
  "maker_filled sequence f mk =
     mk\<lparr> oRemainingQuantity := oRemainingQuantity mk - rfQuantity f,
         oFilledQuantity := oFilledQuantity mk + rfQuantity f,
         oSpentQuote := oSpentQuote mk + rfQuoteAmount f,
         oLastSequence := sequence,
         oStatus := (if oRemainingQuantity mk = rfQuantity f then OrderStatusFilled
                     else OrderStatusPartiallyFilled) \<rparr>"

abbreviation fill_quantity :: "RawFill list \<Rightarrow> int" where
  "fill_quantity fs \<equiv> (\<Sum>f\<leftarrow>fs. rfQuantity f)"

abbreviation fill_quote :: "RawFill list \<Rightarrow> int" where
  "fill_quote fs \<equiv> (\<Sum>f\<leftarrow>fs. rfQuoteAmount f)"

definition taker_filled :: "RawFill list \<Rightarrow> Order \<Rightarrow> Order" where
  "taker_filled fs inc =
     inc\<lparr> oRemainingQuantity :=
            oRemainingQuantity inc - (if market_buy inc then 0 else fill_quantity fs),
          oRemainingQuoteBudget :=
            oRemainingQuoteBudget inc - (if market_buy inc then fill_quote fs else 0),
          oFilledQuantity := oFilledQuantity inc + fill_quantity fs,
          oSpentQuote := oSpentQuote inc + fill_quote fs,
          oLastSequence := (if fs = [] then oLastSequence inc else oAcceptedSequence inc) \<rparr>"

text \<open>
  Price-time priority: replaying the fills on the priority list, every fill hits the order at
  the head of the list, which leaves the list when nothing of it remains.
\<close>

fun apply_fills :: "nat \<Rightarrow> Order list \<Rightarrow> RawFill list \<Rightarrow> Order list option" where
  "apply_fills sequence makers [] = Some makers"
| "apply_fills sequence [] (f # fs) = None"
| "apply_fills sequence (mk # makers) (f # fs) =
     (if rfMakerOrderID f = oID mk \<and> rfMakerAccountID f = oAccountID mk \<and> rfMakerSide f = oSide mk \<and>
         rfPrice f = oPrice mk \<and> 0 < rfQuantity f \<and> rfQuantity f \<le> oRemainingQuantity mk \<and>
         rfMakerRemaining f = oRemainingQuantity mk - rfQuantity f
      then apply_fills sequence
             (if rfMakerRemaining f = 0 then makers else maker_filled sequence f mk # makers) fs
      else None)"

text \<open>A fill respects the limit of the taker, its quantity step and the floor of the price.\<close>

definition fill_ok :: "Market \<Rightarrow> Order \<Rightarrow> RawFill \<Rightarrow> bool" where
  "fill_ok m inc f \<longleftrightarrow>
     0 < rfQuantity f \<and> mQuantityStep m dvd rfQuantity f \<and>
     0 < rfQuoteAmount f \<and> rfQuoteAmount f = rfPrice f * rfQuantity f div mBaseScale m \<and>
     rfQuoteAmount f \<le> MaxInt64 \<and> 0 < rfPrice f \<and>
     crosses (oSide inc) (oType inc) (oPrice inc) (rfPrice f) \<and>
     rfMakerAccountID f \<noteq> oAccountID inc \<and> rfMakerSide f = opposite (oSide inc)"

definition taker_ok :: "Market \<Rightarrow> Order \<Rightarrow> bool" where
  "taker_ok m inc \<longleftrightarrow>
     order64 inc \<and> is_side (oSide inc) \<and>
     (if market_buy inc then 0 \<le> oRemainingQuoteBudget inc
      else 0 \<le> oRemainingQuantity inc \<and> mQuantityStep m dvd oRemainingQuantity inc)"

definition stop_ok :: "Market \<Rightarrow> Order \<Rightarrow> Order list \<Rightarrow> StopReason \<Rightarrow> bool" where
  "stop_ok m inc makers stop =
     (case stop of
        StopNone \<Rightarrow> False
      | StopInputExhausted \<Rightarrow> \<not> market_buy inc \<and> oRemainingQuantity inc = 0
      | StopNoLiquidity \<Rightarrow> makers = []
      | StopPriceLimit \<Rightarrow> (case makers of [] \<Rightarrow> False
          | mk # _ \<Rightarrow> \<not> crosses (oSide inc) (oType inc) (oPrice inc) (oPrice mk))
      | StopBudgetExhausted \<Rightarrow> market_buy inc \<and>
          (oRemainingQuoteBudget inc = 0 \<or>
           (case makers of [] \<Rightarrow> False
            | mk # _ \<Rightarrow> AffordableQuantity m (oRemainingQuoteBudget inc) (oPrice mk) = Inr 0))
      | StopSelfTrade \<Rightarrow> (case makers of [] \<Rightarrow> False
          | mk # _ \<Rightarrow> crosses (oSide inc) (oType inc) (oPrice inc) (oPrice mk) \<and>
                     oAccountID mk = oAccountID inc))"

definition match_spec ::
  "Book \<Rightarrow> Order \<Rightarrow> Book \<Rightarrow> Order \<Rightarrow> RawFill list \<Rightarrow> StopReason \<Rightarrow> bool" where
  "match_spec b inc b' inc' fs stop \<longleftrightarrow>
     book_ok b' \<and> bkMarket b' = bkMarket b \<and>
     side_list b' (oSide inc) = side_list b (oSide inc) \<and>
     apply_fills (oAcceptedSequence inc) (side_list b (opposite (oSide inc))) fs =
       Some (side_list b' (opposite (oSide inc))) \<and>
     (\<forall>f \<in> set fs. fill_ok (bkMarket b) inc f) \<and>
     inc' = taker_filled fs inc \<and> taker_ok (bkMarket b) inc' \<and>
     stop_ok (bkMarket b) inc' (side_list b' (opposite (oSide inc))) stop"

lemma taker_filled_same [simp]:
  "oSide (taker_filled fs inc) = oSide inc" "oType (taker_filled fs inc) = oType inc"
  "oPrice (taker_filled fs inc) = oPrice inc" "oAccountID (taker_filled fs inc) = oAccountID inc"
  "oAcceptedSequence (taker_filled fs inc) = oAcceptedSequence inc" "oID (taker_filled fs inc) = oID inc"
  by (simp_all add: taker_filled_def)

lemma taker_filled_append: "taker_filled gs (taker_filled fs inc) = taker_filled (fs @ gs) inc"
  by (simp add: taker_filled_def)

lemma taker_filled_Nil [simp]: "taker_filled [] inc = inc"
  by (simp add: taker_filled_def)

lemma fill_ok_taker_filled [simp]: "fill_ok m (taker_filled fs inc) f = fill_ok m inc f"
  by (simp add: fill_ok_def)

section \<open>One execution\<close>

lemma executableQuantity_InrD:
  assumes "executableQuantity b inc mk = Inr (q, stop)" "taker_ok (bkMarket b) inc"
    and "resting_ok (bkMarket b) mk" "market_ok (bkMarket b)"
  shows "q = 0 \<Longrightarrow> (if market_buy inc
           then stop = StopBudgetExhausted \<and>
             AffordableQuantity (bkMarket b) (oRemainingQuoteBudget inc) (oPrice mk) = Inr 0
           else stop = StopInputExhausted \<and> oRemainingQuantity inc = 0)"
    and "0 \<le> q" "q \<le> oRemainingQuantity mk" "mQuantityStep (bkMarket b) dvd q"
    and "\<not> market_buy inc \<Longrightarrow> q \<le> oRemainingQuantity inc"
    and "market_buy inc \<Longrightarrow> q * oPrice mk \<le> oRemainingQuoteBudget inc * mBaseScale (bkMarket b)"
proof -
  let ?m = "bkMarket b"
  have mk: "0 < oRemainingQuantity mk" "mQuantityStep ?m dvd oRemainingQuantity mk" "0 < oPrice mk" "order64 mk"
    using assms(3) by (auto simp: resting_ok_def)
  have all: "(q = 0 \<longrightarrow> (if market_buy inc
           then stop = StopBudgetExhausted \<and> AffordableQuantity ?m (oRemainingQuoteBudget inc) (oPrice mk) = Inr 0
           else stop = StopInputExhausted \<and> oRemainingQuantity inc = 0)) \<and>
      0 \<le> q \<and> q \<le> oRemainingQuantity mk \<and> mQuantityStep ?m dvd q \<and>
      (\<not> market_buy inc \<longrightarrow> q \<le> oRemainingQuantity inc) \<and>
      (market_buy inc \<longrightarrow> q * oPrice mk \<le> oRemainingQuoteBudget inc * mBaseScale ?m)"
  proof (cases "market_buy inc")
    case True
    then obtain a where a: "AffordableQuantity ?m (oRemainingQuoteBudget inc) (oPrice mk) = Inr a"
      and q: "(q, stop) = (if a = 0 then (0, StopBudgetExhausted)
               else if oRemainingQuantity mk < a then (oRemainingQuantity mk, StopNone) else (a, StopNone))"
      using assms(1) by (auto simp: executableQuantity_def bindE_eq_Inr split: if_splits)
    have "in64 (oRemainingQuoteBudget inc)" "in64 (oPrice mk)" "in64 (mBaseScale ?m)" "0 < mQuantityStep ?m"
      using assms(2,4) mk(4) by (auto simp: taker_ok_def order64_def market_okD)
    note A = AffordableQuantity_InrD [OF a this]
    have "oRemainingQuantity mk < a \<Longrightarrow>
        oRemainingQuantity mk * oPrice mk \<le> oRemainingQuoteBudget inc * mBaseScale ?m"
      using mk(3) by (intro order_trans [OF mult_right_mono A(4)]) auto
    then show ?thesis using True a q A mk by (auto split: if_splits)
  next
    case False
    then show ?thesis using assms(1,2) mk
      by (auto simp: executableQuantity_def taker_ok_def split: if_splits)
  qed
  then show "q = 0 \<Longrightarrow> (if market_buy inc
           then stop = StopBudgetExhausted \<and> AffordableQuantity ?m (oRemainingQuoteBudget inc) (oPrice mk) = Inr 0
           else stop = StopInputExhausted \<and> oRemainingQuantity inc = 0)" by blast
  show "0 \<le> q" "q \<le> oRemainingQuantity mk" "mQuantityStep ?m dvd q"
    "\<not> market_buy inc \<Longrightarrow> q \<le> oRemainingQuantity inc"
    "market_buy inc \<Longrightarrow> q * oPrice mk \<le> oRemainingQuoteBudget inc * mBaseScale ?m" using all by blast+
qed

lemma executableQuantity_error:
  assumes "executableQuantity b inc mk = Inl e" "taker_ok (bkMarket b) inc"
    and "resting_ok (bkMarket b) mk" "market_ok (bkMarket b)"
  shows "e = ErrArithmeticOverflow"
  using assms
  by (auto simp: executableQuantity_def AffordableQuantity_def bindE_eq_Inl taker_ok_def resting_ok_def
      order64_def CheckedMulDivFloor_spec market_okD split: if_splits)

lemma quote_of_fill:
  assumes "QuoteAmountFloor m price q = Inr quote" "market_ok m" "in64 price" "in64 q"
  shows "quote = price * q div mBaseScale m" "0 \<le> quote" "quote \<le> MaxInt64" "in64 quote"
    "q * price \<le> budget * mBaseScale m \<Longrightarrow> quote \<le> budget"
proof -
  have scale: "in64 (mBaseScale m)" "0 < mBaseScale m" using assms(2) market_okD(14) market_ok_scale by auto
  note D = CheckedMulDivFloor_InrD [OF assms(1) [unfolded QuoteAmountFloor_def] assms(3,4) scale(1)]
  show "quote = price * q div mBaseScale m" "0 \<le> quote" "quote \<le> MaxInt64" using D by auto
  then show "in64 quote" by (auto simp: in64_def MinInt64_def)
  show "quote \<le> budget" if "q * price \<le> budget * mBaseScale m"
  proof -
    have "price * q div mBaseScale m < budget + 1"
      unfolding div_less_iff_int [OF scale(2)] using that scale(2) by (simp add: algebra_simps)
    then show ?thesis using D by simp
  qed
qed

lemma head_of_side:
  assumes "book_ok b" "is_side s" "side_list b s = mk # rest"
  shows "fmlookup (bkOrders b) (oID mk) = Some mk" "oSide mk = s" "resting_ok (bkMarket b) mk"
    "oID mk \<notin> oID ` set rest" "\<And>t. is_side t \<Longrightarrow> t \<noteq> s \<Longrightarrow> oID mk \<notin> oID ` set (side_list b t)"
proof -
  show l: "fmlookup (bkOrders b) (oID mk) = Some mk" and s: "oSide mk = s"
    using side_list_mem [OF assms(1,2), of mk] assms(3) by auto
  show "resting_ok (bkMarket b) mk" using index_okD(2) [OF book_okD(3) [OF assms(1)] l] .
  show "oID mk \<notin> oID ` set rest" using side_list_distinct [OF assms(1,2)] assms(3) by simp
  show "oID mk \<notin> oID ` set (side_list b t)" if "is_side t" "t \<noteq> s" for t
    using side_list_mem [OF assms(1) that(1)] l s that(2) by force
qed

text \<open>The maker's part: the book after it has the maker updated at the head, or gone.\<close>

lemma Match_maker_spec:
  assumes ok: "book_ok b" "is_side s" "side_list b s = mk # rest"
    and q: "0 < q" "q \<le> oRemainingQuantity mk" "mQuantityStep (bkMarket b) dvd q"
    and quote: "0 \<le> quote" "in64 quote"
    and f: "rfQuantity f = q" "rfQuoteAmount f = quote"
    and r: "Match_maker b inc mk q quote = Inr (b', mk')"
  shows "mk' = maker_filled (oAcceptedSequence inc) f mk" "book_ok b'" "bkMarket b' = bkMarket b"
    "side_list b' s = (if oRemainingQuantity mk = q then rest else mk' # rest)"
    "\<And>t. is_side t \<Longrightarrow> t \<noteq> s \<Longrightarrow> side_list b' t = side_list b t"
proof -
  note H = head_of_side [OF ok]
  have mk: "order64 mk" "0 < oRemainingQuantity mk" "in64 (oRemainingQuantity mk)"
    using H(3) by (auto simp: resting_ok_def order64_def)
  have q64: "in64 q" using q mk in64_nonnegI [of q] by auto
  obtain fl sp where fl: "CheckedAdd (oFilledQuantity mk) q = Inr fl" and sp: "CheckedAdd (oSpentQuote mk) quote = Inr sp"
    using r by (auto simp: Match_maker_def bindE_eq_Inr)
  have sums: "fl = oFilledQuantity mk + q" "in64 fl" "sp = oSpentQuote mk + quote" "in64 sp"
    using fl sp mk(1) q64 quote(2) by (auto simp: CheckedAdd_spec order64_def split: if_splits)
  have rem: "sub64 (oRemainingQuantity mk) q = oRemainingQuantity mk - q"
    using q mk(3) by (intro sub64_nonneg) (auto simp: in64_def)
  let ?mk = "maker_filled (oAcceptedSequence inc) f mk"
  have same: "oID ?mk = oID mk" "oSide ?mk = oSide mk" "oPrice ?mk = oPrice mk" "oRemainingQuantity ?mk = oRemainingQuantity mk - q"
    by (simp_all add: maker_filled_def f)
  have r': "(if oRemainingQuantity mk = q then bindE (Book_remove b ?mk) (\<lambda>b'. Inr (b', ?mk))
     else Inr (b\<lparr> bkOrders := fmupd (oID ?mk) ?mk (bkOrders b) \<rparr>, ?mk)) = Inr (b', mk')"
    using r by (auto simp: Match_maker_def fl sp sums rem maker_filled_def f Let_def split: if_splits)
  have look: "fmlookup (bkOrders b) (oID ?mk) = Some mk" using H(1) same by simp
  have ne: "oID x \<noteq> oID mk" if "x \<in> set rest \<or> (\<exists>t. is_side t \<and> t \<noteq> s \<and> x \<in> set (side_list b t))" for x
    using that H(4,5) by (metis imageI)
  show "mk' = ?mk" using r' by (auto simp: bindE_eq_Inr split: if_splits)
  have "book_ok b' \<and> bkMarket b' = bkMarket b \<and>
      side_list b' s = (if oRemainingQuantity mk = q then rest else ?mk # rest) \<and>
      (\<forall>t. is_side t \<longrightarrow> t \<noteq> s \<longrightarrow> side_list b' t = side_list b t)"
  proof (cases "oRemainingQuantity mk = q")
    case True
    then have "Book_remove b ?mk = Inr b'" using r' by (auto simp: bindE_eq_Inr)
    with Book_remove_ok [OF ok(1) look same(2,3)] have b': "book_ok b'" "bkMarket b' = bkMarket b"
      "\<And>t. is_side t \<Longrightarrow> side_list b' t = filter (\<lambda>y. oID y \<noteq> oID mk) (side_list b t)"
      using same(1) by auto
    moreover have "filter (\<lambda>y. oID y \<noteq> oID mk) rest = rest"
      "\<And>t. is_side t \<Longrightarrow> t \<noteq> s \<Longrightarrow> filter (\<lambda>y. oID y \<noteq> oID mk) (side_list b t) = side_list b t"
      using ne by (auto intro!: filter_True)
    ultimately show ?thesis using True ok(2,3) by simp
  next
    case False
    then have b': "b' = b\<lparr> bkOrders := fmupd (oID ?mk) ?mk (bkOrders b) \<rparr>" using r' by auto
    have "resting_ok (bkMarket b) ?mk"
      using H(3) q False sums mk(3) in64_nonnegI [of "oRemainingQuantity mk - q" "oRemainingQuantity mk"]
      by (auto simp: resting_ok_def maker_filled_def order64_def IsOpen_def f dvd_diff)
    note R = Book_replace_ok [OF ok(1) look same(2,3) this, folded b']
    have "map (\<lambda>z. if oID z = oID ?mk then ?mk else z) rest = rest"
      "\<And>t. is_side t \<Longrightarrow> t \<noteq> s \<Longrightarrow> map (\<lambda>z. if oID z = oID ?mk then ?mk else z) (side_list b t) = side_list b t"
      by (rule map_idI, use ne same(1) in metis)+
    then show ?thesis using False ok(2,3) R same(1) by (simp add: b')
  qed
  then show "book_ok b'" "bkMarket b' = bkMarket b"
    "side_list b' s = (if oRemainingQuantity mk = q then rest else mk' # rest)"
    "\<And>t. is_side t \<Longrightarrow> t \<noteq> s \<Longrightarrow> side_list b' t = side_list b t"
    using \<open>mk' = ?mk\<close> by auto
qed

lemma Match_taker_spec:
  assumes "Match_taker inc q quote = Inr inc'" "taker_ok m inc" "market_ok m"
    and q: "0 < q" "in64 q" "mQuantityStep m dvd q" "\<not> market_buy inc \<Longrightarrow> q \<le> oRemainingQuantity inc"
    and quote: "0 \<le> quote" "in64 quote" "market_buy inc \<Longrightarrow> quote \<le> oRemainingQuoteBudget inc"
    and f: "rfQuantity f = q" "rfQuoteAmount f = quote"
  shows "inc' = taker_filled [f] inc" "taker_ok m inc'"
proof -
  have t: "order64 inc" "is_side (oSide inc)" using assms(2) by (auto simp: taker_ok_def)
  obtain fl sp where fl: "CheckedAdd (oFilledQuantity inc) q = Inr fl" and sp: "CheckedAdd (oSpentQuote inc) quote = Inr sp"
    using assms(1) by (auto simp: Match_taker_def bindE_eq_Inr)
  have sums: "fl = oFilledQuantity inc + q" "in64 fl" "sp = oSpentQuote inc + quote" "in64 sp"
    using fl sp t(1) q(2) quote(2) by (auto simp: CheckedAdd_spec order64_def split: if_splits)
  have rem: "\<not> market_buy inc \<Longrightarrow> sub64 (oRemainingQuantity inc) q = oRemainingQuantity inc - q"
    "market_buy inc \<Longrightarrow> sub64 (oRemainingQuoteBudget inc) quote = oRemainingQuoteBudget inc - quote"
    using q quote t(1) by (auto simp: order64_def in64_def intro!: sub64_nonneg)
  show inc': "inc' = taker_filled [f] inc"
    using assms(1) fl sp rem sums(1,3)
    by (cases "market_buy inc") (auto simp: Match_taker_def taker_filled_def f)
  have "in64 (oRemainingQuantity inc - q)" if "\<not> market_buy inc"
    using q that t(1) in64_nonnegI [of "oRemainingQuantity inc - q" "oRemainingQuantity inc"] by (auto simp: order64_def)
  moreover have "in64 (oRemainingQuoteBudget inc - quote)" if "market_buy inc"
    using quote that t(1) in64_nonnegI [of "oRemainingQuoteBudget inc - quote" "oRemainingQuoteBudget inc"]
    by (auto simp: order64_def)
  ultimately show "taker_ok m inc'"
    using assms(2) sums t q quote(3) unfolding inc'
    by (cases "market_buy inc") (auto simp: taker_ok_def taker_filled_def order64_def f dvd_diff)
qed

lemma Match_fill_spec:
  assumes ok: "book_ok b" "side_list b (opposite (oSide inc)) = mk # rest" "taker_ok (bkMarket b) inc"
    and e: "executableQuantity b inc mk = Inr (q, stop)" "q \<noteq> 0"
    and qa: "QuoteAmountFloor (bkMarket b) (oPrice mk) q = Inr quote" "0 < quote"
    and cross: "crosses (oSide inc) (oType inc) (oPrice inc) (oPrice mk)" "oAccountID mk \<noteq> oAccountID inc"
    and r: "Match_fill b inc mk q quote = Inr (b', inc', f)"
  shows "book_ok b'" "bkMarket b' = bkMarket b" "side_list b' (oSide inc) = side_list b (oSide inc)"
    "apply_fills (oAcceptedSequence inc) (mk # rest) [f] = Some (side_list b' (opposite (oSide inc)))"
    "fill_ok (bkMarket b) inc f" "inc' = taker_filled [f] inc" "taker_ok (bkMarket b) inc'"
proof -
  let ?s = "opposite (oSide inc)" and ?m = "bkMarket b"
  have s: "is_side ?s" "is_side (oSide inc)" "oSide inc \<noteq> ?s" using ok(3) by (auto simp: taker_ok_def)
  note H = head_of_side [OF ok(1) s(1) ok(2)] and m = book_okD(1) [OF ok(1)]
  note E = executableQuantity_InrD [OF e(1) ok(3) H(3) m]
  have mk: "order64 mk" "0 < oPrice mk" using H(3) by (auto simp: resting_ok_def)
  have q: "0 < q" "in64 q" using E(2,3) e(2) mk(1) in64_nonnegI [of q] by (auto simp: order64_def)
  note Q = quote_of_fill [OF qa(1) m _ q(2)]
  have Q': "quote = oPrice mk * q div mBaseScale ?m" "0 \<le> quote" "quote \<le> MaxInt64" "in64 quote"
    "market_buy inc \<Longrightarrow> quote \<le> oRemainingQuoteBudget inc"
    using Q E(6) mk(1) by (auto simp: order64_def)
  obtain mk' where r1: "Match_maker b inc mk q quote = Inr (b', mk')"
    and r2: "Match_taker inc q quote = Inr inc'"
    and f: "f = \<lparr> rfMakerOrderID = oID mk', rfMakerAccountID = oAccountID mk',
              rfMakerSide = oSide mk', rfMakerRemaining = oRemainingQuantity mk',
              rfPrice = oPrice mk', rfQuantity = q, rfQuoteAmount = quote \<rparr>"
    using r by (auto simp: Match_fill_def bindE_eq_Inr)
  then have fq: "rfQuantity f = q" "rfQuoteAmount f = quote" by simp_all
  note M = Match_maker_spec [OF ok(1) s(1) ok(2) q(1) E(3,4) Q'(2,4) fq r1]
  show "book_ok b'" "bkMarket b' = bkMarket b" "side_list b' (oSide inc) = side_list b (oSide inc)"
    using M(2,3) M(5) [OF s(2,3)] by auto
  show "inc' = taker_filled [f] inc" "taker_ok ?m inc'"
    by (rule Match_taker_spec [OF r2 ok(3) m q E(4,5) Q'(2,4,5) fq]; assumption)+
  have mk': "oID mk' = oID mk" "oAccountID mk' = oAccountID mk" "oSide mk' = oSide mk" "oPrice mk' = oPrice mk"
    "oRemainingQuantity mk' = oRemainingQuantity mk - q"
    using M(1) fq by (simp_all add: maker_filled_def)
  show "fill_ok ?m inc f"
    using q E(4) qa(2) Q'(1,3) cross H(2) mk(2) mk' by (simp add: fill_ok_def f mult.commute)
  show "apply_fills (oAcceptedSequence inc) (mk # rest) [f] = Some (side_list b' ?s)"
    using M(1,4) mk' q E(3) by (simp add: f)
qed

section \<open>The loop\<close>

lemma apply_fills_append:
  "apply_fills n L (fs @ gs) = Option.bind (apply_fills n L fs) (\<lambda>L'. apply_fills n L' gs)"
proof (induction n L fs rule: apply_fills.induct)
  case (2 n f fs)
  then show ?case by simp
qed auto

lemma match_spec_step:
  assumes "side_list b1 (oSide inc) = side_list b (oSide inc)" "bkMarket b1 = bkMarket b"
    and "apply_fills (oAcceptedSequence inc) (side_list b (opposite (oSide inc))) [f] =
      Some (side_list b1 (opposite (oSide inc)))"
    and "fill_ok (bkMarket b) inc f"
    and "match_spec b1 (taker_filled [f] inc) b' inc' fs stop"
  shows "match_spec b inc b' inc' (f # fs) stop"
  using assms apply_fills_append [of "oAcceptedSequence inc" "side_list b (opposite (oSide inc))" "[f]" fs]
    taker_filled_append [of fs "[f]" inc]
  by (auto simp: match_spec_def)

lemma Match_loop_spec:
  assumes "Match_loop b inc fills = Inr (b', inc', r)" "book_ok b" "taker_ok (bkMarket b) inc"
  shows "\<exists>new. mrFills r = fills @ new \<and> match_spec b inc b' inc' new (mrStopReason r)"
  using assms
proof (induction b inc fills rule: Match_loop.induct)
  case (1 b inc fills)
  let ?s = "opposite (oSide inc)" and ?m = "bkMarket b"
  have s: "is_side (oSide inc)" "is_side ?s" using 1(5) by (auto simp: taker_ok_def)
  have halt: "\<exists>new. mrFills r = fills @ new \<and> match_spec b inc b' inc' new (mrStopReason r)"
    if "b' = b" "inc' = inc" "mrFills r = fills" "stop_ok ?m inc (side_list b ?s) (mrStopReason r)"
    using that 1(4,5) by (intro exI [of _ "[]"]) (simp add: match_spec_def)
  show ?case
  proof (cases "side_list b ?s")
    case Nil
    then have "r = \<lparr> mrFills = fills, mrStopReason = StopNoLiquidity \<rparr> \<and> b' = b \<and> inc' = inc"
      using 1(3) bestOpposing_head [OF 1(4) s(1)] by (simp add: Match_loop.simps [of b])
    then show ?thesis using halt Nil by (simp add: stop_ok_def)
  next
    case (Cons mk rest)
    note H = head_of_side [OF 1(4) s(2) Cons] and m = book_okD(1) [OF 1(4)]
    have best: "bestOpposing b (oSide inc) = Inr (Some mk)" using bestOpposing_head [OF 1(4) s(1)] Cons by simp
    let ?cross = "crosses (oSide inc) (oType inc) (oPrice inc) (oPrice mk)"
    consider (limit) "\<not> ?cross" | (self) "?cross" "oAccountID mk = oAccountID inc"
      | (go) "?cross" "oAccountID mk \<noteq> oAccountID inc" by blast
    then show ?thesis
    proof cases
      case limit
      then have "r = \<lparr> mrFills = fills, mrStopReason = StopPriceLimit \<rparr> \<and> b' = b \<and> inc' = inc"
        using 1(3) best by (simp add: Match_loop.simps [of b])
      then show ?thesis using halt limit Cons by (simp add: stop_ok_def)
    next
      case self
      then have "r = \<lparr> mrFills = fills, mrStopReason = StopSelfTrade \<rparr> \<and> b' = b \<and> inc' = inc"
        using 1(3) best by (simp add: Match_loop.simps [of b])
      then show ?thesis using halt self Cons by (simp add: stop_ok_def)
    next
      case go
      obtain q stop where e: "executableQuantity b inc mk = Inr (q, stop)"
        using 1(3) best go by (auto simp: Match_loop.simps [of b] bindE_eq_Inr)
      note E = executableQuantity_InrD [OF e 1(5) H(3) m]
      show ?thesis
      proof (cases "q = 0")
        case True
        then have "r = \<lparr> mrFills = fills, mrStopReason = stop \<rparr> \<and> b' = b \<and> inc' = inc"
          using 1(3) best go e by (simp add: Match_loop.simps [of b])
        then show ?thesis using halt E(1) [OF True] Cons by (auto simp: stop_ok_def split: if_splits)
      next
        case q: False
        obtain quote b1 inc1 f where qa: "QuoteAmountFloor ?m (oPrice mk) q = Inr quote" "0 < quote"
          and fill: "Match_fill b inc mk q quote = Inr (b1, inc1, f)"
          and loop: "(if market_buy inc
             then if oRemainingQuoteBudget inc1 = 0
                  then Inr (b1, inc1, \<lparr> mrFills = fills @ [f], mrStopReason = StopBudgetExhausted \<rparr>)
                  else Match_loop b1 inc1 (fills @ [f])
             else if oRemainingQuantity inc1 = 0
             then Inr (b1, inc1, \<lparr> mrFills = fills @ [f], mrStopReason = StopInputExhausted \<rparr>)
             else Match_loop b1 inc1 (fills @ [f])) = Inr (b', inc', r)"
          using 1(3) best go e q by (auto simp: Match_loop.simps [of b] bindE_eq_Inr split: if_splits)
        note F = Match_fill_spec [OF 1(4) Cons 1(5) e q qa go fill]
        have buy: "oType inc1 = oType inc" "oSide inc1 = oSide inc" using F(6) by simp_all
        have ends: "market_buy inc \<Longrightarrow> oRemainingQuoteBudget inc1 = 0 \<Longrightarrow> stop_ok ?m inc1 L StopBudgetExhausted"
          "\<not> market_buy inc \<Longrightarrow> oRemainingQuantity inc1 = 0 \<Longrightarrow> stop_ok ?m inc1 L StopInputExhausted" for L
          using buy by (auto simp: stop_ok_def)
        consider (stop) "b' = b1" "inc' = inc1" "mrFills r = fills @ [f]"
            "stop_ok ?m inc1 (side_list b1 ?s) (mrStopReason r)"
          | (buy) "market_buy inc" "oRemainingQuoteBudget inc1 \<noteq> 0" "Match_loop b1 inc1 (fills @ [f]) = Inr (b', inc', r)"
          | (more) "\<not> market_buy inc" "oRemainingQuantity inc1 \<noteq> 0" "Match_loop b1 inc1 (fills @ [f]) = Inr (b', inc', r)"
          using loop ends by (auto split: if_splits)
        then show ?thesis
        proof cases
          case stop
          have "match_spec b1 (taker_filled [f] inc) b' inc' [] (mrStopReason r)"
            using stop F by (simp add: match_spec_def)
          with stop(3) match_spec_step [OF F(3,2) F(4) [folded Cons] F(5)] show ?thesis by blast
        next
          case buy
          have "\<exists>new. mrFills r = (fills @ [f]) @ new \<and> match_spec b1 inc1 b' inc' new (mrStopReason r)"
            by (rule 1(1) [OF best refl _ _ e refl q qa(1) _ fill refl refl buy(1,2,3) F(1)])
              (use go qa(2) F(2,7) in simp_all)
          then show ?thesis using match_spec_step [OF F(3,2) F(4) [folded Cons] F(5)] F(6) by auto
        next
          case more
          have "\<exists>new. mrFills r = (fills @ [f]) @ new \<and> match_spec b1 inc1 b' inc' new (mrStopReason r)"
            by (rule 1(2) [OF best refl _ _ e refl q qa(1) _ fill refl refl more(1,2,3) F(1)])
              (use go qa(2) F(2,7) in simp_all)
          then show ?thesis using match_spec_step [OF F(3,2) F(4) [folded Cons] F(5)] F(6) by auto
        qed
      qed
    qed
  qed
qed

section \<open>Errors of a matching run\<close>

lemma Match_fill_error:
  assumes ok: "book_ok b" "side_list b (opposite (oSide inc)) = mk # rest" "taker_ok (bkMarket b) inc"
    and q: "0 \<le> q" "q \<le> oRemainingQuantity mk" "in64 quote"
    and r: "Match_fill b inc mk q quote = Inl e"
  shows "e = ErrArithmeticOverflow"
proof -
  have s: "is_side (opposite (oSide inc))" using ok(3) by (auto simp: taker_ok_def)
  note H = head_of_side [OF ok(1) s ok(2)]
  have mk: "order64 mk" "order64 inc" using H(3) ok(3) by (auto simp: resting_ok_def taker_ok_def)
  have q64: "in64 q" using q mk(1) in64_nonnegI by (auto simp: order64_def)
  have add: "CheckedAdd x y = Inl e' \<Longrightarrow> in64 x \<Longrightarrow> in64 y \<Longrightarrow> e' = ErrArithmeticOverflow" for x y e'
    by (simp add: CheckedAdd_spec split: if_splits)
  have "e' = ErrArithmeticOverflow" if "Match_taker inc q quote = Inl e'" for e'
    using that mk(2) q64 q(3) add by (auto simp: Match_taker_def bindE_eq_Inl order64_def Let_def)
  moreover have "e' = ErrArithmeticOverflow" if "Match_maker b inc mk q quote = Inl e'" for e'
  proof -
    have "\<exists>b'. Book_remove b x = Inr b'" if "oID x = oID mk" "oSide x = oSide mk" "oPrice x = oPrice mk" for x
      using Book_remove_ok [OF ok(1), of x mk] H(1) that by auto
    then have "Book_remove b x \<noteq> Inl d" if "oID x = oID mk" "oSide x = oSide mk" "oPrice x = oPrice mk" for x d
      using that by (metis sum.distinct(1))
    then show ?thesis using that mk(1) q64 q(3) add
      by (auto simp: Match_maker_def bindE_eq_Inl order64_def Let_def split: if_splits)
  qed
  ultimately show ?thesis using r by (auto simp: Match_fill_def bindE_eq_Inl)
qed

lemma Match_loop_error:
  assumes "Match_loop b inc fills = Inl e" "book_ok b" "taker_ok (bkMarket b) inc"
  shows "e = ErrArithmeticOverflow \<or> e = ErrPlain ''match quote amount must be positive''"
  using assms
proof (induction b inc fills rule: Match_loop.induct)
  case (1 b inc fills)
  let ?s = "opposite (oSide inc)" and ?m = "bkMarket b"
  have s: "is_side (oSide inc)" "is_side ?s" using 1(5) by (auto simp: taker_ok_def)
  obtain mk rest where Cons: "side_list b ?s = mk # rest"
    using 1(3) bestOpposing_head [OF 1(4) s(1)]
    by (cases "side_list b ?s") (auto simp: Match_loop.simps [of b])
  note H = head_of_side [OF 1(4) s(2) Cons] and m = book_okD(1) [OF 1(4)]
  have best: "bestOpposing b (oSide inc) = Inr (Some mk)" using bestOpposing_head [OF 1(4) s(1)] Cons by simp
  note unfold = Match_loop.simps [of b inc fills, unfolded 1(3) best bindE_simps option.case]
  have go1: "crosses (oSide inc) (oType inc) (oPrice inc) (oPrice mk)"
    using unfold [symmetric] by (cases "crosses (oSide inc) (oType inc) (oPrice inc) (oPrice mk)") simp_all
  have go2: "oAccountID mk \<noteq> oAccountID inc"
    using unfold [symmetric] go1 by (cases "oAccountID mk = oAccountID inc") simp_all
  note go = go1 go2
  show ?case
  proof (cases "executableQuantity b inc mk")
    case (Inl d)
    then show ?thesis using 1(3) best go executableQuantity_error [OF Inl 1(5) H(3) m]
      by (simp add: Match_loop.simps [of b])
  next
    case (Inr qs)
    then obtain q stop where e: "executableQuantity b inc mk = Inr (q, stop)" by (cases qs) auto
    have q: "q \<noteq> 0" using 1(3) best go e by (intro notI) (simp add: Match_loop.simps [of b])
    note E = executableQuantity_InrD [OF e 1(5) H(3) m]
    have p64: "in64 (oPrice mk)" "in64 (oRemainingQuantity mk)" using H(3) by (auto simp: resting_ok_def order64_def)
    then have q64: "in64 q" using E(2,3) in64_nonnegI by blast
    show ?thesis
    proof (cases "QuoteAmountFloor ?m (oPrice mk) q")
      case (Inl d)
      then show ?thesis using 1(3) best go e q p64 q64 market_okD(14) [OF m]
        by (auto simp: Match_loop.simps [of b] QuoteAmountFloor_def CheckedMulDivFloor_spec split: if_splits)
    next
      case qa: (Inr quote)
      note Q = quote_of_fill [OF qa m p64(1) q64]
      show ?thesis
      proof (cases "quote \<le> 0")
        case True
        then show ?thesis using 1(3) best go e q qa by (simp add: Match_loop.simps [of b])
      next
        case pos: False
        then have pos': "0 < quote" by simp
        show ?thesis
        proof (cases "Match_fill b inc mk q quote")
          case (Inl d)
          then show ?thesis
            using 1(3) best go e q qa pos Match_fill_error [OF 1(4) Cons 1(5) E(2,3) Q(4) Inl]
            by (simp add: Match_loop.simps [of b])
        next
          case (Inr t)
          then obtain b1 inc1 f where fill: "Match_fill b inc mk q quote = Inr (b1, inc1, f)" by (cases t) auto
          note F = Match_fill_spec [OF 1(4) Cons 1(5) e q qa pos' go fill]
          consider (buy) "market_buy inc" "oRemainingQuoteBudget inc1 \<noteq> 0" "Match_loop b1 inc1 (fills @ [f]) = Inl e"
            | (more) "\<not> market_buy inc" "oRemainingQuantity inc1 \<noteq> 0" "Match_loop b1 inc1 (fills @ [f]) = Inl e"
            using 1(3) best go e q qa pos fill by (auto simp: Match_loop.simps [of b] split: if_splits)
          then show ?thesis
          proof cases
            case buy
            show ?thesis
              by (rule 1(1) [OF best refl _ _ e refl q qa pos fill refl refl buy(1,2,3) F(1)])
                (use go F(2,7) in simp_all)
          next
            case more
            show ?thesis
              by (rule 1(2) [OF best refl _ _ e refl q qa pos fill refl refl more(1,2,3) F(1)])
                (use go F(2,7) in simp_all)
          qed
        qed
      qed
    qed
  qed
qed

section \<open>Fill-or-kill\<close>

text \<open>\<open>CanFillFOK\<close> read on the priority list.\<close>

fun fok_list :: "AccountID \<Rightarrow> Side \<Rightarrow> int \<Rightarrow> Order list \<Rightarrow> int \<Rightarrow> bool" where
  "fok_list acc s limit [] remaining = False"
| "fok_list acc s limit (mk # makers) remaining =
     (crosses s OrderTypeLimit limit (oPrice mk) \<and> oAccountID mk \<noteq> acc \<and>
      (remaining \<le> oRemainingQuantity mk \<or>
       fok_list acc s limit makers (remaining - oRemainingQuantity mk)))"

lemma fok_queue_list:
  assumes "\<forall>i \<in> set q. 0 < oRemainingQuantity (fmget zeroOrder (bkOrders b) i) \<and>
      crosses s OrderTypeLimit limit (oPrice (fmget zeroOrder (bkOrders b) i))"
    and "0 < remaining" "in64 remaining"
  shows "fok_list acc s limit (map (fmget zeroOrder (bkOrders b)) q @ rest) remaining \<longleftrightarrow>
      (case fok_queue b acc q remaining of Inl v \<Rightarrow> v | Inr r \<Rightarrow> fok_list acc s limit rest r)"
    and "fok_queue b acc q remaining = Inr r \<Longrightarrow> 0 < r \<and> in64 r"
proof -
  have "(fok_list acc s limit (map (fmget zeroOrder (bkOrders b)) q @ rest) remaining \<longleftrightarrow>
      (case fok_queue b acc q remaining of Inl v \<Rightarrow> v | Inr r \<Rightarrow> fok_list acc s limit rest r)) \<and>
      (\<forall>r. fok_queue b acc q remaining = Inr r \<longrightarrow> 0 < r \<and> in64 r)"
    using assms
  proof (induction q arbitrary: remaining)
    case (Cons i q)
    let ?mk = "fmget zeroOrder (bkOrders b) i"
    have mk: "0 < oRemainingQuantity ?mk" "crosses s OrderTypeLimit limit (oPrice ?mk)" using Cons.prems by auto
    show ?case
    proof (cases "oAccountID ?mk = acc \<or> remaining \<le> oRemainingQuantity ?mk")
      case True
      then show ?thesis using mk by (auto simp: Let_def)
    next
      case False
      then have "sub64 remaining (oRemainingQuantity ?mk) = remaining - oRemainingQuantity ?mk"
        using mk Cons.prems(3) by (intro sub64_nonneg) (auto simp: in64_def)
      moreover have "0 < remaining - oRemainingQuantity ?mk" "in64 (remaining - oRemainingQuantity ?mk)"
        using False mk Cons.prems(2,3) in64_nonnegI [of "remaining - oRemainingQuantity ?mk" remaining] by auto
      moreover have "\<forall>i \<in> set q. 0 < oRemainingQuantity (fmget zeroOrder (bkOrders b) i) \<and>
          crosses s OrderTypeLimit limit (oPrice (fmget zeroOrder (bkOrders b) i))"
        using Cons.prems(1) by simp
      moreover have "fok_queue b acc (i # q) remaining = fok_queue b acc q (remaining - oRemainingQuantity ?mk)"
        using False calculation(1) by (simp add: Let_def)
      moreover have "fok_list acc s limit (map (fmget zeroOrder (bkOrders b)) (i # q) @ rest) remaining =
          fok_list acc s limit (map (fmget zeroOrder (bkOrders b)) q @ rest) (remaining - oRemainingQuantity ?mk)"
        using False mk by simp
      ultimately show ?thesis using Cons.IH by presburger
    qed
  qed simp
  note both = this
  show "fok_list acc s limit (map (fmget zeroOrder (bkOrders b)) q @ rest) remaining \<longleftrightarrow>
      (case fok_queue b acc q remaining of Inl v \<Rightarrow> v | Inr r \<Rightarrow> fok_list acc s limit rest r)"
    by (rule both [THEN conjunct1])
  show "fok_queue b acc q remaining = Inr r \<Longrightarrow> 0 < r \<and> in64 r"
    by (rule both [THEN conjunct2, rule_format])
qed

lemma fok_prices_list:
  assumes ok: "book_ok b" "is_side t"
    and "set ps \<subseteq> set (sidePrices b t)" "0 < remaining" "in64 remaining"
  shows "fok_prices b acc s limit (sideLevels b t) ps remaining \<longleftrightarrow>
    fok_list acc s limit (concat (map (level_orders b (sideLevels b t)) ps)) remaining"
  using assms(3-)
proof (induction ps arbitrary: remaining)
  case (Cons p ps)
  let ?q = "fmget [] (sideLevels b t) p"
  note props = level_orders_props [OF ok, of _ p]
  show ?case
  proof (cases "crosses s OrderTypeLimit limit p")
    case False
    obtain x xs where "level_orders b (sideLevels b t) p = x # xs"
      using level_orders_nonempty [OF ok, of p] Cons.prems(1) by (cases "level_orders b (sideLevels b t) p") auto
    moreover from this have "oPrice x = p" using props(1) [of x] by simp
    ultimately show ?thesis using False by simp
  next
    case True
    have q: "\<forall>i \<in> set ?q. 0 < oRemainingQuantity (fmget zeroOrder (bkOrders b) i) \<and>
        crosses s OrderTypeLimit limit (oPrice (fmget zeroOrder (bkOrders b) i))"
    proof
      fix i assume "i \<in> set ?q"
      then have "fmget zeroOrder (bkOrders b) i \<in> set (level_orders b (sideLevels b t) p)" by simp
      from props(1,4) [OF this] True show "0 < oRemainingQuantity (fmget zeroOrder (bkOrders b) i) \<and>
        crosses s OrderTypeLimit limit (oPrice (fmget zeroOrder (bkOrders b) i))"
        by (simp add: resting_ok_def)
    qed
    note Q = fok_queue_list [OF q Cons.prems(2,3), of acc]
    show ?thesis
    proof (cases "fok_queue b acc ?q remaining")
      case (Inl v)
      then show ?thesis using True Q(1) by simp
    next
      case (Inr r)
      then show ?thesis using True Q(1) Q(2) [OF Inr] Cons.IH [of r] Cons.prems(1) by simp
    qed
  qed
qed simp

lemma CanFillFOK_list:
  assumes "book_ok b" "is_side s" "0 < quantity" "in64 quantity"
  shows "CanFillFOK b acc s limit quantity = Inr (fok_list acc s limit (side_list b (opposite s)) quantity)"
  using fok_prices_list [OF assms(1), of "opposite s" "sidePrices b (opposite s)" quantity acc s limit] assms
  by (auto simp: CanFillFOK_def side_list_def sideLevels_def sidePrices_def)

text \<open>A run fills the incoming limit order completely exactly when \<open>CanFillFOK\<close> says so.\<close>

lemma fok_list_partial:
  "rfQuantity f < remaining \<Longrightarrow>
     fok_list acc s limit (maker_filled n f mk # makers) (remaining - rfQuantity f) =
     fok_list acc s limit (mk # makers) remaining"
  by (simp add: maker_filled_def)

lemma fill_quantity_pos: "\<forall>f \<in> set fs. 0 < rfQuantity f \<Longrightarrow> 0 \<le> fill_quantity fs"
  by (induction fs) auto

lemma apply_fills_fok:
  assumes "apply_fills n L fs = Some L'" "0 < remaining" "0 \<le> remaining - fill_quantity fs"
    and "\<forall>f \<in> set fs. crosses s OrderTypeLimit limit (rfPrice f) \<and> rfMakerAccountID f \<noteq> acc \<and> 0 < rfQuantity f"
    and "L' = [] \<or> \<not> crosses s OrderTypeLimit limit (oPrice (hd L')) \<or> oAccountID (hd L') = acc \<or>
         remaining = fill_quantity fs"
  shows "remaining = fill_quantity fs \<longleftrightarrow> fok_list acc s limit L remaining"
  using assms
proof (induction n L fs arbitrary: remaining rule: apply_fills.induct)
  case (1 n makers)
  then show ?case by (cases makers) auto
next
  case (2 n f fs)
  then show ?case by simp
next
  case (3 n mk makers f fs)
  let ?q = "rfQuantity f"
  have f: "rfPrice f = oPrice mk" "rfMakerAccountID f = oAccountID mk" "0 < ?q" "?q \<le> oRemainingQuantity mk"
    "rfMakerRemaining f = oRemainingQuantity mk - ?q"
    and rest: "apply_fills n (if oRemainingQuantity mk = ?q then makers else maker_filled n f mk # makers) fs = Some L'"
    using 3(2) by (auto split: if_splits)
  have ok: "crosses s OrderTypeLimit limit (oPrice mk)" "oAccountID mk \<noteq> acc" using 3(5) f by auto
  have sum: "0 \<le> fill_quantity fs" using 3(5) by (intro fill_quantity_pos) simp
  show ?case
  proof (cases "remaining = ?q")
    case True
    then show ?thesis using 3(4) sum f ok by simp
  next
    case False
    then have less: "?q < remaining" using 3(4) sum by simp
    have step: "remaining - ?q = fill_quantity fs \<longleftrightarrow>
        fok_list acc s limit (if oRemainingQuantity mk = ?q then makers else maker_filled n f mk # makers) (remaining - ?q)"
      using 3(1) [of "remaining - ?q"] 3(2,4-) f rest less by (auto split: if_splits)
    show ?thesis
    proof (cases "oRemainingQuantity mk = ?q")
      case True
      then show ?thesis using step ok less by auto
    next
      case part: False
      then have "?q < oRemainingQuantity mk" using f(4) by simp
      with step part fok_list_partial [OF less, of acc s limit n mk makers] show ?thesis by auto
    qed
  qed
qed

lemma match_specD:
  assumes "match_spec b inc b' inc' fs stop"
  shows "book_ok b'" "bkMarket b' = bkMarket b" "side_list b' (oSide inc) = side_list b (oSide inc)"
    "apply_fills (oAcceptedSequence inc) (side_list b (opposite (oSide inc))) fs =
       Some (side_list b' (opposite (oSide inc)))"
    "\<And>f. f \<in> set fs \<Longrightarrow> fill_ok (bkMarket b) inc f" "inc' = taker_filled fs inc"
    "taker_ok (bkMarket b) inc'" "stop_ok (bkMarket b) inc' (side_list b' (opposite (oSide inc))) stop"
  using assms unfolding match_spec_def by blast+

lemma match_spec_fok:
  assumes "match_spec b inc b' inc' fs stop" "book_ok b" "taker_ok (bkMarket b) inc"
    and "oType inc = OrderTypeLimit" "0 < oRemainingQuantity inc"
  shows "oRemainingQuantity inc' = 0 \<longleftrightarrow>
    CanFillFOK b (oAccountID inc) (oSide inc) (oPrice inc) (oRemainingQuantity inc) = Inr True"
proof -
  let ?L' = "side_list b' (opposite (oSide inc))"
  have s: "is_side (oSide inc)" "in64 (oRemainingQuantity inc)" using assms(3) by (auto simp: taker_ok_def order64_def)
  have inc': "inc' = taker_filled fs inc" "taker_ok (bkMarket b) inc'" using assms(1) by (auto simp: match_spec_def)
  have rem: "oRemainingQuantity inc' = oRemainingQuantity inc - fill_quantity fs"
    using inc'(1) assms(4) by (simp add: taker_filled_def)
  have nn: "0 \<le> oRemainingQuantity inc'" using inc' assms(4) by (auto simp: taker_ok_def)
  note match_specD(8) [OF assms(1)]
  then have "?L' = [] \<or> \<not> crosses (oSide inc) OrderTypeLimit (oPrice inc) (oPrice (hd ?L')) \<or>
      oAccountID (hd ?L') = oAccountID inc \<or> oRemainingQuantity inc = fill_quantity fs"
    using inc'(1) rem assms(4) by (auto simp: stop_ok_def split: StopReason.splits list.splits)
  moreover have "\<forall>f \<in> set fs. crosses (oSide inc) OrderTypeLimit (oPrice inc) (rfPrice f) \<and>
      rfMakerAccountID f \<noteq> oAccountID inc \<and> 0 < rfQuantity f"
    using assms(1,4) by (auto simp: match_spec_def fill_ok_def)
  ultimately have "oRemainingQuantity inc = fill_quantity fs \<longleftrightarrow>
      fok_list (oAccountID inc) (oSide inc) (oPrice inc) (side_list b (opposite (oSide inc))) (oRemainingQuantity inc)"
    using assms(1,5) rem nn by (intro apply_fills_fok) (auto simp: match_spec_def)
  then show ?thesis using CanFillFOK_list [OF assms(2) s(1) assms(5) s(2)] rem by simp
qed

section \<open>Orders that do not cross, and uncrossed books\<close>

lemma match_spec_no_cross:
  assumes "match_spec b inc b' inc' fs stop" "book_ok b" "taker_ok (bkMarket b) inc"
    and "oType inc = OrderTypeLimit" "\<not> WouldCross b (oSide inc) (oPrice inc)"
  shows "fs = []" "b' = b" "inc' = inc"
proof -
  have s: "is_side (oSide inc)" using assms(3) by (simp add: taker_ok_def)
  show fs: "fs = []"
  proof (cases fs)
    case (Cons f gs)
    then obtain mk rest where mk: "side_list b (opposite (oSide inc)) = mk # rest" "rfPrice f = oPrice mk"
      using assms(1) by (cases "side_list b (opposite (oSide inc))") (auto simp: match_spec_def split: if_splits)
    moreover have "crosses (oSide inc) OrderTypeLimit (oPrice inc) (rfPrice f)"
      using assms(1,4) Cons by (simp add: match_spec_def fill_ok_def)
    ultimately show ?thesis using assms(5) WouldCross_head [OF assms(2) s] by simp
  qed simp
  show "inc' = inc" using assms(1) fs by (simp add: match_spec_def)
  have "side_list b' t = side_list b t" if "is_side t" for t
    using assms(1) fs s that by (cases "t = oSide inc") (auto simp: match_spec_def)
  then show "b' = b" using assms(1,2) by (intro book_ext) (auto simp: match_spec_def)
qed

definition uncrossed :: "Book \<Rightarrow> bool" where
  "uncrossed b \<longleftrightarrow>
     (\<forall>x \<in> set (side_list b SideBuy). \<forall>y \<in> set (side_list b SideSell). oPrice x < oPrice y)"

lemma apply_fills_prices:
  "apply_fills n L fs = Some L' \<Longrightarrow> oPrice ` set L' \<subseteq> oPrice ` set L"
proof (induction n L fs rule: apply_fills.induct)
  case (3 n mk makers f fs)
  have "oPrice (maker_filled n f mk) = oPrice mk" by (simp add: maker_filled_def)
  with 3 show ?case by (auto split: if_splits)
qed auto

lemma uncrossed_prices:
  "uncrossed b \<longleftrightarrow> (\<forall>p \<in> oPrice ` set (side_list b SideBuy). \<forall>q \<in> oPrice ` set (side_list b SideSell). p < q)"
  by (auto simp: uncrossed_def)

lemma match_spec_uncrossed:
  assumes "match_spec b inc b' inc' fs stop" "taker_ok (bkMarket b) inc" "uncrossed b"
  shows "uncrossed b'"
proof -
  have "is_side (oSide inc)" using assms(2) by (simp add: taker_ok_def)
  moreover have "oPrice ` set (side_list b' (opposite (oSide inc))) \<subseteq> oPrice ` set (side_list b (opposite (oSide inc)))"
    "side_list b' (oSide inc) = side_list b (oSide inc)"
    using apply_fills_prices [OF match_specD(4) [OF assms(1)]] match_specD(3) [OF assms(1)] by auto
  ultimately show ?thesis using assms(3) unfolding uncrossed_prices
    by (elim disjE) (simp only: opposite.simps, blast)+
qed

lemma insert_order_set: "set (insert_order s ord L) = insert ord (set L)"
proof -
  have "set L = set (takeWhile P L) \<union> set (dropWhile P L)" for P
    by (metis set_append takeWhile_dropWhile_id)
  then show ?thesis unfolding insert_order_def by auto
qed

lemma no_cross_all:
  assumes "book_ok b" "is_side s" "\<not> WouldCross b s price" "x \<in> set (side_list b (opposite s))"
  shows "\<not> crosses s OrderTypeLimit price (oPrice x)"
proof -
  have o: "is_side (opposite s)" using assms(2) by auto
  obtain y ys where y: "side_list b (opposite s) = y # ys" using assms(4) by (cases "side_list b (opposite s)") auto
  then have "\<not> crosses s OrderTypeLimit price (oPrice y)"
    using WouldCross_head [OF assms(1,2)] assms(3) by simp
  moreover have "x = y \<or> \<not> better (opposite s) (oPrice x) (oPrice y)"
    using side_list_sorted [OF assms(1) o] y assms(4) by auto
  ultimately show ?thesis using assms(2) by (auto simp: crosses_def better_def)
qed

lemma uncrossed_Add:
  assumes "book_ok b" "uncrossed b" "\<not> WouldCross b (oSide ord) (oPrice ord)" "Book_Add b ord = Inr b'"
  shows "uncrossed b'"
proof -
  have s: "is_side (oSide ord)" using Book_Add_InrD(4) [OF assms(4)] .
  note L = side_list_Add [OF assms(1,4)] and N = no_cross_all [OF assms(1) s assms(3)]
  from s show ?thesis
  proof
    assume "oSide ord = SideBuy"
    then show ?thesis using L [of SideBuy] L [of SideSell] N assms(2)
      by (auto simp: uncrossed_def insert_order_set crosses_def not_le)
  next
    assume "oSide ord = SideSell"
    then show ?thesis using L [of SideBuy] L [of SideSell] N assms(2)
      by (auto simp: uncrossed_def insert_order_set crosses_def not_le)
  qed
qed

lemma uncrossed_subset:
  assumes "uncrossed b" "\<And>s. is_side s \<Longrightarrow> set (side_list b' s) \<subseteq> set (side_list b s)"
  shows "uncrossed b'"
  using assms(1) assms(2) [of SideBuy] assms(2) [of SideSell] by (auto simp: uncrossed_def)

text \<open>A limit order whose run did not end at an order of its own account does not cross what is left.\<close>

lemma match_spec_rest_no_cross:
  assumes "match_spec b inc b' inc' fs stop" "taker_ok (bkMarket b) inc"
    and "oType inc = OrderTypeLimit" "stop = StopNoLiquidity \<or> stop = StopPriceLimit"
  shows "\<not> WouldCross b' (oSide inc) (oPrice inc)"
proof -
  have s: "is_side (oSide inc)" using assms(2) by (simp add: taker_ok_def)
  have "stop_ok (bkMarket b) inc' (side_list b' (opposite (oSide inc))) stop" "inc' = taker_filled fs inc" "book_ok b'"
    using assms(1) by (auto simp: match_spec_def)
  then show ?thesis using assms(3,4) WouldCross_head [OF _ s] by (auto simp: stop_ok_def split: list.splits)
qed

lemma Match_spec:
  assumes "Match b inc = Inr (b', inc', r)" "book_ok b" "taker_ok (bkMarket b) inc"
  shows "match_spec b inc b' inc' (mrFills r) (mrStopReason r)"
  using assms Match_loop_spec [of b inc "[]" b' inc' r] by (auto simp: Match_def split: if_splits)

lemma Match_error:
  assumes "Match b inc = Inl e" "book_ok b" "taker_ok (bkMarket b) inc" "oID inc \<noteq> []"
  shows "e = ErrArithmeticOverflow \<or> e = ErrPlain ''match quote amount must be positive''"
  using assms Match_loop_error [of b inc "[]" e] by (simp add: Match_def)

section \<open>Properties\<close>

definition sample_bid :: Order where
  "sample_bid = zeroOrder\<lparr> oID := ''O-2'', oAccountID := ''bea'', oMarketID := ''BTC-USDT'', oSide := SideBuy,
     oType := OrderTypeLimit, oTimeInForce := TimeInForceFOK, oPrice := 60001000000,
     oOriginalQuantity := 2000, oRemainingQuantity := 2000, oStatus := OrderStatusReceived,
     oAcceptedSequence := 2, oLastSequence := 2 \<rparr>"

lemma sample_bid_ok: "taker_ok (bkMarket sample_book) sample_bid" "oID sample_bid \<noteq> []"
  "oType sample_bid = OrderTypeLimit" "0 < oRemainingQuantity sample_bid"
  by (simp_all add: taker_ok_def sample_bid_def zeroOrder_def order64_def in64_def MaxInt64_def MinInt64_def
      sample_book_def DefaultBTCUSDTMarket_def)

lemma sample_match: "\<exists>b' inc' r. Match sample_book sample_bid = Inr (b', inc', r)"
proof -
  have "case Match sample_book sample_bid of Inl _ \<Rightarrow> False | Inr _ \<Rightarrow> True" by code_simp
  then show ?thesis by (cases "Match sample_book sample_bid") auto
qed

text \<open>C8 Matching is price-time priority: the fills of a run, replayed one by one, always hit the order
  at the head of the opposite priority list; the list after the run is what the replay leaves,
  the side of the incoming order is untouched, and the book stays well formed.\<close>

theorem match_price_time_priority:
  assumes "book_ok b" "taker_ok (bkMarket b) inc" "Match b inc = Inr (b', inc', r)"
  shows "book_ok b' \<and> side_list b' (oSide inc) = side_list b (oSide inc) \<and>
    apply_fills (oAcceptedSequence inc) (side_list b (opposite (oSide inc))) (mrFills r) =
      Some (side_list b' (opposite (oSide inc)))"
  using match_specD [OF Match_spec [OF assms(3,1,2)]] by blast

theorem match_price_time_priority_witness:
  "\<exists>b' inc' r. Match sample_book sample_bid = Inr (b', inc', r) \<and>
     apply_fills 2 (side_list sample_book SideSell) (mrFills r) = Some (side_list b' SideSell)"
  using sample_match match_price_time_priority [OF sample_book_ok sample_bid_ok(1)]
  by (fastforce simp: sample_bid_def)

text \<open>C9 Every fill of a run is at a price within the limit of the incoming order, against another
  account, in whole quantity steps, for the rounded-down quote amount; and the incoming order
  after the run is the order before it less exactly what the fills took.\<close>

theorem match_fills_exact:
  assumes "book_ok b" "taker_ok (bkMarket b) inc" "Match b inc = Inr (b', inc', r)"
  shows "(\<forall>f \<in> set (mrFills r).
      crosses (oSide inc) (oType inc) (oPrice inc) (rfPrice f) \<and> rfMakerAccountID f \<noteq> oAccountID inc \<and>
      0 < rfQuantity f \<and> mQuantityStep (bkMarket b) dvd rfQuantity f \<and>
      rfQuoteAmount f = rfPrice f * rfQuantity f div mBaseScale (bkMarket b) \<and> 0 < rfQuoteAmount f) \<and>
    oFilledQuantity inc' = oFilledQuantity inc + (\<Sum>f\<leftarrow>mrFills r. rfQuantity f) \<and>
    oSpentQuote inc' = oSpentQuote inc + (\<Sum>f\<leftarrow>mrFills r. rfQuoteAmount f) \<and>
    (if market_buy inc
     then oRemainingQuoteBudget inc' = oRemainingQuoteBudget inc - (\<Sum>f\<leftarrow>mrFills r. rfQuoteAmount f) \<and>
       0 \<le> oRemainingQuoteBudget inc'
     else oRemainingQuantity inc' = oRemainingQuantity inc - (\<Sum>f\<leftarrow>mrFills r. rfQuantity f) \<and>
       0 \<le> oRemainingQuantity inc')"
proof -
  note D = match_specD [OF Match_spec [OF assms(3,1,2)]]
  have "taker_ok (bkMarket b) (taker_filled (mrFills r) inc)" using D(6,7) by simp
  then have "if market_buy inc then 0 \<le> oRemainingQuoteBudget (taker_filled (mrFills r) inc)
      else 0 \<le> oRemainingQuantity (taker_filled (mrFills r) inc)"
    by (simp add: taker_ok_def split: if_splits)
  then have "oFilledQuantity inc' = oFilledQuantity inc + (\<Sum>f\<leftarrow>mrFills r. rfQuantity f) \<and>
    oSpentQuote inc' = oSpentQuote inc + (\<Sum>f\<leftarrow>mrFills r. rfQuoteAmount f) \<and>
    (if market_buy inc
     then oRemainingQuoteBudget inc' = oRemainingQuoteBudget inc - (\<Sum>f\<leftarrow>mrFills r. rfQuoteAmount f) \<and>
       0 \<le> oRemainingQuoteBudget inc'
     else oRemainingQuantity inc' = oRemainingQuantity inc - (\<Sum>f\<leftarrow>mrFills r. rfQuantity f) \<and>
       0 \<le> oRemainingQuantity inc')"
    unfolding D(6) by (cases "market_buy inc") (auto simp: taker_filled_def)
  moreover have "\<forall>f \<in> set (mrFills r).
      crosses (oSide inc) (oType inc) (oPrice inc) (rfPrice f) \<and> rfMakerAccountID f \<noteq> oAccountID inc \<and>
      0 < rfQuantity f \<and> mQuantityStep (bkMarket b) dvd rfQuantity f \<and>
      rfQuoteAmount f = rfPrice f * rfQuantity f div mBaseScale (bkMarket b) \<and> 0 < rfQuoteAmount f"
    using D(5) unfolding fill_ok_def by blast
  ultimately show ?thesis by (rule conjI [rotated])
qed

theorem match_fills_exact_witness:
  "\<exists>b' inc' r. Match sample_book sample_bid = Inr (b', inc', r) \<and>
     oRemainingQuantity inc' = 2000 - (\<Sum>f\<leftarrow>mrFills r. rfQuantity f)"
  using sample_match match_fills_exact [OF sample_book_ok sample_bid_ok(1)]
  by (fastforce simp: sample_bid_def)

text \<open>A matching run on a well-formed book returns: it never panics and never reports a corrupt
  level; its only errors are arithmetic overflow and an execution worth less than one quote atom.\<close>

theorem match_errors:
  assumes "book_ok b" "taker_ok (bkMarket b) inc" "oID inc \<noteq> []"
  shows "(\<exists>b' inc' r. Match b inc = Inr (b', inc', r)) \<or> Match b inc = Inl ErrArithmeticOverflow \<or>
    Match b inc = Inl (ErrPlain ''match quote amount must be positive'')"
proof (cases "Match b inc")
  case (Inl e)
  with Match_error [OF Inl assms] show ?thesis by auto
next
  case (Inr t)
  then show ?thesis by (cases t) auto
qed

theorem match_errors_witness:
  "(\<exists>b' inc' r. Match sample_book sample_bid = Inr (b', inc', r)) \<or>
   Match sample_book sample_bid = Inl ErrArithmeticOverflow \<or>
   Match sample_book sample_bid = Inl (ErrPlain ''match quote amount must be positive'')"
  by (rule match_errors [OF sample_book_ok sample_bid_ok(1,2)])

text \<open>The stop reason is true: the input is used up, the opposite side is empty, its best price is
  beyond the limit, the budget does not buy one step more, or the best maker is the taker's own.\<close>

theorem match_stop_reason:
  assumes "book_ok b" "taker_ok (bkMarket b) inc" "Match b inc = Inr (b', inc', r)"
  shows "stop_ok (bkMarket b) inc' (side_list b' (opposite (oSide inc))) (mrStopReason r)"
  using match_specD(8) [OF Match_spec [OF assms(3,1,2)]] .

theorem match_stop_reason_witness:
  "\<exists>b' inc' r. Match sample_book sample_bid = Inr (b', inc', r) \<and>
     stop_ok (bkMarket sample_book) inc' (side_list b' SideSell) (mrStopReason r)"
  using sample_match match_stop_reason [OF sample_book_ok sample_bid_ok(1)]
  by (fastforce simp: sample_bid_def)

text \<open>C31 The fill-or-kill scan is exact: it predicts a complete fill if and only if the run that follows
  fills the order completely.\<close>

theorem fok_scan_exact:
  assumes "book_ok b" "taker_ok (bkMarket b) inc" "Match b inc = Inr (b', inc', r)"
    and "oType inc = OrderTypeLimit" "0 < oRemainingQuantity inc"
  shows "oRemainingQuantity inc' = 0 \<longleftrightarrow>
    CanFillFOK b (oAccountID inc) (oSide inc) (oPrice inc) (oRemainingQuantity inc) = Inr True"
  using match_spec_fok [OF Match_spec [OF assms(3,1,2)] assms(1,2,4,5)] .

theorem fok_scan_exact_witness:
  "\<exists>b' inc' r. Match sample_book sample_bid = Inr (b', inc', r) \<and> oRemainingQuantity inc' = 0"
proof -
  obtain b' inc' r where m: "Match sample_book sample_bid = Inr (b', inc', r)" using sample_match by blast
  have "CanFillFOK sample_book (oAccountID sample_bid) (oSide sample_bid) (oPrice sample_bid)
      (oRemainingQuantity sample_bid) = Inr True" by code_simp
  with m fok_scan_exact [OF sample_book_ok sample_bid_ok(1) m sample_bid_ok(3,4)] show ?thesis by blast
qed

text \<open>A limit order that does not cross the best opposing price, as a post-only order must not,
  takes nothing: the run leaves book and order as they were.\<close>

theorem no_cross_no_fill:
  assumes "book_ok b" "taker_ok (bkMarket b) inc" "Match b inc = Inr (b', inc', r)"
    and "oType inc = OrderTypeLimit" "\<not> WouldCross b (oSide inc) (oPrice inc)"
  shows "mrFills r = [] \<and> b' = b \<and> inc' = inc"
  using match_spec_no_cross [OF Match_spec [OF assms(3,1,2)] assms(1,2,4,5)] by blast

theorem no_cross_no_fill_witness:
  "\<exists>r. Match empty_book sample_bid = Inr (empty_book, sample_bid, r) \<and> mrFills r = []"
proof -
  have t: "taker_ok (bkMarket empty_book) sample_bid"
    using sample_bid_ok(1) by (simp add: sample_book_def empty_book_def)
  have "case Match empty_book sample_bid of Inl _ \<Rightarrow> False | Inr _ \<Rightarrow> True" by code_simp
  then obtain b' inc' r where m: "Match empty_book sample_bid = Inr (b', inc', r)"
    by (cases "Match empty_book sample_bid") auto
  have "\<not> WouldCross empty_book (oSide sample_bid) (oPrice sample_bid)" by code_simp
  from m no_cross_no_fill [OF empty_book_ok(1) t m sample_bid_ok(3) this] show ?thesis by blast
qed

end
