(* ===== verification/Store.thy ===== *)
theory Store
  imports Ledger
begin

text \<open>
  The package \<open>trading/store\<close>: records and snapshots of the event log, the two interfaces that
  the exchange uses, and the in-memory store that implements both.

  \<^item> An interface is a record of functions over the state \<open>'s\<close> of the store. An operation
    returns the state after it together with its result, so a store may change its state and
    still report an error. The first argument is \<open>ctx.Err()\<close>.
  \<^item> The payload of a snapshot is a value of the type \<open>'b\<close> of encoded states. \<open>cloneRecord\<close>
    copies a record through \<open>encoding/json\<close>; the codec is the argument \<open>copy\<close>. On records whose
    strings are valid UTF-8 the copy is the record, and the contract below is shown for such a copy.
  \<^item> The locale \<open>event_log\<close> states what the exchange relies on: appending adds exactly one
    record or leaves the log alone, and reading returns the records behind a sequence. It is
    interpreted on the in-memory store.
\<close>

section \<open>Data\<close>

definition LegacySchemaVersion :: nat where "LegacySchemaVersion = 3"
definition PreviousSchemaVersion :: nat where "PreviousSchemaVersion = 4"
definition CurrentSchemaVersion :: nat where "CurrentSchemaVersion = 5"

lemmas schema_versions = LegacySchemaVersion_def PreviousSchemaVersion_def CurrentSchemaVersion_def

record BalanceProjection =
  bpAccountID :: AccountID
  bpAsset :: Asset
  bpAvailable :: int
  bpHeld :: int

record Projection =
  prOrders :: "Order list"
  prTrades :: "Trade list"
  prBalances :: "BalanceProjection list"

record Record =
  recSchemaVersion :: nat
  recMarketID :: MarketID
  recCommand :: Command
  recResult :: Result
  recJournal :: "Transaction list"
  recProjection :: Projection
  recStateHash :: string

record 'b Snapshot =
  snSchemaVersion :: nat
  snMarketID :: MarketID
  snSequence :: nat
  snStateHash :: string
  snPayload :: 'b

type_synonym ctx = "error option"

record 's EventStore =
  esAppend :: "ctx \<Rightarrow> nat \<Rightarrow> Record \<Rightarrow> 's \<Rightarrow> 's \<times> unit res"
  esRecordsAfter :: "ctx \<Rightarrow> nat \<Rightarrow> 's \<Rightarrow> Record list res"

record ('s, 'b) SnapshotStore =
  ssSave :: "ctx \<Rightarrow> 'b Snapshot \<Rightarrow> 's \<Rightarrow> 's \<times> unit res"
  ssLoad :: "ctx \<Rightarrow> 's \<Rightarrow> 'b Snapshot option res"

section \<open>The in-memory store\<close>

record 'b Memory =
  memMarketID :: MarketID
  memRecords :: "Record list"
  memSnapshot :: "'b Snapshot option"

definition NewMemory :: "'b Memory" where
  "NewMemory = \<lparr> memMarketID = [], memRecords = [], memSnapshot = None \<rparr>"

type_synonym record_copy = "Record \<Rightarrow> Record res"

definition Memory_Append ::
  "record_copy \<Rightarrow> ctx \<Rightarrow> nat \<Rightarrow> Record \<Rightarrow> 'b Memory \<Rightarrow> 'b Memory \<times> unit res" where
  "Memory_Append copy ctx expectedSequence rec m =
     (case ctx of
        Some err \<Rightarrow> (m, Inl err)
      | None \<Rightarrow>
          (let current = length (memRecords m) in
           if current \<noteq> expectedSequence \<or> cmdSequence (recCommand rec) \<noteq> expectedSequence + 1 \<or>
              rSequence (recResult rec) \<noteq> cmdSequence (recCommand rec)
           then (m, Inl ErrSequenceConflict)
           else if recSchemaVersion rec \<noteq> CurrentSchemaVersion \<or> recMarketID rec = [] \<or>
                   kMarketID (cmdRequestKey (recCommand rec)) \<noteq> recMarketID rec
           then (m, Inl (ErrPlain ''invalid event record metadata''))
           else if memMarketID m \<noteq> [] \<and> memMarketID m \<noteq> recMarketID rec
           then (m, Inl (ErrPlain ''event store is bound to another market''))
           else
             (case copy rec of
                Inl err \<Rightarrow> (m, Inl err)
              | Inr cloned \<Rightarrow>
                  (m\<lparr> memMarketID := recMarketID rec, memRecords := memRecords m @ [cloned] \<rparr>, Inr ()))))"

definition Memory_RecordsAfter :: "record_copy \<Rightarrow> ctx \<Rightarrow> nat \<Rightarrow> 'b Memory \<Rightarrow> Record list res" where
  "Memory_RecordsAfter copy ctx sequence m =
     (case ctx of
        Some err \<Rightarrow> Inl err
      | None \<Rightarrow>
          if sequence > length (memRecords m) then Inl ErrSequenceConflict
          else foldE (\<lambda>rec result. bindE (copy rec) (\<lambda>cloned. Inr (result @ [cloned])))
                 (drop sequence (memRecords m)) [])"

definition Memory_Save :: "ctx \<Rightarrow> 'b Snapshot \<Rightarrow> 'b Memory \<Rightarrow> 'b Memory \<times> unit res" where
  "Memory_Save ctx snapshot m =
     (case ctx of
        Some err \<Rightarrow> (m, Inl err)
      | None \<Rightarrow>
          if snSequence snapshot > length (memRecords m) then (m, Inl ErrSequenceConflict)
          else if snSchemaVersion snapshot \<noteq> CurrentSchemaVersion \<or> snMarketID snapshot = []
          then (m, Inl (ErrPlain ''invalid snapshot metadata''))
          else if memMarketID m \<noteq> [] \<and> memMarketID m \<noteq> snMarketID snapshot
          then (m, Inl (ErrPlain ''snapshot store is bound to another market''))
          else (m\<lparr> memMarketID := snMarketID snapshot, memSnapshot := Some snapshot \<rparr>, Inr ()))"

definition Memory_Load :: "ctx \<Rightarrow> 'b Memory \<Rightarrow> 'b Snapshot option res" where
  "Memory_Load ctx m = (case ctx of Some err \<Rightarrow> Inl err | None \<Rightarrow> Inr (memSnapshot m))"

definition CorruptRecord :: "nat \<Rightarrow> (Record \<Rightarrow> Record) option \<Rightarrow> 'b Memory \<Rightarrow> 'b Memory \<times> unit res" where
  "CorruptRecord sequence mutate m =
     (case mutate of
        None \<Rightarrow> (m, Inl (ErrPlain ''sequence and mutate function are required''))
      | Some f \<Rightarrow>
          if sequence = 0 then (m, Inl (ErrPlain ''sequence and mutate function are required''))
          else if sequence > length (memRecords m) then (m, Inl (ErrPlain ''record does not exist''))
          else (m\<lparr> memRecords := (memRecords m)[sequence - 1 := f (memRecords m ! (sequence - 1))] \<rparr>,
                Inr ()))"

definition RecordCount :: "'b Memory \<Rightarrow> nat" where
  "RecordCount m = length (memRecords m)"

definition Memory_EventStore :: "record_copy \<Rightarrow> 'b Memory EventStore" where
  "Memory_EventStore copy = \<lparr> esAppend = Memory_Append copy, esRecordsAfter = Memory_RecordsAfter copy \<rparr>"

definition Memory_SnapshotStore :: "('b Memory, 'b) SnapshotStore" where
  "Memory_SnapshotStore = \<lparr> ssSave = Memory_Save, ssLoad = Memory_Load \<rparr>"

section \<open>The contract of an event log\<close>

text \<open>
  \<open>log s\<close> is the sequence of records in the store, \<open>saved s\<close> its snapshot. The laws speak
  about records and snapshots that the store accepts.
\<close>

locale event_log =
  fixes es :: "'s EventStore" and ss :: "('s, 'b) SnapshotStore"
    and log :: "'s \<Rightarrow> Record list" and saved :: "'s \<Rightarrow> 'b Snapshot option"
  assumes append_ok: "esAppend es ctx n rec s = (s', Inr ()) \<Longrightarrow>
      log s' = log s @ [rec] \<and> n = length (log s) \<and> saved s' = saved s"
    and append_error: "esAppend es ctx n rec s = (s', Inl e) \<Longrightarrow> s' = s"
    and records_after: "n \<le> length (log s) \<Longrightarrow> esRecordsAfter es None n s = Inr (drop n (log s))"
    and save_ok: "ssSave ss ctx sn s = (s', Inr ()) \<Longrightarrow>
      saved s' = Some sn \<and> log s' = log s \<and> snSequence sn \<le> length (log s)"
    and save_error: "ssSave ss ctx sn s = (s', Inl e) \<Longrightarrow> s' = s"
    and load: "ssLoad ss None s = Inr (saved s)"
    and records_read: "esRecordsAfter es ctx n s = Inr rs \<Longrightarrow> n \<le> length (log s) \<Longrightarrow> rs = drop n (log s)"
    and load_read: "ssLoad ss ctx s = Inr sn' \<Longrightarrow> sn' = saved s"
begin

lemma append_prefix: "esAppend es ctx n rec s = (s', r) \<Longrightarrow> prefix (log s) (log s')"
  by (cases r) (auto dest: append_ok append_error)

lemma save_log: "ssSave ss ctx sn s = (s', r) \<Longrightarrow> log s' = log s"
  by (cases r) (auto dest: save_ok save_error)

lemma append_read:
  assumes "esAppend es ctx n rec s = (s', Inr ())" "k \<le> n"
  shows "esRecordsAfter es None k s' = Inr (drop k (log s) @ [rec])"
  using append_ok [OF assms(1)] assms(2) records_after [of k s'] by simp

end

text \<open>The in-memory store keeps the contract when its codec gives records back unchanged.\<close>

lemma copy_all:
  "(\<And>rec. copy rec = Inr rec) \<Longrightarrow>
   foldE (\<lambda>rec result. bindE (copy rec) (\<lambda>cloned. Inr (result @ [cloned]))) rs acc = Inr (acc @ rs)"
  by (induction rs arbitrary: acc) auto

lemma Memory_event_log:
  assumes copy: "\<And>rec. copy rec = Inr rec"
  shows "event_log (Memory_EventStore copy) Memory_SnapshotStore memRecords memSnapshot"
proof
  fix ctx n rec and s s' :: "'b Memory" and e sn sn' and rs
  show "esAppend (Memory_EventStore copy) ctx n rec s = (s', Inr ()) \<Longrightarrow>
      memRecords s' = memRecords s @ [rec] \<and> n = length (memRecords s) \<and> memSnapshot s' = memSnapshot s"
    using copy [of rec] by (auto simp: Memory_EventStore_def Memory_Append_def Let_def split: option.splits if_splits sum.splits)
  show "esAppend (Memory_EventStore copy) ctx n rec s = (s', Inl e) \<Longrightarrow> s' = s"
    by (auto simp: Memory_EventStore_def Memory_Append_def Let_def split: option.splits if_splits sum.splits)
  show "n \<le> length (memRecords s) \<Longrightarrow>
      esRecordsAfter (Memory_EventStore copy) None n s = Inr (drop n (memRecords s))"
    using copy_all [of copy, OF copy] by (simp add: Memory_EventStore_def Memory_RecordsAfter_def)
  show "ssSave Memory_SnapshotStore ctx sn s = (s', Inr ()) \<Longrightarrow>
      memSnapshot s' = Some sn \<and> memRecords s' = memRecords s \<and> snSequence sn \<le> length (memRecords s)"
    by (auto simp: Memory_SnapshotStore_def Memory_Save_def split: option.splits if_splits)
  show "ssSave Memory_SnapshotStore ctx sn s = (s', Inl e) \<Longrightarrow> s' = s"
    by (auto simp: Memory_SnapshotStore_def Memory_Save_def split: option.splits if_splits)
  show "ssLoad Memory_SnapshotStore None s = Inr (memSnapshot s)"
    by (simp add: Memory_SnapshotStore_def Memory_Load_def)
  show "esRecordsAfter (Memory_EventStore copy) ctx n s = Inr rs \<Longrightarrow> n \<le> length (memRecords s) \<Longrightarrow> rs = drop n (memRecords s)"
    using copy_all [of copy, OF copy] by (simp add: Memory_EventStore_def Memory_RecordsAfter_def split: option.splits)
  show "ssLoad Memory_SnapshotStore ctx s = Inr sn' \<Longrightarrow> sn' = memSnapshot s"
    by (simp add: Memory_SnapshotStore_def Memory_Load_def split: option.splits)
qed

text \<open>The store of the tests and demonstrations, with records as values.\<close>

interpretation mem: event_log "Memory_EventStore Inr" Memory_SnapshotStore memRecords memSnapshot
  by (rule Memory_event_log) simp

end
