(* ===== verification/State.thy ===== *)
theory State
  imports Matching Store
begin

text \<open>
  The state of the exchange, \<open>trading/exchange/state.go\<close>: the market, the sequence of the last
  command, book, ledger, order index, trades and the idempotency records, with cloning,
  the persisted form, compaction and validation.

  Encoding (\<open>encoding/json\<close>), the hash (\<open>crypto/sha256\<close>, \<open>encoding/hex\<close>) and the fingerprints
  of requests are the argument \<open>c\<close> of type \<open>Codec\<close>; the type \<open>'b\<close> is the type of encoded
  states. \<open>codec_ok\<close> is what the source relies on: an encoded state decodes to itself
  and the hexadecimal digest of a request is not empty.

  A loop over a map whose result does not depend on the order is a walk over its keys in order.
  One loop is different: \<open>persisted\<close> ranges over the requests, in the random order of Go, and sorts
  them by \<open>Key.String()\<close>, with a sort that is not stable; two keys can have the same string. The
  order in which the requests reach the sorted list is the field \<open>cWalk\<close> of the codec, any
  function of the state that permutes; \<open>rewalk\<close> changes it, from one call to the next.
\<close>

section \<open>Data\<close>

record requestRecord =
  rqFingerprint :: string
  rqResult :: Result

record persistedRequest =
  pqKey :: IdempotencyKey
  pqFingerprint :: string
  pqResult :: Result

record persistedState =
  psMarket :: Market
  psSequence :: nat
  psOrders :: "Order list"
  psTrades :: "Trade list"
  psRequests :: "persistedRequest list"
  psBook :: BookSnapshot
  psLedger :: LedgerSnapshot

record state =
  sMarket :: Market
  sSequence :: nat
  sBook :: Book
  sLedger :: Ledger
  sOrders :: "(OrderID, Order) fmap"
  sTrades :: "Trade list"
  sRequests :: "(IdempotencyKey, requestRecord) fmap"

type_synonym walk = "state \<Rightarrow> (IdempotencyKey \<times> requestRecord) list \<Rightarrow> (IdempotencyKey \<times> requestRecord) list"

definition permutes :: "walk \<Rightarrow> bool" where
  "permutes w \<longleftrightarrow> (\<forall>s xs. mset (w s xs) = mset xs)"

record 'b Codec =
  cWalk :: walk
  cMarshal :: "persistedState \<Rightarrow> 'b res"
  cUnmarshal :: "'b \<Rightarrow> persistedState res"
  cSum :: "'b \<Rightarrow> string"
  cFingerprintFund :: "FundRequest \<Rightarrow> string res"
  cFingerprintSubmit :: "NewOrder \<Rightarrow> string res"
  cFingerprintCancel :: "CancelOrder \<Rightarrow> string res"

definition ephemeralDemoMakerAccount :: AccountID where
  "ephemeralDemoMakerAccount = ''system:demo-maker''"

section \<open>Construction, cloning and persistence\<close>

definition newState :: "Market \<Rightarrow> state res" where
  "newState market =
     bindE (Market_Validate market) (\<lambda>_.
     bindE (Book_New market) (\<lambda>book.
       Inr \<lparr> sMarket = market, sSequence = 0, sBook = book, sLedger = Ledger_New,
             sOrders = fmempty, sTrades = [], sRequests = fmempty \<rparr>))"

text \<open>States and results are immutable values here, so the deep copies of the source are the values,
  and no two of them share memory; only the book is rebuilt, from its snapshot.\<close>

definition cloneResult :: "Result \<Rightarrow> Result" where
  "cloneResult result = result"

definition clone :: "state \<Rightarrow> state res" where
  "clone s =
     bindE (Book_FromSnapshot (sMarket s) (Book_Snapshot (sBook s))) (\<lambda>book.
       Inr \<lparr> sMarket = sMarket s, sSequence = sSequence s, sBook = book,
             sLedger = Ledger_Clone (sLedger s), sOrders = sOrders s, sTrades = sTrades s,
             sRequests = fmmap (\<lambda>r. \<lparr> rqFingerprint = rqFingerprint r,
                                      rqResult = cloneResult (rqResult r) \<rparr>) (sRequests s) \<rparr>)"

definition persisted :: "walk \<Rightarrow> state \<Rightarrow> persistedState" where
  "persisted walk s =
     \<lparr> psMarket = sMarket s, psSequence = sSequence s,
       psOrders = sort_key oID (map snd (sorted_list_of_fmap (sOrders s))),
       psTrades = sTrades s,
       psRequests = sort_key (\<lambda>r. IdempotencyKey_String (pqKey r))
                      (map (\<lambda>(key, r). \<lparr> pqKey = key, pqFingerprint = rqFingerprint r,
                                           pqResult = cloneResult (rqResult r) \<rparr>)
                         (walk s (sorted_list_of_fmap (sRequests s)))),
       psBook = Book_Snapshot (sBook s), psLedger = Ledger_Snapshot (sLedger s) \<rparr>"

definition compactEphemeralSystemHistory :: "state \<Rightarrow> state" where
  "compactEphemeralSystemHistory s =
     s\<lparr> sOrders := fmfilter (\<lambda>orderID.
            let order = fmget zeroOrder (sOrders s) orderID
            in \<not> (oAccountID order = ephemeralDemoMakerAccount \<and> \<not> IsOpen order)) (sOrders s),
        sRequests := fmfilter (\<lambda>key.
            \<not> (kAccountID key = ephemeralDemoMakerAccount \<and> kOperation key \<noteq> CommandKindFund))
          (sRequests s) \<rparr>"

definition compactForSchema :: "nat \<Rightarrow> state \<Rightarrow> state res" where
  "compactForSchema schemaVersion s =
     (let s1 = (if schemaVersion \<ge> 4 then compactEphemeralSystemHistory s else s)
      in if schemaVersion \<ge> 5
         then bindE (Compact (sLedger s1)) (\<lambda>l. Inr (s1\<lparr> sLedger := l \<rparr>))
         else Inr s1)"

section \<open>Validation\<close>

text \<open>The orders in the book are the orders of the index.\<close>

definition validate_in_book :: "state \<Rightarrow> Order \<Rightarrow> OrderID fset \<Rightarrow> OrderID fset res" where
  "validate_in_book s order openInBook =
     (if fmlookup (sOrders s) (oID order) \<noteq> Some order
      then Inl (ErrPlain ''order differs between order index and book'')
      else Inr (finsert (oID order) openInBook))"

definition validate_order :: "OrderID fset \<Rightarrow> OrderID \<times> Order \<Rightarrow> unit \<Rightarrow> unit res" where
  "validate_order openInBook ko u =
     (let (orderID, order) = ko in
      if IsOpen order \<noteq> (orderID |\<in>| openInBook) then Inl (ErrPlain ''order open but not in book'')
      else if oRemainingQuantity order < 0 \<or> oFilledQuantity order < 0 \<or>
              oRemainingQuoteBudget order < 0 \<or> oSpentQuote order < 0
      then Inl (ErrPlain ''order contains negative quantities'')
      else Inr ())"

definition expected_hold :: "Market \<Rightarrow> Order \<Rightarrow> (Asset \<times> int) res" where
  "expected_hold m order =
     (if oSide order = SideBuy
      then bindE (QuoteAmountCeil m (oPrice order) (oRemainingQuantity order))
             (\<lambda>amount. Inr (mQuoteAsset m, amount))
      else Inr (mBaseAsset m, oRemainingQuantity order))"

type_synonym heldKey = "AccountID \<times> Asset"

definition validate_hold :: "Market \<Rightarrow> OrderID \<times> Order \<Rightarrow> (heldKey, int) fmap \<Rightarrow> (heldKey, int) fmap res" where
  "validate_hold m ko expectedHeld =
     (let (orderID, order) = ko in
      if IsOpen order
      then bindE (expected_hold m order) (\<lambda>(expectedAsset, expectedAmount).
             if oHeldAsset order \<noteq> expectedAsset \<or> oHeldAmount order \<noteq> expectedAmount
             then Inl (ErrPlain ''order hold asset/amount mismatch'')
             else
               (let key = (oAccountID order, oHeldAsset order)
                in bindE (CheckedAdd (fmget 0 expectedHeld key) (oHeldAmount order))
                     (\<lambda>t. Inr (fmupd key t expectedHeld))))
      else if oHeldAmount order \<noteq> 0 \<or> oHeldAsset order \<noteq> []
      then Inl (ErrPlain ''closed order retains held funds'')
      else Inr expectedHeld)"

text \<open>\<open>strings.TrimSuffix(strings.TrimPrefix(account, "user:"), ":held")\<close> of an account with both.\<close>

definition held_prefix :: string where "held_prefix = ''user:''"
definition held_suffix :: string where "held_suffix = '':held''"

definition trim_held :: "string \<Rightarrow> AccountID" where
  "trim_held account =
     (let rest = drop (length held_prefix) account
      in if suffix held_suffix rest then take (length rest - length held_suffix) rest else rest)"

definition validate_held_balance :: "(heldKey, int) fmap \<Rightarrow> Balance \<Rightarrow> unit \<Rightarrow> unit res" where
  "validate_held_balance expectedHeld balance u =
     (if \<not> prefix held_prefix (bAccount balance) \<or> \<not> suffix held_suffix (bAccount balance) then Inr ()
      else if fmget 0 expectedHeld (trim_held (bAccount balance), bAsset balance) \<noteq> bAmount balance
      then Inl (ErrPlain ''ledger contains unmatched held balance'')
      else Inr ())"

definition validate_trade :: "Market \<Rightarrow> Trade \<Rightarrow> TradeID fset \<Rightarrow> TradeID fset res" where
  "validate_trade m trade seenTrades =
     (if tID trade = [] \<or> tMarketID trade \<noteq> mID m then Inl (ErrPlain ''trade identity is invalid'')
      else if tID trade |\<in>| seenTrades then Inl (ErrPlain ''duplicate trade'')
      else Inr (finsert (tID trade) seenTrades))"

definition validate_request :: "Market \<Rightarrow> IdempotencyKey \<times> requestRecord \<Rightarrow> unit \<Rightarrow> unit res" where
  "validate_request m kr u =
     (let (key, request) = kr in
      if IdempotencyKey_Validate key \<noteq> Inr () \<or> kMarketID key \<noteq> mID m \<or> rqFingerprint request = []
      then Inl (ErrPlain ''invalid request record'')
      else Inr ())"

definition validate :: "state \<Rightarrow> unit res" where
  "validate s =
     bindE (Market_Validate (sMarket s)) (\<lambda>_.
     bindE (Book_Validate (sBook s)) (\<lambda>_.
     bindE (Ledger_Validate (sLedger s)) (\<lambda>_.
     bindE (foldE (validate_in_book s)
              (bsBids (Book_Snapshot (sBook s)) @ bsAsks (Book_Snapshot (sBook s))) {||}) (\<lambda>openInBook.
     bindE (foldE (validate_order openInBook) (sorted_list_of_fmap (sOrders s)) ()) (\<lambda>_.
     bindE (foldE (validate_hold (sMarket s)) (sorted_list_of_fmap (sOrders s)) fmempty) (\<lambda>expectedHeld.
     bindE (foldE (\<lambda>((account, asset), expected) _.
              if Ledger_Balance (sLedger s) (UserHeld account) asset \<noteq> expected
              then Inl (ErrPlain ''held balance mismatch'') else Inr ())
              (sorted_list_of_fmap expectedHeld) ()) (\<lambda>_.
     bindE (foldE (validate_held_balance expectedHeld) (Balances (sLedger s)) ()) (\<lambda>_.
     bindE (foldE (validate_trade (sMarket s)) (sTrades s) {||}) (\<lambda>_.
       foldE (validate_request (sMarket s)) (sorted_list_of_fmap (sRequests s)) ())))))))))"

section \<open>Decoding\<close>

definition restore_order :: "Order \<Rightarrow> (OrderID, Order) fmap \<Rightarrow> (OrderID, Order) fmap res" where
  "restore_order order orders =
     (if oID order = [] then Inl (ErrPlain ''restore order: empty order id'')
      else if oID order |\<in>| fmdom orders then Inl (ErrPlain ''restore order: duplicate order id'')
      else Inr (fmupd (oID order) order orders))"

definition restore_request ::
  "persistedRequest \<Rightarrow> (IdempotencyKey, requestRecord) fmap \<Rightarrow> (IdempotencyKey, requestRecord) fmap res" where
  "restore_request request requests =
     (if IdempotencyKey_Validate (pqKey request) \<noteq> Inr () \<or> pqFingerprint request = []
      then Inl (ErrPlain ''restore request: valid key and fingerprint are required'')
      else if pqKey request |\<in>| fmdom requests
      then Inl (ErrPlain ''restore request: duplicate request key'')
      else Inr (fmupd (pqKey request)
             \<lparr> rqFingerprint = pqFingerprint request, rqResult = cloneResult (pqResult request) \<rparr> requests))"

definition stateFromPersisted :: "persistedState \<Rightarrow> state res" where
  "stateFromPersisted p =
     bindE (Market_Validate (psMarket p)) (\<lambda>_.
     bindE (Book_FromSnapshot (psMarket p) (psBook p)) (\<lambda>book.
     bindE (Ledger_FromSnapshot (psLedger p)) (\<lambda>restoredLedger.
     bindE (foldE restore_order (psOrders p) fmempty) (\<lambda>orders.
     bindE (foldE restore_request (psRequests p) fmempty) (\<lambda>requests.
       let restored = \<lparr> sMarket = psMarket p, sSequence = psSequence p, sBook = book,
                        sLedger = restoredLedger, sOrders = orders, sTrades = psTrades p,
                        sRequests = requests \<rparr>
       in bindE (validate restored) (\<lambda>_. Inr restored))))))"

definition marshal :: "'b Codec \<Rightarrow> state \<Rightarrow> 'b res" where
  "marshal c s = cMarshal c (persisted (cWalk c) s)"

definition unmarshalState :: "'b Codec \<Rightarrow> 'b \<Rightarrow> state res" where
  "unmarshalState c data = bindE (cUnmarshal c data) stateFromPersisted"

definition state_hash :: "'b Codec \<Rightarrow> state \<Rightarrow> string res" where
  "state_hash c s = bindE (marshal c s) (\<lambda>data. Inr (cSum c data))"

definition rewalk :: "walk \<Rightarrow> 'b Codec \<Rightarrow> 'b Codec" where
  "rewalk w c = c\<lparr> cWalk := w \<rparr>"

definition codec_ok :: "'b Codec \<Rightarrow> bool" where
  "codec_ok c \<longleftrightarrow>
     permutes (cWalk c) \<and>
     (\<forall>p. \<exists>data. cMarshal c p = Inr data \<and> cUnmarshal c data = Inr p) \<and>
     (\<forall>r. cFingerprintFund c r \<noteq> Inr []) \<and> (\<forall>r. cFingerprintSubmit c r \<noteq> Inr []) \<and>
     (\<forall>r. cFingerprintCancel c r \<noteq> Inr [])"

end
