(* ===== verification/Orders.thy ===== *)
theory Orders
  imports State
begin

text \<open>
  The commands of the exchange, \<open>trading/exchange/orders.go\<close> and \<open>applyFund\<close>, \<open>apply\<close> of
  \<open>exchange.go\<close>: funding, submitting and cancelling orders, with reservation of funds,
  settlement of every fill in the ledger, fees, release of what is not needed any more, and
  the events of the result.

  A command works on a state that is thrown away when it returns an error, so an error carries
  no state. \<open>settle_step\<close> is the body of the loop over the fills in \<open>applySubmit\<close> and
  \<open>submit_finish\<close> the code behind it; \<open>SubmitLoop\<close> holds the variables of the loop.
\<close>

section \<open>Identifiers and events\<close>

definition seq20 :: "nat \<Rightarrow> string" where "seq20 n = pad0 20 (show_nat n)"
definition idx04 :: "nat \<Rightarrow> string" where "idx04 n = pad0 4 (show_nat n)"

definition order_id :: "nat \<Rightarrow> OrderID" where "order_id n = ''O-'' @ seq20 n"
definition trade_id :: "nat \<Rightarrow> nat \<Rightarrow> TradeID" where
  "trade_id n i = ''T-'' @ seq20 n @ ''-'' @ idx04 i"

definition fund_tx :: "nat \<Rightarrow> string" where "fund_tx n = ''fund:'' @ seq20 n"
definition hold_tx :: "nat \<Rightarrow> string" where "hold_tx n = ''hold:'' @ seq20 n"
definition release_tx :: "nat \<Rightarrow> string" where "release_tx n = ''release:'' @ seq20 n"
definition cancel_tx :: "nat \<Rightarrow> string" where "cancel_tx n = ''cancel-release:'' @ seq20 n"
definition trade_tx :: "nat \<Rightarrow> nat \<Rightarrow> string" where "trade_tx n i = ''trade:'' @ trade_id n i"
definition maker_tx :: "nat \<Rightarrow> nat \<Rightarrow> string" where
  "maker_tx n i = ''maker-release:'' @ seq20 n @ '':'' @ idx04 i"

definition appendEvent :: "Event list \<Rightarrow> Event \<Rightarrow> Event list" where
  "appendEvent events event = events @ [event\<lparr> evIndex := length events + 1 \<rparr>]"

definition remainingQuoteBudgetFor :: "Order \<Rightarrow> int option" where
  "remainingQuoteBudgetFor order =
     (if oType order \<noteq> OrderTypeMarket \<or> oSide order \<noteq> SideBuy then None
      else Some (oRemainingQuoteBudget order))"

section \<open>Funding\<close>

definition applyFund :: "Command \<Rightarrow> state \<Rightarrow> (state \<times> Result) res" where
  "applyFund command s =
     (case cmdFund command of
        None \<Rightarrow> Inl (ErrPlain ''fund command payload is required'')
      | Some request \<Rightarrow>
          bindE (FundRequest_Validate request (sMarket s)) (\<lambda>_.
          bindE (FundVirtual (sLedger s) (fund_tx (cmdSequence command))
                   (''virtual-funding:'' @ fRequestID request) (fAccountID request)
                   (fAsset request) (fAmount request)) (\<lambda>l.
            let event = zeroEvent\<lparr> evSequence := cmdSequence command, evIndex := 1,
                          evType := EventAccountFunded, evAccountID := fAccountID request,
                          evAsset := fAsset request, evAmount := fAmount request \<rparr>
            in Inr (s\<lparr> sLedger := l \<rparr>,
                    \<lparr> rSequence = cmdSequence command, rOrderID = [], rStatus = OrderStatusOther 0,
                      rEvents = [event] \<rparr>))))"

section \<open>Parts of a submission\<close>

definition rejectOrder :: "nat \<Rightarrow> Order \<Rightarrow> string \<Rightarrow> state \<Rightarrow> state \<times> Result" where
  "rejectOrder sequence order reason s =
     (let order' = order\<lparr> oStatus := OrderStatusRejected, oRejectReason := reason,
                          oLastSequence := sequence, oHeldAsset := [], oHeldAmount := 0 \<rparr>;
          event = zeroEvent\<lparr> evSequence := sequence, evIndex := 1, evType := EventOrderRejected,
                    evAccountID := oAccountID order', evOrderID := oID order',
                    evClientOrderID := oClientOrderID order', evStatus := oStatus order',
                    evSide := oSide order', evPrice := oPrice order',
                    evQuantity := oOriginalQuantity order',
                    evQuoteAmount := oOriginalQuoteBudget order',
                    evRemainingQuoteBudget := remainingQuoteBudgetFor order', evReason := reason \<rparr>
      in (s\<lparr> sOrders := fmupd (oID order') order' (sOrders s) \<rparr>,
          \<lparr> rSequence = sequence, rOrderID = oID order', rStatus = oStatus order', rEvents = [event] \<rparr>))"

definition reserveFor :: "Market \<Rightarrow> Order \<Rightarrow> (Asset \<times> int) res" where
  "reserveFor m order =
     (if oSide order = SideSell then Inr (mBaseAsset m, oRemainingQuantity order)
      else if oType order = OrderTypeMarket then Inr (mQuoteAsset m, oRemainingQuoteBudget order)
      else bindE (QuoteAmountCeil m (oPrice order) (oRemainingQuantity order))
             (\<lambda>amount. Inr (mQuoteAsset m, amount)))"

definition consumeOrderHold :: "Order \<Rightarrow> RawFill \<Rightarrow> Order res" where
  "consumeOrderHold order fill =
     (let consumed = (if oSide order = SideBuy then rfQuoteAmount fill else rfQuantity fill)
      in if consumed < 0 \<or> oHeldAmount order < consumed
         then Inl (ErrPlain ''order hold became negative'')
         else Inr (order\<lparr> oHeldAmount := sub64 (oHeldAmount order) consumed \<rparr>))"

definition releaseExcessBuyHold :: "nat \<Rightarrow> nat \<Rightarrow> Order \<Rightarrow> state \<Rightarrow> (state \<times> Order) res" where
  "releaseExcessBuyHold sequence fillIndex order s =
     (if oSide order \<noteq> SideBuy then Inr (s, order)
      else
        bindE (if oRemainingQuantity order > 0
               then QuoteAmountCeil (sMarket s) (oPrice order) (oRemainingQuantity order)
               else Inr 0) (\<lambda>desired.
          if oHeldAmount order < desired then Inl (ErrPlain ''maker order hold below required'')
          else
            (let release = sub64 (oHeldAmount order) desired in
             if release = 0 then Inr (s, order)
             else
               bindE (Release (sLedger s) (maker_tx sequence fillIndex)
                        (''maker-rounding-release:'' @ oID order) (oAccountID order)
                        (mQuoteAsset (sMarket s)) release) (\<lambda>l.
                 Inr (s\<lparr> sLedger := l \<rparr>, order\<lparr> oHeldAmount := desired \<rparr>)))))"

definition settle_entries :: "Market \<Rightarrow> Order \<Rightarrow> Order \<Rightarrow> int \<Rightarrow> int \<Rightarrow> RawFill \<Rightarrow> Entry list" where
  "settle_entries m buyer seller buyerFeeAmount sellerFeeAmount fill =
     [\<lparr> eAccount = UserHeld (oAccountID buyer), eAsset = mQuoteAsset m,
        eAmount = sub64 0 (rfQuoteAmount fill) \<rparr>,
      \<lparr> eAccount = UserAvailable (oAccountID seller), eAsset = mQuoteAsset m,
        eAmount = sub64 (rfQuoteAmount fill) sellerFeeAmount \<rparr>,
      \<lparr> eAccount = UserHeld (oAccountID seller), eAsset = mBaseAsset m,
        eAmount = sub64 0 (rfQuantity fill) \<rparr>,
      \<lparr> eAccount = UserAvailable (oAccountID buyer), eAsset = mBaseAsset m,
        eAmount = sub64 (rfQuantity fill) buyerFeeAmount \<rparr>] @
     (if sellerFeeAmount > 0
      then [\<lparr> eAccount = PlatformFee (mQuoteAsset m), eAsset = mQuoteAsset m,
              eAmount = sellerFeeAmount \<rparr>] else []) @
     (if buyerFeeAmount > 0
      then [\<lparr> eAccount = PlatformFee (mBaseAsset m), eAsset = mBaseAsset m,
              eAmount = buyerFeeAmount \<rparr>] else [])"

definition settleFill :: "nat \<Rightarrow> nat \<Rightarrow> Order \<Rightarrow> RawFill \<Rightarrow> state \<Rightarrow> (state \<times> Trade) res" where
  "settleFill sequence fillIndex taker fill s =
     (case fmlookup (sOrders s) (rfMakerOrderID fill) of
        None \<Rightarrow> Inl (ErrPlain ''maker order is absent from order index'')
      | Some maker \<Rightarrow>
          (let m = sMarket s;
               (buyer, seller, buyerRole, sellerRole, buyerRateBPS, sellerRateBPS) =
                 (if oSide maker = SideBuy
                  then (maker, taker, LiquidityRoleMaker, LiquidityRoleTaker, mMakerFeeBPS m, mTakerFeeBPS m)
                  else (taker, maker, LiquidityRoleTaker, LiquidityRoleMaker, mTakerFeeBPS m, mMakerFeeBPS m))
           in bindE (FeeAmount (rfQuantity fill) buyerRateBPS) (\<lambda>buyerFeeAmount.
              bindE (FeeAmount (rfQuoteAmount fill) sellerRateBPS) (\<lambda>sellerFeeAmount.
                if sub64 (rfQuantity fill) buyerFeeAmount \<le> 0 \<or>
                   sub64 (rfQuoteAmount fill) sellerFeeAmount \<le> 0
                then Inl (ErrPlain ''fees consume the entire trade settlement'')
                else
                  bindE (Post (sLedger s)
                           \<lparr> txID = trade_tx sequence fillIndex,
                             txReference = ''matched-trade:'' @ trade_id sequence fillIndex,
                             txEntries = settle_entries m buyer seller buyerFeeAmount sellerFeeAmount fill \<rparr>)
                    (\<lambda>l. Inr (s\<lparr> sLedger := l \<rparr>,
                       \<lparr> tID = trade_id sequence fillIndex, tMarketID = mID m,
                         tPrice = rfPrice fill, tQuantity = rfQuantity fill,
                         tQuoteAmount = rfQuoteAmount fill,
                         tMakerOrderID = oID maker, tTakerOrderID = oID taker,
                         tMakerAccountID = oAccountID maker, tTakerAccountID = oAccountID taker,
                         tBuyerAccountID = oAccountID buyer, tSellerAccountID = oAccountID seller,
                         tBuyerFee = \<lparr> feeAccountID = oAccountID buyer, feeAsset = mBaseAsset m,
                                       feeAmount = buyerFeeAmount, feeRateBPS = buyerRateBPS,
                                       feeRole = buyerRole \<rparr>,
                         tSellerFee = \<lparr> feeAccountID = oAccountID seller, feeAsset = mQuoteAsset m,
                                        feeAmount = sellerFeeAmount, feeRateBPS = sellerRateBPS,
                                        feeRole = sellerRole \<rparr> \<rparr>))))))"

section \<open>The loop over the fills\<close>

record SubmitLoop =
  slState :: state
  slOrder :: Order
  slEvents :: "Event list"
  slRemainingQuantity :: int
  slRemainingQuoteBudget :: int

text \<open>The maker after a fill: amounts, hold and place in the book.\<close>

definition settle_maker :: "nat \<Rightarrow> nat \<Rightarrow> RawFill \<Rightarrow> state \<Rightarrow> (state \<times> Order) res" where
  "settle_maker sequence fillIndex fill s =
     (let maker0 = fmget zeroOrder (sOrders s) (rfMakerOrderID fill)
      in bindE (CheckedAdd (oFilledQuantity maker0) (rfQuantity fill)) (\<lambda>filled.
         bindE (CheckedAdd (oSpentQuote maker0) (rfQuoteAmount fill)) (\<lambda>spent.
         bindE (consumeOrderHold
                  (maker0\<lparr> oRemainingQuantity := rfMakerRemaining fill, oFilledQuantity := filled,
                           oSpentQuote := spent, oLastSequence := sequence,
                           oStatus := (if rfMakerRemaining fill = 0 then OrderStatusFilled
                                       else OrderStatusPartiallyFilled) \<rparr>) fill) (\<lambda>maker1.
         bindE (releaseExcessBuyHold sequence fillIndex maker1 s) (\<lambda>(s1, maker2).
           if oStatus maker2 = OrderStatusFilled
           then if oHeldAmount maker2 \<noteq> 0
                then Inl (ErrPlain ''filled maker order retains held amount'')
                else Inr (s1, maker2\<lparr> oHeldAsset := [] \<rparr>)
           else bindE (Book_Update (sBook s1) maker2) (\<lambda>book.
                  Inr (s1\<lparr> sBook := book \<rparr>, maker2)))))))"

text \<open>What is left of the taker behind this fill, for the event of the trade.\<close>

definition event_remaining :: "Order \<Rightarrow> RawFill \<Rightarrow> int \<Rightarrow> int \<Rightarrow> (int \<times> int \<times> int option) res" where
  "event_remaining order fill remainingQuantity remainingQuoteBudget =
     (if market_buy order
      then if remainingQuoteBudget < rfQuoteAmount fill
           then Inl (ErrPlain ''event remaining quote budget became negative'')
           else (let budget = sub64 remainingQuoteBudget (rfQuoteAmount fill)
                 in Inr (remainingQuantity, budget, Some budget))
      else if remainingQuantity < rfQuantity fill
      then Inl (ErrPlain ''event remaining quantity became negative'')
      else Inr (sub64 remainingQuantity (rfQuantity fill), remainingQuoteBudget, None))"

definition settle_step :: "nat \<Rightarrow> nat \<Rightarrow> RawFill \<Rightarrow> SubmitLoop \<Rightarrow> SubmitLoop res" where
  "settle_step sequence fillIndex fill l =
     bindE (settleFill sequence fillIndex (slOrder l) fill (slState l)) (\<lambda>(s1, trade).
     bindE (consumeOrderHold (slOrder l) fill) (\<lambda>order.
     bindE (settle_maker sequence fillIndex fill s1) (\<lambda>(s2, maker).
       let s3 = s2\<lparr> sOrders := fmupd (oID maker) maker (sOrders s2), sTrades := sTrades s2 @ [trade] \<rparr>
       in bindE (event_remaining order fill (slRemainingQuantity l) (slRemainingQuoteBudget l))
            (\<lambda>(remainingQuantity, remainingQuoteBudget, eventQuoteBudget).
              let events = appendEvent (slEvents l)
                    (zeroEvent\<lparr> evSequence := sequence, evType := EventTradeExecuted,
                       evOrderID := oID order, evStatus := OrderStatusPartiallyFilled,
                       evPrice := rfPrice fill, evQuantity := rfQuantity fill,
                       evRemaining := remainingQuantity, evRemainingQuoteBudget := eventQuoteBudget,
                       evQuoteAmount := rfQuoteAmount fill, evTrade := Some trade \<rparr>);
                  events' = (if oStatus maker = OrderStatusFilled
                     then appendEvent events
                       (zeroEvent\<lparr> evSequence := sequence, evType := EventOrderFilled,
                          evAccountID := oAccountID maker, evOrderID := oID maker,
                          evStatus := oStatus maker, evSide := oSide maker, evPrice := oPrice maker,
                          evQuantity := oOriginalQuantity maker \<rparr>)
                     else events)
              in Inr \<lparr> slState = s3, slOrder = order, slEvents = events',
                       slRemainingQuantity = remainingQuantity,
                       slRemainingQuoteBudget = remainingQuoteBudget \<rparr>))))"

fun settle_fills :: "nat \<Rightarrow> nat \<Rightarrow> RawFill list \<Rightarrow> SubmitLoop \<Rightarrow> SubmitLoop res" where
  "settle_fills sequence fillIndex [] l = Inr l"
| "settle_fills sequence fillIndex (fill # fills) l =
     bindE (settle_step sequence fillIndex fill l) (settle_fills sequence (fillIndex + 1) fills)"

section \<open>Submitting\<close>

definition new_order :: "Market \<Rightarrow> nat \<Rightarrow> NewOrder \<Rightarrow> Order" where
  "new_order m sequence request =
     zeroOrder\<lparr> oID := order_id sequence, oClientOrderID := nClientOrderID request,
       oAccountID := nAccountID request, oMarketID := mID m, oSide := nSide request,
       oType := nType request, oTimeInForce := nTimeInForce request, oPostOnly := nPostOnly request,
       oPrice := nPrice request, oOriginalQuantity := nQuantity request,
       oRemainingQuantity := nQuantity request, oOriginalQuoteBudget := nQuoteBudget request,
       oRemainingQuoteBudget := nQuoteBudget request, oStatus := OrderStatusReceived,
       oAcceptedSequence := sequence, oLastSequence := sequence \<rparr>"

definition accepted_event :: "nat \<Rightarrow> Order \<Rightarrow> Event" where
  "accepted_event sequence order =
     zeroEvent\<lparr> evSequence := sequence, evIndex := 1, evType := EventOrderAccepted,
       evAccountID := oAccountID order, evOrderID := oID order,
       evClientOrderID := oClientOrderID order, evStatus := OrderStatusReceived,
       evSide := oSide order, evPrice := oPrice order, evQuantity := oOriginalQuantity order,
       evQuoteAmount := oOriginalQuoteBudget order,
       evRemainingQuoteBudget := remainingQuoteBudgetFor order \<rparr>"

definition shouldRest :: "Order \<Rightarrow> StopReason \<Rightarrow> bool" where
  "shouldRest order stop \<longleftrightarrow>
     oType order = OrderTypeLimit \<and> oTimeInForce order = TimeInForceGTC \<and>
     oRemainingQuantity order > 0 \<and> stop \<noteq> StopSelfTrade"

text \<open>The \<open>switch\<close> that decides the final status and the hold that must stay.\<close>

definition final_status :: "Market \<Rightarrow> Order \<Rightarrow> MatchResult \<Rightarrow> (OrderStatus \<times> int) res" where
  "final_status m order r =
     (if shouldRest order (mrStopReason r)
      then
        (let status = (if oFilledQuantity order > 0 then OrderStatusPartiallyFilled else OrderStatusOpen)
         in if oSide order = SideBuy
            then bindE (QuoteAmountCeil m (oPrice order) (oRemainingQuantity order))
                   (\<lambda>desired. Inr (status, desired))
            else Inr (status, oRemainingQuantity order))
      else if market_buy order
      then Inr (if mrFills r \<noteq> [] \<and> mrStopReason r = StopBudgetExhausted
                then OrderStatusFilled else OrderStatusCanceled, 0)
      else if oRemainingQuantity order = 0 then Inr (OrderStatusFilled, 0)
      else Inr (OrderStatusCanceled, 0))"

definition rested_event :: "nat \<Rightarrow> Order \<Rightarrow> Event" where
  "rested_event sequence order =
     zeroEvent\<lparr> evSequence := sequence, evType := EventOrderRested, evAccountID := oAccountID order,
       evOrderID := oID order, evClientOrderID := oClientOrderID order, evStatus := oStatus order,
       evSide := oSide order, evPrice := oPrice order, evQuantity := oOriginalQuantity order,
       evRemaining := oRemainingQuantity order \<rparr>"

definition filled_event :: "nat \<Rightarrow> Order \<Rightarrow> Event" where
  "filled_event sequence order =
     zeroEvent\<lparr> evSequence := sequence, evType := EventOrderFilled, evAccountID := oAccountID order,
       evOrderID := oID order, evClientOrderID := oClientOrderID order, evStatus := oStatus order,
       evSide := oSide order, evPrice := oPrice order, evQuantity := oFilledQuantity order,
       evQuoteAmount := oSpentQuote order,
       evRemainingQuoteBudget := remainingQuoteBudgetFor order \<rparr>"

definition canceled_event :: "nat \<Rightarrow> Order \<Rightarrow> StopReason \<Rightarrow> Event" where
  "canceled_event sequence order stop =
     zeroEvent\<lparr> evSequence := sequence, evType := EventOrderCanceled, evAccountID := oAccountID order,
       evOrderID := oID order, evClientOrderID := oClientOrderID order, evStatus := oStatus order,
       evSide := oSide order, evPrice := oPrice order, evQuantity := oFilledQuantity order,
       evRemaining := oRemainingQuantity order, evQuoteAmount := oSpentQuote order,
       evRemainingQuoteBudget := remainingQuoteBudgetFor order,
       evReason := (if stop = StopSelfTrade then ''self_trade_prevented'' else ''unfilled_remainder'') \<rparr>"

definition self_trade_event :: "nat \<Rightarrow> Order \<Rightarrow> Event" where
  "self_trade_event sequence order =
     zeroEvent\<lparr> evSequence := sequence, evType := EventSelfTradePrevented,
       evAccountID := oAccountID order, evOrderID := oID order, evStatus := OrderStatusCanceled,
       evReason := ''cancel_taker'' \<rparr>"

text \<open>Release of the part of the hold that the final order does not need.\<close>

definition submit_release :: "nat \<Rightarrow> Asset \<Rightarrow> int \<Rightarrow> Order \<Rightarrow> state \<Rightarrow> (state \<times> Order) res" where
  "submit_release sequence reserveAsset desiredHold order s =
     (if oHeldAmount order < desiredHold then Inl (ErrPlain ''order current hold below required'')
      else
        (let releaseAmount = sub64 (oHeldAmount order) desiredHold
         in bindE
              (if releaseAmount > 0
               then bindE (Release (sLedger s) (release_tx sequence) (''order-release:'' @ oID order)
                             (oAccountID order) reserveAsset releaseAmount) (\<lambda>l.
                      Inr (s\<lparr> sLedger := l \<rparr>,
                           order\<lparr> oHeldAmount := sub64 (oHeldAmount order) releaseAmount \<rparr>))
               else Inr (s, order)) (\<lambda>(s1, order1).
            Inr (s1, if oHeldAmount order1 = 0 then order1\<lparr> oHeldAsset := [] \<rparr> else order1))))"

text \<open>The remainder rests in the book, or the order is done; the last event says which.\<close>

definition submit_outcome ::
  "nat \<Rightarrow> bool \<Rightarrow> StopReason \<Rightarrow> Event list \<Rightarrow> Order \<Rightarrow> state \<Rightarrow> (state \<times> Event list) res" where
  "submit_outcome sequence rest stop events order s =
     (if rest
      then bindE (Book_Add (sBook s) order) (\<lambda>book.
             Inr (s\<lparr> sBook := book \<rparr>, appendEvent events (rested_event sequence order)))
      else if oStatus order = OrderStatusFilled
      then Inr (s, appendEvent events (filled_event sequence order))
      else Inr (s, appendEvent events (canceled_event sequence order stop)))"

definition submit_finish :: "nat \<Rightarrow> Asset \<Rightarrow> MatchResult \<Rightarrow> SubmitLoop \<Rightarrow> (state \<times> Result) res" where
  "submit_finish sequence reserveAsset r l =
     (let order = slOrder l;
          stop = mrStopReason r;
          events1 = (if stop = StopSelfTrade
                     then appendEvent (slEvents l) (self_trade_event sequence order) else slEvents l)
      in bindE (final_status (sMarket (slState l)) order r) (\<lambda>(status, desiredHold).
         bindE (submit_release sequence reserveAsset desiredHold (order\<lparr> oStatus := status \<rparr>) (slState l))
           (\<lambda>(s1, order1).
         bindE (submit_outcome sequence (shouldRest order stop) stop events1 order1 s1) (\<lambda>(s2, events).
           Inr (s2\<lparr> sOrders := fmupd (oID order1) order1 (sOrders s2) \<rparr>,
                \<lparr> rSequence = sequence, rOrderID = oID order1, rStatus = oStatus order1,
                  rEvents = events \<rparr>)))))"

text \<open>Matching and settlement of an order whose funds are on hold.\<close>

definition submit_match :: "nat \<Rightarrow> NewOrder \<Rightarrow> Asset \<Rightarrow> Order \<Rightarrow> state \<Rightarrow> (state \<times> Result) res" where
  "submit_match sequence request reserveAsset order s =
     bindE (Match (sBook s) order) (\<lambda>(book, order1, r).
     bindE (settle_fills sequence 1 (mrFills r)
              \<lparr> slState = s\<lparr> sBook := book \<rparr>, slOrder = order1,
                slEvents = [accepted_event sequence order],
                slRemainingQuantity = nQuantity request,
                slRemainingQuoteBudget = nQuoteBudget request \<rparr>) (\<lambda>l.
       submit_finish sequence reserveAsset r l))"

definition submit_reserve :: "nat \<Rightarrow> NewOrder \<Rightarrow> Order \<Rightarrow> state \<Rightarrow> (state \<times> Result) res" where
  "submit_reserve sequence request order s =
     bindE (reserveFor (sMarket s) order) (\<lambda>(reserveAsset, reserveAmount).
       let order1 = order\<lparr> oHeldAsset := reserveAsset, oHeldAmount := reserveAmount \<rparr>
       in case Hold (sLedger s) (hold_tx sequence) (''order-hold:'' @ oID order1) (oAccountID order1)
                 reserveAsset reserveAmount of
            Inl err \<Rightarrow>
              if errors_is err ErrInsufficientBalance
              then Inr (rejectOrder sequence (order1\<lparr> oHeldAsset := [], oHeldAmount := 0 \<rparr>)
                          ''insufficient_balance'' s)
              else Inl err
          | Inr l \<Rightarrow> submit_match sequence request reserveAsset order1 (s\<lparr> sLedger := l \<rparr>))"

definition applySubmit :: "Command \<Rightarrow> state \<Rightarrow> (state \<times> Result) res" where
  "applySubmit command s =
     (case cmdSubmit command of
        None \<Rightarrow> Inl (ErrPlain ''submit command payload is required'')
      | Some request \<Rightarrow>
          bindE (NewOrder_Validate request (sMarket s)) (\<lambda>_.
            let sequence = cmdSequence command;
                order = new_order (sMarket s) sequence request
            in if nPostOnly request \<and> WouldCross (sBook s) (nSide request) (nPrice request)
               then Inr (rejectOrder sequence order ''post_only_would_cross'' s)
               else if nTimeInForce request = TimeInForceFOK
               then bindE (CanFillFOK (sBook s) (nAccountID request) (nSide request)
                             (nPrice request) (nQuantity request)) (\<lambda>fillable.
                      if \<not> fillable then Inr (rejectOrder sequence order ''fok_not_fillable'' s)
                      else submit_reserve sequence request order s)
               else submit_reserve sequence request order s))"

section \<open>Cancelling\<close>

definition cancelRejected :: "nat \<Rightarrow> CancelOrder \<Rightarrow> string \<Rightarrow> Result" where
  "cancelRejected sequence request reason =
     \<lparr> rSequence = sequence, rOrderID = cOrderID request, rStatus = OrderStatusRejected,
       rEvents = [zeroEvent\<lparr> evSequence := sequence, evIndex := 1, evType := EventCancelRejected,
                    evAccountID := cAccountID request, evOrderID := cOrderID request,
                    evStatus := OrderStatusRejected, evReason := reason \<rparr>] \<rparr>"

definition applyCancel :: "Command \<Rightarrow> state \<Rightarrow> (state \<times> Result) res" where
  "applyCancel command s =
     (case cmdCancel command of
        None \<Rightarrow> Inl (ErrPlain ''cancel command payload is required'')
      | Some request \<Rightarrow>
          bindE (CancelOrder_Validate request) (\<lambda>_.
            let sequence = cmdSequence command in
            case fmlookup (sOrders s) (cOrderID request) of
              None \<Rightarrow> Inr (s, cancelRejected sequence request ''order not found'')
            | Some order \<Rightarrow>
                if oAccountID order \<noteq> cAccountID request
                then Inr (s, cancelRejected sequence request ''order belongs to another account'')
                else if \<not> IsOpen order
                then Inr (s, cancelRejected sequence request ''order is not open'')
                else
                  bindE (Book_Cancel (sBook s) (oID order)) (\<lambda>(book, _).
                    let releaseAsset = (if oSide order = SideBuy then mQuoteAsset (sMarket s)
                                        else mBaseAsset (sMarket s));
                        releaseAmount = oHeldAmount order
                    in if releaseAmount \<le> 0 \<or> oHeldAsset order \<noteq> releaseAsset
                       then Inl (ErrPlain ''order has invalid held funds'')
                       else
                         bindE (Release (sLedger s) (cancel_tx sequence) (''order-cancel:'' @ oID order)
                                  (oAccountID order) releaseAsset releaseAmount) (\<lambda>l.
                           let order' = order\<lparr> oStatus := OrderStatusCanceled, oLastSequence := sequence,
                                               oHeldAsset := [], oHeldAmount := 0 \<rparr>;
                               event = zeroEvent\<lparr> evSequence := sequence, evIndex := 1,
                                 evType := EventOrderCanceled, evAccountID := oAccountID order',
                                 evOrderID := oID order', evClientOrderID := oClientOrderID order',
                                 evStatus := oStatus order', evSide := oSide order',
                                 evPrice := oPrice order', evQuantity := oFilledQuantity order',
                                 evRemaining := oRemainingQuantity order',
                                 evQuoteAmount := oSpentQuote order', evReason := ''user_requested'' \<rparr>
                           in Inr (s\<lparr> sBook := book, sLedger := l,
                                      sOrders := fmupd (oID order') order' (sOrders s) \<rparr>,
                                   \<lparr> rSequence = sequence, rOrderID = oID order',
                                     rStatus = oStatus order', rEvents = [event] \<rparr>)))))"

definition apply_command :: "Command \<Rightarrow> state \<Rightarrow> (state \<times> Result) res" where
  "apply_command command s =
     (case cmdKind command of
        CommandKindFund \<Rightarrow> applyFund command s
      | CommandKindSubmitOrder \<Rightarrow> applySubmit command s
      | CommandKindCancelOrder \<Rightarrow> applyCancel command s
      | CommandKindOther _ \<Rightarrow> Inl (ErrPlain ''unsupported command kind''))"

end
