(* ===== verification/Exchange.thy ===== *)
theory Exchange
  imports Orders
begin

text \<open>
  The exchange, \<open>trading/exchange/exchange.go\<close>: the idempotent, sequenced and persisted execution
  of commands, snapshots, recovery by replay, and the queries.

  The exchange is the pair of the store's state and the in-memory state; every operation
  returns the pair after it together with its result or error. The mutex of the source makes an
  operation atomic. The event store, the snapshot store and the codec are the argument \<open>env\<close>.
  \<open>ctx\<close> is the result of \<open>ctx.Err()\<close> when the operation asks for it; the context may end later in
  the call, \<open>enLate\<close> is its error when the event store is called. \<open>call_env\<close> sets what differs from
  call to call: this error and the order in which the requests are walked.
\<close>

section \<open>Data\<close>

record ('s, 'b) Env =
  enEventLog :: "'s EventStore"
  enSnapshots :: "('s, 'b) SnapshotStore"
  enCodec :: "'b Codec"
  enLate :: ctx

definition call_env :: "walk \<Rightarrow> ctx \<Rightarrow> ('s, 'b) Env \<Rightarrow> ('s, 'b) Env" where
  "call_env w late env = env\<lparr> enCodec := rewalk w (enCodec env), enLate := late \<rparr>"

type_synonym 's exchange = "'s \<times> state"

record BalanceView =
  bvAvailable :: int
  bvHeld :: int

record AssetBalanceView =
  abAsset :: Asset
  abAvailable :: int
  abHeld :: int

record PriceLevelView =
  plPrice :: int
  plQuantity :: int
  plOrderCount :: int

record OrderBookView =
  obMarketID :: MarketID
  obSequence :: nat
  obBids :: "PriceLevelView list"
  obAsks :: "PriceLevelView list"

text \<open>A missing store is Go's \<open>nil\<close>.\<close>

definition Exchange_New ::
  "Market \<Rightarrow> 's EventStore option \<Rightarrow> ('s, 'b) SnapshotStore option \<Rightarrow> 's \<Rightarrow> 's exchange res" where
  "Exchange_New market eventLog snapshots st =
     (if eventLog = None \<or> snapshots = None then Inl ErrMissingStore
      else bindE (newState market) (\<lambda>initial. Inr (st, initial)))"

section \<open>Commands and their records\<close>

definition validateCommandIdentity :: "Command \<Rightarrow> unit res" where
  "validateCommandIdentity command =
     bindE (IdempotencyKey_Validate (cmdRequestKey command)) (\<lambda>_.
       if cmdRequestID command = [] \<or> kRequestID (cmdRequestKey command) \<noteq> cmdRequestID command \<or>
          kOperation (cmdRequestKey command) \<noteq> cmdKind command
       then Inl (ErrPlain ''request identity does not match command'')
       else
         bindE
           (case cmdKind command of
              CommandKindFund \<Rightarrow>
                (case cmdFund command of
                   None \<Rightarrow> Inl (ErrPlain ''fund payload does not match command'')
                 | Some f \<Rightarrow>
                     if cmdSubmit command \<noteq> None \<or> cmdCancel command \<noteq> None \<or>
                        fRequestID f \<noteq> cmdRequestID command
                     then Inl (ErrPlain ''fund payload does not match command'')
                     else Inr (fAccountID f))
            | CommandKindSubmitOrder \<Rightarrow>
                (case cmdSubmit command of
                   None \<Rightarrow> Inl (ErrPlain ''submit payload does not match command'')
                 | Some n \<Rightarrow>
                     if cmdFund command \<noteq> None \<or> cmdCancel command \<noteq> None \<or>
                        nClientOrderID n \<noteq> cmdRequestID command
                     then Inl (ErrPlain ''submit payload does not match command'')
                     else Inr (nAccountID n))
            | CommandKindCancelOrder \<Rightarrow>
                (case cmdCancel command of
                   None \<Rightarrow> Inl (ErrPlain ''cancel payload does not match command'')
                 | Some r \<Rightarrow>
                     if cmdFund command \<noteq> None \<or> cmdSubmit command \<noteq> None \<or>
                        cRequestID r \<noteq> cmdRequestID command
                     then Inl (ErrPlain ''cancel payload does not match command'')
                     else Inr (cAccountID r))
            | CommandKindOther _ \<Rightarrow> Inl (ErrPlain ''unsupported command kind''))
           (\<lambda>accountID.
              if accountID \<noteq> kAccountID (cmdRequestKey command)
              then Inl (ErrPlain ''request account does not match command payload'')
              else Inr ()))"

text \<open>The orders and accounts that the events of a result touch.\<close>

definition projection_event ::
  "Event \<Rightarrow> OrderID fset \<times> AccountID fset \<times> Trade list \<Rightarrow> OrderID fset \<times> AccountID fset \<times> Trade list" where
  "projection_event event acc =
     (let (orderIDs, accounts, trades) = acc;
          orderIDs1 = (if evOrderID event \<noteq> [] then finsert (evOrderID event) orderIDs else orderIDs);
          accounts1 = (if evAccountID event \<noteq> [] then finsert (evAccountID event) accounts else accounts)
      in case evTrade event of
           None \<Rightarrow> (orderIDs1, accounts1, trades)
         | Some trade \<Rightarrow>
             (finsert (tTakerOrderID trade) (finsert (tMakerOrderID trade) orderIDs1),
              finsert (tSellerAccountID trade) (finsert (tBuyerAccountID trade) accounts1),
              trades @ [trade]))"

definition projection_balance ::
  "state \<Rightarrow> AccountID \<times> Asset \<Rightarrow> BalanceProjection list \<Rightarrow> BalanceProjection list res" where
  "projection_balance s aa balances =
     (let (accountID, asset) = aa;
          (available, held) = UserBalance (sLedger s) accountID asset
      in if available < 0 \<or> held < 0 then Inl (ErrPlain ''projection contains negative balance'')
         else Inr (balances @ [\<lparr> bpAccountID = accountID, bpAsset = asset, bpAvailable = available,
                                 bpHeld = held \<rparr>]))"

definition buildProjection :: "Command \<Rightarrow> Result \<Rightarrow> state \<Rightarrow> Projection res" where
  "buildProjection command result s =
     (let orderIDs0 = (if rOrderID result \<noteq> [] then {|rOrderID result|} else {||});
          (orderIDs, accounts, trades) =
            fold projection_event (rEvents result)
              (orderIDs0, {|kAccountID (cmdRequestKey command)|}, []);
          orders = concat (map (\<lambda>orderID. case fmlookup (sOrders s) orderID of None \<Rightarrow> [] | Some x \<Rightarrow> [x])
                             (sorted_list_of_fset orderIDs));
          accountIDs = filter (\<lambda>a. a \<noteq> []) (sorted_list_of_fset accounts)
      in bindE (foldE (projection_balance s)
                  (concat (map (\<lambda>a. [(a, mBaseAsset (sMarket s)), (a, mQuoteAsset (sMarket s))]) accountIDs)) [])
           (\<lambda>balances.
              Inr \<lparr> prOrders = sort_key oID orders, prTrades = sort_key tID trades,
                    prBalances = balances \<rparr>))"

text \<open>
  The part that \<open>runLocked\<close> and \<open>Restore\<close> share: run the command on the trial state and collect
  its journal entries and its projection.
\<close>

definition collect_trial ::
  "Command \<Rightarrow> nat \<Rightarrow> state \<times> Result \<Rightarrow> (state \<times> Result \<times> Transaction list \<times> Projection) res" where
  "collect_trial command journalStart tr =
     (let (trial, result) = tr in
      bindE (JournalFrom (sLedger trial) (int journalStart)) (\<lambda>journalDelta.
      bindE (buildProjection command result trial) (\<lambda>projection.
        Inr (trial, result, journalDelta, projection))))"

definition trial_apply :: "Command \<Rightarrow> state \<Rightarrow> (state \<times> Result \<times> Transaction list \<times> Projection) res" where
  "trial_apply command trial =
     bindE (apply_command command (trial\<lparr> sSequence := cmdSequence command \<rparr>))
       (collect_trial command (JournalLen (sLedger trial)))"

definition remember :: "Command \<Rightarrow> Result \<Rightarrow> state \<Rightarrow> state" where
  "remember command result s =
     s\<lparr> sRequests := fmupd (cmdRequestKey command)
          \<lparr> rqFingerprint = cmdFingerprint command, rqResult = cloneResult result \<rparr> (sRequests s) \<rparr>"

definition remembered :: "Command \<Rightarrow> bool" where
  "remembered command \<longleftrightarrow>
     kAccountID (cmdRequestKey command) \<noteq> ephemeralDemoMakerAccount \<or>
     kOperation (cmdRequestKey command) = CommandKindFund"

text \<open>The trial of \<open>runLocked\<close> up to the record that is appended.\<close>

definition run_trial :: "'b Codec \<Rightarrow> Command \<Rightarrow> state \<Rightarrow> (state \<times> Record \<times> Result) res" where
  "run_trial c command s =
     bindE (clone s) (\<lambda>trial.
     bindE (trial_apply command trial) (\<lambda>(trial1, result, journalDelta, projection).
       let trial2 = (if remembered command then remember command result trial1 else trial1)
       in bindE (compactForSchema CurrentSchemaVersion trial2) (\<lambda>trial3.
          bindE (validate trial3) (\<lambda>_.
          bindE (state_hash c trial3) (\<lambda>hash.
            Inr (trial3,
                 \<lparr> recSchemaVersion = CurrentSchemaVersion, recMarketID = mID (sMarket s),
                   recCommand = command, recResult = cloneResult result, recJournal = journalDelta,
                   recProjection = projection, recStateHash = hash \<rparr>,
                 result))))))"

definition runLocked ::
  "('s, 'b) Env \<Rightarrow> ctx \<Rightarrow> Command \<Rightarrow> 's exchange \<Rightarrow> 's exchange \<times> Result res" where
  "runLocked env ctx command x =
     (let (st, s) = x in
      case ctx of
        Some err \<Rightarrow> (x, Inl err)
      | None \<Rightarrow>
          if validateCommandIdentity command \<noteq> Inr () \<or>
             kMarketID (cmdRequestKey command) \<noteq> mID (sMarket s)
          then (x, Inl ErrInvalidRequest)
          else case fmlookup (sRequests s) (cmdRequestKey command) of
            Some previous \<Rightarrow>
              if rqFingerprint previous \<noteq> cmdFingerprint command then (x, Inl ErrIdempotencyConflict)
              else (x, Inr (cloneResult (rqResult previous)))
          | None \<Rightarrow>
              (let command' = command\<lparr> cmdSequence := sSequence s + 1 \<rparr> in
               case run_trial (enCodec env) command' s of
                 Inl err \<Rightarrow> (x, Inl err)
               | Inr (trial, rec, result) \<Rightarrow>
                   (case esAppend (enEventLog env) (enLate env) (sSequence s) rec st of
                      (st', Inl err) \<Rightarrow> ((st', s), Inl (ErrJoin ErrPersistence err))
                    | (st', Inr _) \<Rightarrow> ((st', trial), Inr (cloneResult result)))))"

definition fund_command :: "MarketID \<Rightarrow> string \<Rightarrow> FundRequest \<Rightarrow> Command" where
  "fund_command market fingerprint request =
     \<lparr> cmdSequence = 0, cmdRequestID = fRequestID request,
       cmdRequestKey = NewIdempotencyKey market (fAccountID request) CommandKindFund (fRequestID request),
       cmdFingerprint = fingerprint, cmdKind = CommandKindFund,
       cmdFund = Some request, cmdSubmit = None, cmdCancel = None \<rparr>"

definition submit_command :: "MarketID \<Rightarrow> string \<Rightarrow> NewOrder \<Rightarrow> Command" where
  "submit_command market fingerprint request =
     \<lparr> cmdSequence = 0, cmdRequestID = nClientOrderID request,
       cmdRequestKey = NewIdempotencyKey market (nAccountID request) CommandKindSubmitOrder
                         (nClientOrderID request),
       cmdFingerprint = fingerprint, cmdKind = CommandKindSubmitOrder,
       cmdFund = None, cmdSubmit = Some request, cmdCancel = None \<rparr>"

definition cancel_command :: "MarketID \<Rightarrow> string \<Rightarrow> CancelOrder \<Rightarrow> Command" where
  "cancel_command market fingerprint request =
     \<lparr> cmdSequence = 0, cmdRequestID = cRequestID request,
       cmdRequestKey = NewIdempotencyKey market (cAccountID request) CommandKindCancelOrder
                         (cRequestID request),
       cmdFingerprint = fingerprint, cmdKind = CommandKindCancelOrder,
       cmdFund = None, cmdSubmit = None, cmdCancel = Some request \<rparr>"

definition Fund ::
  "('s, 'b) Env \<Rightarrow> ctx \<Rightarrow> FundRequest \<Rightarrow> 's exchange \<Rightarrow> 's exchange \<times> Result res" where
  "Fund env ctx request x =
     (case bindE (FundRequest_Validate request (sMarket (snd x)))
             (\<lambda>_. cFingerprintFund (enCodec env) request) of
        Inl err \<Rightarrow> (x, Inl err)
      | Inr fingerprint \<Rightarrow>
          runLocked env ctx (fund_command (mID (sMarket (snd x))) fingerprint request) x)"

definition Submit ::
  "('s, 'b) Env \<Rightarrow> ctx \<Rightarrow> NewOrder \<Rightarrow> 's exchange \<Rightarrow> 's exchange \<times> Result res" where
  "Submit env ctx request x =
     (case bindE (NewOrder_Validate request (sMarket (snd x)))
             (\<lambda>_. cFingerprintSubmit (enCodec env) request) of
        Inl err \<Rightarrow> (x, Inl err)
      | Inr fingerprint \<Rightarrow>
          runLocked env ctx (submit_command (mID (sMarket (snd x))) fingerprint request) x)"

definition Cancel ::
  "('s, 'b) Env \<Rightarrow> ctx \<Rightarrow> CancelOrder \<Rightarrow> 's exchange \<Rightarrow> 's exchange \<times> Result res" where
  "Cancel env ctx request x =
     (case bindE (CancelOrder_Validate request) (\<lambda>_. cFingerprintCancel (enCodec env) request) of
        Inl err \<Rightarrow> (x, Inl err)
      | Inr fingerprint \<Rightarrow>
          runLocked env ctx (cancel_command (mID (sMarket (snd x))) fingerprint request) x)"

section \<open>Snapshots and recovery\<close>

definition SaveSnapshot ::
  "('s, 'b) Env \<Rightarrow> ctx \<Rightarrow> 's exchange \<Rightarrow> 's exchange \<times> 'b Snapshot res" where
  "SaveSnapshot env ctx x =
     (let (st, s) = x in
      case marshal (enCodec env) s of
        Inl err \<Rightarrow> (x, Inl err)
      | Inr payload \<Rightarrow>
          (let snapshot = \<lparr> snSchemaVersion = CurrentSchemaVersion, snMarketID = mID (sMarket s),
                            snSequence = sSequence s, snStateHash = cSum (enCodec env) payload,
                            snPayload = payload \<rparr>
           in case ssSave (enSnapshots env) ctx snapshot st of
                (st', Inl err) \<Rightarrow> ((st', s), Inl err)
              | (st', Inr _) \<Rightarrow> ((st', s), Inr snapshot)))"

definition supportedSchemaVersion :: "nat \<Rightarrow> bool" where
  "supportedSchemaVersion v \<longleftrightarrow>
     v = LegacySchemaVersion \<or> v = PreviousSchemaVersion \<or> v = CurrentSchemaVersion"

text \<open>The state and the schema version that the snapshot gives.\<close>

definition restore_snapshot ::
  "'b Codec \<Rightarrow> Market \<Rightarrow> 'b Snapshot \<Rightarrow> (state \<times> nat) res" where
  "restore_snapshot c market snapshot =
     (if \<not> supportedSchemaVersion (snSchemaVersion snapshot) \<or> snMarketID snapshot \<noteq> mID market
      then Inl ErrRecoveryDiverged
      else bindE (unmarshalState c (snPayload snapshot)) (\<lambda>current.
        if sMarket current \<noteq> market then Inl ErrRecoveryDiverged
        else if sSequence current \<noteq> snSequence snapshot then Inl ErrRecoveryDiverged
        else bindE (state_hash c current) (\<lambda>hash.
          if hash \<noteq> snStateHash snapshot then Inl ErrRecoveryDiverged
          else Inr (current, snSchemaVersion snapshot))))"

text \<open>Replay of one record, up to the comparison of result, journal and projection.\<close>

definition replay_trial :: "Market \<Rightarrow> Record \<Rightarrow> state \<Rightarrow> state res" where
  "replay_trial market rec current =
     (let command = recCommand rec in
      if cmdSequence command \<noteq> sSequence current + 1 then Inl ErrRecoveryDiverged
      else if cmdFingerprint command = [] \<or> kMarketID (cmdRequestKey command) \<noteq> mID market \<or>
              validateCommandIdentity command \<noteq> Inr ()
      then Inl ErrRecoveryDiverged
      else if IdempotencyKey_Validate (cmdRequestKey command) \<noteq> Inr () then Inl ErrRecoveryDiverged
      else if cmdRequestKey command |\<in>| fmdom (sRequests current) then Inl ErrRecoveryDiverged
      else
        bindE (if recSchemaVersion rec = CurrentSchemaVersion then clone current else Inr current) (\<lambda>trial.
        case apply_command command (trial\<lparr> sSequence := cmdSequence command \<rparr>) of
          Inl _ \<Rightarrow> Inl ErrRecoveryDiverged
        | Inr tr \<Rightarrow>
            bindE (collect_trial command (JournalLen (sLedger trial)) tr)
              (\<lambda>(trial1, result, journalDelta, projection).
                 let trial2 = (if recSchemaVersion rec = LegacySchemaVersion \<or> remembered command
                               then remember command result trial1 else trial1)
                 in bindE (compactForSchema (recSchemaVersion rec) trial2) (\<lambda>trial3.
                      if result \<noteq> recResult rec \<or> journalDelta \<noteq> recJournal rec \<or>
                         projection \<noteq> recProjection rec
                      then Inl ErrRecoveryDiverged
                      else Inr trial3))))"

text \<open>Replay of one record; \<open>verifyState\<close> tells whether its state is compared as well.\<close>

definition replay_record ::
  "'b Codec \<Rightarrow> Market \<Rightarrow> bool \<Rightarrow> Record \<Rightarrow> state \<Rightarrow> state res" where
  "replay_record c market verifyState rec current =
     bindE (replay_trial market rec current) (\<lambda>trial.
       if verifyState
       then if validate trial \<noteq> Inr () then Inl ErrRecoveryDiverged
            else bindE (state_hash c trial) (\<lambda>hash.
                   if hash \<noteq> recStateHash rec then Inl ErrRecoveryDiverged else Inr trial)
       else Inr trial)"

fun replay :: "'b Codec \<Rightarrow> Market \<Rightarrow> Record list \<Rightarrow> state \<Rightarrow> nat \<Rightarrow> (state \<times> nat) res" where
  "replay c market [] current activeSchema = Inr (current, activeSchema)"
| "replay c market (rec # records) current activeSchema =
     (if recMarketID rec \<noteq> mID market \<or> \<not> supportedSchemaVersion (recSchemaVersion rec)
      then Inl ErrRecoveryDiverged
      else
        (let active = (if activeSchema = 0 then recSchemaVersion rec else activeSchema)
         in if recSchemaVersion rec < active then Inl ErrRecoveryDiverged
            else
              bindE (if recSchemaVersion rec > active
                     then compactForSchema (recSchemaVersion rec) current else Inr current) (\<lambda>current1.
              bindE (replay_record c market
                       (recSchemaVersion rec = CurrentSchemaVersion \<or> records = [] \<or>
                        recSchemaVersion (hd records) \<noteq> recSchemaVersion rec) rec current1) (\<lambda>current2.
                replay c market records current2 (recSchemaVersion rec)))))"

definition Restore ::
  "ctx \<Rightarrow> Market \<Rightarrow> 's EventStore option \<Rightarrow> ('s, 'b) SnapshotStore option \<Rightarrow> 'b Codec \<Rightarrow> 's
     \<Rightarrow> 's \<times> ('s exchange) res" where
  "Restore ctx market eventLog snapshots c st =
     (case (eventLog, snapshots) of
        (Some es, Some ss) \<Rightarrow>
          (case bindE (newState market) (\<lambda>initial.
                bindE (ssLoad ss ctx st) (\<lambda>loaded.
                bindE (case loaded of
                         None \<Rightarrow> Inr (initial, 0)
                       | Some snapshot \<Rightarrow> restore_snapshot c market snapshot) (\<lambda>(current, activeSchema).
                bindE (esRecordsAfter es ctx (sSequence current) st) (\<lambda>records.
                  replay c market records current activeSchema)))) of
             Inl err \<Rightarrow> (st, Inl err)
           | Inr (current, activeSchema) \<Rightarrow>
               if activeSchema \<noteq> 0 \<and> activeSchema < CurrentSchemaVersion
               then
                 (case bindE (compactForSchema CurrentSchemaVersion current) (\<lambda>s.
                       bindE (marshal c s) (\<lambda>payload. Inr (s, payload))) of
                    Inl err \<Rightarrow> (st, Inl err)
                  | Inr (s, payload) \<Rightarrow>
                      (case ssSave ss ctx
                              \<lparr> snSchemaVersion = CurrentSchemaVersion, snMarketID = mID market,
                                snSequence = sSequence s, snStateHash = cSum c payload,
                                snPayload = payload \<rparr> st of
                         (st', Inl err) \<Rightarrow> (st', Inl err)
                       | (st', Inr _) \<Rightarrow> (st', Inr (st', s))))
               else (st, Inr (st, current)))
      | _ \<Rightarrow> (st, Inl ErrMissingStore))"

section \<open>Queries\<close>

definition Sequence :: "'s exchange \<Rightarrow> nat" where "Sequence x = sSequence (snd x)"

definition StateHash :: "'b Codec \<Rightarrow> 's exchange \<Rightarrow> string res" where
  "StateHash c x = state_hash c (snd x)"

definition StateFingerprint :: "'b Codec \<Rightarrow> 's exchange \<Rightarrow> nat \<times> string res" where
  "StateFingerprint c x = (sSequence (snd x), state_hash c (snd x))"

definition Exchange_Balance :: "AccountID \<Rightarrow> Asset \<Rightarrow> 's exchange \<Rightarrow> BalanceView" where
  "Exchange_Balance accountID asset x =
     (let (available, held) = UserBalance (sLedger (snd x)) accountID asset
      in \<lparr> bvAvailable = available, bvHeld = held \<rparr>)"

definition Exchange_Market :: "'s exchange \<Rightarrow> Market" where
  "Exchange_Market x = sMarket (snd x)"

definition Exchange_Balances :: "AccountID \<Rightarrow> 's exchange \<Rightarrow> AssetBalanceView list" where
  "Exchange_Balances accountID x =
     map (\<lambda>asset. let (available, held) = UserBalance (sLedger (snd x)) accountID asset
                  in \<lparr> abAsset = asset, abAvailable = available, abHeld = held \<rparr>)
       [mBaseAsset (sMarket (snd x)), mQuoteAsset (sMarket (snd x))]"

definition PlatformFees :: "Asset \<Rightarrow> 's exchange \<Rightarrow> int" where
  "PlatformFees asset x = Ledger_Balance (sLedger (snd x)) (PlatformFee asset) asset"

definition Exchange_Order :: "OrderID \<Rightarrow> 's exchange \<Rightarrow> Order option" where
  "Exchange_Order orderID x = fmlookup (sOrders (snd x)) orderID"

definition Exchange_Orders :: "AccountID \<Rightarrow> bool \<Rightarrow> 's exchange \<Rightarrow> Order list" where
  "Exchange_Orders accountID openOnly x =
     rev (sort_key (\<lambda>order. (oAcceptedSequence order, oID order))
       (filter (\<lambda>order. (accountID = [] \<or> oAccountID order = accountID) \<and> (openOnly \<longrightarrow> IsOpen order))
          (map snd (sorted_list_of_fmap (sOrders (snd x))))))"

definition Exchange_Trades :: "AccountID \<Rightarrow> 's exchange \<Rightarrow> Trade list" where
  "Exchange_Trades accountID x =
     filter (\<lambda>trade. accountID = [] \<or> tBuyerAccountID trade = accountID \<or> tSellerAccountID trade = accountID)
       (rev (sTrades (snd x)))"

definition Exchange_Book :: "'s exchange \<Rightarrow> BookSnapshot" where
  "Exchange_Book x = Book_Snapshot (sBook (snd x))"

fun aggregate_loop :: "nat \<Rightarrow> Order list \<Rightarrow> PriceLevelView list \<Rightarrow> PriceLevelView list res" where
  "aggregate_loop limit [] result = Inr result"
| "aggregate_loop limit (order # orders) result =
     (if (result = [] \<or> plPrice (last result) \<noteq> oPrice order) \<and> length result = limit then Inr result
      else
        (let result1 = (if result = [] \<or> plPrice (last result) \<noteq> oPrice order
                        then result @ [\<lparr> plPrice = oPrice order, plQuantity = 0, plOrderCount = 0 \<rparr>]
                        else result);
             level = last result1
         in bindE (CheckedAdd (plQuantity level) (oRemainingQuantity order)) (\<lambda>quantity.
              aggregate_loop limit orders
                (butlast result1 @ [level\<lparr> plQuantity := quantity, plOrderCount := plOrderCount level + 1 \<rparr>]))))"

definition aggregateLevels :: "Order list \<Rightarrow> nat \<Rightarrow> PriceLevelView list res" where
  "aggregateLevels orders limit = aggregate_loop limit orders []"

definition Depth :: "int \<Rightarrow> 's exchange \<Rightarrow> OrderBookView res" where
  "Depth levels x =
     (let limit = nat (if levels \<le> 0 then 20 else levels);
          snapshot = Book_Snapshot (sBook (snd x))
      in bindE (aggregateLevels (bsBids snapshot) limit) (\<lambda>bids.
         bindE (aggregateLevels (bsAsks snapshot) limit) (\<lambda>asks.
           Inr \<lparr> obMarketID = mID (sMarket (snd x)), obSequence = sSequence (snd x),
                 obBids = bids, obAsks = asks \<rparr>)))"

definition Exchange_Journal :: "'s exchange \<Rightarrow> Transaction list" where
  "Exchange_Journal x = Ledger_Journal (sLedger (snd x))"

definition Exchange_Validate :: "'s exchange \<Rightarrow> unit res" where
  "Exchange_Validate x = validate (snd x)"

end
