(* ===== verification/Exchange_Invariant.thy ===== *)
theory Exchange_Invariant
  imports Exchange
begin

text \<open>
  The invariant of the exchange's state and its preservation by every command. \<open>core_ok\<close> says
  that the market is valid, the book is well formed (\<open>book_ok\<close>) and not crossed, the ledger is
  the replay of its journal (\<open>ledger_ok\<close>, \<open>accounts_ok\<close>) and the order index is keyed by the
  orders' identifiers; \<open>state_ok\<close> adds that the source's own \<open>validate\<close> accepts the state.
  From it follow that cloning and the persisted form give the state back.
\<close>

section \<open>The invariant of the state\<close>

definition orders_ok :: "Market \<Rightarrow> (OrderID, Order) fmap \<Rightarrow> bool" where
  "orders_ok m orders \<longleftrightarrow>
     (\<forall>i ord. fmlookup orders i = Some ord \<longrightarrow>
        oID ord = i \<and> i \<noteq> [] \<and> order64 ord \<and> oMarketID ord = mID m)"

definition core_ok :: "state \<Rightarrow> bool" where
  "core_ok s \<longleftrightarrow>
     market_ok (sMarket s) \<and> bkMarket (sBook s) = sMarket s \<and> book_ok (sBook s) \<and>
     uncrossed (sBook s) \<and> ledger_ok (sLedger s) \<and> accounts_ok (sLedger s) \<and>
     orders_ok (sMarket s) (sOrders s)"

text \<open>The orders in the book are the open orders of the index.\<close>

definition book_indexed :: "state \<Rightarrow> bool" where
  "book_indexed s \<longleftrightarrow>
     (\<forall>i ord. fmlookup (bkOrders (sBook s)) i = Some ord \<longrightarrow> fmlookup (sOrders s) i = Some ord)"

definition state_ok :: "state \<Rightarrow> bool" where
  "state_ok s \<longleftrightarrow> core_ok s \<and> validate s = Inr ()"

lemma core_okD:
  assumes "core_ok s"
  shows "market_ok (sMarket s)" "bkMarket (sBook s) = sMarket s" "book_ok (sBook s)"
    "uncrossed (sBook s)" "ledger_ok (sLedger s)" "accounts_ok (sLedger s)"
    "orders_ok (sMarket s) (sOrders s)"
  using assms by (auto simp: core_ok_def)

lemma foldE_validate_in_book:
  "foldE (validate_in_book s) xs seen = Inr r \<longleftrightarrow>
     (\<forall>x \<in> set xs. fmlookup (sOrders s) (oID x) = Some x) \<and> r = fset_of_list (map oID xs) |\<union>| seen"
proof (induction xs arbitrary: seen)
  case (Cons x xs)
  show ?case
    by (cases "fmlookup (sOrders s) (oID x) = Some x")
      (simp_all add: validate_in_book_def [of s x] Cons.IH)
qed auto

lemma validate_book_indexed:
  assumes "validate s = Inr ()" "book_ok (sBook s)"
  shows "book_indexed s"
  unfolding book_indexed_def
proof (intro allI impI)
  fix i ord assume l: "fmlookup (bkOrders (sBook s)) i = Some ord"
  have "\<forall>x \<in> set (side_list (sBook s) SideBuy @ side_list (sBook s) SideSell). fmlookup (sOrders s) (oID x) = Some x"
    using assms(1) by (auto simp: validate_def bindE_eq_Inr foldE_validate_in_book Book_Snapshot_side_list)
  moreover have "is_side (oSide ord)" "oID ord = i"
    using resting_side [OF assms(2) l] index_okD(1) [OF book_okD(3) [OF assms(2)] l] by auto
  then have "ord \<in> set (side_list (sBook s) SideBuy @ side_list (sBook s) SideSell)"
    using side_list_mem [OF assms(2), of "oSide ord" ord] l by auto
  ultimately show "fmlookup (sOrders s) i = Some ord" using \<open>oID ord = i\<close> by blast
qed

lemma orders_ok_upd:
  "orders_ok m orders \<Longrightarrow> oID ord \<noteq> [] \<Longrightarrow> order64 ord \<Longrightarrow> oMarketID ord = mID m \<Longrightarrow>
     orders_ok m (fmupd (oID ord) ord orders)"
  by (auto simp: orders_ok_def)

section \<open>Moving funds\<close>

lemma ledger_move_ok:
  assumes "Ledger_move l txid reference from to asset amount = Inr l'"
    and "ledger_ok l" "accounts_ok l" "in64 amount"
    and "exchange_account (from, asset)" "exchange_account (to, asset)"
  shows "ledger_ok l'" "accounts_ok l'"
proof -
  note M = Ledger_move_InrD [OF assms(1)]
  show "ledger_ok l'" by (rule Post_move_InrD(1) [OF M(2) assms(2) M(1) assms(4)])
  show "accounts_ok l'" by (rule Post_move_accounts [OF M(2) assms(2-)])
qed

lemma Hold_ok:
  "Hold l txid reference acc asset amount = Inr l' \<Longrightarrow> ledger_ok l \<Longrightarrow> accounts_ok l \<Longrightarrow> in64 amount \<Longrightarrow>
     ledger_ok l' \<and> accounts_ok l'"
  unfolding Hold_def using ledger_move_ok by (metis exchange_account_simps(1,2))

lemma Release_ok:
  "Release l txid reference acc asset amount = Inr l' \<Longrightarrow> ledger_ok l \<Longrightarrow> accounts_ok l \<Longrightarrow> in64 amount \<Longrightarrow>
     ledger_ok l' \<and> accounts_ok l'"
  unfolding Release_def using ledger_move_ok by (metis exchange_account_simps(1,2))

lemma FundVirtual_ok:
  assumes "FundVirtual l txid reference acc asset amount = Inr l'" "ledger_ok l" "accounts_ok l" "in64 amount"
  shows "ledger_ok l' \<and> accounts_ok l'"
  using FundVirtual_InrD [OF assms(1)] Post_move_InrD(1) Post_move_accounts assms(2-)
  by (metis exchange_account_simps(1,4))

lemma in64_sub64 [simp]: "in64 (sub64 a b)"
  by (simp add: sub64_def in64_wrap64)

lemma FeeAmount_in64:
  assumes "FeeAmount amount rate = Inr fee" "in64 amount"
  shows "in64 fee \<and> 0 \<le> fee \<and> 0 \<le> amount \<and> (0 < amount \<longrightarrow> fee < amount)"
proof -
  have ran: "0 \<le> amount" "0 \<le> rate" "rate < 10000" using assms(1) by (auto simp: FeeAmount_def split: if_splits)
  note F = FeeAmount_spec [OF assms(2) ran]
  then have "fee = amount * rate div 10000" using assms(1) by simp
  then show ?thesis using F ran in64_nonnegI [OF _ _ assms(2), of fee]
    by (cases "amount = 0") auto
qed

lemma settle_tx_ok:
  assumes "in64 bf" "in64 sf"
  shows "tx64 \<lparr> txID = i, txReference = r, txEntries = settle_entries m b s bf sf f \<rparr>"
    "tx_accounts_ok \<lparr> txID = i, txReference = r, txEntries = settle_entries m b s bf sf f \<rparr>"
  using assms by (auto simp: tx64_def tx_accounts_ok_def settle_entries_def)

lemma settleFill_InrD:
  assumes "settleFill n i taker f s = Inr (s', t)" "in64 (rfQuantity f)" "in64 (rfQuoteAmount f)"
  obtains mk l where "fmlookup (sOrders s) (rfMakerOrderID f) = Some mk" "s' = s\<lparr> sLedger := l \<rparr>"
    "tID t = trade_id n i" "tMarketID t = mID (sMarket s)"
    "ledger_ok (sLedger s) \<Longrightarrow> accounts_ok (sLedger s) \<Longrightarrow> ledger_ok l \<and> accounts_ok l"
proof -
  obtain mk where mk: "fmlookup (sOrders s) (rfMakerOrderID f) = Some mk"
    using assms(1) by (auto simp: settleFill_def split: option.splits)
  let ?b = "if oSide mk = SideBuy then mk else taker" and ?s = "if oSide mk = SideBuy then taker else mk"
  let ?br = "if oSide mk = SideBuy then mMakerFeeBPS (sMarket s) else mTakerFeeBPS (sMarket s)"
  let ?sr = "if oSide mk = SideBuy then mTakerFeeBPS (sMarket s) else mMakerFeeBPS (sMarket s)"
  obtain bf sf l where fees: "FeeAmount (rfQuantity f) ?br = Inr bf" "FeeAmount (rfQuoteAmount f) ?sr = Inr sf"
    and post: "Post (sLedger s) \<lparr> txID = trade_tx n i, txReference = ''matched-trade:'' @ trade_id n i,
        txEntries = settle_entries (sMarket s) ?b ?s bf sf f \<rparr> = Inr l"
    and s': "s' = s\<lparr> sLedger := l \<rparr>" "tID t = trade_id n i" "tMarketID t = mID (sMarket s)"
    using assms(1) mk
    by (cases "oSide mk = SideBuy") (auto simp: settleFill_def bindE_eq_Inr Let_def split: if_splits)
  have "in64 bf" "in64 sf" using fees assms(2,3) FeeAmount_in64 by blast+
  note tx = settle_tx_ok [OF this]
  show ?thesis
    using that [OF mk s'(1)] s' ledger_ok_Post [OF _ tx(1) post] accounts_ok_Post [OF _ _ tx post] by blast
qed

section \<open>The loop over the fills keeps the invariant\<close>

definition fill64 :: "Market \<Rightarrow> RawFill \<Rightarrow> bool" where
  "fill64 m f \<longleftrightarrow> in64 (rfQuantity f) \<and> in64 (rfQuoteAmount f) \<and> in64 (rfMakerRemaining f) \<and>
     mQuantityStep m dvd rfMakerRemaining f"

definition maker_ok :: "(OrderID, Order) fmap \<Rightarrow> RawFill \<Rightarrow> bool" where
  "maker_ok orders f \<longleftrightarrow>
     (\<exists>mk. fmlookup orders (rfMakerOrderID f) = Some mk \<and> oType mk = OrderTypeLimit \<and>
        oTimeInForce mk = TimeInForceGTC)"

lemma apply_fills_range:
  assumes "apply_fills n L fs = Some L'"
    and "\<forall>mk \<in> set L. in64 (oRemainingQuantity mk) \<and> step dvd oRemainingQuantity mk"
    and "\<forall>f \<in> set fs. step dvd rfQuantity f"
  shows "\<forall>f \<in> set fs. in64 (rfQuantity f) \<and> in64 (rfMakerRemaining f) \<and> step dvd rfMakerRemaining f \<and>
    rfMakerOrderID f \<in> oID ` set L"
  using assms
proof (induction n L fs rule: apply_fills.induct)
  case (3 n mk makers f fs)
  let ?L = "if rfMakerRemaining f = 0 then makers else maker_filled n f mk # makers"
  have f: "rfMakerOrderID f = oID mk" "0 < rfQuantity f" "rfQuantity f \<le> oRemainingQuantity mk"
    "rfMakerRemaining f = oRemainingQuantity mk - rfQuantity f" "apply_fills n ?L fs = Some L'"
    using 3(2) by (auto split: if_splits)
  have head: "in64 (rfQuantity f)" "in64 (rfMakerRemaining f)" "step dvd rfMakerRemaining f"
    using f 3(3,4) in64_nonnegI [of _ "oRemainingQuantity mk"] by (auto simp: dvd_diff)
  have sub: "oID ` set ?L \<subseteq> oID ` set (mk # makers)" by (auto simp: maker_filled_def)
  have "\<forall>f \<in> set fs. in64 (rfQuantity f) \<and> in64 (rfMakerRemaining f) \<and> step dvd rfMakerRemaining f \<and>
      rfMakerOrderID f \<in> oID ` set ?L"
    using 3(1) [OF _ f(5)] 3(2-) head f(4) by (auto simp: maker_filled_def split: if_splits)
  then have "\<forall>f \<in> set fs. in64 (rfQuantity f) \<and> in64 (rfMakerRemaining f) \<and> step dvd rfMakerRemaining f \<and>
      rfMakerOrderID f \<in> oID ` set (mk # makers)" using sub by blast
  then show ?case using f(1) head by auto
qed auto

lemma consumeOrderHold_InrD:
  assumes "consumeOrderHold ord f = Inr ord'"
  obtains h where "ord' = ord\<lparr> oHeldAmount := h \<rparr>" "in64 h"
  using assms by (auto simp: consumeOrderHold_def Let_def split: if_splits)

lemma order64_held: "order64 ord \<Longrightarrow> in64 h \<Longrightarrow> order64 (ord\<lparr> oHeldAmount := h \<rparr>)"
  by (simp add: order64_def)

lemma QuoteAmountCeil_in64:
  assumes "QuoteAmountCeil m p q = Inr a" "market_ok m" "in64 p" "in64 q"
  shows "in64 a" "0 \<le> a"
  using CheckedMulDivCeil_InrD(5,6) [OF assms(1) [unfolded QuoteAmountCeil_def] assms(3,4) market_okD(14) [OF assms(2)]]
  by (auto simp: in64_def MinInt64_def)

lemma releaseExcessBuyHold_InrD:
  assumes "releaseExcessBuyHold n i ord s = Inr (s', ord')" "market_ok (sMarket s)" "order64 ord"
    and "ledger_ok (sLedger s)" "accounts_ok (sLedger s)"
  obtains h l where "ord' = ord\<lparr> oHeldAmount := h \<rparr>" "in64 h" "s' = s\<lparr> sLedger := l \<rparr>"
    "ledger_ok l" "accounts_ok l"
proof -
  note that_thesis = that
  have same: thesis if "s' = s" "ord' = ord"
    using assms that(1) that(2) by (intro that_thesis [of "oHeldAmount ord" "sLedger s"]) (simp_all add: order64_def)
  show thesis
  proof (cases "oSide ord = SideBuy")
    case False
    then show ?thesis using assms(1) same by (simp add: releaseExcessBuyHold_def)
  next
    case True
    let ?D = "if oRemainingQuantity ord > 0
        then QuoteAmountCeil (sMarket s) (oPrice ord) (oRemainingQuantity ord) else Inr 0"
    let ?R = "\<lambda>desired. if sub64 (oHeldAmount ord) desired = 0 then Inr (s, ord)
        else bindE (Release (sLedger s) (maker_tx n i) (''maker-rounding-release:'' @ oID ord) (oAccountID ord)
                (mQuoteAsset (sMarket s)) (sub64 (oHeldAmount ord) desired))
               (\<lambda>l. Inr (s\<lparr> sLedger := l \<rparr>, ord\<lparr> oHeldAmount := desired \<rparr>))"
    have "bindE ?D (\<lambda>desired. if oHeldAmount ord < desired
        then Inl (ErrPlain ''maker order hold below required'') else ?R desired) = Inr (s', ord')"
      using assms(1) True by (simp only: releaseExcessBuyHold_def Let_def simp_thms if_False)
    then obtain desired where d: "?D = Inr desired"
      and r0: "(if oHeldAmount ord < desired
        then Inl (ErrPlain ''maker order hold below required'') else ?R desired) = Inr (s', ord')"
      unfolding bindE_eq_Inr by blast
    have r: "?R desired = Inr (s', ord')" using r0 by (cases "oHeldAmount ord < desired") simp_all
    show ?thesis
    proof (cases "sub64 (oHeldAmount ord) desired = 0")
      case True
      then show ?thesis using r same by simp
    next
      case False
      then obtain l where l: "Release (sLedger s) (maker_tx n i) (''maker-rounding-release:'' @ oID ord)
          (oAccountID ord) (mQuoteAsset (sMarket s)) (sub64 (oHeldAmount ord) desired) = Inr l"
        and r': "s' = s\<lparr> sLedger := l \<rparr>" "ord' = ord\<lparr> oHeldAmount := desired \<rparr>"
        using r by (auto simp: bindE_eq_Inr)
      have "in64 desired" using d QuoteAmountCeil_in64 [OF _ assms(2)] assms(3)
        by (auto simp: order64_def split: if_splits)
      then show ?thesis using that_thesis r' Release_ok [OF l assms(4,5)] by simp
    qed
  qed
qed

lemma replace_prices:
  assumes "L' = map (\<lambda>z. if oID z = oID y then y else z) L"
    and "\<And>z. z \<in> set L \<Longrightarrow> oID z = oID y \<Longrightarrow> oPrice z = oPrice y"
  shows "oPrice ` set L' = oPrice ` set L"
  unfolding assms(1) using assms(2) by (auto simp: image_iff) (metis (full_types))+

lemma uncrossed_cong:
  "uncrossed b \<Longrightarrow> (\<And>s. is_side s \<Longrightarrow> oPrice ` set (side_list b' s) = oPrice ` set (side_list b s)) \<Longrightarrow>
     uncrossed b'"
  by (simp add: uncrossed_prices)

lemma settle_maker_InrD:
  assumes "settle_maker n i f s = Inr (s', mk')" "core_ok s" "fill64 (sMarket s) f" "maker_ok (sOrders s) f"
  obtains b l where "s' = s\<lparr> sLedger := l, sBook := b \<rparr>" "oID mk' = rfMakerOrderID f" "order64 mk'"
    "oMarketID mk' = mID (sMarket s)" "oType mk' = OrderTypeLimit" "oTimeInForce mk' = TimeInForceGTC"
    "ledger_ok l" "accounts_ok l" "book_ok b" "uncrossed b" "bkMarket b = sMarket s"
    "\<And>t. is_side t \<Longrightarrow> oPrice ` set (side_list b t) = oPrice ` set (side_list (sBook s) t)"
proof -
  note C = core_okD [OF assms(2)]
  obtain mk where mk: "fmlookup (sOrders s) (rfMakerOrderID f) = Some mk" "oType mk = OrderTypeLimit"
    "oTimeInForce mk = TimeInForceGTC" using assms(4) by (auto simp: maker_ok_def)
  have mk0: "fmget zeroOrder (sOrders s) (rfMakerOrderID f) = mk" using mk(1) by (simp add: fmget_Some)
  have mk_ok: "oID mk = rfMakerOrderID f" "oID mk \<noteq> []" "order64 mk" "oMarketID mk = mID (sMarket s)"
    using C(7) mk(1) by (auto simp: orders_ok_def)
  obtain fl sp mk1 s1 mk2 where add: "CheckedAdd (oFilledQuantity mk) (rfQuantity f) = Inr fl"
      "CheckedAdd (oSpentQuote mk) (rfQuoteAmount f) = Inr sp"
    and c: "consumeOrderHold (mk\<lparr> oRemainingQuantity := rfMakerRemaining f, oFilledQuantity := fl,
                           oSpentQuote := sp, oLastSequence := n,
                           oStatus := (if rfMakerRemaining f = 0 then OrderStatusFilled
                                       else OrderStatusPartiallyFilled) \<rparr>) f = Inr mk1"
    and r: "releaseExcessBuyHold n i mk1 s = Inr (s1, mk2)"
    and fin: "(if oStatus mk2 = OrderStatusFilled
           then if oHeldAmount mk2 \<noteq> 0
                then Inl (ErrPlain ''filled maker order retains held amount'')
                else Inr (s1, mk2\<lparr> oHeldAsset := [] \<rparr>)
           else bindE (Book_Update (sBook s1) mk2) (\<lambda>book. Inr (s1\<lparr> sBook := book \<rparr>, mk2))) = Inr (s', mk')"
    using assms(1) by (auto simp: settle_maker_def mk0 bindE_eq_Inr Let_def)
  let ?mk = "mk\<lparr> oRemainingQuantity := rfMakerRemaining f, oFilledQuantity := fl, oSpentQuote := sp,
      oLastSequence := n, oStatus := (if rfMakerRemaining f = 0 then OrderStatusFilled else OrderStatusPartiallyFilled) \<rparr>"
  obtain h1 where mk1: "mk1 = ?mk\<lparr> oHeldAmount := h1 \<rparr>" "in64 h1" using consumeOrderHold_InrD [OF c] by blast
  have o1: "order64 mk1"
    using mk1 mk_ok(3) assms(3) add by (auto simp: order64_def fill64_def CheckedAdd_spec split: if_splits)
  obtain h2 l where mk2: "mk2 = mk1\<lparr> oHeldAmount := h2 \<rparr>" "in64 h2" and s1: "s1 = s\<lparr> sLedger := l \<rparr>"
    and l: "ledger_ok l" "accounts_ok l"
    using releaseExcessBuyHold_InrD [OF r C(1) o1 C(5,6)] by blast
  have o2: "order64 mk2" using order64_held [OF o1 mk2(2)] mk2(1) by simp
  have static: "oID mk2 = rfMakerOrderID f" "oMarketID mk2 = mID (sMarket s)" "oType mk2 = OrderTypeLimit"
    "oTimeInForce mk2 = TimeInForceGTC" "oRemainingQuantity mk2 = rfMakerRemaining f"
    using mk2 mk1 mk mk_ok by auto
  show ?thesis
  proof (cases "oStatus mk2 = OrderStatusFilled")
    case True
    then have "s' = s\<lparr> sLedger := l, sBook := sBook s \<rparr>" "mk' = mk2\<lparr> oHeldAsset := [] \<rparr>"
      using fin s1 by (auto split: if_splits)
    then show ?thesis using that [of "sBook s" l] l C static o2 by (simp add: order64_def)
  next
    case False
    then obtain b where u: "Book_Update (sBook s) mk2 = Inr b" "s' = s\<lparr> sLedger := l, sBook := b \<rparr>" "mk' = mk2"
      using fin s1 by (auto simp: bindE_eq_Inr)
    note U = Book_Update_InrD [OF u(1)]
    have step: "mQuantityStep (bkMarket (sBook s)) dvd oRemainingQuantity mk2"
      using assms(3) static(5) C(2) by (simp add: fill64_def)
    note B = book_ok_Update [OF C(3) u(1) o2 _ static(3,4) _ step]
    have ok: "book_ok b" using B(1) static mk_ok C(2) by simp
    have lists: "side_list b t = map (\<lambda>z. if oID z = oID mk2 then mk2 else z) (side_list (sBook s) t)" if "is_side t" for t
      using B(2) that static mk_ok C(2) by simp
    have "oPrice z = oPrice mk2" if "is_side t" "z \<in> set (side_list (sBook s) t)" "oID z = oID mk2" for z t
      using U(1) side_list_mem [OF C(3) that(1)] that by (metis option.inject)
    then have prices: "oPrice ` set (side_list b t) = oPrice ` set (side_list (sBook s) t)" if "is_side t" for t
      using replace_prices [OF lists [OF that]] that by blast
    then have "uncrossed b" by (rule uncrossed_cong [OF C(4)])
    moreover have "bkMarket b = sMarket s" using U(4) C(2) by simp
    ultimately show ?thesis using that [of b l] u l ok static o2 prices by simp
  qed
qed

definition loop_ok :: "SubmitLoop \<Rightarrow> RawFill list \<Rightarrow> bool" where
  "loop_ok l fs \<longleftrightarrow> core_ok (slState l) \<and> order64 (slOrder l) \<and>
     (\<forall>f \<in> set fs. fill64 (sMarket (slState l)) f \<and> maker_ok (sOrders (slState l)) f)"

text \<open>What an iteration leaves alone.\<close>

definition loop_frame :: "SubmitLoop \<Rightarrow> SubmitLoop \<Rightarrow> bool" where
  "loop_frame l l' \<longleftrightarrow>
     sMarket (slState l') = sMarket (slState l) \<and> sSequence (slState l') = sSequence (slState l) \<and>
     sRequests (slState l') = sRequests (slState l) \<and>
     (\<exists>h. slOrder l' = (slOrder l)\<lparr> oHeldAmount := h \<rparr>) \<and>
     (\<forall>t. is_side t \<longrightarrow>
        oPrice ` set (side_list (sBook (slState l')) t) = oPrice ` set (side_list (sBook (slState l)) t))"

lemma loop_frame_trans: "loop_frame a b \<Longrightarrow> loop_frame b c \<Longrightarrow> loop_frame a c"
  by (auto simp: loop_frame_def)


lemma loop_frame_refl: "loop_frame l l"
  unfolding loop_frame_def by (auto intro!: exI [of _ "oHeldAmount (slOrder l)"])

lemma settle_step_ok:
  assumes "settle_step n i f l = Inr l'" "loop_ok l (f # fs)"
  shows "loop_ok l' fs" "loop_frame l l'"
proof -
  let ?s = "slState l"
  have ok: "core_ok ?s" "order64 (slOrder l)" "fill64 (sMarket ?s) f" "maker_ok (sOrders ?s) f"
    "\<forall>g \<in> set fs. fill64 (sMarket ?s) g \<and> maker_ok (sOrders ?s) g"
    using assms(2) by (auto simp: loop_ok_def)
  note C = core_okD [OF ok(1)]
  obtain s1 t ord s2 mk where 1: "settleFill n i (slOrder l) f ?s = Inr (s1, t)"
    and 2: "consumeOrderHold (slOrder l) f = Inr ord" and 3: "settle_maker n i f s1 = Inr (s2, mk)"
    and 4: "slState l' = s2\<lparr> sOrders := fmupd (oID mk) mk (sOrders s2), sTrades := sTrades s2 @ [t] \<rparr>" "slOrder l' = ord"
    using assms(1) by (auto simp: settle_step_def bindE_eq_Inr Let_def)
  have f64: "in64 (rfQuantity f)" "in64 (rfQuoteAmount f)" using ok(3) by (auto simp: fill64_def)
  obtain l1 where s1: "s1 = ?s\<lparr> sLedger := l1 \<rparr>" "ledger_ok l1" "accounts_ok l1"
    using settleFill_InrD [OF 1 f64] C(5,6) by metis
  have c1: "core_ok s1" using ok(1) s1 by (simp add: core_ok_def)
  obtain h where ord: "ord = (slOrder l)\<lparr> oHeldAmount := h \<rparr>" "in64 h" using consumeOrderHold_InrD [OF 2] by blast
  have "fill64 (sMarket s1) f" "maker_ok (sOrders s1) f" using ok(3,4) s1 by simp_all
  from settle_maker_InrD [OF 3 c1 this] obtain b l2 where s2: "s2 = s1\<lparr> sLedger := l2, sBook := b \<rparr>"
    and mk: "oID mk = rfMakerOrderID f" "order64 mk" "oMarketID mk = mID (sMarket s1)"
      "oType mk = OrderTypeLimit" "oTimeInForce mk = TimeInForceGTC"
    and b: "ledger_ok l2" "accounts_ok l2" "book_ok b" "uncrossed b" "bkMarket b = sMarket s1"
      "\<And>t. is_side t \<Longrightarrow> oPrice ` set (side_list b t) = oPrice ` set (side_list (sBook s1) t)"
    by metis
  have "oID mk \<noteq> []" using ok(4) C(7) mk(1) by (auto simp: maker_ok_def orders_ok_def)
  then have "orders_ok (sMarket ?s) (fmupd (oID mk) mk (sOrders ?s))"
    using mk s1 by (intro orders_ok_upd [OF C(7)]) simp_all
  then have "core_ok (slState l')" using 4 s2 s1 b C(1) by (simp add: core_ok_def)
  moreover have "order64 (slOrder l')" using 4 ord order64_held [OF ok(2)] by simp
  moreover have "maker_ok (sOrders (slState l')) g" if "g \<in> set fs" for g
    using ok(5) that mk 4 s2 s1 by (auto simp: maker_ok_def)
  moreover have "sMarket (slState l') = sMarket ?s" using 4 s2 s1 by simp
  ultimately show "loop_ok l' fs" using ok(5) by (simp add: loop_ok_def)
  show "loop_frame l l'" unfolding loop_frame_def using 4 s2 s1 ord b(6) by auto
qed

lemma settle_fills_ok:
  assumes "settle_fills n i fs l = Inr l'" "loop_ok l fs"
  shows "core_ok (slState l')" "order64 (slOrder l')" "loop_frame l l'"
proof -
  have "loop_ok l' [] \<and> loop_frame l l'"
    using assms
  proof (induction n i fs l rule: settle_fills.induct)
    case (1 n i l)
    then show ?case using loop_frame_refl by simp
  next
    case (2 n i f fs l)
    then obtain l1 where "settle_step n i f l = Inr l1" "settle_fills n (i + 1) fs l1 = Inr l'"
      by (auto simp: bindE_eq_Inr)
    with 2 settle_step_ok [of n i f l l1 fs] show ?case using loop_frame_trans by blast
  qed
  then show "core_ok (slState l')" "order64 (slOrder l')" "loop_frame l l'" by (auto simp: loop_ok_def)
qed

lemma WouldCross_iff:
  assumes "book_ok b" "is_side s"
  shows "WouldCross b s price \<longleftrightarrow>
    (\<exists>p \<in> oPrice ` set (side_list b (opposite s)). crosses s OrderTypeLimit price p)"
proof
  assume "WouldCross b s price"
  then show "\<exists>p \<in> oPrice ` set (side_list b (opposite s)). crosses s OrderTypeLimit price p"
    using WouldCross_head [OF assms] by (auto split: list.splits)
next
  assume "\<exists>p \<in> oPrice ` set (side_list b (opposite s)). crosses s OrderTypeLimit price p"
  then show "WouldCross b s price" using no_cross_all [OF assms] by blast
qed

section \<open>Submissions\<close>

definition request64 :: "NewOrder \<Rightarrow> bool" where
  "request64 r \<longleftrightarrow> in64 (nPrice r) \<and> in64 (nQuantity r) \<and> in64 (nQuoteBudget r)"

lemma order_id_not_Nil [simp]: "order_id n \<noteq> []"
  by (simp add: order_id_def)

lemma new_order_taker:
  assumes "NewOrder_Validate r m = Inr ()" "market_ok m" "request64 r" "in64 h"
  shows "taker_ok m ((new_order m n r)\<lparr> oHeldAsset := a, oHeldAmount := h \<rparr>)" "is_side (nSide r)"
proof -
  show s: "is_side (nSide r)" using assms(1) by (auto simp: NewOrder_Validate_def split: if_splits)
  have dvd: "nType r \<noteq> OrderTypeMarket \<or> nSide r \<noteq> SideBuy \<Longrightarrow> 0 \<le> nQuantity r \<and> mQuantityStep m dvd nQuantity r"
    "nType r = OrderTypeMarket \<Longrightarrow> nSide r = SideBuy \<Longrightarrow> 0 \<le> nQuoteBudget r"
    using assms(1) s market_okD(6,7,8) [OF assms(2)]
    by (auto simp: NewOrder_Validate_def NewOrder_ValidateLimit_def NewOrder_ValidateMarket_def rem64_eq_0
        split: if_splits OrderType.splits)
  have "order64 ((new_order m n r)\<lparr> oHeldAsset := a, oHeldAmount := h \<rparr>)"
    using assms(3,4) by (simp add: order64_def new_order_def zeroOrder_def request64_def)
  then show "taker_ok m ((new_order m n r)\<lparr> oHeldAsset := a, oHeldAmount := h \<rparr>)"
    using s dvd by (auto simp: taker_ok_def new_order_def)
qed

lemma match_fills_ok:
  assumes "match_spec b inc b' inc' fs stop" "book_ok b" "taker_ok (bkMarket b) inc" "f \<in> set fs"
  shows "fill64 (bkMarket b) f"
    "\<exists>mk. fmlookup (bkOrders b) (rfMakerOrderID f) = Some mk \<and> resting_ok (bkMarket b) mk"
proof -
  let ?L = "side_list b (opposite (oSide inc))"
  have s: "is_side (opposite (oSide inc))" using assms(3) by (auto simp: taker_ok_def)
  have mem: "fmlookup (bkOrders b) (oID mk) = Some mk" "resting_ok (bkMarket b) mk" if "mk \<in> set ?L" for mk
    using that side_list_mem [OF assms(2) s] index_okD(2) [OF book_okD(3) [OF assms(2)]] by blast+
  then have L: "\<forall>mk \<in> set ?L. in64 (oRemainingQuantity mk) \<and> mQuantityStep (bkMarket b) dvd oRemainingQuantity mk"
    by (auto simp: resting_ok_def order64_def)
  have F: "\<forall>f \<in> set fs. mQuantityStep (bkMarket b) dvd rfQuantity f"
    using match_specD(5) [OF assms(1)] by (auto simp: fill_ok_def)
  from apply_fills_range [OF match_specD(4) [OF assms(1)] L F] assms(4)
  have R: "in64 (rfQuantity f)" "in64 (rfMakerRemaining f)" "mQuantityStep (bkMarket b) dvd rfMakerRemaining f"
    "rfMakerOrderID f \<in> oID ` set ?L" by auto
  have "in64 (rfQuoteAmount f)"
    using match_specD(5) [OF assms(1,4)] by (auto simp: fill_ok_def in64_def MinInt64_def)
  with R show "fill64 (bkMarket b) f" by (simp add: fill64_def)
  show "\<exists>mk. fmlookup (bkOrders b) (rfMakerOrderID f) = Some mk \<and> resting_ok (bkMarket b) mk"
    using R(4) mem by auto
qed

lemma reserveFor_in64:
  assumes "reserveFor m ord = Inr (a, h)" "market_ok m" "order64 ord"
  shows "in64 h"
  using assms QuoteAmountCeil_in64 [OF _ assms(2), of "oPrice ord" "oRemainingQuantity ord" h]
  by (auto simp: reserveFor_def order64_def bindE_eq_Inr split: if_splits)

lemma rejectOrder_ok:
  assumes "core_ok s" "order64 ord" "oID ord \<noteq> []" "oMarketID ord = mID (sMarket s)"
  shows "core_ok (fst (rejectOrder n ord reason s))"
proof -
  let ?o = "ord\<lparr> oStatus := OrderStatusRejected, oRejectReason := reason, oLastSequence := n,
      oHeldAsset := [], oHeldAmount := 0 \<rparr>"
  have "orders_ok (sMarket s) (fmupd (oID ?o) ?o (sOrders s))"
    using assms core_okD(7) [OF assms(1)] by (intro orders_ok_upd) (simp_all add: order64_def)
  then show ?thesis using assms(1) by (simp add: rejectOrder_def Let_def core_ok_def)
qed

lemma submit_release_InrD:
  assumes "submit_release n a d ord s = Inr (s', ord')" "order64 ord"
    and "ledger_ok (sLedger s)" "accounts_ok (sLedger s)" "in64 d"
  obtains h a' l where "ord' = ord\<lparr> oHeldAmount := h, oHeldAsset := a' \<rparr>" "in64 h" "s' = s\<lparr> sLedger := l \<rparr>"
    "ledger_ok l" "accounts_ok l"
proof -
  let ?r = "sub64 (oHeldAmount ord) d"
  let ?first = "if ?r > 0
        then bindE (Release (sLedger s) (release_tx n) (''order-release:'' @ oID ord) (oAccountID ord) a ?r) (\<lambda>l.
               Inr (s\<lparr> sLedger := l \<rparr>, ord\<lparr> oHeldAmount := sub64 (oHeldAmount ord) ?r \<rparr>))
        else Inr (s, ord)"
  have "\<not> oHeldAmount ord < d"
    using assms(1) by (auto simp: submit_release_def)
  then obtain s1 ord1 where f: "?first = Inr (s1, ord1)"
    and r: "s' = s1" "ord' = (if oHeldAmount ord1 = 0 then ord1\<lparr> oHeldAsset := [] \<rparr> else ord1)"
    using assms(1) by (auto simp only: submit_release_def Let_def bindE_eq_Inr if_False split_paired_Ex prod.case sum.inject prod.inject)
  obtain h l where 1: "ord1 = ord\<lparr> oHeldAmount := h \<rparr>" "in64 h" "s1 = s\<lparr> sLedger := l \<rparr>" "ledger_ok l" "accounts_ok l"
  proof (cases "?r > 0")
    case True
    then obtain l where l: "Release (sLedger s) (release_tx n) (''order-release:'' @ oID ord) (oAccountID ord) a ?r = Inr l"
      "s1 = s\<lparr> sLedger := l \<rparr>" "ord1 = ord\<lparr> oHeldAmount := sub64 (oHeldAmount ord) ?r \<rparr>"
      using f by (auto simp: bindE_eq_Inr)
    then show ?thesis using that [of "sub64 (oHeldAmount ord) ?r" l] Release_ok [OF l(1) assms(3,4)] by simp
  next
    case False
    then show ?thesis using f that [of "oHeldAmount ord" "sLedger s"] assms by (simp add: order64_def)
  qed
  then have "ord' = ord\<lparr> oHeldAmount := h, oHeldAsset := (if h = 0 then [] else oHeldAsset ord) \<rparr>"
    using r(2) by simp
  then show ?thesis using that 1 r(1) by blast
qed

lemma final_status_InrD:
  assumes "final_status m ord r = Inr (status, desired)" "market_ok m" "order64 ord"
  shows "in64 desired"
  using assms QuoteAmountCeil_in64 [OF _ assms(2), of "oPrice ord" "oRemainingQuantity ord" desired]
  by (auto simp: final_status_def order64_def bindE_eq_Inr Let_def split: if_splits)

lemma submit_finish_ok:
  assumes "submit_finish n a r l = Inr (s', res)" "core_ok (slState l)" "order64 (slOrder l)"
    and "oID (slOrder l) \<noteq> []" "oMarketID (slOrder l) = mID (sMarket (slState l))"
    and "shouldRest (slOrder l) (mrStopReason r) \<Longrightarrow>
      \<not> WouldCross (sBook (slState l)) (oSide (slOrder l)) (oPrice (slOrder l))"
  shows "core_ok s'" "sMarket s' = sMarket (slState l)" "sSequence s' = sSequence (slState l)"
    "sRequests s' = sRequests (slState l)"
proof -
  let ?s = "slState l" and ?o = "slOrder l" and ?rest = "shouldRest (slOrder l) (mrStopReason r)"
  note C = core_okD [OF assms(2)]
  obtain status desired s1 o1 s2 ev evs where fs: "final_status (sMarket ?s) ?o r = Inr (status, desired)"
    and rel: "submit_release n a desired (?o\<lparr> oStatus := status \<rparr>) ?s = Inr (s1, o1)"
    and add: "submit_outcome n ?rest (mrStopReason r) evs o1 s1 = Inr (s2, ev)"
    and s': "s' = s2\<lparr> sOrders := fmupd (oID o1) o1 (sOrders s2) \<rparr>"
    using assms(1) by (auto simp: submit_finish_def Let_def bindE_eq_Inr)
  have "order64 (?o\<lparr> oStatus := status \<rparr>)" using assms(3) by (simp add: order64_def)
  from submit_release_InrD [OF rel this C(5,6) final_status_InrD [OF fs C(1) assms(3)]]
  obtain h a' lg where o1: "o1 = ?o\<lparr> oStatus := status, oHeldAmount := h, oHeldAsset := a' \<rparr>" "in64 h"
    and s1: "s1 = ?s\<lparr> sLedger := lg \<rparr>" "ledger_ok lg" "accounts_ok lg" by (metis (full_types))
  have o1': "order64 o1" "oID o1 \<noteq> []" "oMarketID o1 = mID (sMarket ?s)" "oSide o1 = oSide ?o" "oPrice o1 = oPrice ?o"
    using o1 assms(3-5) by (auto simp: order64_def)
  obtain b where s2: "s2 = s1\<lparr> sBook := b \<rparr>" "book_ok b" "uncrossed b" "bkMarket b = sMarket ?s"
  proof (cases ?rest)
    case True
    then obtain b where b: "Book_Add (sBook s1) o1 = Inr b" "s2 = s1\<lparr> sBook := b \<rparr>"
      using add by (auto simp: submit_outcome_def bindE_eq_Inr)
    have "book_ok b" using book_ok_Add [OF _ b(1) o1'(1)] C(3) s1 by simp
    moreover have "uncrossed b" using uncrossed_Add [OF _ _ _ b(1)] C(3,4) s1 assms(6) [OF True] o1'(4,5) by simp
    moreover have "bkMarket b = sMarket ?s" using Book_Add_InrD(1) [OF b(1)] C(2) s1 by simp
    ultimately show ?thesis using that b(2) by blast
  next
    case False
    then have "s2 = s1\<lparr> sBook := sBook ?s \<rparr>" using add s1(1) by (auto simp: submit_outcome_def split: if_splits)
    then show ?thesis using that C(2-4) by blast
  qed
  have "orders_ok (sMarket ?s) (fmupd (oID o1) o1 (sOrders ?s))"
    using orders_ok_upd [OF C(7) o1'(2,1,3)] .
  then show "core_ok s'" "sMarket s' = sMarket ?s" "sSequence s' = sSequence ?s" "sRequests s' = sRequests ?s"
    using s' s2 s1 C(1) by (simp_all add: core_ok_def)
qed

lemma match_spec_rest:
  assumes "match_spec b inc b' inc' fs stop" "taker_ok (bkMarket b) inc" "shouldRest inc' stop"
  shows "\<not> WouldCross b' (oSide inc) (oPrice inc)"
proof (rule match_spec_rest_no_cross [OF assms(1,2)])
  have same: "oType inc' = oType inc" using match_specD(6) [OF assms(1)] by simp
  then show "oType inc = OrderTypeLimit" using assms(3) by (simp add: shouldRest_def)
  show "stop = StopNoLiquidity \<or> stop = StopPriceLimit"
    using match_specD(8) [OF assms(1)] assms(3) by (cases stop) (auto simp: stop_ok_def shouldRest_def)
qed

lemma loop_frameD:
  "loop_frame l l' \<Longrightarrow> is_side t \<Longrightarrow>
     oPrice ` set (side_list (sBook (slState l')) t) = oPrice ` set (side_list (sBook (slState l)) t)"
  unfolding loop_frame_def by blast

abbreviation same_frame :: "state \<Rightarrow> state \<Rightarrow> bool" where
  "same_frame s s' \<equiv> sMarket s' = sMarket s \<and> sSequence s' = sSequence s \<and> sRequests s' = sRequests s"

lemma submit_match_ok:
  assumes "submit_match n req a ord s = Inr (s', res)" "core_ok s" "book_indexed s"
    and t: "taker_ok (sMarket s) ord" "oID ord \<noteq> []" "oMarketID ord = mID (sMarket s)"
  shows "core_ok s'" "same_frame s s'"
proof -
  note C = core_okD [OF assms(2)]
  obtain b o1 r l where m: "Match (sBook s) ord = Inr (b, o1, r)"
    and loop: "settle_fills n 1 (mrFills r) \<lparr> slState = s\<lparr> sBook := b \<rparr>, slOrder = o1,
                slEvents = [accepted_event n ord], slRemainingQuantity = nQuantity req,
                slRemainingQuoteBudget = nQuoteBudget req \<rparr> = Inr l"
    and fin: "submit_finish n a r l = Inr (s', res)"
    using assms(1) by (auto simp: submit_match_def bindE_eq_Inr)
  have t': "taker_ok (bkMarket (sBook s)) ord" using t(1) C(2) by simp
  note S = Match_spec [OF m C(3) t']
  note D = match_specD [OF S]
  let ?l0 = "\<lparr> slState = s\<lparr> sBook := b \<rparr>, slOrder = o1, slEvents = [accepted_event n ord],
      slRemainingQuantity = nQuantity req, slRemainingQuoteBudget = nQuoteBudget req \<rparr>"
  have "core_ok (s\<lparr> sBook := b \<rparr>)"
    using assms(2) D(1,2) C(2) match_spec_uncrossed [OF S t' C(4)] by (simp add: core_ok_def)
  moreover have "maker_ok (sOrders s) f" "fill64 (sMarket s) f" if "f \<in> set (mrFills r)" for f
    using match_fills_ok [OF S C(3) t' that] assms(3) C(2)
    by (auto simp: maker_ok_def book_indexed_def resting_ok_def)
  ultimately have L0: "loop_ok ?l0 (mrFills r)"
    using D(7) by (auto simp: loop_ok_def taker_ok_def)
  note L = settle_fills_ok [OF loop L0]
  have frame: "sMarket (slState l) = sMarket s" "sSequence (slState l) = sSequence s" "sRequests (slState l) = sRequests s"
    and ord: "\<exists>h. slOrder l = o1\<lparr> oHeldAmount := h \<rparr>"
    using L(3) by (simp_all add: loop_frame_def)
  have prices: "oPrice ` set (side_list (sBook (slState l)) t) = oPrice ` set (side_list b t)" if "is_side t" for t
    using loop_frameD [OF L(3) that] by simp
  have same: "oID (slOrder l) = oID ord" "oMarketID (slOrder l) = oMarketID ord" "oSide (slOrder l) = oSide ord"
    "oPrice (slOrder l) = oPrice ord"
    using ord D(6) by (auto simp: taker_filled_def)
  have "\<not> WouldCross (sBook (slState l)) (oSide (slOrder l)) (oPrice (slOrder l))"
    if "shouldRest (slOrder l) (mrStopReason r)"
  proof -
    have s: "is_side (oSide ord)" "is_side (opposite (oSide ord))" using t(1) by (auto simp: taker_ok_def)
    have "shouldRest o1 (mrStopReason r)" using that ord by (auto simp: shouldRest_def)
    then have "\<not> WouldCross b (oSide ord) (oPrice ord)" by (rule match_spec_rest [OF S t'])
    then show ?thesis
      using WouldCross_iff [OF D(1) s(1)] WouldCross_iff [OF core_okD(3) [OF L(1)] s(1)] prices [OF s(2)] same by simp
  qed
  from submit_finish_ok [OF fin L(1,2) _ _ this] same t frame show "core_ok s'" "same_frame s s'" by auto
qed

lemma submit_reserve_ok:
  assumes "submit_reserve n req (new_order (sMarket s) n req) s = Inr (s', res)" "core_ok s" "book_indexed s"
    and "NewOrder_Validate req (sMarket s) = Inr ()" "request64 req"
  shows "core_ok s'" "same_frame s s'"
proof -
  note C = core_okD [OF assms(2)]
  let ?o = "new_order (sMarket s) n req"
  obtain a h where r: "reserveFor (sMarket s) ?o = Inr (a, h)"
    and rest0: "(case Hold (sLedger s) (hold_tx n) (''order-hold:'' @ oID (?o\<lparr> oHeldAsset := a, oHeldAmount := h \<rparr>))
              (oAccountID (?o\<lparr> oHeldAsset := a, oHeldAmount := h \<rparr>)) a h of
            Inl err \<Rightarrow> if errors_is err ErrInsufficientBalance
              then Inr (rejectOrder n (?o\<lparr> oHeldAsset := a, oHeldAmount := h \<rparr>\<lparr> oHeldAsset := [], oHeldAmount := 0 \<rparr>)
                     ''insufficient_balance'' s)
              else Inl err
          | Inr l \<Rightarrow> submit_match n req a (?o\<lparr> oHeldAsset := a, oHeldAmount := h \<rparr>) (s\<lparr> sLedger := l \<rparr>)) = Inr (s', res)"
    using assms(1) unfolding submit_reserve_def bindE_eq_Inr Let_def by (auto simp only: split_paired_Ex prod.case)
  have o: "order64 ?o" "oID ?o \<noteq> []" "oMarketID ?o = mID (sMarket s)"
    using assms(5) by (simp_all add: order64_def new_order_def zeroOrder_def request64_def)
  have h: "in64 h" by (rule reserveFor_in64 [OF r C(1) o(1)])
  have "core_ok s' \<and> same_frame s s'"
  proof (cases "Hold (sLedger s) (hold_tx n) (''order-hold:'' @ oID ?o) (oAccountID ?o) a h")
    case (Inl err)
    then have "rejectOrder n (?o\<lparr> oHeldAsset := [], oHeldAmount := 0 \<rparr>) ''insufficient_balance'' s = (s', res)"
      using rest0 by (simp split: if_splits)
    then have s': "s' = fst (rejectOrder n (?o\<lparr> oHeldAsset := [], oHeldAmount := 0 \<rparr>) ''insufficient_balance'' s)"
      by (metis fst_conv)
    show ?thesis unfolding s'
      using rejectOrder_ok [OF assms(2), of "?o\<lparr> oHeldAsset := [], oHeldAmount := 0 \<rparr>"] o
      by (simp add: order64_def) (simp add: rejectOrder_def Let_def)
  next
    case (Inr l)
    let ?s = "s\<lparr> sLedger := l \<rparr>"
    have m: "submit_match n req a (?o\<lparr> oHeldAsset := a, oHeldAmount := h \<rparr>) ?s = Inr (s', res)"
      using rest0 Inr by simp
    have "core_ok ?s" using assms(2) Hold_ok [OF Inr C(5,6) h] by (simp add: core_ok_def)
    moreover have "book_indexed ?s" using assms(3) by (simp add: book_indexed_def)
    moreover have "taker_ok (sMarket ?s) (?o\<lparr> oHeldAsset := a, oHeldAmount := h \<rparr>)"
      using new_order_taker(1) [OF assms(4) C(1) assms(5) h] by simp
    ultimately show ?thesis using submit_match_ok [OF m] o by simp
  qed
  then show "core_ok s'" "same_frame s s'" by auto
qed

lemma applySubmit_ok:
  assumes "applySubmit cmd s = Inr (s', res)" "core_ok s" "book_indexed s"
    and "\<And>req. cmdSubmit cmd = Some req \<Longrightarrow> request64 req"
  shows "core_ok s'" "same_frame s s'"
proof -
  obtain req where req: "cmdSubmit cmd = Some req" "NewOrder_Validate req (sMarket s) = Inr ()"
    using assms(1) by (auto simp: applySubmit_def bindE_eq_Inr split: option.splits)
  let ?n = "cmdSequence cmd" and ?o = "new_order (sMarket s) (cmdSequence cmd) req"
  note r64 = assms(4) [OF req(1)]
  have o: "order64 ?o" "oID ?o \<noteq> []" "oMarketID ?o = mID (sMarket s)"
    using r64 by (simp_all add: order64_def new_order_def zeroOrder_def request64_def)
  have rej: "core_ok (fst (rejectOrder ?n ?o reason s)) \<and> same_frame s (fst (rejectOrder ?n ?o reason s))" for reason
    using rejectOrder_ok [OF assms(2) o] by (simp add: rejectOrder_def Let_def)
  consider (reject) reason where "rejectOrder ?n ?o reason s = (s', res)"
    | (go) "submit_reserve ?n req ?o s = Inr (s', res)"
    using assms(1) req by (auto simp: applySubmit_def bindE_eq_Inr Let_def split: if_splits)
  then have "core_ok s' \<and> same_frame s s'"
  proof cases
    case (reject reason)
    then show ?thesis using rej by (metis fst_conv)
  next
    case go
    then show ?thesis using submit_reserve_ok [OF go assms(2,3) req(2) r64] by blast
  qed
  then show "core_ok s'" "same_frame s s'" by auto
qed

section \<open>Funding and cancelling\<close>

lemma applyFund_ok:
  assumes "applyFund cmd s = Inr (s', res)" "core_ok s" "\<And>f. cmdFund cmd = Some f \<Longrightarrow> in64 (fAmount f)"
  shows "core_ok s'" "same_frame s s'"
proof -
  note C = core_okD [OF assms(2)]
  obtain f l where f: "cmdFund cmd = Some f"
    and l: "FundVirtual (sLedger s) (fund_tx (cmdSequence cmd)) (''virtual-funding:'' @ fRequestID f)
        (fAccountID f) (fAsset f) (fAmount f) = Inr l" and s': "s' = s\<lparr> sLedger := l \<rparr>"
    using assms(1) by (auto simp: applyFund_def bindE_eq_Inr Let_def split: option.splits)
  from FundVirtual_ok [OF l C(5,6) assms(3) [OF f]] assms(2)
  show "core_ok s'" "same_frame s s'" by (simp_all add: s' core_ok_def)
qed

lemma applyCancel_ok:
  assumes "applyCancel cmd s = Inr (s', res)" "core_ok s"
  shows "core_ok s'" "same_frame s s'"
proof -
  note C = core_okD [OF assms(2)]
  obtain req where req: "cmdCancel cmd = Some req" "CancelOrder_Validate req = Inr ()"
    using assms(1) by (auto simp: applyCancel_def bindE_eq_Inr split: option.splits)
  have "core_ok s' \<and> same_frame s s'"
  proof (cases "s' = s")
    case True
    then show ?thesis using assms(2) by simp
  next
    case False
    then obtain ord b y l where ord: "fmlookup (sOrders s) (cOrderID req) = Some ord"
      and b: "Book_Cancel (sBook s) (oID ord) = Inr (b, y)"
      and l: "Release (sLedger s) (cancel_tx (cmdSequence cmd)) (''order-cancel:'' @ oID ord) (oAccountID ord)
         (if oSide ord = SideBuy then mQuoteAsset (sMarket s) else mBaseAsset (sMarket s)) (oHeldAmount ord) = Inr l"
      and s': "s' = s\<lparr> sBook := b, sLedger := l, sOrders := fmupd (oID ord) (ord\<lparr> oStatus := OrderStatusCanceled,
         oLastSequence := cmdSequence cmd, oHeldAsset := [], oHeldAmount := 0 \<rparr>) (sOrders s) \<rparr>"
      using assms(1) req
      by (auto simp: applyCancel_def bindE_eq_Inr Let_def split: option.splits if_splits)
    have o: "oID ord \<noteq> []" "order64 ord" "oMarketID ord = mID (sMarket s)"
      using C(7) ord by (auto simp: orders_ok_def)
    note B = Book_Cancel_InrD [OF b C(3)]
    have "uncrossed b" by (rule uncrossed_subset [OF C(4)]) (use B(5) in auto)
    moreover have "ledger_ok l \<and> accounts_ok l" using Release_ok [OF l C(5,6)] o(2) by (simp add: order64_def)
    moreover have "orders_ok (sMarket s) (fmupd (oID ord) (ord\<lparr> oStatus := OrderStatusCanceled,
         oLastSequence := cmdSequence cmd, oHeldAsset := [], oHeldAmount := 0 \<rparr>) (sOrders s))"
      using orders_ok_upd [OF C(7), of "ord\<lparr> oStatus := OrderStatusCanceled,
         oLastSequence := cmdSequence cmd, oHeldAsset := [], oHeldAmount := 0 \<rparr>"] o by (simp add: order64_def)
    ultimately show ?thesis using s' B(2,3) C(1,2) by (simp add: core_ok_def)
  qed
  then show "core_ok s'" "same_frame s s'" by auto
qed

text \<open>The payload of a command is in the range of its types.\<close>

definition command64 :: "Command \<Rightarrow> bool" where
  "command64 cmd \<longleftrightarrow> (\<forall>f. cmdFund cmd = Some f \<longrightarrow> in64 (fAmount f)) \<and>
     (\<forall>req. cmdSubmit cmd = Some req \<longrightarrow> request64 req)"

lemma apply_command_ok:
  assumes "apply_command cmd s = Inr (s', res)" "core_ok s" "book_indexed s" "command64 cmd"
  shows "core_ok s'" "same_frame s s'"
  using assms applyFund_ok [of cmd s s' res] applySubmit_ok [of cmd s s' res] applyCancel_ok [of cmd s s' res]
  by (auto simp: apply_command_def command64_def split: CommandKind.splits)

end
