(* ===== verification/Exchange_Run.thy ===== *)
theory Exchange_Run
  imports Exchange_Invariant
begin

text \<open>
  Runs of the exchange. The persisted form of a valid state decodes to that state, in whatever order
  its requests were walked; a command that succeeds leaves a valid state and writes a record whose
  replay gives the same state (\<open>replayed\<close>). The hash in a record is one of the hashes of that state
  (\<open>hashes_to\<close>); a state whose requests have different key strings has only one. The locale
  \<open>exchange_log\<close> extends the contract of an event log by a codec and a market; inside it
  \<open>consistent\<close>, that the state is the replay of the log and of the snapshot followed by the rest
  of the log, is kept by every operation. Recovery returns the state that was lost, or, when two of
  its requests have the same key string, reports a divergence.
\<close>

section \<open>The persisted form\<close>

lemma foldE_insert:
  assumes "distinct (map key xs)" "\<And>x m. x \<in> set xs \<Longrightarrow> key x |\<notin>| fmdom m \<Longrightarrow> f x m = Inr (fmupd (key x) (val x) m)"
    and "\<forall>x \<in> set xs. key x |\<notin>| fmdom m"
  shows "\<exists>m'. foldE f xs m = Inr m' \<and>
    (\<forall>k. fmlookup m' k = (case map_of (map (\<lambda>x. (key x, val x)) xs) k of Some v \<Rightarrow> Some v | None \<Rightarrow> fmlookup m k))"
  using assms
proof (induction xs arbitrary: m)
  case (Cons x xs)
  let ?m = "fmupd (key x) (val x) m"
  have "\<forall>y \<in> set xs. key y |\<notin>| fmdom ?m" using Cons.prems(1,3) by (simp, metis imageI)
  from Cons.IH [OF _ _ this] Cons.prems(1,2) obtain m' where m': "foldE f xs ?m = Inr m'"
    "\<And>k. fmlookup m' k = (case map_of (map (\<lambda>x. (key x, val x)) xs) k of Some v \<Rightarrow> Some v | None \<Rightarrow> fmlookup ?m k)"
    by auto
  have "map_of (map (\<lambda>x. (key x, val x)) xs) (key x) = None"
    using Cons.prems(1) by (auto simp: map_of_eq_None_iff image_image)
  then have "fmlookup m' k = (case map_of (map (\<lambda>x. (key x, val x)) (x # xs)) k of Some v \<Rightarrow> Some v | None \<Rightarrow> fmlookup m k)" for k
    unfolding m'(2) by (cases "key x = k") (auto split: option.splits)
  moreover have "f x m = Inr ?m" using Cons.prems(2,3) by simp
  ultimately show ?case using m'(1) by simp
qed simp

lemma foldE_insert_all:
  assumes "distinct (map key xs)" "\<And>x m. x \<in> set xs \<Longrightarrow> key x |\<notin>| fmdom m \<Longrightarrow> f x m = Inr (fmupd (key x) (val x) m)"
    and "\<And>k v. fmlookup goal k = Some v \<longleftrightarrow> (\<exists>x \<in> set xs. key x = k \<and> val x = v)"
  shows "foldE f xs fmempty = Inr goal"
proof -
  obtain m' where m': "foldE f xs fmempty = Inr m'"
    "\<And>k. fmlookup m' k = (case map_of (map (\<lambda>x. (key x, val x)) xs) k of Some v \<Rightarrow> Some v | None \<Rightarrow> fmlookup fmempty k)"
    using foldE_insert [where key = key and val = val and f = f and xs = xs and m = fmempty, OF assms(1,2)] by auto
  have d: "distinct (map fst (map (\<lambda>x. (key x, val x)) xs))" using assms(1) by (simp add: comp_def)
  have "fmlookup m' k = fmlookup goal k" for k
  proof -
    have "fmlookup m' k = Some v \<longleftrightarrow> fmlookup goal k = Some v" for v
      unfolding m'(2) assms(3) using map_of_eq_Some_iff [OF d, of k v] by (auto split: option.splits)
    then show ?thesis by (metis not_None_eq)
  qed
  then have "m' = goal" by (rule fmap_ext)
  with m'(1) show ?thesis by simp
qed

lemma sorted_list_of_fmap_mem: "(k, v) \<in> set (sorted_list_of_fmap m) \<longleftrightarrow> fmlookup m k = Some v"
  by (simp add: sorted_list_of_fmap_props)

lemma distinct_map_sort_key: "distinct (map f (sort_key g xs)) = distinct (map f xs)"
  by (metis mset_map mset_eq_imp_distinct_iff mset_sort)

lemma restore_orders:
  assumes "orders_ok m orders"
  shows "foldE restore_order (sort_key oID (map snd (sorted_list_of_fmap orders))) fmempty = Inr orders"
proof (rule foldE_insert_all [where key = oID and val = "\<lambda>x. x"])
  have keys: "map oID (map snd (sorted_list_of_fmap orders)) = map fst (sorted_list_of_fmap orders)"
    using assms by (auto simp: orders_ok_def sorted_list_of_fmap_mem)
  show "distinct (map oID (sort_key oID (map snd (sorted_list_of_fmap orders))))"
    unfolding distinct_map_sort_key keys by (rule sorted_list_of_fmap_props)
  have mem: "x \<in> set (sort_key oID (map snd (sorted_list_of_fmap orders))) \<longleftrightarrow> fmlookup orders (oID x) = Some x" for x
  proof -
    have "x \<in> set (sort_key oID (map snd (sorted_list_of_fmap orders))) \<longleftrightarrow> (\<exists>k. (k, x) \<in> set (sorted_list_of_fmap orders))"
      by (force simp: image_iff)
    then show ?thesis unfolding sorted_list_of_fmap_mem using assms by (metis orders_ok_def)
  qed
  show "restore_order x m' = Inr (fmupd (oID x) x m')"
    if "x \<in> set (sort_key oID (map snd (sorted_list_of_fmap orders)))" "oID x |\<notin>| fmdom m'" for x m'
  proof -
    have "oID x \<noteq> []" using that(1) assms unfolding mem orders_ok_def by blast
    then show ?thesis using that(2) by (simp add: restore_order_def)
  qed
  show "fmlookup orders k = Some v \<longleftrightarrow>
      (\<exists>x \<in> set (sort_key oID (map snd (sorted_list_of_fmap orders))). oID x = k \<and> x = v)" for k v
    unfolding Bex_def mem using assms unfolding orders_ok_def by blast
qed

lemma foldE_validate_request:
  "foldE (validate_request m) xs () = Inr () \<longleftrightarrow>
     (\<forall>(key, request) \<in> set xs. IdempotencyKey_Validate key = Inr () \<and> kMarketID key = mID m \<and> rqFingerprint request \<noteq> [])"
  by (induction xs) (auto simp: validate_request_def bindE_eq_Inr split: if_splits)

lemma validate_requests:
  assumes "validate s = Inr ()" "fmlookup (sRequests s) key = Some request"
  shows "IdempotencyKey_Validate key = Inr ()" "kMarketID key = mID (sMarket s)" "rqFingerprint request \<noteq> []"
proof -
  have "foldE (validate_request (sMarket s)) (sorted_list_of_fmap (sRequests s)) () = Inr ()"
    using assms(1) by (simp add: validate_def bindE_eq_Inr del: foldE.simps) blast
  then have "\<forall>(key, request) \<in> set (sorted_list_of_fmap (sRequests s)). IdempotencyKey_Validate key = Inr () \<and>
      kMarketID key = mID (sMarket s) \<and> rqFingerprint request \<noteq> []"
    unfolding foldE_validate_request .
  with assms(2) show "IdempotencyKey_Validate key = Inr ()" "kMarketID key = mID (sMarket s)" "rqFingerprint request \<noteq> []"
    unfolding sorted_list_of_fmap_mem [symmetric] by blast+
qed

definition persist_request :: "IdempotencyKey \<times> requestRecord \<Rightarrow> persistedRequest" where
  "persist_request kr = (case kr of (key, r) \<Rightarrow>
     \<lparr> pqKey = key, pqFingerprint = rqFingerprint r, pqResult = cloneResult (rqResult r) \<rparr>)"

lemma mset_eq_props:
  assumes "mset ys = mset xs"
  shows "set ys = set xs" "distinct (map f ys) = distinct (map f xs)"
  using mset_eq_setD [OF assms] mset_eq_imp_distinct_iff [of "map f ys" "map f xs"] assms by simp_all

lemma restore_requests:
  assumes "\<And>key r. fmlookup requests key = Some r \<Longrightarrow> IdempotencyKey_Validate key = Inr () \<and> rqFingerprint r \<noteq> []"
    and ys: "mset ys = mset (sorted_list_of_fmap requests)"
  shows "foldE restore_request (sort_key (\<lambda>r. IdempotencyKey_String (pqKey r)) (map persist_request ys)) fmempty = Inr requests"
proof (rule foldE_insert_all [where key = pqKey and val = "\<lambda>q. \<lparr> rqFingerprint = pqFingerprint q, rqResult = pqResult q \<rparr>"])
  let ?l = "sort_key (\<lambda>r. IdempotencyKey_String (pqKey r)) (map persist_request ys)"
  note Y = mset_eq_props [OF ys]
  have "map pqKey (map persist_request xs) = map fst xs" for xs
    by (induction xs) (auto simp: persist_request_def)
  then show "distinct (map pqKey ?l)"
    unfolding distinct_map_sort_key using Y(2) [of fst] by (simp only: sorted_list_of_fmap_props)
  have mem: "q \<in> set ?l \<longleftrightarrow> fmlookup requests (pqKey q) = Some \<lparr> rqFingerprint = pqFingerprint q, rqResult = pqResult q \<rparr>" for q
  proof -
    have "q \<in> set ?l \<longleftrightarrow> (\<exists>k r. fmlookup requests k = Some r \<and> q = persist_request (k, r))"
      by (auto simp: sorted_list_of_fmap_mem [symmetric] Y(1))
    also have "\<dots> \<longleftrightarrow> fmlookup requests (pqKey q) = Some \<lparr> rqFingerprint = pqFingerprint q, rqResult = pqResult q \<rparr>"
      by (cases q) (auto simp: persist_request_def cloneResult_def)
    finally show ?thesis .
  qed
  show "restore_request x m' = Inr (fmupd (pqKey x) \<lparr> rqFingerprint = pqFingerprint x, rqResult = pqResult x \<rparr> m')"
    if "x \<in> set ?l" "pqKey x |\<notin>| fmdom m'" for x m'
    using that assms(1) [of "pqKey x"] unfolding mem by (auto simp: restore_request_def cloneResult_def)
  show "fmlookup requests k = Some v \<longleftrightarrow>
      (\<exists>x \<in> set ?l. pqKey x = k \<and> \<lparr> rqFingerprint = pqFingerprint x, rqResult = pqResult x \<rparr> = v)" for k v
    unfolding Bex_def mem
  proof
    assume "fmlookup requests k = Some v"
    then show "\<exists>x :: persistedRequest. fmlookup requests (pqKey x) = Some \<lparr> rqFingerprint = pqFingerprint x, rqResult = pqResult x \<rparr> \<and>
        pqKey x = k \<and> \<lparr> rqFingerprint = pqFingerprint x, rqResult = pqResult x \<rparr> = v"
      by (intro exI [of _ "persist_request (k, v)"]) (simp add: persist_request_def cloneResult_def)
  qed auto
qed

lemma map_option_idI: "(\<And>x. f x = x) \<Longrightarrow> map_option f y = y"
  by (cases y) auto

lemma clone_state_ok:
  assumes "core_ok s"
  shows "clone s = Inr s"
proof -
  note C = core_okD [OF assms]
  have "fmmap (\<lambda>r. \<lparr> rqFingerprint = rqFingerprint r, rqResult = cloneResult (rqResult r) \<rparr>) (sRequests s) = sRequests s"
    by (rule fmap_ext) (simp add: cloneResult_def map_option_idI)
  then show ?thesis using Book_FromSnapshot_Snapshot [OF C(3)] C(2) by (simp add: clone_def)
qed

lemma state_eta: "\<lparr> sMarket = sMarket s, sSequence = sSequence s, sBook = sBook s, sLedger = sLedger s,
    sOrders = sOrders s, sTrades = sTrades s, sRequests = sRequests s \<rparr> = s"
  by (cases s) simp

lemma persisted_requests:
  "psRequests (persisted w s) = sort_key (\<lambda>r. IdempotencyKey_String (pqKey r))
     (map persist_request (w s (sorted_list_of_fmap (sRequests s))))"
  by (simp add: persisted_def persist_request_def [abs_def])

lemma stateFromPersisted_persisted:
  assumes "state_ok s" "permutes w"
  shows "stateFromPersisted (persisted w s) = Inr s"
proof -
  have ok: "core_ok s" "validate s = Inr ()" using assms(1) by (auto simp: state_ok_def)
  note C = core_okD [OF ok(1)]
  have "mset (w s (sorted_list_of_fmap (sRequests s))) = mset (sorted_list_of_fmap (sRequests s))"
    using assms(2) by (simp add: permutes_def)
  then have req: "foldE restore_request (psRequests (persisted w s)) fmempty = Inr (sRequests s)"
    unfolding persisted_requests using validate_requests [OF ok(2)] by (intro restore_requests) blast+
  with restore_orders [OF C(7)] market_okD(19) [OF C(1)] Book_FromSnapshot_Snapshot [OF C(3)] C(2)
    Ledger_FromSnapshot_Snapshot [OF C(5)] ok(2)
  show ?thesis by (simp add: stateFromPersisted_def persisted_def Let_def state_eta)
qed

text \<open>The order of the walk shows only in requests whose keys have the same string.\<close>

definition keys_apart :: "state \<Rightarrow> bool" where
  "keys_apart s \<longleftrightarrow> inj_on IdempotencyKey_String (fset (fmdom (sRequests s)))"

lemma keys_apart_iff:
  "keys_apart s \<longleftrightarrow> (\<forall>k k'. k |\<in>| fmdom (sRequests s) \<longrightarrow> k' |\<in>| fmdom (sRequests s) \<longrightarrow>
     IdempotencyKey_String k = IdempotencyKey_String k' \<longrightarrow> k = k')"
  by (auto simp: keys_apart_def inj_on_def)

lemma keys_apart_mono: "keys_apart t \<Longrightarrow> fmdom (sRequests s) |\<subseteq>| fmdom (sRequests t) \<Longrightarrow> keys_apart s"
  unfolding keys_apart_def by (rule inj_on_subset) (simp_all add: less_eq_fset.rep_eq)

lemma persisted_walk:
  assumes "keys_apart s" "permutes w" "permutes w'"
  shows "persisted w s = persisted w' s"
proof -
  let ?l = "sorted_list_of_fmap (sRequests s)" and ?f = "\<lambda>r. IdempotencyKey_String (pqKey r)"
  have m: "mset (w s ?l) = mset ?l" "mset (w' s ?l) = mset ?l" using assms(2,3) by (simp_all add: permutes_def)
  have key: "pqKey (persist_request x) = fst x" for x by (cases x) (simp add: persist_request_def)
  have "x = y" if "x \<in> set (w s ?l)" "y \<in> set (w s ?l)" "IdempotencyKey_String (fst x) = IdempotencyKey_String (fst y)" for x y
  proof -
    have x: "fmlookup (sRequests s) (fst x) = Some (snd x)" "fmlookup (sRequests s) (fst y) = Some (snd y)"
      using that(1,2) unfolding mset_eq_props(1) [OF m(1)] by (metis prod.collapse sorted_list_of_fmap_mem)+
    then have "fst x = fst y" using assms(1) that(3) by (metis fmdomI keys_apart_iff)
    with x show ?thesis by (simp add: prod_eq_iff)
  qed
  then have "inj_on ?f (set (map persist_request (w s ?l)))" by (auto simp: inj_on_def key)
  moreover have "mset (map persist_request (w s ?l)) = mset (sort_key ?f (map persist_request (w' s ?l)))" using m by simp
  moreover have "sorted (map ?f (sort_key ?f (map persist_request (w' s ?l))))" by (rule sorted_sort_key)
  ultimately have "sort_key ?f (map persist_request (w s ?l)) = sort_key ?f (map persist_request (w' s ?l))"
    by (intro sort_key_inj_key_eq)
  then have "psRequests (persisted w s) = psRequests (persisted w' s)" unfolding persisted_requests .
  then show ?thesis by (simp add: persisted_def)
qed

text \<open>The hashes that a state can have.\<close>

definition hashes_to :: "'b Codec \<Rightarrow> state \<Rightarrow> string \<Rightarrow> bool" where
  "hashes_to c s h \<longleftrightarrow> (\<exists>w. permutes w \<and> state_hash (rewalk w c) s = Inr h)"

lemma rewalk_simps [simp]:
  "cWalk (rewalk w c) = w" "cMarshal (rewalk w c) = cMarshal c" "cUnmarshal (rewalk w c) = cUnmarshal c"
  "cSum (rewalk w c) = cSum c" "cFingerprintFund (rewalk w c) = cFingerprintFund c"
  "cFingerprintSubmit (rewalk w c) = cFingerprintSubmit c" "cFingerprintCancel (rewalk w c) = cFingerprintCancel c"
  "rewalk w (rewalk w' c) = rewalk w c" "rewalk (cWalk c) c = c"
  by (simp_all add: rewalk_def)

lemma codec_ok_rewalk: "codec_ok c \<Longrightarrow> permutes w \<Longrightarrow> codec_ok (rewalk w c)"
  by (simp add: codec_ok_def)

lemma hashes_to_rewalk [simp]: "hashes_to (rewalk w c) = hashes_to c"
  by (simp add: hashes_to_def fun_eq_iff)

lemma hashes_to_own: "codec_ok c \<Longrightarrow> state_hash c s = Inr h \<Longrightarrow> hashes_to c s h"
  unfolding hashes_to_def codec_ok_def by (metis rewalk_simps(9))

lemma hash_total: "codec_ok c \<Longrightarrow> \<exists>h. state_hash c s = Inr h"
  unfolding codec_ok_def state_hash_def marshal_def by (metis bindE_simps(2))

lemma hashes_to_unique:
  assumes "hashes_to c s h" "keys_apart s" "codec_ok c"
  shows "state_hash c s = Inr h"
proof -
  obtain w where "permutes w" "state_hash (rewalk w c) s = Inr h" using assms(1) by (auto simp: hashes_to_def)
  then show ?thesis using persisted_walk [OF assms(2), of w "cWalk c"] assms(3)
    by (simp add: state_hash_def marshal_def codec_ok_def)
qed

section \<open>A run of one command\<close>

lemma sorted_list_of_fmap_empty [simp]: "sorted_list_of_fmap fmempty = []"
  by (simp add: sorted_list_of_fmap_def sorted_list_of_fset.rep_eq)

lemma newState_ok:
  assumes "market_ok m"
  shows "\<exists>s. newState m = Inr s \<and> state_ok s \<and> sMarket s = m \<and> sSequence s = 0 \<and>
    sOrders s = fmempty \<and> sRequests s = fmempty \<and> sTrades s = [] \<and> sLedger s = Ledger_New"
proof -
  obtain b where b: "Book_New m = Inr b" "book_ok b" "bkMarket b = m" "side_list b SideBuy = []"
    "fmdom (bkOrders b) = {||}" using Book_New_ok [OF assms, of SideBuy] by blast
  have sell: "side_list b SideSell = []" using Book_New_ok [OF assms, of SideSell] b(1) by auto
  let ?s = "\<lparr> sMarket = m, sSequence = 0, sBook = b, sLedger = Ledger_New,
             sOrders = fmempty, sTrades = [], sRequests = fmempty \<rparr>"
  have "validate ?s = Inr ()"
    using market_okD(19) [OF assms] Book_Validate_ok [OF b(2)] Ledger_Validate_ok [OF ledger_ok_New] b(4) sell
    by (simp add: validate_def Book_Snapshot_side_list Balances_def Ledger_New_def)
  moreover have "core_ok ?s" using assms b sell by (simp add: core_ok_def orders_ok_def uncrossed_def)
  ultimately show ?thesis using b(1) market_okD(19) [OF assms] by (simp add: newState_def state_ok_def)
qed

lemma core_ok_sequence [simp]: "core_ok (s\<lparr> sSequence := n \<rparr>) = core_ok s" "book_indexed (s\<lparr> sSequence := n \<rparr>) = book_indexed s"
  by (simp_all add: core_ok_def book_indexed_def)

lemma remember_simps [simp]:
  "core_ok (remember cmd res s) = core_ok s" "sSequence (remember cmd res s) = sSequence s"
  "sMarket (remember cmd res s) = sMarket s"
  by (simp_all add: core_ok_def remember_def)

lemma compactForSchema_ok:
  assumes "core_ok s" "compactForSchema v s = Inr s'"
  shows "core_ok s'" "sMarket s' = sMarket s" "sSequence s' = sSequence s" "sTrades s' = sTrades s"
    "\<And>k. bal (sLedger s') k = bal (sLedger s) k" "sBook s' = sBook s"
proof -
  note C = core_okD [OF assms(1)]
  have "orders_ok (sMarket s) (sOrders (compactEphemeralSystemHistory s))"
    using C(7) by (simp add: compactEphemeralSystemHistory_def orders_ok_def)
  then have h: "core_ok (compactEphemeralSystemHistory s)" "sLedger (compactEphemeralSystemHistory s) = sLedger s"
    using assms(1) by (auto simp: core_ok_def compactEphemeralSystemHistory_def)
  obtain c where c: "Compact (sLedger s) = Inr c" "ledger_ok c" "accounts_ok c" "\<And>k. bal c k = bal (sLedger s) k"
    using Compact_spec [OF C(5,6)] by blast
  have "core_ok s' \<and> sMarket s' = sMarket s \<and> sSequence s' = sSequence s \<and> sTrades s' = sTrades s \<and>
      (\<forall>k. bal (sLedger s') k = bal (sLedger s) k) \<and> sBook s' = sBook s"
  proof (cases "v \<ge> 5")
    case True
    then have "s' = (compactEphemeralSystemHistory s)\<lparr> sLedger := c \<rparr>"
      using assms(2) h(2) c(1) by (simp add: compactForSchema_def Let_def)
    then show ?thesis using h(1) c by (simp add: core_ok_def compactEphemeralSystemHistory_def)
  next
    case False
    then have "s' = (if v \<ge> 4 then compactEphemeralSystemHistory s else s)"
      using assms(2) by (auto simp: compactForSchema_def Let_def)
    then show ?thesis using h(1) assms(1) by (simp add: compactEphemeralSystemHistory_def)
  qed
  then show "core_ok s'" "sMarket s' = sMarket s" "sSequence s' = sSequence s" "sTrades s' = sTrades s"
    "\<And>k. bal (sLedger s') k = bal (sLedger s) k" "sBook s' = sBook s" by auto
qed

lemma trial_apply_ok:
  assumes "trial_apply cmd s = Inr (s', res, j, p)" "state_ok s" "command64 cmd"
  shows "core_ok s'" "sMarket s' = sMarket s" "sSequence s' = cmdSequence cmd" "sRequests s' = sRequests s"
proof -
  have ok: "core_ok s" "validate s = Inr ()" using assms(2) by (auto simp: state_ok_def)
  have "apply_command cmd (s\<lparr> sSequence := cmdSequence cmd \<rparr>) = Inr (s', res)"
    using assms(1) by (auto simp: trial_apply_def collect_trial_def bindE_eq_Inr)
  from apply_command_ok [OF this _ _ assms(3)] ok validate_book_indexed [OF ok(2) core_okD(3) [OF ok(1)]]
  show "core_ok s'" "sMarket s' = sMarket s" "sSequence s' = cmdSequence cmd" "sRequests s' = sRequests s" by auto
qed

lemma run_trial_InrD:
  assumes "run_trial c cmd s = Inr (t, rec, res)" "state_ok s" "command64 cmd"
  obtains t1 j p hash where
    "trial_apply cmd s = Inr (t1, res, j, p)"
    "compactForSchema CurrentSchemaVersion (if remembered cmd then remember cmd res t1 else t1) = Inr t"
    "validate t = Inr ()" "state_hash c t = Inr hash"
    "rec = \<lparr> recSchemaVersion = CurrentSchemaVersion, recMarketID = mID (sMarket s), recCommand = cmd,
       recResult = res, recJournal = j, recProjection = p, recStateHash = hash \<rparr>"
proof -
  have "clone s = Inr s" using assms(2) clone_state_ok by (simp add: state_ok_def)
  with assms(1) that show ?thesis
    by (auto simp: run_trial_def bindE_eq_Inr Let_def cloneResult_def simp del: One_nat_def)
qed

lemma run_trial_ok:
  assumes "run_trial c cmd s = Inr (t, rec, res)" "state_ok s" "command64 cmd"
  shows "state_ok t" "sSequence t = cmdSequence cmd" "sMarket t = sMarket s"
proof -
  obtain t1 j p hash where *: "trial_apply cmd s = Inr (t1, res, j, p)"
    "compactForSchema CurrentSchemaVersion (if remembered cmd then remember cmd res t1 else t1) = Inr t"
    "validate t = Inr ()"
    using run_trial_InrD [OF assms] by metis
  note A = trial_apply_ok [OF *(1) assms(2,3)]
  have "core_ok (if remembered cmd then remember cmd res t1 else t1)" using A(1) by simp
  from compactForSchema_ok [OF this *(2)] A(2,3) *(3)
  show "state_ok t" "sSequence t = cmdSequence cmd" "sMarket t = sMarket s"
    by (auto simp: state_ok_def split: if_splits)
qed

lemma validateCommandIdentity_key:
  "validateCommandIdentity cmd = Inr () \<Longrightarrow> IdempotencyKey_Validate (cmdRequestKey cmd) = Inr ()"
  by (auto simp: validateCommandIdentity_def bindE_eq_Inr)

lemma validateCommandIdentity_sequence [simp]:
  "validateCommandIdentity (cmd\<lparr> cmdSequence := n \<rparr>) = validateCommandIdentity cmd"
  unfolding validateCommandIdentity_def by (simp cong: CommandKind.case_cong option.case_cong if_cong)

text \<open>The idempotency keys that compaction keeps.\<close>

definition kept :: "IdempotencyKey \<Rightarrow> bool" where
  "kept key \<longleftrightarrow> kAccountID key \<noteq> ephemeralDemoMakerAccount \<or> kOperation key = CommandKindFund"

lemma remembered_kept: "remembered cmd = kept (cmdRequestKey cmd)"
  by (simp add: remembered_def kept_def)

lemma compactForSchema_requests:
  assumes "compactForSchema v s = Inr s'" "kept key"
  shows "fmlookup (sRequests s') key = fmlookup (sRequests s) key"
  using assms
  by (auto simp: compactForSchema_def Let_def bindE_eq_Inr compactEphemeralSystemHistory_def kept_def split: if_splits)

lemma run_trial_requests:
  assumes "run_trial c cmd s = Inr (t, rec, res)" "state_ok s" "command64 cmd" "kept key"
  shows "fmlookup (sRequests t) key =
    (if key = cmdRequestKey cmd then Some \<lparr> rqFingerprint = cmdFingerprint cmd, rqResult = res \<rparr>
     else fmlookup (sRequests s) key)"
proof -
  obtain t1 j p hash where *: "trial_apply cmd s = Inr (t1, res, j, p)"
    "compactForSchema CurrentSchemaVersion (if remembered cmd then remember cmd res t1 else t1) = Inr t"
    using run_trial_InrD [OF assms(1-3)] by metis
  show ?thesis
    using compactForSchema_requests [OF *(2) assms(4)] trial_apply_ok(4) [OF *(1) assms(2,3)] assms(4)
    by (auto simp: remember_def remembered_kept cloneResult_def)
qed

definition requests_kept :: "state \<Rightarrow> bool" where
  "requests_kept s \<longleftrightarrow> (\<forall>key. fmlookup (sRequests s) key \<noteq> None \<longrightarrow> kept key)"

lemma compact_requests_kept: "compactForSchema CurrentSchemaVersion s = Inr s' \<Longrightarrow> requests_kept s'"
  by (auto simp: compactForSchema_def CurrentSchemaVersion_def Let_def bindE_eq_Inr compactEphemeralSystemHistory_def
      requests_kept_def kept_def split: if_splits)

text \<open>A command adds to the requests of a state and drops none of them.\<close>

lemma run_trial_grows:
  assumes "run_trial c cmd s = Inr (t, rec, res)" "state_ok s" "command64 cmd" "requests_kept s"
  shows "fmdom (sRequests s) |\<subseteq>| fmdom (sRequests t)" "requests_kept t"
proof -
  show "fmdom (sRequests s) |\<subseteq>| fmdom (sRequests t)"
  proof
    fix key assume "key |\<in>| fmdom (sRequests s)"
    then obtain r where r: "fmlookup (sRequests s) key = Some r" by (auto simp: fmlookup_dom_iff)
    then have "kept key" using assms(4) by (auto simp: requests_kept_def)
    from run_trial_requests [OF assms(1-3) this] r show "key |\<in>| fmdom (sRequests t)" by (auto intro: fmdomI split: if_splits)
  qed
  show "requests_kept t" using run_trial_InrD [OF assms(1-3)] by (metis compact_requests_kept)
qed

section \<open>The log and the state\<close>

text \<open>A record of the log: its replay gives the state, and its hash is one of those of the state.\<close>

definition replayed :: "'b Codec \<Rightarrow> Market \<Rightarrow> Record \<Rightarrow> state \<Rightarrow> state \<Rightarrow> bool" where
  "replayed c m rec s t \<longleftrightarrow>
     replay_trial m rec s = Inr t \<and> validate t = Inr () \<and> hashes_to c t (recStateHash rec) \<and>
     fmdom (sRequests s) |\<subseteq>| fmdom (sRequests t)"

fun replays :: "'b Codec \<Rightarrow> Market \<Rightarrow> Record list \<Rightarrow> state \<Rightarrow> state \<Rightarrow> bool" where
  "replays c m [] s t \<longleftrightarrow> t = s"
| "replays c m (rec # recs) s t \<longleftrightarrow> (\<exists>u. replayed c m rec s u \<and> replays c m recs u t)"

lemma replays_append: "replays c m (recs @ recs') s t \<longleftrightarrow> (\<exists>u. replays c m recs s u \<and> replays c m recs' u t)"
  by (induction recs arbitrary: s) auto

lemma replays_snoc: "replays c m recs s u \<Longrightarrow> replayed c m rec u t \<Longrightarrow> replays c m (recs @ [rec]) s t"
  by (auto simp: replays_append)

lemma replayed_rewalk [simp]: "replayed (rewalk w c) m rec s t = replayed c m rec s t"
  by (simp add: replayed_def)

lemma replays_rewalk [simp]: "replays (rewalk w c) m recs s t = replays c m recs s t"
  by (induction recs arbitrary: s) simp_all

lemma replays_grow: "replays c m recs s t \<Longrightarrow> fmdom (sRequests s) |\<subseteq>| fmdom (sRequests t)"
  by (induction recs arbitrary: s) (auto simp: replayed_def)

text \<open>A replay that verifies succeeds, or meets a hash that it does not find again; this takes two
  requests with the same key string.\<close>

lemma verify_replayed:
  assumes "replayed c m rec s t" "codec_ok c"
  shows "replay_record c m True rec s = Inr t \<or>
    \<not> keys_apart t \<and> replay_record c m True rec s = Inl ErrRecoveryDiverged"
proof -
  obtain h where h: "state_hash c t = Inr h" using hash_total [OF assms(2)] by blast
  have "h = recStateHash rec" if "keys_apart t"
    using hashes_to_unique [OF _ that assms(2)] assms(1) h by (auto simp: replayed_def)
  with assms(1) h show ?thesis by (auto simp: replayed_def replay_record_def)
qed

lemma verify_replays:
  assumes "replays c m recs s t" "codec_ok c"
  shows "foldE (replay_record c m True) recs s = Inr t \<or>
    \<not> keys_apart t \<and> foldE (replay_record c m True) recs s = Inl ErrRecoveryDiverged"
  using assms(1)
proof (induction recs arbitrary: s)
  case (Cons rec recs)
  then obtain u where u: "replayed c m rec s u" "replays c m recs u t" by auto
  have "keys_apart t \<Longrightarrow> keys_apart u" using keys_apart_mono [OF _ replays_grow [OF u(2)]] .
  then show ?case using verify_replayed [OF u(1) assms(2)] Cons.IH [OF u(2)] by auto
qed simp

text \<open>The record that a command writes is replayed to the state that the command left.\<close>

lemma replay_run_trial:
  assumes "run_trial c cmd s = Inr (t, rec, res)" "state_ok s" "command64 cmd"
    and "cmdSequence cmd = sSequence s + 1" "cmdFingerprint cmd \<noteq> []"
    and "kMarketID (cmdRequestKey cmd) = mID (sMarket s)" "validateCommandIdentity cmd = Inr ()"
    and "cmdRequestKey cmd |\<notin>| fmdom (sRequests s)" "requests_kept s" "codec_ok c"
  shows "replayed c (sMarket s) rec s t"
proof -
  obtain t1 j p hash where *: "trial_apply cmd s = Inr (t1, res, j, p)"
    "compactForSchema CurrentSchemaVersion (if remembered cmd then remember cmd res t1 else t1) = Inr t"
    "validate t = Inr ()" "state_hash c t = Inr hash"
    "rec = \<lparr> recSchemaVersion = CurrentSchemaVersion, recMarketID = mID (sMarket s), recCommand = cmd,
       recResult = res, recJournal = j, recProjection = p, recStateHash = hash \<rparr>"
    using run_trial_InrD [OF assms(1-3)] by metis
  obtain tr where tr: "apply_command cmd (s\<lparr> sSequence := cmdSequence cmd \<rparr>) = Inr tr"
    "collect_trial cmd (JournalLen (sLedger s)) tr = Inr (t1, res, j, p)"
    using *(1) by (auto simp: trial_apply_def bindE_eq_Inr)
  have "clone s = Inr s" using assms(2) clone_state_ok by (simp add: state_ok_def)
  then have "replay_trial (sMarket s) rec s = Inr t"
    using assms(4-8) tr *(2-4) validateCommandIdentity_key [OF assms(7)]
    by (simp add: replay_trial_def *(5) Let_def schema_versions)
  then show ?thesis
    using *(3-5) hashes_to_own [OF assms(10)] run_trial_grows(1) [OF assms(1-3,9)] by (simp add: replayed_def)
qed

definition snapshot_ok :: "'b Codec \<Rightarrow> Market \<Rightarrow> Record list \<Rightarrow> state \<Rightarrow> 'b Snapshot \<Rightarrow> bool" where
  "snapshot_ok c m recs s sn \<longleftrightarrow>
     (\<exists>sk payload w. state_ok sk \<and> sMarket sk = m \<and> permutes w \<and> marshal (rewalk w c) sk = Inr payload \<and>
        sn = \<lparr> snSchemaVersion = CurrentSchemaVersion, snMarketID = mID m, snSequence = sSequence sk,
               snStateHash = cSum c payload, snPayload = payload \<rparr> \<and>
        sSequence sk \<le> length recs \<and> replays c m (drop (sSequence sk) recs) sk s)"

definition log_ok :: "'b Codec \<Rightarrow> Market \<Rightarrow> Record list \<Rightarrow> 'b Snapshot option \<Rightarrow> state \<Rightarrow> bool" where
  "log_ok c m recs sn s \<longleftrightarrow>
     state_ok s \<and> sMarket s = m \<and> length recs = sSequence s \<and>
     (\<forall>rec \<in> set recs. recSchemaVersion rec = CurrentSchemaVersion \<and> recMarketID rec = mID m) \<and>
     (\<exists>s0. newState m = Inr s0 \<and> replays c m recs s0 s) \<and>
     (\<forall>x. sn = Some x \<longrightarrow> snapshot_ok c m recs s x) \<and> requests_kept s"

lemma log_ok_rewalk [simp]: "log_ok (rewalk w c) m recs sn s = log_ok c m recs sn s"
  by (simp add: log_ok_def snapshot_ok_def)

lemma log_okD:
  assumes "log_ok c m recs sn s"
  shows "state_ok s" "sMarket s = m" "length recs = sSequence s"
    "\<forall>rec \<in> set recs. recSchemaVersion rec = CurrentSchemaVersion \<and> recMarketID rec = mID m"
    "\<exists>s0. newState m = Inr s0 \<and> replays c m recs s0 s"
    "\<And>x. sn = Some x \<Longrightarrow> snapshot_ok c m recs s x" "requests_kept s"
  using assms unfolding log_ok_def by blast+

text \<open>Records of the current schema are replayed one by one, each with its state verified.\<close>

lemma replay_step_current:
  assumes "recSchemaVersion rec = CurrentSchemaVersion" "recMarketID rec = mID m" "a = 0 \<or> a = CurrentSchemaVersion"
  shows "replay c m (rec # recs) s a =
    bindE (replay_record c m True rec s) (\<lambda>s'. replay c m recs s' CurrentSchemaVersion)"
proof -
  have "(if a = 0 then CurrentSchemaVersion else a) = CurrentSchemaVersion" using assms(3) by auto
  then show ?thesis
    by (simp only: replay.simps assms(1,2) supportedSchemaVersion_def Let_def simp_thms if_True if_False
        less_irrefl bindE_simps)
qed

lemma replay_current:
  assumes "\<forall>rec \<in> set recs. recSchemaVersion rec = CurrentSchemaVersion \<and> recMarketID rec = mID m"
    and "a = 0 \<or> a = CurrentSchemaVersion"
  shows "replay c m recs s a = bindE (foldE (replay_record c m True) recs s)
    (\<lambda>s'. Inr (s', if recs = [] then a else CurrentSchemaVersion))"
  using assms
proof (induction recs arbitrary: s a)
  case (Cons rec recs)
  have "replay c m (rec # recs) s a = bindE (replay_record c m True rec s)
      (\<lambda>s'. replay c m recs s' CurrentSchemaVersion)"
    using Cons.prems by (intro replay_step_current) auto
  moreover have "replay c m recs s' CurrentSchemaVersion = bindE (foldE (replay_record c m True) recs s')
      (\<lambda>s''. Inr (s'', CurrentSchemaVersion))" for s'
  proof -
    have "\<forall>rec \<in> set recs. recSchemaVersion rec = CurrentSchemaVersion \<and> recMarketID rec = mID m"
      using Cons.prems(1) by simp
    from Cons.IH [OF this, where a = CurrentSchemaVersion and s = s'] show ?thesis by (simp only: if_cancel simp_thms)
  qed
  ultimately show ?case by (cases "replay_record c m True rec s") (simp_all del: replay.simps)
qed simp

lemma log_ok_append:
  assumes "log_ok c m recs sn s" "state_ok t" "sMarket t = m" "sSequence t = sSequence s + 1" "requests_kept t"
    and "replayed c m rec s t" "recSchemaVersion rec = CurrentSchemaVersion" "recMarketID rec = mID m"
  shows "log_ok c m (recs @ [rec]) sn t"
proof -
  note L = log_okD [OF assms(1)]
  have "snapshot_ok c m (recs @ [rec]) t x" if "sn = Some x" for x
    using L(6) [OF that] replays_snoc [OF _ assms(6)] unfolding snapshot_ok_def by fastforce
  moreover have "\<exists>s0. newState m = Inr s0 \<and> replays c m (recs @ [rec]) s0 t"
    using L(5) replays_snoc [OF _ assms(6)] by blast
  ultimately show ?thesis using L(3,4) assms(2-5,7,8) by (auto simp: log_ok_def)
qed

lemma log_ok_save:
  assumes "log_ok c m recs sn s" "permutes w" "marshal (rewalk w c) s = Inr payload"
  shows "log_ok c m recs (Some \<lparr> snSchemaVersion = CurrentSchemaVersion, snMarketID = mID m,
      snSequence = sSequence s, snStateHash = cSum c payload, snPayload = payload \<rparr>) s"
proof -
  note L = log_okD [OF assms(1)]
  have "snapshot_ok c m recs s \<lparr> snSchemaVersion = CurrentSchemaVersion, snMarketID = mID m,
      snSequence = sSequence s, snStateHash = cSum c payload, snPayload = payload \<rparr>"
    unfolding snapshot_ok_def using L(1-3) assms(2,3) by (intro exI [of _ s] exI [of _ payload] exI [of _ w]) simp
  then show ?thesis using L by (simp add: log_ok_def)
qed

lemma restore_snapshot_ok:
  assumes "codec_ok c" "state_ok s" "permutes w" "marshal (rewalk w c) s = Inr payload" "sMarket s = m"
    and sn: "sn = \<lparr> snSchemaVersion = CurrentSchemaVersion, snMarketID = mID m,
      snSequence = sSequence s, snStateHash = cSum c payload, snPayload = payload \<rparr>"
  shows "restore_snapshot c m sn = Inr (s, CurrentSchemaVersion) \<or>
    \<not> keys_apart s \<and> restore_snapshot c m sn = Inl ErrRecoveryDiverged"
proof -
  obtain data where "cMarshal c (persisted w s) = Inr data" "cUnmarshal c data = Inr (persisted w s)"
    using assms(1) unfolding codec_ok_def by blast
  then have u: "unmarshalState c payload = Inr s"
    using assms(4) stateFromPersisted_persisted [OF assms(2,3)] by (simp add: unmarshalState_def marshal_def)
  obtain h where h: "state_hash c s = Inr h" using hash_total [OF assms(1)] by blast
  have "hashes_to c s (cSum c payload)" using assms(3,4) by (auto simp: hashes_to_def state_hash_def)
  then have "keys_apart s \<Longrightarrow> h = cSum c payload" using hashes_to_unique [OF _ _ assms(1)] h by auto
  then show ?thesis using u h assms(5) by (auto simp: restore_snapshot_def supportedSchemaVersion_def sn)
qed

section \<open>The exchange over any event log\<close>

locale exchange_log = event_log es ss log saved
  for es :: "'s EventStore" and ss :: "('s, 'b) SnapshotStore"
    and log :: "'s \<Rightarrow> Record list" and saved :: "'s \<Rightarrow> 'b Snapshot option" +
  fixes c :: "'b Codec" and market :: Market
  assumes codec: "codec_ok c" and valid_market: "market_ok market"
begin

text \<open>The environment of a call, in which the requests are walked in the order \<open>w\<close> and the context has
  the error \<open>late\<close> when the store is called.\<close>

abbreviation env_of :: "walk \<Rightarrow> ctx \<Rightarrow> ('s, 'b) Env" where
  "env_of w late \<equiv> \<lparr> enEventLog = es, enSnapshots = ss, enCodec = rewalk w c, enLate = late \<rparr>"

abbreviation env :: "('s, 'b) Env" where
  "env \<equiv> \<lparr> enEventLog = es, enSnapshots = ss, enCodec = c, enLate = None \<rparr>"

lemma call_env_of [simp]: "call_env w late (env_of w' late') = env_of w late" "call_env w late env = env_of w late"
  by (simp_all add: call_env_def)

lemma env_own: "env = env_of (cWalk c) None"
  by simp

lemma walk_own: "permutes (cWalk c)"
  using codec by (simp add: codec_ok_def)

abbreviation consistent :: "'s exchange \<Rightarrow> bool" where
  "consistent x \<equiv> log_ok c market (log (fst x)) (saved (fst x)) (snd x)"

lemma consistent_new:
  assumes "Exchange_New market (Some es) (Some ss) st = Inr x" "log st = []" "saved st = None"
  shows "consistent x"
proof -
  obtain s where "newState market = Inr s" "state_ok s" "sMarket s = market" "sSequence s = 0"
    using newState_ok [OF valid_market] by blast
  moreover have "requests_kept s" using newState_ok [OF valid_market] \<open>newState market = Inr s\<close> by (auto simp: requests_kept_def)
  ultimately show ?thesis using assms by (auto simp: Exchange_New_def log_ok_def)
qed

lemma consistent_run:
  assumes "consistent x" "command64 cmd" "cmdFingerprint cmd \<noteq> []" "permutes w"
  shows "consistent (fst (runLocked (env_of w late) ctx cmd x))"
proof -
  obtain st s where x: "x = (st, s)" by (cases x)
  note L = log_okD [OF assms(1) [unfolded x fst_conv snd_conv]]
  let ?cmd = "cmd\<lparr> cmdSequence := sSequence s + 1 \<rparr>" and ?c = "rewalk w c"
  show ?thesis
  proof (cases "ctx = None \<and> validateCommandIdentity cmd = Inr () \<and> kMarketID (cmdRequestKey cmd) = mID (sMarket s) \<and>
      fmlookup (sRequests s) (cmdRequestKey cmd) = None \<and> (\<exists>y. run_trial ?c ?cmd s = Inr y)")
    case False
    then have "fst (runLocked (env_of w late) ctx cmd x) = x"
      by (auto simp: runLocked_def x Let_def split: option.splits sum.splits)
    then show ?thesis using assms(1) by simp
  next
    case True
    then obtain t rec res where run: "run_trial ?c ?cmd s = Inr (t, rec, res)" by auto
    have c64: "command64 ?cmd" using assms(2) by (simp add: command64_def)
    note R = run_trial_ok [OF run L(1) c64]
    have rec: "recSchemaVersion rec = CurrentSchemaVersion" "recMarketID rec = mID market"
      using run_trial_InrD [OF run L(1) c64] L(2) by (metis Record.select_convs(1), metis Record.select_convs(2))
    have re: "replayed c market rec s t"
      using replay_run_trial [OF run L(1) c64] True assms(3) L(2,7) codec_ok_rewalk [OF codec assms(4)] by (simp add: fmdom_notI)
    have kt: "requests_kept t" by (rule run_trial_grows(2) [OF run L(1) c64 L(7)])
    obtain st' r where app: "esAppend es late (sSequence s) rec st = (st', r)" by (cases "esAppend es late (sSequence s) rec st")
    show ?thesis
    proof (cases r)
      case (Inl e)
      with append_error app have "st' = st" by blast
      then show ?thesis using True run app Inl assms(1) by (simp add: runLocked_def x)
    next
      case (Inr u)
      with append_ok [of late "sSequence s" rec st st'] app have "log st' = log st @ [rec]" "saved st' = saved st" by auto
      then show ?thesis using True run app Inr log_ok_append [OF assms(1) [unfolded x fst_conv snd_conv] R(1) _ _ kt re rec] R L(2)
        by (simp add: runLocked_def x)
    qed
  qed
qed

lemma consistent_Fund: "consistent x \<Longrightarrow> in64 (fAmount r) \<Longrightarrow> permutes w \<Longrightarrow> consistent (fst (Fund (env_of w late) ctx r x))"
  using codec by (auto simp: Fund_def codec_ok_def bindE_def fund_command_def command64_def
      intro!: consistent_run split: sum.splits)

lemma consistent_Submit: "consistent x \<Longrightarrow> request64 r \<Longrightarrow> permutes w \<Longrightarrow> consistent (fst (Submit (env_of w late) ctx r x))"
  using codec by (auto simp: Submit_def codec_ok_def bindE_def submit_command_def command64_def
      intro!: consistent_run split: sum.splits)

lemma consistent_Cancel: "consistent x \<Longrightarrow> permutes w \<Longrightarrow> consistent (fst (Cancel (env_of w late) ctx r x))"
  using codec by (auto simp: Cancel_def codec_ok_def bindE_def cancel_command_def command64_def
      intro!: consistent_run split: sum.splits)

lemma consistent_SaveSnapshot:
  assumes "consistent x" "permutes w"
  shows "consistent (fst (SaveSnapshot (env_of w late) ctx x))"
proof -
  obtain st s where x: "x = (st, s)" by (cases x)
  note L = log_okD [OF assms(1) [unfolded x fst_conv snd_conv]]
  obtain payload where p: "marshal (rewalk w c) s = Inr payload"
    using codec by (metis codec_ok_def marshal_def rewalk_simps(2))
  let ?sn = "\<lparr> snSchemaVersion = CurrentSchemaVersion, snMarketID = mID market,
      snSequence = sSequence s, snStateHash = cSum c payload, snPayload = payload \<rparr>"
  obtain st' r where sv: "ssSave ss ctx ?sn st = (st', r)" by (cases "ssSave ss ctx ?sn st")
  show ?thesis
  proof (cases r)
    case (Inl e)
    with save_error sv have "st' = st" by blast
    then show ?thesis using sv p Inl assms(1) L(2) by (simp add: SaveSnapshot_def x Let_def)
  next
    case (Inr u)
    with save_ok [of ctx ?sn st st'] sv have "saved st' = Some ?sn" "log st' = log st" by auto
    then show ?thesis using sv p Inr log_ok_save [OF assms(1) [unfolded x fst_conv snd_conv] assms(2) p] L(2)
      by (simp add: SaveSnapshot_def x Let_def)
  qed
qed

text \<open>Recovery gives back the state that was lost, and leaves the store alone. It fails only when a
  read fails, as it can when its context ends, or with a divergence when two requests have the
  same key string.\<close>

abbreviation restore :: "walk \<Rightarrow> ctx \<Rightarrow> 's \<Rightarrow> 's \<times> 's exchange res" where
  "restore w ctx \<equiv> Restore ctx market (Some es) (Some ss) (rewalk w c)"

lemma replay_log:
  assumes "\<forall>rec \<in> set recs. recSchemaVersion rec = CurrentSchemaVersion \<and> recMarketID rec = mID market"
    and "replays c market recs s t" "a = 0 \<or> a = CurrentSchemaVersion" "permutes w"
  shows "replay (rewalk w c) market recs s a = Inr (t, if recs = [] then a else CurrentSchemaVersion) \<or>
    \<not> keys_apart t \<and> replay (rewalk w c) market recs s a = Inl ErrRecoveryDiverged"
  using verify_replays [of "rewalk w c" market recs s t] assms(2) codec_ok_rewalk [OF codec assms(4)]
    replay_current [OF assms(1,3), of "rewalk w c" s] by auto

lemma Restore_reads:
  assumes "consistent x" "permutes w" "ssLoad ss ctx (fst x) = Inr (saved (fst x))"
    and "\<And>n. n \<le> length (log (fst x)) \<Longrightarrow> esRecordsAfter es ctx n (fst x) = Inr (drop n (log (fst x))) \<or>
      (\<exists>e. esRecordsAfter es ctx n (fst x) = Inl e)"
  shows "restore w ctx (fst x) = (fst x, Inr x) \<or>
    \<not> keys_apart (snd x) \<and> restore w ctx (fst x) = (fst x, Inl ErrRecoveryDiverged) \<or>
    (\<exists>e n. esRecordsAfter es ctx n (fst x) = Inl e \<and> n \<le> length (log (fst x)) \<and>
      restore w ctx (fst x) = (fst x, Inl e))"
proof -
  obtain st s where x: "x = (st, s)" by (cases x)
  note L = log_okD [OF assms(1) [unfolded x fst_conv snd_conv]]
  obtain s0 where s0: "newState market = Inr s0" "replays c market (log st) s0 s"
    using L(5) by blast
  have seq0: "sSequence s0 = 0" using newState_ok [OF valid_market] s0(1) by auto
  have load: "ssLoad ss ctx st = Inr (saved st)" using assms(3) x by simp
  note rd = assms(4) [unfolded x fst_conv]
  show ?thesis
  proof (cases "saved st")
    case None
    note R = replay_log [OF L(4) s0(2) _ assms(2), of 0]
    show ?thesis using s0(1) load None seq0 rd [of 0] R by (auto simp: Restore_def x split: if_splits)
  next
    case (Some sn)
    obtain sk payload w' where k: "state_ok sk" "permutes w'" "marshal (rewalk w' c) sk = Inr payload" "sMarket sk = market"
        "sn = \<lparr> snSchemaVersion = CurrentSchemaVersion, snMarketID = mID market, snSequence = sSequence sk,
               snStateHash = cSum c payload, snPayload = payload \<rparr>"
        "sSequence sk \<le> length (log st)" "replays c market (drop (sSequence sk) (log st)) sk s"
      using L(6) [OF Some] unfolding snapshot_ok_def by blast
    have "\<forall>rec \<in> set (drop (sSequence sk) (log st)).
        recSchemaVersion rec = CurrentSchemaVersion \<and> recMarketID rec = mID market"
      using L(4) by (auto dest: in_set_dropD)
    note R = replay_log [OF this k(7) _ assms(2), of CurrentSchemaVersion]
    have S: "restore_snapshot (rewalk w c) market sn = Inr (sk, CurrentSchemaVersion) \<or>
        \<not> keys_apart sk \<and> restore_snapshot (rewalk w c) market sn = Inl ErrRecoveryDiverged"
      by (rule restore_snapshot_ok [OF codec_ok_rewalk [OF codec assms(2)] k(1,2) _ k(4)]) (use k(3,5) in simp_all)
    have "keys_apart s \<Longrightarrow> keys_apart sk" using keys_apart_mono [OF _ replays_grow [OF k(7)]] .
    note K = this S R s0(1) load Some
    from rd [OF k(6)] show ?thesis
    proof
      assume "esRecordsAfter es ctx (sSequence sk) st = Inr (drop (sSequence sk) (log st))"
      with K show ?thesis by (auto simp: Restore_def x)
    next
      assume "\<exists>e. esRecordsAfter es ctx (sSequence sk) st = Inl e"
      then obtain e where e: "esRecordsAfter es ctx (sSequence sk) st = Inl e" ..
      with K have "restore w ctx st = (st, Inl e) \<or> \<not> keys_apart s \<and> restore w ctx st = (st, Inl ErrRecoveryDiverged)"
        by (auto simp: Restore_def)
      with e k(6) show ?thesis unfolding x fst_conv snd_conv by blast
    qed
  qed
qed

lemma Restore_exact:
  assumes "consistent x" "permutes w"
  shows "restore w None (fst x) = (fst x, Inr x) \<or>
    \<not> keys_apart (snd x) \<and> restore w None (fst x) = (fst x, Inl ErrRecoveryDiverged)"
  using Restore_reads [OF assms, of None] load records_after by auto

lemma Restore_any:
  assumes "consistent x" "permutes w"
  shows "restore w ctx (fst x) = (fst x, Inr x) \<or> (\<exists>e. restore w ctx (fst x) = (fst x, Inl e))"
proof (cases "ssLoad ss ctx (fst x)")
  case (Inl e)
  then show ?thesis using newState_ok [OF valid_market] by (auto simp: Restore_def)
next
  case (Inr sn)
  then have "ssLoad ss ctx (fst x) = Inr (saved (fst x))" using load_read by blast
  from Restore_reads [OF assms this] show ?thesis using records_read by (metis sum.exhaust)
qed

end

section \<open>Steps of the exchange\<close>

text \<open>
  A step is a call of an operation with any context, at any order in which it walks the requests and
  any request in the range of its types, whatever it returns, or a crash followed by recovery
  from the store. The context may end in the middle of the call.
\<close>

inductive exchange_step :: "('s, 'b) Env \<Rightarrow> Market \<Rightarrow> 's exchange \<Rightarrow> 's exchange \<Rightarrow> bool"
  for env :: "('s, 'b) Env" and market :: Market where
  step_fund: "in64 (fAmount r) \<Longrightarrow> permutes w \<Longrightarrow> exchange_step env market x (fst (Fund (call_env w late env) ctx r x))"
| step_submit: "request64 n \<Longrightarrow> permutes w \<Longrightarrow> exchange_step env market x (fst (Submit (call_env w late env) ctx n x))"
| step_cancel: "permutes w \<Longrightarrow> exchange_step env market x (fst (Cancel (call_env w late env) ctx k x))"
| step_snapshot: "permutes w \<Longrightarrow> exchange_step env market x (fst (SaveSnapshot (call_env w late env) ctx x))"
| step_restart: "permutes w \<Longrightarrow>
    Restore ctx market (Some (enEventLog env)) (Some (enSnapshots env)) (rewalk w (enCodec env)) (fst x) = (st, Inr x') \<Longrightarrow>
    exchange_step env market x x'"

inductive_cases exchange_stepE: "exchange_step env market x y"

definition reachable :: "('s, 'b) Env \<Rightarrow> Market \<Rightarrow> 's \<Rightarrow> 's exchange \<Rightarrow> bool" where
  "reachable env market st x \<longleftrightarrow>
     (\<exists>x0. Exchange_New market (Some (enEventLog env)) (Some (enSnapshots env)) st = Inr x0 \<and>
       (exchange_step env market)\<^sup>*\<^sup>* x0 x)"

text \<open>What a call of \<open>runLocked\<close> can do.\<close>

lemma runLocked_cases:
  assumes "runLocked env ctx cmd (st, s) = (x', r)"
  obtains (refused) e where "r = Inl e" "x' = (st, s)"
  | (append_failed) st' rec e n where "x' = (st', s)" "esAppend (enEventLog env) (enLate env) n rec st = (st', Inl e)"
      "r = Inl (ErrJoin ErrPersistence e)"
  | (repeated) previous where "fmlookup (sRequests s) (cmdRequestKey cmd) = Some previous"
      "rqFingerprint previous = cmdFingerprint cmd" "r = Inr (rqResult previous)" "x' = (st, s)"
  | (committed) st' t rec res where "fmlookup (sRequests s) (cmdRequestKey cmd) = None"
      "run_trial (enCodec env) (cmd\<lparr> cmdSequence := sSequence s + 1 \<rparr>) s = Inr (t, rec, res)"
      "esAppend (enEventLog env) (enLate env) (sSequence s) rec st = (st', Inr ())" "x' = (st', t)" "r = Inr res"
  using assms
  by (auto simp: runLocked_def Let_def cloneResult_def split: option.splits if_splits sum.splits prod.splits)

section \<open>Consistency, atomicity and idempotency of every run\<close>

context exchange_log
begin

lemma restarted:
  assumes "restore w ctx (fst x) = (st, Inr x')" "consistent x" "permutes w"
  shows "x' = x"
  using Restore_any [OF assms(2,3), of ctx] assms(1) by auto

lemma consistent_step:
  assumes "exchange_step env market x y" "consistent x"
  shows "consistent y"
  using assms(1)
proof cases
  case (step_restart w ctx st)
  then show ?thesis using restarted [of ctx w x st y] assms(2) by simp
qed (use assms(2) in \<open>auto simp: consistent_Fund consistent_Submit consistent_Cancel consistent_SaveSnapshot\<close>)

lemma consistent_steps: "(exchange_step env market)\<^sup>*\<^sup>* x y \<Longrightarrow> consistent x \<Longrightarrow> consistent y"
  by (induction rule: rtranclp_induct) (auto dest: consistent_step)

lemma reachable_consistent:
  assumes "reachable env market st x" "log st = []" "saved st = None"
  shows "consistent x"
  using assms consistent_new consistent_steps by (auto simp: reachable_def)

lemma run_failed: "runLocked (env_of w late) ctx cmd x = (x', Inl e) \<Longrightarrow> x' = x"
  by (cases x) (auto elim!: runLocked_cases dest: append_error)

lemma call_failed:
  "Fund (env_of w late) ctx r x = (x', Inl e) \<Longrightarrow> x' = x" "Submit (env_of w late) ctx n x = (x', Inl e) \<Longrightarrow> x' = x"
  "Cancel (env_of w late) ctx k x = (x', Inl e) \<Longrightarrow> x' = x"
  by (auto simp: Fund_def Submit_def Cancel_def split: sum.splits dest: run_failed)

lemma run_requests:
  assumes "consistent x" "command64 cmd" "kept key" "fmlookup (sRequests (snd x)) key = Some q"
  shows "fmlookup (sRequests (snd (fst (runLocked (env_of w late) ctx cmd x)))) key = Some q"
proof -
  obtain st s where x: "x = (st, s)" by (cases x)
  note L = log_okD [OF assms(1) [unfolded x fst_conv snd_conv]]
  obtain x' r where run: "runLocked (env_of w late) ctx cmd (st, s) = (x', r)" by (cases "runLocked (env_of w late) ctx cmd (st, s)")
  from run have "fmlookup (sRequests (snd x')) key = Some q"
  proof (cases rule: runLocked_cases)
    case (committed st' t rec res)
    have "command64 (cmd\<lparr> cmdSequence := sSequence s + 1 \<rparr>)" using assms(2) by (simp add: command64_def)
    moreover have "run_trial (rewalk w c) (cmd\<lparr> cmdSequence := sSequence s + 1 \<rparr>) s = Inr (t, rec, res)" using committed(2) by simp
    ultimately show ?thesis using run_trial_requests [OF _ L(1) _ assms(3)] committed assms(4) x by fastforce
  qed (use assms(4) x in auto)
  with run x show ?thesis by simp
qed

lemma call_requests:
  assumes "consistent x" "kept key" "fmlookup (sRequests (snd x)) key = Some q"
  shows "in64 (fAmount r) \<Longrightarrow> fmlookup (sRequests (snd (fst (Fund (env_of w late) ctx r x)))) key = Some q"
    "request64 n \<Longrightarrow> fmlookup (sRequests (snd (fst (Submit (env_of w late) ctx n x)))) key = Some q"
    "fmlookup (sRequests (snd (fst (Cancel (env_of w late) ctx k x)))) key = Some q"
    "fmlookup (sRequests (snd (fst (SaveSnapshot (env_of w late) ctx x)))) key = Some q"
  using assms run_requests [OF assms(1) _ assms(2,3)]
  by (auto simp: Fund_def Submit_def Cancel_def SaveSnapshot_def fund_command_def submit_command_def
      cancel_command_def command64_def Let_def split: sum.splits prod.splits)

lemma step_requests:
  assumes "exchange_step env market x y" "consistent x" "kept key" "fmlookup (sRequests (snd x)) key = Some q"
  shows "fmlookup (sRequests (snd y)) key = Some q"
  using assms(1)
proof cases
  case (step_restart w ctx st)
  then show ?thesis using restarted [of ctx w x st y] assms(2,4) by simp
qed (use call_requests [OF assms(2-4)] in auto)

lemma steps_requests:
  assumes "(exchange_step env market)\<^sup>*\<^sup>* x y" "consistent x" "kept key" "fmlookup (sRequests (snd x)) key = Some q"
  shows "fmlookup (sRequests (snd y)) key = Some q"
  using assms(1)
proof (induction rule: rtranclp_induct)
  case (step y z)
  then show ?case using step_requests [OF step.hyps(2) consistent_steps [OF step.hyps(1) assms(2)] assms(3)] by simp
qed (use assms(4) in simp)

lemma run_remembers:
  assumes "consistent x" "command64 cmd" "cmdFingerprint cmd \<noteq> []" "kept (cmdRequestKey cmd)"
    and "runLocked (env_of w late) ctx cmd x = (y, Inr res)"
  shows "fmlookup (sRequests (snd y)) (cmdRequestKey cmd) = Some \<lparr> rqFingerprint = cmdFingerprint cmd, rqResult = res \<rparr>"
    and "validateCommandIdentity cmd = Inr ()" "kMarketID (cmdRequestKey cmd) = mID market"
proof -
  obtain st s where x: "x = (st, s)" by (cases x)
  note L = log_okD [OF assms(1) [unfolded x fst_conv snd_conv]]
  from assms(5) L(2) x show "validateCommandIdentity cmd = Inr ()" "kMarketID (cmdRequestKey cmd) = mID market"
    by (auto simp: runLocked_def split: option.splits if_splits)
  from assms(5) [unfolded x]
  show "fmlookup (sRequests (snd y)) (cmdRequestKey cmd) = Some \<lparr> rqFingerprint = cmdFingerprint cmd, rqResult = res \<rparr>"
  proof (cases rule: runLocked_cases)
    case (repeated previous)
    then show ?thesis by (cases previous) auto
  next
    case (committed st' t rec res')
    have "command64 (cmd\<lparr> cmdSequence := sSequence s + 1 \<rparr>)" using assms(2) by (simp add: command64_def)
    moreover have "run_trial (rewalk w c) (cmd\<lparr> cmdSequence := sSequence s + 1 \<rparr>) s = Inr (t, rec, res')" using committed(2) by simp
    ultimately show ?thesis using run_trial_requests [OF _ L(1) _ assms(4)] committed by fastforce
  qed auto
qed

text \<open>A command that succeeded is answered from memory ever after, and a different command under
  its key is refused.\<close>

lemma run_repeated:
  assumes "consistent x" "command64 cmd" "cmdFingerprint cmd \<noteq> []" "kept (cmdRequestKey cmd)"
    and "runLocked (env_of w late) ctx cmd x = (y, Inr res)" "(exchange_step env market)\<^sup>*\<^sup>* y z" "permutes w"
    and "cmdRequestKey cmd' = cmdRequestKey cmd" "validateCommandIdentity cmd' = Inr ()"
  shows "runLocked (env_of w' late') None cmd' z =
    (z, if cmdFingerprint cmd' = cmdFingerprint cmd then Inr res else Inl ErrIdempotencyConflict)"
proof -
  note R = run_remembers [OF assms(1-5)]
  have y: "consistent y" using consistent_run [OF assms(1-3,7), of late ctx] assms(5) by simp
  have "fmlookup (sRequests (snd z)) (cmdRequestKey cmd) = Some \<lparr> rqFingerprint = cmdFingerprint cmd, rqResult = res \<rparr>"
    by (rule steps_requests [OF assms(6) y assms(4) R(1)])
  moreover have "sMarket (snd z) = market" using log_okD(2) [OF consistent_steps [OF assms(6) y]] .
  ultimately show ?thesis using R(2,3) assms(8,9) by (cases z) (simp add: runLocked_def cloneResult_def)
qed

end

section \<open>Requests are executed once\<close>

lemma command_identity [simp]:
  "validateCommandIdentity (fund_command mk fp r) = Inr () \<longleftrightarrow>
     IdempotencyKey_Validate (NewIdempotencyKey mk (fAccountID r) CommandKindFund (fRequestID r)) = Inr ()"
  "validateCommandIdentity (submit_command mk fp n) = Inr () \<longleftrightarrow>
     IdempotencyKey_Validate (NewIdempotencyKey mk (nAccountID n) CommandKindSubmitOrder (nClientOrderID n)) = Inr ()"
  "validateCommandIdentity (cancel_command mk fp k) = Inr () \<longleftrightarrow>
     IdempotencyKey_Validate (NewIdempotencyKey mk (cAccountID k) CommandKindCancelOrder (cRequestID k)) = Inr ()"
  by (auto simp: validateCommandIdentity_def fund_command_def submit_command_def cancel_command_def
      NewIdempotencyKey_def IdempotencyKey_Validate_def bindE_eq_Inr split: if_splits)

lemma command_key [simp]:
  "cmdRequestKey (fund_command mk fp r) = NewIdempotencyKey mk (fAccountID r) CommandKindFund (fRequestID r)"
  "cmdRequestKey (submit_command mk fp n) =
     NewIdempotencyKey mk (nAccountID n) CommandKindSubmitOrder (nClientOrderID n)"
  "cmdRequestKey (cancel_command mk fp k) =
     NewIdempotencyKey mk (cAccountID k) CommandKindCancelOrder (cRequestID k)"
  "cmdFingerprint (fund_command mk fp r) = fp" "cmdFingerprint (submit_command mk fp n) = fp"
  "cmdFingerprint (cancel_command mk fp k) = fp"
  by (simp_all add: fund_command_def submit_command_def cancel_command_def)

lemma command64_calls [simp]:
  "command64 (fund_command mk fp r) = in64 (fAmount r)" "command64 (submit_command mk fp n) = request64 n"
  "command64 (cancel_command mk fp k)"
  by (simp_all add: command64_def fund_command_def submit_command_def cancel_command_def)

context exchange_log
begin

lemma Fund_once:
  assumes "consistent x" "in64 (fAmount r)" "Fund (env_of w late) ctx r x = (y, Inr res)" "(exchange_step env market)\<^sup>*\<^sup>* y z" "permutes w"
    and "fAccountID r' = fAccountID r" "fRequestID r' = fRequestID r"
    and "FundRequest_Validate r' market = Inr ()" "cFingerprintFund c r' = Inr fp'"
  shows "Fund (env_of w' late') None r' z = (z, if cFingerprintFund c r = Inr fp' then Inr res else Inl ErrIdempotencyConflict)"
proof -
  have mk: "sMarket (snd x) = market" using log_okD(2) [OF assms(1)] .
  obtain fp where fp: "cFingerprintFund c r = Inr fp"
    and run: "runLocked (env_of w late) ctx (fund_command (mID market) fp r) x = (y, Inr res)"
    using assms(3) mk by (auto simp: Fund_def bindE_def split: sum.splits)
  have fp0: "fp \<noteq> []" using fp codec by (auto simp: codec_ok_def)
  have keep: "kept (cmdRequestKey (fund_command (mID market) fp r))" by (simp add: kept_def NewIdempotencyKey_def)
  note R = run_remembers [OF assms(1) _ _ keep run]
  have y: "consistent y" using consistent_run [OF assms(1), of "fund_command (mID market) fp r" w late ctx] run assms(2,5) fp0 by simp
  have "sMarket (snd z) = market" using log_okD(2) [OF consistent_steps [OF assms(4) y]] .
  moreover have "runLocked (env_of w' late') None (fund_command (mID market) fp' r') z =
      (z, if fp' = fp then Inr res else Inl ErrIdempotencyConflict)"
    using run_repeated [OF assms(1) _ _ keep run assms(4,5), of "fund_command (mID market) fp' r'"] assms(2,6,7) fp0 R(2) by simp
  ultimately show ?thesis using assms(8,9) fp by (auto simp: Fund_def)
qed

lemma Submit_once:
  assumes "consistent x" "request64 n" "Submit (env_of w late) ctx n x = (y, Inr res)" "(exchange_step env market)\<^sup>*\<^sup>* y z" "permutes w"
    and "nAccountID n \<noteq> ephemeralDemoMakerAccount"
    and "nAccountID n' = nAccountID n" "nClientOrderID n' = nClientOrderID n"
    and "NewOrder_Validate n' market = Inr ()" "cFingerprintSubmit c n' = Inr fp'"
  shows "Submit (env_of w' late') None n' z = (z, if cFingerprintSubmit c n = Inr fp' then Inr res else Inl ErrIdempotencyConflict)"
proof -
  have mk: "sMarket (snd x) = market" using log_okD(2) [OF assms(1)] .
  obtain fp where fp: "cFingerprintSubmit c n = Inr fp"
    and run: "runLocked (env_of w late) ctx (submit_command (mID market) fp n) x = (y, Inr res)"
    using assms(3) mk by (auto simp: Submit_def bindE_def split: sum.splits)
  have fp0: "fp \<noteq> []" using fp codec by (auto simp: codec_ok_def)
  have keep: "kept (cmdRequestKey (submit_command (mID market) fp n))"
    using assms(6) by (simp add: kept_def NewIdempotencyKey_def)
  note R = run_remembers [OF assms(1) _ _ keep run]
  have y: "consistent y" using consistent_run [OF assms(1), of "submit_command (mID market) fp n" w late ctx] run assms(2,5) fp0 by simp
  have "sMarket (snd z) = market" using log_okD(2) [OF consistent_steps [OF assms(4) y]] .
  moreover have "runLocked (env_of w' late') None (submit_command (mID market) fp' n') z =
      (z, if fp' = fp then Inr res else Inl ErrIdempotencyConflict)"
    using run_repeated [OF assms(1) _ _ keep run assms(4,5), of "submit_command (mID market) fp' n'"] assms(2,7,8) fp0 R(2) by simp
  ultimately show ?thesis using assms(9,10) fp by (auto simp: Submit_def)
qed

end

end
