(* ===== verification/MarketMaker.thy ===== *)
theory MarketMaker
  imports Exchange_Run Recovery
begin

text \<open>
  The package \<open>trading/marketmaker\<close>: the virtual liquidity provider that quotes both sides of the
  market around a reference price.

  \<^item> The maker is the pair of the engine's state \<open>'e\<close> and its own fields (record \<open>Maker\<close>, which
    holds the status of its \<open>StatusTracker\<close> too); a missing tracker is \<open>None\<close>.
  \<^item> The interface \<open>Engine\<close> is a record of functions on the engine's state; the exchange
    is an instance of it (\<open>exchange_engine\<close>). What the reference source returned is an argument of
    \<open>refresh\<close>.
  \<^item> The readings of the clock during one refresh are \<open>clk 0\<close>, \<open>clk 1\<close>, \<dots>; \<open>cleanup\<close> is the
    context with a timeout that cleans up after a failed submission.
  \<^item> \<open>Run\<close> is a function of the events that its \<open>select\<close> receives; it has no result (\<open>None\<close>)
    while it waits for the next event.
\<close>

section \<open>Data\<close>

datatype LiquidityState = LiquidityDisabled | LiquidityRecovering | LiquidityActive | LiquidityPaused | LiquidityNone

record LiquidityStatus =
  lqProvider :: string
  lqState :: LiquidityState
  lqReason :: string
  lqBidLevels :: nat
  lqAskLevels :: nat
  lqReferenceObservedAt :: instant
  lqLastRefreshAt :: instant

definition VirtualLiquidityProvider :: string where
  "VirtualLiquidityProvider = ''Qiu Virtual Liquidity''"

definition zeroLiquidity :: LiquidityStatus where
  "zeroLiquidity = \<lparr> lqProvider = [], lqState = LiquidityNone, lqReason = [], lqBidLevels = 0, lqAskLevels = 0,
     lqReferenceObservedAt = 0, lqLastRefreshAt = 0 \<rparr>"

definition SubmitEnabled :: "LiquidityStatus \<Rightarrow> bool" where
  "SubmitEnabled s \<longleftrightarrow> lqState s = LiquidityActive"

definition NewStatusTracker :: "bool \<Rightarrow> LiquidityStatus" where
  "NewStatusTracker enabled =
     zeroLiquidity\<lparr> lqProvider := VirtualLiquidityProvider,
       lqState := (if enabled then LiquidityRecovering else LiquidityDisabled),
       lqReason := (if enabled then ''waiting for safe reference and two-sided quotes''
                    else ''virtual liquidity is disabled'') \<rparr>"

definition Tracker_Status :: "LiquidityStatus option \<Rightarrow> LiquidityStatus" where
  "Tracker_Status t = (case t of None \<Rightarrow> zeroLiquidity | Some s \<Rightarrow> s)"

definition Tracker_update :: "LiquidityStatus \<Rightarrow> LiquidityStatus option \<Rightarrow> LiquidityStatus option" where
  "Tracker_update status t =
     (case t of None \<Rightarrow> None | Some _ \<Rightarrow> Some (status\<lparr> lqProvider := VirtualLiquidityProvider \<rparr>))"

record Reference =
  refPrice :: int
  refObservedAt :: instant

record 'e Engine =
  egSubmit :: "ctx \<Rightarrow> NewOrder \<Rightarrow> 'e \<Rightarrow> 'e \<times> Result res"
  egCancel :: "ctx \<Rightarrow> CancelOrder \<Rightarrow> 'e \<Rightarrow> 'e \<times> Result res"
  egOrders :: "AccountID \<Rightarrow> bool \<Rightarrow> 'e \<Rightarrow> Order list res"
  egDepth :: "int \<Rightarrow> 'e \<Rightarrow> OrderBookView res"

definition exchange_engine :: "('s, 'b) Env \<Rightarrow> 's exchange Engine" where
  "exchange_engine env = \<lparr> egSubmit = Submit env, egCancel = Cancel env,
     egOrders = (\<lambda>account openOnly x. Inr (Exchange_Orders account openOnly x)), egDepth = Depth \<rparr>"

record Config =
  cfAccountID :: AccountID
  cfSpreadsBPS :: "int list"
  cfQuantity :: int
  cfMaxAge :: int
  cfMaxJumpBPS :: int
  cfMinRepriceBPS :: int
  cfRefreshEvery :: int
  cfRequestPrefix :: string

definition DefaultConfig :: Config where
  "DefaultConfig = \<lparr> cfAccountID = ''system:demo-maker'', cfSpreadsBPS = [10, 25, 50], cfQuantity = 1000000,
     cfMaxAge = 30 * 1000000000, cfMaxJumpBPS = 500, cfMinRepriceBPS = 10, cfRefreshEvery = 5 * 1000000000,
     cfRequestPrefix = ''demo-maker'' \<rparr>"

record Maker =
  mkMarket :: Market
  mkConfig :: Config
  mkStatus :: "LiquidityStatus option"
  mkCounter :: nat
  mkPreviousPrice :: int
  mkPaused :: bool
  mkRecoveryPrice :: int
  mkFreshSamples :: nat

definition Maker_New ::
  "Market \<Rightarrow> 'e Engine option \<Rightarrow> bool \<Rightarrow> Config \<Rightarrow> LiquidityStatus option \<Rightarrow> Maker res" where
  "Maker_New market engine has_source config tracker =
     bindE (Market_Validate market) (\<lambda>_.
       if engine = None \<or> \<not> has_source \<or> cfAccountID config = [] \<or>
          cfQuantity config \<le> 0 \<or> cfMaxAge config \<le> 0 \<or> cfRefreshEvery config \<le> 0 \<or>
          cfMaxJumpBPS config \<le> 0 \<or> cfMaxJumpBPS config \<ge> 10000 \<or>
          cfMinRepriceBPS config \<le> 0 \<or> cfMinRepriceBPS config > cfMaxJumpBPS config \<or>
          cfRequestPrefix config = [] \<or> cfSpreadsBPS config = []
       then Inl (ErrPlain ''invalid demo maker configuration'')
       else if rem64 (cfQuantity config) (mQuantityStep market) \<noteq> 0 \<or> cfQuantity config < mMinQuantity market
       then Inl (ErrPlain ''demo maker quantity does not satisfy market rules'')
       else if \<not> list_all (\<lambda>spread. 0 < spread \<and> spread < 10000) (cfSpreadsBPS config)
       then Inl (ErrPlain ''demo maker spread must be in (0,10000)'')
       else Inr \<lparr> mkMarket = market, mkConfig = config, mkStatus = tracker, mkCounter = 0, mkPreviousPrice = 0,
                  mkPaused = False, mkRecoveryPrice = 0, mkFreshSamples = 0 \<rparr>)"

section \<open>Status\<close>

definition recordActive :: "(nat \<Rightarrow> instant) \<Rightarrow> Reference \<Rightarrow> Maker \<Rightarrow> Maker" where
  "recordActive clk reference m =
     m\<lparr> mkStatus := Tracker_update (zeroLiquidity\<lparr> lqState := LiquidityActive,
          lqBidLevels := length (cfSpreadsBPS (mkConfig m)), lqAskLevels := length (cfSpreadsBPS (mkConfig m)),
          lqReferenceObservedAt := refObservedAt reference, lqLastRefreshAt := clk 3 \<rparr>) (mkStatus m) \<rparr>"

definition recordRecovering :: "instant \<Rightarrow> string \<Rightarrow> Maker \<Rightarrow> Maker" where
  "recordRecovering now reason m =
     m\<lparr> mkStatus := Tracker_update (zeroLiquidity\<lparr> lqState := LiquidityRecovering, lqReason := reason,
          lqLastRefreshAt := now \<rparr>) (mkStatus m) \<rparr>"

definition recordQuoteBlocked :: "(nat \<Rightarrow> instant) \<Rightarrow> Reference \<Rightarrow> string \<Rightarrow> Maker \<Rightarrow> Maker" where
  "recordQuoteBlocked clk reference reason m =
     m\<lparr> mkStatus := Tracker_update (zeroLiquidity\<lparr> lqState := LiquidityRecovering, lqReason := reason,
          lqReferenceObservedAt := refObservedAt reference, lqLastRefreshAt := clk 3 \<rparr>) (mkStatus m) \<rparr>"

definition recordRecoveringReference :: "(nat \<Rightarrow> instant) \<Rightarrow> Reference \<Rightarrow> Maker \<Rightarrow> Maker" where
  "recordRecoveringReference clk reference m =
     (if lqState (Tracker_Status (mkStatus m)) = LiquidityActive then m
      else m\<lparr> mkStatus := Tracker_update (zeroLiquidity\<lparr> lqState := LiquidityRecovering,
                lqReason := ''validating reference stability'',
                lqReferenceObservedAt := refObservedAt reference, lqLastRefreshAt := clk 0 \<rparr>) (mkStatus m) \<rparr>)"

definition recordPaused :: "instant \<Rightarrow> string \<Rightarrow> instant \<Rightarrow> Maker \<Rightarrow> Maker" where
  "recordPaused now reason observedAt m =
     m\<lparr> mkStatus := Tracker_update (zeroLiquidity\<lparr> lqState := LiquidityPaused, lqReason := reason,
          lqReferenceObservedAt := (if observedAt = 0 then lqReferenceObservedAt (Tracker_Status (mkStatus m))
                                    else observedAt),
          lqLastRefreshAt := now \<rparr>) (mkStatus m) \<rparr>"

section \<open>Prices\<close>

definition ceilToStep :: "int \<Rightarrow> int \<Rightarrow> int res" where
  "ceilToStep value step =
     (let remainder = rem64 value step in
      if remainder = 0 then Inr value else CheckedAdd value (sub64 step remainder))"

definition quotePrices :: "Market \<Rightarrow> int \<Rightarrow> int \<Rightarrow> (int \<times> int) res" where
  "quotePrices market referencePrice spreadBPS =
     bindE (CheckedMulDivFloor referencePrice (10000 - spreadBPS) 10000) (\<lambda>bid0.
     bindE (CheckedMulDivCeil referencePrice (10000 + spreadBPS) 10000) (\<lambda>ask0.
       let bid = sub64 bid0 (rem64 bid0 (mPriceTick market))
       in bindE (ceilToStep ask0 (mPriceTick market)) (\<lambda>ask.
            if bid \<le> 0 \<or> ask \<le> bid then Inl ErrUnsafeReference else Inr (bid, ask))))"

record plannedQuote =
  pqSide :: Side
  pqPrice :: int
  pqLabel :: string
  pqSpread :: int

definition plan_spread :: "Market \<Rightarrow> int \<Rightarrow> int \<Rightarrow> plannedQuote list \<Rightarrow> plannedQuote list res" where
  "plan_spread market referencePrice spread quotes =
     bindE (quotePrices market referencePrice spread) (\<lambda>(bid, ask).
       Inr (quotes @ [\<lparr> pqSide = SideBuy, pqPrice = bid, pqLabel = ''bid'', pqSpread = spread \<rparr>,
                      \<lparr> pqSide = SideSell, pqPrice = ask, pqLabel = ''ask'', pqSpread = spread \<rparr>]))"

definition quotePlan :: "Maker \<Rightarrow> int \<Rightarrow> plannedQuote list res" where
  "quotePlan m referencePrice =
     foldE (plan_spread (mkMarket m) referencePrice) (cfSpreadsBPS (mkConfig m)) []"

definition quotePlanWouldCross :: "plannedQuote list \<Rightarrow> OrderBookView \<Rightarrow> bool" where
  "quotePlanWouldCross quotes depth \<longleftrightarrow>
     list_ex (\<lambda>quote.
       (pqSide quote = SideBuy \<and> obAsks depth \<noteq> [] \<and> pqPrice quote \<ge> plPrice (hd (obAsks depth))) \<or>
       (pqSide quote = SideSell \<and> obBids depth \<noteq> [] \<and> pqPrice quote \<le> plPrice (hd (obBids depth)))) quotes"

definition priceMovementBPS :: "int \<Rightarrow> int \<Rightarrow> int res" where
  "priceMovementBPS current previous =
     (let difference = sub64 current previous;
          difference' = (if difference < 0 then sub64 0 difference else difference)
      in CheckedMulDivCeil difference' 10000 previous)"

definition shouldReprice :: "Maker \<Rightarrow> int \<Rightarrow> bool" where
  "shouldReprice m referencePrice =
     (case priceMovementBPS referencePrice (mkPreviousPrice m) of
        Inl _ \<Rightarrow> True
      | Inr movementBPS \<Rightarrow> movementBPS \<ge> cfMinRepriceBPS (mkConfig m))"

definition validateBasicReference :: "(nat \<Rightarrow> instant) \<Rightarrow> Maker \<Rightarrow> Reference \<Rightarrow> unit res" where
  "validateBasicReference clk m reference =
     (if refPrice reference \<le> 0 \<or> refObservedAt reference = 0 \<or>
         time_sub (clk 1) (refObservedAt reference) > cfMaxAge (mkConfig m) \<or>
         refObservedAt reference > clk 2 + 1000000000
      then Inl ErrUnsafeReference else Inr ())"

definition validateReferenceJump :: "Maker \<Rightarrow> Reference \<Rightarrow> unit res" where
  "validateReferenceJump m reference =
     (if mkPreviousPrice m > 0
      then case priceMovementBPS (refPrice reference) (mkPreviousPrice m) of
             Inl _ \<Rightarrow> Inl ErrUnsafeReference
           | Inr jumpBPS \<Rightarrow> if jumpBPS > cfMaxJumpBPS (mkConfig m) then Inl ErrUnsafeReference else Inr ()
      else Inr ())"

definition postOnlyWouldCross :: "Result \<Rightarrow> bool" where
  "postOnlyWouldCross result \<longleftrightarrow>
     rStatus result = OrderStatusRejected \<and>
     list_ex (\<lambda>event. evType event = EventOrderRejected \<and> evReason event = ''post_only_would_cross'') (rEvents result)"

section \<open>Cancelling\<close>

type_synonym 'e maker = "'e \<times> Maker"

fun errors_Join :: "error option \<Rightarrow> error option \<Rightarrow> error option" where
  "errors_Join None e = e"
| "errors_Join (Some a) None = Some a"
| "errors_Join (Some a) (Some b) = Some (ErrJoin a b)"

definition cancel_request :: "Maker \<Rightarrow> OrderID \<Rightarrow> CancelOrder" where
  "cancel_request m orderID =
     \<lparr> cRequestID = cfRequestPrefix (mkConfig m) @ ''-cancel-'' @ pad0 20 (show_nat (mkCounter m)),
       cAccountID = cfAccountID (mkConfig m), cOrderID = orderID \<rparr>"

fun cancelOrderIDs ::
  "'e Engine \<Rightarrow> ctx \<Rightarrow> OrderID list \<Rightarrow> error option \<Rightarrow> 'e maker \<Rightarrow> 'e maker \<times> error option" where
  "cancelOrderIDs eng ctx [] result x = (x, result)"
| "cancelOrderIDs eng ctx (orderID # orderIDs) result (e, m) =
     (let m1 = m\<lparr> mkCounter := mkCounter m + 1 \<rparr>;
          (e1, r) = egCancel eng ctx (cancel_request m1 orderID) e
      in cancelOrderIDs eng ctx orderIDs
           (errors_Join result (case r of Inl err \<Rightarrow> Some err | Inr _ \<Rightarrow> None)) (e1, m1))"

definition cancelAll :: "'e Engine \<Rightarrow> ctx \<Rightarrow> 'e maker \<Rightarrow> 'e maker \<times> error option" where
  "cancelAll eng ctx x =
     (case egOrders eng (cfAccountID (mkConfig (snd x))) True (fst x) of
        Inl err \<Rightarrow> (x, Some err)
      | Inr orders \<Rightarrow> cancelOrderIDs eng ctx (map oID orders) None x)"

definition pauseUnsafe :: "'e Engine \<Rightarrow> ctx \<Rightarrow> (nat \<Rightarrow> instant) \<Rightarrow> error \<Rightarrow> 'e maker \<Rightarrow> 'e maker \<times> error option" where
  "pauseUnsafe eng ctx clk cause x =
     (let ((e, m), cancelErr) = cancelAll eng ctx x;
          m1 = m\<lparr> mkPaused := True, mkPreviousPrice := 0, mkRecoveryPrice := 0, mkFreshSamples := 0 \<rparr>;
          m2 = recordPaused (clk 3) ''reference is unsafe or unavailable'' 0 m1
      in ((e, m2), errors_Join (Some cause) cancelErr))"

section \<open>Refreshing the quotes\<close>

definition quote_request :: "Maker \<Rightarrow> plannedQuote \<Rightarrow> NewOrder" where
  "quote_request m quote =
     \<lparr> nClientOrderID = cfRequestPrefix (mkConfig m) @ ''-'' @ pqLabel quote @ ''-'' @
         pad0 4 (show_nat (nat (pqSpread quote))) @ ''bps-'' @ pad0 20 (show_nat (mkCounter m)),
       nAccountID = cfAccountID (mkConfig m), nSide = pqSide quote, nType = OrderTypeLimit,
       nTimeInForce = TimeInForceGTC, nPrice = pqPrice quote, nQuantity = cfQuantity (mkConfig m),
       nQuoteBudget = 0, nPostOnly = True \<rparr>"

text \<open>The loop over the quotes; a quote that is not accepted as open ends it after a cleanup.\<close>

fun submit_quotes ::
  "'e Engine \<Rightarrow> ctx \<Rightarrow> ctx \<Rightarrow> (nat \<Rightarrow> instant) \<Rightarrow> Reference \<Rightarrow> plannedQuote list \<Rightarrow> 'e maker \<Rightarrow> 'e maker \<times> error option" where
  "submit_quotes eng ctx cleanup clk reference [] (e, m) =
     ((e, recordActive clk reference (m\<lparr> mkPreviousPrice := refPrice reference \<rparr>)), None)"
| "submit_quotes eng ctx cleanup clk reference (quote # quotes) (e, m) =
     (let m1 = m\<lparr> mkCounter := mkCounter m + 1 \<rparr>;
          (e1, r) = egSubmit eng ctx (quote_request m1 quote) e
      in case r of
           Inr result \<Rightarrow>
             if rStatus result = OrderStatusOpen then submit_quotes eng ctx cleanup clk reference quotes (e1, m1)
             else
               (let ((e2, m2), cleanupErr) = cancelAll eng cleanup (e1, m1)
                in case cleanupErr of
                     Some err \<Rightarrow> ((e2, m2), Some err)
                   | None \<Rightarrow>
                       if postOnlyWouldCross result
                       then ((e2, recordQuoteBlocked clk reference
                                ''resting user order temporarily blocked a post-only quote'' m2), Some ErrQuoteBlocked)
                       else ((e2, m2), Some (ErrPlain ''submit demo-maker rejected'')))
         | Inl submitErr \<Rightarrow>
             (let (x2, cleanupErr) = cancelAll eng cleanup (e1, m1)
              in case cleanupErr of
                   Some err \<Rightarrow> (x2, Some (ErrJoin err submitErr))
                 | None \<Rightarrow> (x2, Some submitErr)))"

text \<open>The part of \<open>refresh\<close> behind the checks of the reference.\<close>

definition place_quotes ::
  "'e Engine \<Rightarrow> ctx \<Rightarrow> ctx \<Rightarrow> (nat \<Rightarrow> instant) \<Rightarrow> Reference \<Rightarrow> 'e maker \<Rightarrow> 'e maker \<times> error option" where
  "place_quotes eng ctx cleanup clk reference x =
     (let (e, m) = x in
      case egOrders eng (cfAccountID (mkConfig m)) True e of
        Inl err \<Rightarrow> (x, Some err)
      | Inr openOrders \<Rightarrow>
          if length openOrders = 2 * length (cfSpreadsBPS (mkConfig m)) \<and> mkPreviousPrice m > 0 \<and>
             \<not> shouldReprice m (refPrice reference)
          then ((e, recordActive clk reference m), None)
          else
            (case cancelAll eng ctx x of
               (x1, Some err) \<Rightarrow> (x1, Some err)
             | (x1, None) \<Rightarrow>
                 (case quotePlan (snd x1) (refPrice reference) of
                    Inl err \<Rightarrow> pauseUnsafe eng ctx clk err x1
                  | Inr quotes \<Rightarrow>
                      (case egDepth eng 1 (fst x1) of
                         Inl err \<Rightarrow> (x1, Some err)
                       | Inr depth \<Rightarrow>
                           if quotePlanWouldCross quotes depth
                           then ((fst x1, recordQuoteBlocked clk reference
                                    ''resting user order temporarily blocks safe post-only quotes'' (snd x1)),
                                 Some ErrQuoteBlocked)
                           else submit_quotes eng ctx cleanup clk reference quotes x1))))"

text \<open>The samples that a paused maker collects: \<open>Inl\<close> is the maker that goes on waiting, \<open>Inr\<close> the
  maker that may quote again.\<close>

definition recover :: "Reference \<Rightarrow> Maker \<Rightarrow> Maker + Maker" where
  "recover reference m =
     (if \<not> mkPaused m then Inr m
      else if mkRecoveryPrice m = 0
      then Inl (m\<lparr> mkRecoveryPrice := refPrice reference, mkFreshSamples := 1 \<rparr>)
      else
        (let stable = (case priceMovementBPS (refPrice reference) (mkRecoveryPrice m) of
                         Inl _ \<Rightarrow> False | Inr jumpBPS \<Rightarrow> jumpBPS \<le> cfMaxJumpBPS (mkConfig m))
         in if \<not> stable then Inl (m\<lparr> mkRecoveryPrice := refPrice reference, mkFreshSamples := 1 \<rparr>)
            else if mkFreshSamples m + 1 < 3
            then Inl (m\<lparr> mkRecoveryPrice := refPrice reference, mkFreshSamples := mkFreshSamples m + 1 \<rparr>)
            else Inr (m\<lparr> mkPaused := False, mkRecoveryPrice := 0, mkFreshSamples := 0 \<rparr>)))"

definition refresh ::
  "'e Engine \<Rightarrow> ctx \<Rightarrow> ctx \<Rightarrow> (nat \<Rightarrow> instant) \<Rightarrow> Reference res \<Rightarrow> 'e maker \<Rightarrow> 'e maker \<times> error option" where
  "refresh eng ctx cleanup clk source x =
     (let (e, m) = x in
      case source of
        Inl _ \<Rightarrow> pauseUnsafe eng ctx clk ErrUnsafeReference x
      | Inr reference \<Rightarrow>
          (let m1 = recordRecoveringReference clk reference m in
           case validateBasicReference clk m1 reference of
             Inl err \<Rightarrow> pauseUnsafe eng ctx clk err (e, m1)
           | Inr _ \<Rightarrow>
               (case recover reference m1 of
                  Inl m2 \<Rightarrow> ((e, m2), None)
                | Inr m2 \<Rightarrow>
                    (case validateReferenceJump m2 reference of
                       Inl err \<Rightarrow> pauseUnsafe eng ctx clk err (e, m2)
                     | Inr _ \<Rightarrow> place_quotes eng ctx cleanup clk reference (e, m2)))))"

text \<open>An event of the loop of \<open>Run\<close>: a tick with what the refresh reads, or the end of the context.\<close>

datatype run_event = Tick ctx ctx "nat \<Rightarrow> instant" "Reference res" | Done ctx "instant"

definition fatal :: "error option \<Rightarrow> bool" where
  "fatal r = (case r of None \<Rightarrow> False
     | Some err \<Rightarrow> \<not> errors_is err ErrUnsafeReference \<and> \<not> errors_is err ErrQuoteBlocked)"

definition infrastructure_error :: string where
  "infrastructure_error = ''virtual liquidity infrastructure is unavailable''"

fun run_events :: "'e Engine \<Rightarrow> run_event list \<Rightarrow> 'e maker \<Rightarrow> 'e maker \<times> error option option" where
  "run_events eng [] x = (x, None)"
| "run_events eng (Tick ctx cleanup clk source # events) x =
     (let ((e, m), r) = refresh eng ctx cleanup clk source x
      in if fatal r then ((e, recordPaused (clk 3) infrastructure_error 0 m), Some r)
         else run_events eng events (e, m))"
| "run_events eng (Done ctx now # events) x =
     (let ((e, m), r) = cancelAll eng ctx x
      in case r of
           Some err \<Rightarrow> ((e, recordPaused now ''unable to remove virtual liquidity safely'' 0 m), Some (Some err))
         | None \<Rightarrow> ((e, recordRecovering now ''virtual liquidity process stopped'' m), Some None))"

text \<open>\<open>Run\<close> refreshes once before its loop, as a tick does.\<close>

definition Maker_Run ::
  "'e Engine \<Rightarrow> ctx \<Rightarrow> ctx \<Rightarrow> (nat \<Rightarrow> instant) \<Rightarrow> Reference res \<Rightarrow> run_event list \<Rightarrow> 'e maker
     \<Rightarrow> 'e maker \<times> error option option" where
  "Maker_Run eng ctx cleanup clk source events x = run_events eng (Tick ctx cleanup clk source # events) x"

end
