(* ===== verification/MarketMaker_Invariant.thy ===== *)
theory MarketMaker_Invariant
  imports MarketMaker
begin

text \<open>
  Properties of the market maker.

  \<^item> Prices: what \<open>quotePrices\<close> computes, as inequalities over the reference and the spread.
  \<^item> \<open>engine_invariant\<close> is the interface of the engine that keeps an invariant under submissions
    and cancellations; everything the maker does, up to the whole of \<open>Run\<close>, keeps it.
    \<open>cancelling_engine\<close> adds that a cancellation closes its order; then a cancellation of all
    orders without an error leaves none open.
  \<^item> The exchange over every event log provides the second interface for the account of the maker
    (whose requests are not remembered, so that no cancellation is answered from memory).
  \<^item> The pause of the maker: two refreshes that cannot submit, and the third that can.
\<close>

section \<open>Prices\<close>

lemma ceilToStep_InrD:
  assumes "ceilToStep v step = Inr r" "0 < step" "in64 step" "0 \<le> v" "v \<le> MaxInt64"
  shows "step dvd r" "v \<le> r" "r < v + step" "in64 r"
proof -
  have v: "in64 v" using assms(4,5) by (simp add: in64_def MinInt64_def)
  have m: "rem64 v step = v mod step" "0 \<le> v mod step" "v mod step < step" using assms(2,4) by (simp_all add: rem64_nonneg)
  have "step \<le> MaxInt64" using assms(3) by (simp add: in64_def)
  with m have s: "sub64 step (rem64 v step) = step - v mod step" by (simp add: sub64_nonneg)
  have d: "in64 (step - v mod step)" using m \<open>step \<le> MaxInt64\<close> by (simp add: in64_def MinInt64_def)
  have "step dvd r \<and> v \<le> r \<and> r < v + step \<and> in64 r"
  proof (cases "v mod step = 0")
    case True
    then have "r = v" using assms(1) m by (simp add: ceilToStep_def Let_def)
    with True assms(2) v show ?thesis by (simp add: dvd_eq_mod_eq_0)
  next
    case False
    then have "CheckedAdd v (step - v mod step) = Inr r" using assms(1) s m(1) by (simp add: ceilToStep_def Let_def)
    then have r: "r = v + (step - v mod step)" "in64 r" using CheckedAdd_Inr [OF v d, of r] by simp_all
    have "r = step + (v - v mod step)" using r(1) by simp
    then have "step dvd r" by (metis dvd_add_triv_left_iff dvd_minus_mod)
    moreover have "v \<le> r" "r < v + step" proof -
      obtain k where "r = v + (step - k)" "0 < k" "k < step" using r(1) m(2,3) False by (metis order_le_less)
      then show "v \<le> r" "r < v + step" by linarith+
    qed
    ultimately show ?thesis using r(2) by blast
  qed
  then show "step dvd r" "v \<le> r" "r < v + step" "in64 r" by auto
qed

lemma quotePrices_InrD:
  assumes "quotePrices market ref s = Inr (bid, ask)" "market_ok market" "in64 ref" "0 < s" "s < 10000"
  shows "mPriceTick market dvd bid" "mPriceTick market dvd ask" "0 < bid" "in64 bid" "in64 ask"
    "bid * 10000 \<le> ref * (10000 - s)" "ref * (10000 - s) < (bid + mPriceTick market) * 10000"
    "ref * (10000 + s) \<le> ask * 10000" "(ask - mPriceTick market) * 10000 < ref * (10000 + s)" "0 \<le> ref"
proof -
  let ?t = "mPriceTick market"
  note t = market_okD(5,15) [OF assms(2)]
  obtain bid0 ask0 where f: "CheckedMulDivFloor ref (10000 - s) 10000 = Inr bid0"
    and c: "CheckedMulDivCeil ref (10000 + s) 10000 = Inr ask0"
    and bid: "bid = sub64 bid0 (rem64 bid0 ?t)" and a: "ceilToStep ask0 ?t = Inr ask" and pos: "0 < bid"
    using assms(1) by (auto simp: quotePrices_def bindE_eq_Inr Let_def split: if_splits)
  have i: "in64 (10000 - s)" "in64 (10000 + s)" "in64 (10000 :: int)"
    using assms(4,5) by (auto simp: in64_def MaxInt64_def MinInt64_def)
  note F = CheckedMulDivFloor_InrD [OF f assms(3) i(1,3)] and C = CheckedMulDivCeil_InrD [OF c assms(3) i(2,3)]
  have b: "rem64 bid0 ?t = bid0 mod ?t" "0 \<le> bid0 mod ?t" "bid0 mod ?t < ?t" "bid0 mod ?t \<le> bid0"
    using t(1) F by (simp_all add: rem64_nonneg zmod_le_nonneg_dividend)
  then have bid': "bid = bid0 - bid0 mod ?t" using bid F by (simp add: sub64_nonneg)
  show "?t dvd bid" unfolding bid' by (simp add: dvd_minus_mod)
  show "0 < bid" by (rule pos)
  show "in64 bid" using bid' b F pos by (simp add: in64_def MinInt64_def)
  note A = ceilToStep_InrD [OF a t C(5,6)]
  show "?t dvd ask" "in64 ask" by (fact A)+
  show "0 \<le> ref" by (fact F(1))
  obtain k where k: "bid0 = bid + k" "0 \<le> k" "k + 1 \<le> ?t" using bid' b by (metis diff_add_cancel zless_imp_add1_zle)
  have "bid * 10000 \<le> bid0 * 10000" using k by simp
  also have "\<dots> \<le> ref * (10000 - s)" using F(4) le_div_iff_int [of 10000 bid0 "ref * (10000 - s)"] by simp
  finally show "bid * 10000 \<le> ref * (10000 - s)" .
  have "ref * (10000 - s) < (bid0 + 1) * 10000" using F(4) div_less_iff_int [of 10000 "ref * (10000 - s)" "bid0 + 1"] by simp
  also have "\<dots> \<le> (bid + ?t) * 10000" using k by simp
  finally show "ref * (10000 - s) < (bid + ?t) * 10000" .
  have c: "ref * (10000 + s) \<le> ask0 * 10000" "(ask0 - 1) * 10000 < ref * (10000 + s)"
    using ceil_div_bounds [of 10000 "ref * (10000 + s)"] C(4) by simp_all
  have "ask0 * 10000 \<le> ask * 10000" "(ask - ?t) * 10000 \<le> (ask0 - 1) * 10000" using A(2,3) by simp_all
  with c show "ref * (10000 + s) \<le> ask * 10000" "(ask - ?t) * 10000 < ref * (10000 + s)"
    by (blast intro: order_trans order_le_less_trans)+
qed

text \<open>A quote is on the tick, on its side of the reference, and the nearest tick outside its spread.\<close>

definition quote_ok :: "Market \<Rightarrow> int \<Rightarrow> plannedQuote \<Rightarrow> bool" where
  "quote_ok market ref q \<longleftrightarrow> in64 (pqPrice q) \<and> 0 < pqPrice q \<and> mPriceTick market dvd pqPrice q \<and>
     (pqSide q = SideBuy \<and> pqPrice q < ref \<and>
        pqPrice q * 10000 \<le> ref * (10000 - pqSpread q) \<and> ref * (10000 - pqSpread q) < (pqPrice q + mPriceTick market) * 10000 \<or>
      pqSide q = SideSell \<and> ref < pqPrice q \<and>
        ref * (10000 + pqSpread q) \<le> pqPrice q * 10000 \<and> (pqPrice q - mPriceTick market) * 10000 < ref * (10000 + pqSpread q))"

lemma plan_spread_ok:
  assumes "plan_spread market ref s qs = Inr qs'" "market_ok market" "in64 ref" "0 < ref" "0 < s" "s < 10000"
    and "\<forall>q \<in> set qs. quote_ok market ref q"
  shows "\<forall>q \<in> set qs'. quote_ok market ref q" "length qs' = length qs + 2"
proof -
  obtain bid ask where p: "quotePrices market ref s = Inr (bid, ask)"
    "qs' = qs @ [\<lparr> pqSide = SideBuy, pqPrice = bid, pqLabel = ''bid'', pqSpread = s \<rparr>,
             \<lparr> pqSide = SideSell, pqPrice = ask, pqLabel = ''ask'', pqSpread = s \<rparr>]"
    using assms(1) by (auto simp: plan_spread_def bindE_eq_Inr)
  note Q = quotePrices_InrD [OF p(1) assms(2,3,5,6)]
  have "0 < ref * s" using assms(4,5) by simp
  then have r: "ref * (10000 - s) < ref * 10000" "ref * 10000 < ref * (10000 + s)"
    by (simp_all add: right_diff_distrib distrib_left)
  have "bid < ref" using Q(6) r(1) by linarith
  moreover have "ref < ask" using Q(8) r(2) by linarith
  ultimately show "\<forall>q \<in> set qs'. quote_ok market ref q"
    using assms(4,7) Q unfolding p(2) by (auto simp: quote_ok_def)
  show "length qs' = length qs + 2" by (simp add: p(2))
qed

lemma plan_spreads_ok:
  assumes "foldE (plan_spread market ref) spreads qs = Inr qs'" "market_ok market" "in64 ref" "0 < ref"
    and "list_all (\<lambda>s. 0 < s \<and> s < 10000) spreads" "\<forall>q \<in> set qs. quote_ok market ref q"
  shows "(\<forall>q \<in> set qs'. quote_ok market ref q) \<and> length qs' = length qs + 2 * length spreads"
  using assms(1,5,6)
proof (induction spreads arbitrary: qs)
  case (Cons s spreads)
  then obtain q1 where q1: "plan_spread market ref s qs = Inr q1" "foldE (plan_spread market ref) spreads q1 = Inr qs'"
    by (auto simp: bindE_eq_Inr)
  from plan_spread_ok [OF q1(1) assms(2-4)] Cons.prems Cons.IH [OF q1(2)] show ?case by auto
qed simp

section \<open>The settings of the maker\<close>

definition settings_ok :: "Maker \<Rightarrow> bool" where
  "settings_ok m \<longleftrightarrow> market_ok (mkMarket m) \<and> in64 (cfQuantity (mkConfig m)) \<and>
     list_all (\<lambda>s. 0 < s \<and> s < 10000) (cfSpreadsBPS (mkConfig m))"

definition same_settings :: "Maker \<Rightarrow> Maker \<Rightarrow> bool" where
  "same_settings m m' \<longleftrightarrow> mkMarket m' = mkMarket m \<and> mkConfig m' = mkConfig m"

lemma same_settingsD: "same_settings m m' \<Longrightarrow> settings_ok m' = settings_ok m" "same_settings m m' \<Longrightarrow> mkConfig m' = mkConfig m"
  by (simp_all add: same_settings_def settings_ok_def)

lemma same_settings_refl [simp]: "same_settings m m"
  by (simp add: same_settings_def)

lemma same_settings_trans: "same_settings a b \<Longrightarrow> same_settings b d \<Longrightarrow> same_settings a d"
  by (simp add: same_settings_def)

lemma same_settings_record [simp]:
  "same_settings m (recordActive clk ref m') = same_settings m m'" "same_settings m (recordRecovering now why m') = same_settings m m'"
  "same_settings m (recordQuoteBlocked clk ref why m') = same_settings m m'" "same_settings m (recordPaused now why at m') = same_settings m m'"
  "same_settings m (recordRecoveringReference clk ref m') = same_settings m m'" "same_settings m (m'\<lparr> mkCounter := n \<rparr>) = same_settings m m'"
  by (simp_all add: same_settings_def recordActive_def recordRecovering_def recordQuoteBlocked_def recordPaused_def
      recordRecoveringReference_def)

lemma validateBasicReference_config:
  "mkConfig m' = mkConfig m \<Longrightarrow> validateBasicReference clk m' ref = validateBasicReference clk m ref"
  by (simp add: validateBasicReference_def)

lemma recordRecoveringReference_simps [simp]:
  "mkConfig (recordRecoveringReference clk ref m) = mkConfig m" "mkPaused (recordRecoveringReference clk ref m) = mkPaused m"
  "mkRecoveryPrice (recordRecoveringReference clk ref m) = mkRecoveryPrice m"
  "mkFreshSamples (recordRecoveringReference clk ref m) = mkFreshSamples m"
  "mkPreviousPrice (recordRecoveringReference clk ref m) = mkPreviousPrice m"
  "validateBasicReference clk' (recordRecoveringReference clk ref m) ref' = validateBasicReference clk' m ref'"
  by (simp_all add: recordRecoveringReference_def validateBasicReference_def)

lemma Maker_New_settings:
  assumes "Maker_New market eng src config tracker = Inr m" "market_ok market" "in64 (cfQuantity config)"
  shows "settings_ok m" "mkConfig m = config" "mkMarket m = market"
  using assms by (auto simp: Maker_New_def bindE_eq_Inr settings_ok_def split: if_splits)

lemma quotePlan_ok:
  assumes "quotePlan m ref = Inr qs" "settings_ok m" "in64 ref" "0 < ref"
  shows "\<forall>q \<in> set qs. quote_ok (mkMarket m) ref q" "length qs = 2 * length (cfSpreadsBPS (mkConfig m))"
  using plan_spreads_ok [OF assms(1) [unfolded quotePlan_def]] assms(2-4) by (auto simp: settings_ok_def)

lemma cancelOrderIDs_settings: "same_settings (snd x) (snd (fst (cancelOrderIDs eng ctx ids r x)))"
proof (induction ids arbitrary: r x)
  case (Cons i ids)
  obtain e m where x: "x = (e, m)" by (cases x)
  obtain e1 r1 where c: "egCancel eng ctx (cancel_request (m\<lparr> mkCounter := mkCounter m + 1 \<rparr>) i) e = (e1, r1)"
    by (cases "egCancel eng ctx (cancel_request (m\<lparr> mkCounter := mkCounter m + 1 \<rparr>) i) e")
  from Cons.IH [of "(e1, m\<lparr> mkCounter := mkCounter m + 1 \<rparr>)"] show ?case
    using c by (simp add: x Let_def same_settings_def)
qed simp

lemma cancelAll_settings: "same_settings (snd x) (snd (fst (cancelAll eng ctx x)))"
  by (simp add: cancelAll_def cancelOrderIDs_settings split: sum.splits)

lemma pauseUnsafe_settings: "same_settings (snd x) (snd (fst (pauseUnsafe eng ctx clk cause x)))"
  using cancelAll_settings [of x eng ctx]
  by (auto simp: pauseUnsafe_def Let_def recordPaused_def same_settings_def split: prod.splits)

lemma recover_settings: "recover ref m = Inl m' \<Longrightarrow> same_settings m m'" "recover ref m = Inr m' \<Longrightarrow> same_settings m m'"
  by (auto simp: recover_def Let_def same_settings_def split: if_splits)

lemma submit_quotes_settings: "same_settings m (snd (fst (submit_quotes eng ctx cleanup clk ref qs (e, m))))"
proof (induction qs arbitrary: e m)
  case (Cons q qs)
  let ?m = "m\<lparr> mkCounter := mkCounter m + 1 \<rparr>"
  obtain e1 r where s: "egSubmit eng ctx (quote_request ?m q) e = (e1, r)" by (cases "egSubmit eng ctx (quote_request ?m q) e")
  obtain e2 m2 ce where c: "cancelAll eng cleanup (e1, ?m) = ((e2, m2), ce)" by (metis prod.collapse)
  have m: "same_settings m ?m" by simp
  have m2: "same_settings m m2"
    using same_settings_trans [OF m] cancelAll_settings [of "(e1, ?m)" eng cleanup] c by simp
  have IH: "same_settings m (snd (fst (submit_quotes eng ctx cleanup clk ref qs (e1, ?m))))"
    by (rule same_settings_trans [OF m Cons.IH])
  show ?case using s c m2 IH by (simp add: Let_def split: sum.split option.split)
qed (simp add: same_settings_def recordActive_def)

lemma place_quotes_settings: "same_settings (snd x) (snd (fst (place_quotes eng ctx cleanup clk ref x)))"
proof -
  obtain e m where x: "x = (e, m)" by (cases x)
  obtain e1 m1 ce where c: "cancelAll eng ctx (e, m) = ((e1, m1), ce)" by (metis prod.collapse)
  have m1: "same_settings m m1" using cancelAll_settings [of x eng ctx] c x by simp
  note t = same_settings_trans [OF m1]
  show ?thesis using x c m1 t [OF submit_quotes_settings [of m1 eng ctx cleanup clk ref _ e1]]
      t [OF pauseUnsafe_settings [of "(e1, m1)" eng ctx clk, unfolded snd_conv]]
    by (simp add: place_quotes_def Let_def split: sum.split option.split)
qed

lemma refresh_settings: "same_settings (snd x) (snd (fst (refresh eng ctx cleanup clk source x)))"
proof -
  obtain e m where x: "x = (e, m)" by (cases x)
  have p: "same_settings m (snd (fst (pauseUnsafe eng ctx clk err (e, m'))))" if "same_settings m m'" for err m'
    using same_settings_trans [OF that] pauseUnsafe_settings [of "(e, m')" eng ctx clk err] by simp
  have q: "same_settings m (snd (fst (place_quotes eng ctx cleanup clk ref (e, m'))))" if "same_settings m m'" for ref m'
    using same_settings_trans [OF that] place_quotes_settings [of "(e, m')"] by simp
  have r: "recover ref (recordRecoveringReference clk ref m) = Inl m2 \<Longrightarrow> same_settings m m2"
    "recover ref (recordRecoveringReference clk ref m) = Inr m2 \<Longrightarrow> same_settings m m2" for m2 ref
    using recover_settings same_settings_trans [of m "recordRecoveringReference clk ref m" m2] by auto
  show ?thesis unfolding x by (auto simp: refresh_def Let_def split: sum.split intro: p q r)
qed

section \<open>Pausing\<close>

definition waiting :: "Maker \<Rightarrow> bool" where
  "waiting m \<longleftrightarrow> mkPaused m \<and> (mkRecoveryPrice m = 0 \<or> mkFreshSamples m < 2)"

lemma waiting_record [simp]: "waiting (recordRecoveringReference clk ref m) = waiting m"
  by (simp add: waiting_def recordRecoveringReference_def)

lemma recover_waiting: "waiting m \<Longrightarrow> \<exists>m'. recover ref m = Inl m'"
  by (auto simp: waiting_def recover_def Let_def)

lemma cancelOrderIDs_submit: "cancelOrderIDs (eng\<lparr> egSubmit := f \<rparr>) ctx ids r x = cancelOrderIDs eng ctx ids r x"
  by (induction eng ctx ids r x rule: cancelOrderIDs.induct) (simp_all add: Let_def split: prod.split)

lemma cancelAll_submit: "cancelAll (eng\<lparr> egSubmit := f \<rparr>) ctx x = cancelAll eng ctx x"
  by (simp add: cancelAll_def cancelOrderIDs_submit split: sum.split)

lemma pauseUnsafe_submit: "pauseUnsafe (eng\<lparr> egSubmit := f \<rparr>) ctx clk cause x = pauseUnsafe eng ctx clk cause x"
  by (simp add: pauseUnsafe_def cancelAll_submit)

lemma pauseUnsafe_result:
  assumes "pauseUnsafe eng ctx clk cause x = ((e', m'), r)"
  shows "mkPaused m'" "mkPreviousPrice m' = 0" "mkRecoveryPrice m' = 0" "mkFreshSamples m' = 0"
    "\<exists>e. r = Some e \<and> errors_is e cause" "mkStatus m' \<noteq> None \<Longrightarrow> lqState (Tracker_Status (mkStatus m')) = LiquidityPaused"
    "fst (fst (cancelAll eng ctx x)) = e'" "r = Some cause \<Longrightarrow> snd (cancelAll eng ctx x) = None"
proof -
  obtain e1 m1 ce where c: "cancelAll eng ctx x = ((e1, m1), ce)" by (metis prod.collapse)
  have m': "m' = recordPaused (clk 3) ''reference is unsafe or unavailable'' 0
      (m1\<lparr> mkPaused := True, mkPreviousPrice := 0, mkRecoveryPrice := 0, mkFreshSamples := 0 \<rparr>)"
    and r: "r = errors_Join (Some cause) ce" and e: "e' = e1"
    using assms c by (auto simp: pauseUnsafe_def Let_def)
  show "mkPaused m'" "mkPreviousPrice m' = 0" "mkRecoveryPrice m' = 0" "mkFreshSamples m' = 0"
    by (simp_all add: m' recordPaused_def)
  show "mkStatus m' \<noteq> None \<Longrightarrow> lqState (Tracker_Status (mkStatus m')) = LiquidityPaused"
    by (auto simp: m' recordPaused_def Tracker_update_def Tracker_Status_def split: option.splits)
  have refl: "errors_is cause cause" by (cases cause) auto
  then show "\<exists>e. r = Some e \<and> errors_is e cause" by (cases ce) (auto simp: r)
  show "fst (fst (cancelAll eng ctx x)) = e'" by (simp add: c e)
  have "ErrJoin cause b \<noteq> cause" for b by (induction cause arbitrary: b) auto
  then show "r = Some cause \<Longrightarrow> snd (cancelAll eng ctx x) = None" by (cases ce) (auto simp: r c)
qed

lemma refresh_waiting:
  assumes "waiting (snd x)" "refresh eng ctx cleanup clk source x = (x', r)"
  shows "refresh (eng\<lparr> egSubmit := f \<rparr>) ctx cleanup clk source x = (x', r)"
    and "mkRecoveryPrice (snd x) = 0 \<Longrightarrow> waiting (snd x')"
proof -
  obtain e m where x: "x = (e, m)" by (cases x)
  have w: "waiting m" using assms(1) x by simp
  have p: "waiting (snd y)" if "pauseUnsafe eng ctx clk err z = (y, b)" for err y z b
    using pauseUnsafe_result(1,3) [of eng ctx clk err z "fst y" "snd y" b] that by (simp add: waiting_def)
  show "refresh (eng\<lparr> egSubmit := f \<rparr>) ctx cleanup clk source x = (x', r)"
  proof (cases source)
    case (Inl err)
    then show ?thesis using assms(2) by (simp add: refresh_def x pauseUnsafe_submit)
  next
    case (Inr ref)
    obtain m2 where "recover ref (recordRecoveringReference clk ref m) = Inl m2"
      using recover_waiting [of "recordRecoveringReference clk ref m" ref] w by auto
    then show ?thesis using assms(2) Inr by (auto simp: refresh_def x Let_def pauseUnsafe_submit split: sum.splits)
  qed
  show "waiting (snd x')" if "mkRecoveryPrice (snd x) = 0"
  proof (cases source)
    case (Inl err)
    then show ?thesis using assms(2) p x by (auto simp: refresh_def)
  next
    case (Inr ref)
    let ?m = "recordRecoveringReference clk ref m"
    have "recover ref ?m = Inl (?m\<lparr> mkRecoveryPrice := refPrice ref, mkFreshSamples := 1 \<rparr>)"
      using that x w by (simp add: recover_def waiting_def recordRecoveringReference_def)
    then show ?thesis using assms(2) p x Inr w
      by (auto simp: refresh_def Let_def waiting_def recordRecoveringReference_def split: sum.splits)
  qed
qed

section \<open>Operations of the engine\<close>

text \<open>
  An invariant of the engine that submissions in range and cancellations keep is kept by
  everything the maker does.
\<close>

locale engine_invariant =
  fixes eng :: "'e Engine" and inv :: "'e \<Rightarrow> bool"
  assumes inv_submit: "inv e \<Longrightarrow> request64 n \<Longrightarrow> inv (fst (egSubmit eng ctx n e))"
    and inv_cancel: "inv e \<Longrightarrow> inv (fst (egCancel eng ctx k e))"
begin

lemma inv_cancelOrderIDs: "inv (fst x) \<Longrightarrow> inv (fst (fst (cancelOrderIDs eng ctx ids r x)))"
proof (induction ids arbitrary: r x)
  case (Cons i ids)
  obtain e m where x: "x = (e, m)" by (cases x)
  show ?case using Cons.prems Cons.IH inv_cancel by (auto simp: x Let_def split: prod.splits) (metis fst_conv)
qed simp

lemma inv_cancelAll: "inv (fst x) \<Longrightarrow> inv (fst (fst (cancelAll eng ctx x)))"
  by (auto simp: cancelAll_def split: sum.splits intro: inv_cancelOrderIDs)

lemma inv_pauseUnsafe: "inv (fst x) \<Longrightarrow> inv (fst (fst (pauseUnsafe eng ctx clk cause x)))"
  using inv_cancelAll [of x ctx] by (auto simp: pauseUnsafe_def Let_def split: prod.splits)

lemma inv_submit_quotes:
  assumes "inv e" "\<forall>q \<in> set qs. in64 (pqPrice q)" "in64 (cfQuantity (mkConfig m))"
  shows "inv (fst (fst (submit_quotes eng ctx cleanup clk ref qs (e, m))))"
  using assms
proof (induction qs arbitrary: e m)
  case (Cons q qs)
  let ?m = "m\<lparr> mkCounter := mkCounter m + 1 \<rparr>"
  obtain e1 r where s: "egSubmit eng ctx (quote_request ?m q) e = (e1, r)" by (cases "egSubmit eng ctx (quote_request ?m q) e")
  have "request64 (quote_request ?m q)" using Cons.prems(2,3) by (simp add: request64_def quote_request_def)
  from inv_submit [OF Cons.prems(1) this, of ctx] s have e1: "inv e1" by simp
  obtain e2 m2 ce where c: "cancelAll eng cleanup (e1, ?m) = ((e2, m2), ce)" by (metis prod.collapse)
  have e2: "inv e2" using inv_cancelAll [of "(e1, ?m)" cleanup] e1 c by simp
  show ?case
  proof (cases "\<exists>result. r = Inr result \<and> rStatus result = OrderStatusOpen")
    case True
    then show ?thesis using s e1 Cons.IH [of e1 ?m] Cons.prems(2,3) by (auto simp: Let_def)
  next
    case False
    then show ?thesis using s e2 c
      by (cases r; cases ce) (auto simp: Let_def)
  qed
qed simp


lemma inv_place_quotes:
  assumes "inv (fst x)" "settings_ok (snd x)" "in64 (refPrice ref)" "0 < refPrice ref"
  shows "inv (fst (fst (place_quotes eng ctx cleanup clk ref x)))"
proof -
  obtain e m where x: "x = (e, m)" by (cases x)
  obtain e1 m1 ce where c: "cancelAll eng ctx (e, m) = ((e1, m1), ce)" by (metis prod.collapse)
  have e1: "inv e1" using inv_cancelAll [of x ctx] assms(1) c x by simp
  have m1: "settings_ok m1" using cancelAll_settings [of x eng ctx] c x assms(2) same_settingsD(1) by auto
  have q: "inv (fst (fst (submit_quotes eng ctx cleanup clk ref qs (e1, m1))))" if "quotePlan m1 (refPrice ref) = Inr qs" for qs
    using inv_submit_quotes [OF e1] quotePlan_ok(1) [OF that m1 assms(3,4)] m1 by (simp add: quote_ok_def settings_ok_def)
  have p: "inv (fst (fst (pauseUnsafe eng ctx clk err (e1, m1))))" for err using inv_pauseUnsafe [of "(e1, m1)"] e1 by simp
  show ?thesis using assms(1) x c e1 q p
    by (simp add: place_quotes_def Let_def split: sum.split option.split)
qed

lemma inv_refresh:
  assumes "inv (fst x)" "settings_ok (snd x)" "\<And>ref. source = Inr ref \<Longrightarrow> in64 (refPrice ref)"
  shows "inv (fst (fst (refresh eng ctx cleanup clk source x)))"
proof -
  obtain e m where x: "x = (e, m)" by (cases x)
  show ?thesis
  proof (cases source)
    case (Inl err)
    then show ?thesis using inv_pauseUnsafe [OF assms(1)] x by (simp add: refresh_def)
  next
    case (Inr ref)
    let ?m = "recordRecoveringReference clk ref m"
    show ?thesis
    proof (cases "\<exists>m2. validateBasicReference clk ?m ref = Inr () \<and> recover ref ?m = Inr m2 \<and> validateReferenceJump m2 ref = Inr ()")
      case True
      then obtain m2 where m2: "validateBasicReference clk ?m ref = Inr ()" "recover ref ?m = Inr m2" "validateReferenceJump m2 ref = Inr ()" by blast
      have "same_settings m m2" using recover_settings(2) [OF m2(2)] same_settings_trans [of m ?m m2] by simp
      then have "settings_ok m2" using assms(2) x same_settingsD(1) by simp
      moreover have "0 < refPrice ref" using m2(1) by (auto simp: validateBasicReference_def split: if_splits)
      ultimately show ?thesis using inv_place_quotes [of "(e, m2)" ref] m2 x Inr assms(1) assms(3) [OF Inr]
        by (simp add: refresh_def Let_def)
    next
      case False
      then show ?thesis using assms(1) x Inr inv_pauseUnsafe
        by (auto simp: refresh_def Let_def split: sum.split)
    qed
  qed
qed


lemma inv_run_events:
  assumes "inv (fst x)" "settings_ok (snd x)"
    and "\<And>ctx cleanup clk ref. Tick ctx cleanup clk (Inr ref) \<in> set events \<Longrightarrow> in64 (refPrice ref)"
  shows "inv (fst (fst (run_events eng events x)))"
  using assms
proof (induction events arbitrary: x)
  case (Cons event events)
  show ?case
  proof (cases event)
    case (Tick ctx cleanup clk source)
    obtain e m r where f: "refresh eng ctx cleanup clk source x = ((e, m), r)" by (metis prod.collapse)
    have "inv e" using inv_refresh [of x source ctx cleanup clk] Cons.prems f Tick by auto
    moreover have "settings_ok m" using refresh_settings [of x eng ctx cleanup clk source] f Cons.prems(2) same_settingsD(1) by auto
    ultimately show ?thesis using Cons.IH [of "(e, m)"] Cons.prems(3) f Tick by (auto simp: Let_def)
  next
    case (Done ctx now)
    obtain e m r where f: "cancelAll eng ctx x = ((e, m), r)" by (metis prod.collapse)
    then have "inv e" using inv_cancelAll [OF Cons.prems(1), of ctx] by simp
    then show ?thesis using f Done by (simp add: Let_def split: option.split)
  qed
qed simp

end

text \<open>
  An engine in which a cancellation that succeeds closes the order, for the orders of one account.
\<close>

locale cancelling_engine = engine_invariant eng inv for eng :: "'e Engine" and inv :: "'e \<Rightarrow> bool" +
  fixes account :: AccountID
  assumes orders_total: "inv e \<Longrightarrow> \<exists>orders. egOrders eng account True e = Inr orders"
    and cancel_closes: "inv e \<Longrightarrow> egCancel eng ctx k e = (e', Inr r) \<Longrightarrow> cAccountID k = account \<Longrightarrow>
      egOrders eng account True e = Inr orders \<Longrightarrow> egOrders eng account True e' = Inr orders' \<Longrightarrow>
      oID ` set orders' \<subseteq> oID ` set orders - {cOrderID k}"
begin

lemma errors_Join_None: "errors_Join a b = None \<longleftrightarrow> a = None \<and> b = None"
  by (cases a; cases b) auto

lemma cancelOrderIDs_error: "snd (cancelOrderIDs eng ctx ids (Some err) x) \<noteq> None"
proof (induction ids arbitrary: err x)
  case (Cons i ids)
  obtain e m where x: "x = (e, m)" by (cases x)
  show ?case using Cons.IH by (cases "snd (egCancel eng ctx (cancel_request (m\<lparr> mkCounter := mkCounter m + 1 \<rparr>) i) e)")
      (auto simp: x Let_def split: prod.splits)
qed simp

lemma cancelOrderIDs_closes:
  assumes "inv e" "cfAccountID (mkConfig m) = account" "egOrders eng account True e = Inr orders"
    and "cancelOrderIDs eng ctx ids None (e, m) = ((e', m'), None)" "egOrders eng account True e' = Inr orders'"
  shows "oID ` set orders' \<subseteq> oID ` set orders - set ids"
  using assms
proof (induction ids arbitrary: e m orders)
  case (Cons i ids)
  let ?m = "m\<lparr> mkCounter := mkCounter m + 1 \<rparr>"
  obtain e1 r where c: "egCancel eng ctx (cancel_request ?m i) e = (e1, r)" by (cases "egCancel eng ctx (cancel_request ?m i) e")
  have e1: "inv e1" using inv_cancel [OF Cons.prems(1), of ctx "cancel_request ?m i"] c by simp
  obtain orders1 where o1: "egOrders eng account True e1 = Inr orders1" using orders_total [OF e1] by blast
  have "cancelOrderIDs eng ctx ids (case r of Inl err \<Rightarrow> Some err | Inr _ \<Rightarrow> None) (e1, ?m) = ((e', m'), None)"
    using Cons.prems(4) c by (simp add: Let_def)
  then obtain res where r: "r = Inr res" and rest: "cancelOrderIDs eng ctx ids None (e1, ?m) = ((e', m'), None)"
    using cancelOrderIDs_error [of ctx ids "projl r" "(e1, ?m)"] by (cases r) simp_all
  have "oID ` set orders1 \<subseteq> oID ` set orders - {i}"
    using cancel_closes [OF Cons.prems(1) c [unfolded r] _ Cons.prems(3) o1] Cons.prems(2) by (simp add: cancel_request_def)
  moreover have "oID ` set orders' \<subseteq> oID ` set orders1 - set ids"
    using Cons.IH [OF e1 _ o1 rest Cons.prems(5)] Cons.prems(2) by simp
  ultimately show ?case by (simp only: list.set) blast
qed simp

lemma cancelAll_closes:
  assumes "inv e" "cfAccountID (mkConfig m) = account" "cancelAll eng ctx (e, m) = ((e', m'), None)"
  shows "egOrders eng account True e' = Inr []"
proof -
  obtain orders where o: "egOrders eng account True e = Inr orders" using orders_total [OF assms(1)] by blast
  have "inv e'" using inv_cancelAll [of "(e, m)" ctx] assms(1,3) by simp
  then obtain orders' where o': "egOrders eng account True e' = Inr orders'" using orders_total by blast
  have "cancelOrderIDs eng ctx (map oID orders) None (e, m) = ((e', m'), None)"
    using assms(2,3) o by (simp add: cancelAll_def)
  from cancelOrderIDs_closes [OF assms(1,2) o this o'] have "orders' = []" by (cases orders') auto
  with o' show ?thesis by simp
qed

end

section \<open>The exchange as an engine\<close>

lemma open_order_iff:
  assumes "orders_ok mk (sOrders (snd x))"
  shows "ord \<in> set (Exchange_Orders account True x) \<longleftrightarrow>
    (account = [] \<or> oAccountID ord = account) \<and> IsOpen ord \<and> fmlookup (sOrders (snd x)) (oID ord) = Some ord"
proof -
  have "ord \<in> snd ` set (sorted_list_of_fmap (sOrders (snd x))) \<longleftrightarrow> (\<exists>i. fmlookup (sOrders (snd x)) i = Some ord)"
    using sorted_list_of_fmap_mem by force
  also have "\<dots> \<longleftrightarrow> fmlookup (sOrders (snd x)) (oID ord) = Some ord" using assms by (auto simp: orders_ok_def)
  finally show ?thesis by (auto simp: Exchange_Orders_def)
qed

lemma compact_orders:
  assumes "compactForSchema CurrentSchemaVersion s = Inr s'" "fmlookup (sOrders s') i = Some ord"
  shows "fmlookup (sOrders s) i = Some ord"
  using assms
  by (auto simp: compactForSchema_def CurrentSchemaVersion_def Let_def bindE_eq_Inr compactEphemeralSystemHistory_def
      split: if_splits)

lemma applyCancel_closes:
  assumes "applyCancel cmd s = Inr (s', res)" "cmdCancel cmd = Some req" "orders_ok mk (sOrders s)"
    and "fmlookup (sOrders s') i = Some ord" "IsOpen ord" "oAccountID ord = cAccountID req"
  shows "fmlookup (sOrders s) i = Some ord \<and> i \<noteq> cOrderID req"
proof -
  have v: "CancelOrder_Validate req = Inr ()" using assms(1,2) by (auto simp: applyCancel_def bindE_eq_Inr)
  show ?thesis
  proof (cases "\<exists>o0. fmlookup (sOrders s) (cOrderID req) = Some o0 \<and> oAccountID o0 = cAccountID req \<and> IsOpen o0")
    case False
    then have "s' = s" using assms(1,2) v by (simp add: applyCancel_def Let_def split: option.splits if_splits)
    with False assms(4-6) show ?thesis by auto
  next
    case True
    then obtain o0 where o0: "fmlookup (sOrders s) (cOrderID req) = Some o0" "oAccountID o0 = cAccountID req" "IsOpen o0" by blast
    have id: "oID o0 = cOrderID req" using assms(3) o0(1) by (simp add: orders_ok_def)
    define o1 where "o1 = o0\<lparr> oStatus := OrderStatusCanceled, oLastSequence := cmdSequence cmd, oHeldAsset := [], oHeldAmount := 0 \<rparr>"
    have o1: "oStatus o1 = OrderStatusCanceled" by (simp add: o1_def)
    have "\<exists>b l. s' = s\<lparr> sBook := b, sLedger := l, sOrders := fmupd (cOrderID req) o1 (sOrders s) \<rparr>"
      using assms(1,2) v o0 by (auto simp: applyCancel_def bindE_eq_Inr Let_def id o1_def split: if_split_asm)
    then have "fmlookup (sOrders s') i = (if i = cOrderID req then Some o1 else fmlookup (sOrders s) i)" by auto
    with o1 assms(4,5) show ?thesis by (auto simp: IsOpen_def split: if_splits)
  qed
qed

context exchange_log
begin

lemma Cancel_closes:
  assumes "consistent x" "Cancel env ctx k x = (y, Inr r)" "cAccountID k = ephemeralDemoMakerAccount"
    and ord: "ord \<in> set (Exchange_Orders ephemeralDemoMakerAccount True y)"
  shows "ord \<in> set (Exchange_Orders ephemeralDemoMakerAccount True x) \<and> oID ord \<noteq> cOrderID k"
proof -
  obtain st s where x: "x = (st, s)" by (cases x)
  note L = log_okD [OF assms(1) [unfolded x fst_conv snd_conv]]
  have core: "core_ok s" "validate s = Inr ()" using L(1) by (auto simp: state_ok_def)
  obtain fp where run: "runLocked env ctx (cancel_command (mID (sMarket s)) fp k) (st, s) = (y, Inr r)"
    using assms(2) x by (auto simp: Cancel_def split: sum.splits)
  let ?cmd = "cancel_command (mID (sMarket s)) fp k"
  have "\<not> kept (cmdRequestKey ?cmd)" using assms(3) by (simp add: kept_def cancel_command_def NewIdempotencyKey_def)
  then have no: "fmlookup (sRequests s) (cmdRequestKey ?cmd) = None" using L(7) by (auto simp: requests_kept_def)
  from run show ?thesis
  proof (cases rule: runLocked_cases)
    case (committed st' t rec res)
    let ?c = "?cmd\<lparr> cmdSequence := sSequence s + 1 \<rparr>"
    have c64: "command64 ?c" by (simp add: command64_def cancel_command_def)
    have run: "run_trial c ?c s = Inr (t, rec, res)" using committed(2) by simp
    obtain t1 j p hash where t1: "trial_apply ?c s = Inr (t1, res, j, p)"
      "compactForSchema CurrentSchemaVersion (if remembered ?c then remember ?c res t1 else t1) = Inr t"
      using run_trial_InrD [OF run L(1) c64] by metis
    have ap: "applyCancel ?c (s\<lparr> sSequence := sSequence s + 1 \<rparr>) = Inr (t1, res)"
      using t1(1) by (auto simp: trial_apply_def collect_trial_def bindE_eq_Inr apply_command_def cancel_command_def)
    have ot: "orders_ok (sMarket t) (sOrders (snd y))"
      using run_trial_ok(1) [OF run L(1) c64] core_okD(7) committed(4) by (simp add: state_ok_def)
    note O = open_order_iff [OF ot, of ord ephemeralDemoMakerAccount, simplified committed(4) snd_conv]
    have l: "fmlookup (sOrders t) (oID ord) = Some ord" "IsOpen ord" "oAccountID ord = ephemeralDemoMakerAccount"
      using ord O committed(4) by (auto simp: ephemeralDemoMakerAccount_def)
    have "fmlookup (sOrders t1) (oID ord) = Some ord"
      using compact_orders [OF t1(2) l(1)] by (simp add: remember_def split: if_splits)
    from applyCancel_closes [OF ap _ _ this l(2)] core_okD(7) [OF core(1)] l(3) assms(3)
    have "fmlookup (sOrders s) (oID ord) = Some ord" "oID ord \<noteq> cOrderID k" by (auto simp: cancel_command_def)
    then show ?thesis using open_order_iff [of _ x ord ephemeralDemoMakerAccount] core_okD(7) [OF core(1)] l x by auto
  qed (use no in auto)
qed

end

text \<open>Over every event log, the exchange is such an engine for the account of the maker.\<close>

sublocale exchange_log \<subseteq> liquidity: cancelling_engine "exchange_engine env" "\<lambda>x. consistent x"
  ephemeralDemoMakerAccount
proof (unfold_locales, goal_cases)
  case (1 e n ctx)
  then show ?case using consistent_Submit [OF _ _ walk_own, of e n None ctx] by (simp add: exchange_engine_def)
next
  case (2 e ctx k)
  then show ?case using consistent_Cancel [OF _ walk_own, of e None ctx k] by (simp add: exchange_engine_def)
next
  case (3 e)
  then show ?case by (simp add: exchange_engine_def)
next
  case (4 e ctx k e' r orders orders')
  then show ?case using Cancel_closes [of e ctx k e' r] by (auto simp: exchange_engine_def)
qed

context exchange_log
begin

lemma unsafe_withdraws:
  assumes "consistent e" "cfAccountID (mkConfig m) = ephemeralDemoMakerAccount"
    and "case source of Inl _ \<Rightarrow> True | Inr ref \<Rightarrow> validateBasicReference clk m ref \<noteq> Inr ()"
    and "refresh (exchange_engine env) ctx cleanup clk source (e, m) = ((e', m'), r)"
  shows "mkPaused m' \<and> (\<exists>err. r = Some err \<and> errors_is err ErrUnsafeReference) \<and>
    (mkStatus m' \<noteq> None \<longrightarrow> \<not> SubmitEnabled (Tracker_Status (mkStatus m'))) \<and>
    (r = Some ErrUnsafeReference \<longrightarrow> Exchange_Orders ephemeralDemoMakerAccount True e' = [])"
proof -
  obtain m1 where p: "pauseUnsafe (exchange_engine env) ctx clk ErrUnsafeReference (e, m1) = ((e', m'), r)"
    and m1: "cfAccountID (mkConfig m1) = ephemeralDemoMakerAccount"
  proof (cases source)
    case (Inl err)
    then show ?thesis using that [of m] assms(2,4) by (simp add: refresh_def)
  next
    case (Inr ref)
    then have "validateBasicReference clk m ref = Inl ErrUnsafeReference"
      using assms(3) by (auto simp: validateBasicReference_def split: if_splits)
    then show ?thesis using that [of "recordRecoveringReference clk ref m"] assms(2,4) Inr by (simp add: refresh_def Let_def)
  qed
  note P = pauseUnsafe_result [OF p]
  obtain m2 ce where c: "cancelAll (exchange_engine env) ctx (e, m1) = ((e', m2), ce)" using P(7) by (metis prod.collapse)
  have "Exchange_Orders ephemeralDemoMakerAccount True e' = []" if "r = Some ErrUnsafeReference"
    using liquidity.cancelAll_closes [OF assms(1) m1, of ctx e' m2] c P(8) [OF that] by (simp add: exchange_engine_def)
  then show ?thesis using P(1,5,6) by (auto simp: SubmitEnabled_def)
qed

end

section \<open>Properties\<close>

text \<open>C20 The quotes that a maker plans are one bid and one ask for every configured spread; each is
  a positive multiple of the tick, bids lie below the reference and asks above it, and each is the
  tick nearest to the reference that keeps the whole spread.\<close>

theorem quotes_straddle_reference:
  assumes "Maker_New market eng src config tracker = Inr m" "market_ok market" "in64 (cfQuantity config)"
    and "in64 ref" "0 < ref" "quotePlan m ref = Inr quotes"
  shows "length quotes = 2 * length (cfSpreadsBPS config) \<and> (\<forall>q \<in> set quotes. quote_ok market ref q)"
  using quotePlan_ok [OF assms(6) Maker_New_settings(1) [OF assms(1-3)] assms(4,5)]
    Maker_New_settings(2,3) [OF assms(1-3)] by simp

definition sample_maker :: "LiquidityStatus option \<Rightarrow> Maker" where
  "sample_maker tracker = \<lparr> mkMarket = DefaultBTCUSDTMarket, mkConfig = DefaultConfig, mkStatus = tracker, mkCounter = 0,
     mkPreviousPrice = 0, mkPaused = False, mkRecoveryPrice = 0, mkFreshSamples = 0 \<rparr>"

lemma sample_maker_New:
  "Maker_New DefaultBTCUSDTMarket (Some eng) True DefaultConfig tracker = Inr (sample_maker tracker)"
proof -
  have "mQuantityStep DefaultBTCUSDTMarket = 100" "mMinQuantity DefaultBTCUSDTMarket = 1000"
    by (simp_all add: DefaultBTCUSDTMarket_def)
  then show ?thesis
    using market_okD(19) [OF market_ok_default] by (simp add: Maker_New_def DefaultConfig_def sample_maker_def rem64_def)
qed

lemma demo_quotePlan: "quotePlan (sample_maker None) 50000000000 =
  Inr [\<lparr> pqSide = SideBuy, pqPrice = 49950000000, pqLabel = ''bid'', pqSpread = 10 \<rparr>,
    \<lparr> pqSide = SideSell, pqPrice = 50050000000, pqLabel = ''ask'', pqSpread = 10 \<rparr>,
    \<lparr> pqSide = SideBuy, pqPrice = 49875000000, pqLabel = ''bid'', pqSpread = 25 \<rparr>,
    \<lparr> pqSide = SideSell, pqPrice = 50125000000, pqLabel = ''ask'', pqSpread = 25 \<rparr>,
    \<lparr> pqSide = SideBuy, pqPrice = 49750000000, pqLabel = ''bid'', pqSpread = 50 \<rparr>,
    \<lparr> pqSide = SideSell, pqPrice = 50250000000, pqLabel = ''ask'', pqSpread = 50 \<rparr>]"
  by code_simp

theorem quotes_straddle_reference_witness:
  "\<exists>quotes. quotePlan (sample_maker None) 50000000000 = Inr quotes \<and> length quotes = 6 \<and>
     (\<forall>q \<in> set quotes. quote_ok DefaultBTCUSDTMarket 50000000000 q)"
  using quotes_straddle_reference [OF sample_maker_New [of undefined None] market_ok_default _ _ _ demo_quotePlan] demo_quotePlan
  by (simp add: DefaultConfig_def in64_def MaxInt64_def MinInt64_def)

text \<open>An engine for the examples: its state counts the orders that were accepted.\<close>

definition counting_engine :: "nat Engine" where
  "counting_engine = \<lparr> egSubmit = (\<lambda>_ n e. (e + 1, Inr \<lparr> rSequence = e + 1, rOrderID = nClientOrderID n, rStatus = OrderStatusOpen, rEvents = [] \<rparr>)),
     egCancel = (\<lambda>_ _ e. (e, Inl ErrBookOrderNotFound)), egOrders = (\<lambda>_ _ _. Inr []),
     egDepth = (\<lambda>_ _. Inr \<lparr> obMarketID = ''BTC-USDT'', obSequence = 0, obBids = [], obAsks = [] \<rparr>) \<rparr>"

text \<open>A maker that paused submits nothing during the next two refreshes, whatever the reference
  source returns: they do not depend on the \<open>Submit\<close> of the engine.\<close>

theorem paused_maker_waits:
  assumes "pauseUnsafe eng ctx0 clk0 cause x = (x0, r0)"
    and "refresh eng ctx1 cleanup1 clk1 source1 x0 = (x1, r1)" "refresh eng ctx2 cleanup2 clk2 source2 x1 = (x2, r2)"
  shows "refresh (eng\<lparr> egSubmit := f \<rparr>) ctx1 cleanup1 clk1 source1 x0 = (x1, r1) \<and>
    refresh (eng\<lparr> egSubmit := g \<rparr>) ctx2 cleanup2 clk2 source2 x1 = (x2, r2)"
proof -
  have "waiting (snd x0)" "mkRecoveryPrice (snd x0) = 0"
    using pauseUnsafe_result(1,3) [of eng ctx0 clk0 cause x "fst x0" "snd x0" r0] assms(1) by (simp_all add: waiting_def)
  then show ?thesis using refresh_waiting(1) assms(2,3) refresh_waiting(2) [OF _ assms(2)] by blast
qed

definition demo_reference :: "int \<Rightarrow> Reference" where
  "demo_reference price = \<lparr> refPrice = price, refObservedAt = 9000000000 \<rparr>"

definition demo_paused :: "nat maker" where
  "demo_paused = fst (pauseUnsafe counting_engine None (\<lambda>_. 9000000000) ErrUnsafeReference (0, sample_maker None))"

definition demo_refresh :: "int \<Rightarrow> nat maker \<Rightarrow> nat maker \<times> error option" where
  "demo_refresh price = refresh counting_engine None None (\<lambda>_. 9000000000) (Inr (demo_reference price))"

theorem paused_maker_waits_witness:
  "refresh (counting_engine\<lparr> egSubmit := \<lambda>_ _ e. (e, Inl ErrUnsafeReference) \<rparr>) None None (\<lambda>_. 9000000000)
     (Inr (demo_reference 50000000000)) (fst (demo_refresh 49990000000 demo_paused)) =
   demo_refresh 50000000000 (fst (demo_refresh 49990000000 demo_paused))"
  using paused_maker_waits [of counting_engine None "\<lambda>_. 9000000000" ErrUnsafeReference "(0, sample_maker None)" demo_paused
      "snd (pauseUnsafe counting_engine None (\<lambda>_. 9000000000) ErrUnsafeReference (0, sample_maker None))"
      None None "\<lambda>_. 9000000000" "Inr (demo_reference 49990000000)" _ _
      None None "\<lambda>_. 9000000000" "Inr (demo_reference 50000000000)"]
  unfolding demo_refresh_def demo_paused_def by (metis prod.collapse)

definition within_jump :: "Maker \<Rightarrow> Reference \<Rightarrow> Reference \<Rightarrow> bool" where
  "within_jump m ref previous \<longleftrightarrow>
     (\<exists>j. priceMovementBPS (refPrice ref) (refPrice previous) = Inr j \<and> j \<le> cfMaxJumpBPS (mkConfig m))"

lemma refresh_first_sample:
  assumes "mkPaused m" "mkRecoveryPrice m = 0" "validateBasicReference clk m ref = Inr ()"
  obtains m' where "refresh eng ctx cleanup clk (Inr ref) (e, m) = ((e, m'), None)" "mkPaused m'"
    "mkRecoveryPrice m' = refPrice ref" "mkFreshSamples m' = 1" "mkConfig m' = mkConfig m" "mkPreviousPrice m' = mkPreviousPrice m"
proof
  let ?m = "(recordRecoveringReference clk ref m)\<lparr> mkRecoveryPrice := refPrice ref, mkFreshSamples := 1 \<rparr>"
  show "refresh eng ctx cleanup clk (Inr ref) (e, m) = ((e, ?m), None)"
    using assms by (simp add: refresh_def Let_def recover_def)
qed (use assms in simp_all)

lemma refresh_next_sample:
  assumes "mkPaused m" "mkRecoveryPrice m = refPrice previous" "0 < refPrice previous"
    and "within_jump m ref previous" "validateBasicReference clk m ref = Inr ()"
  shows "mkFreshSamples m = 1 \<Longrightarrow> \<exists>m'. refresh eng ctx cleanup clk (Inr ref) (e, m) = ((e, m'), None) \<and> mkPaused m' \<and>
      mkRecoveryPrice m' = refPrice ref \<and> mkFreshSamples m' = 2 \<and> mkConfig m' = mkConfig m \<and> mkPreviousPrice m' = mkPreviousPrice m"
    and "mkFreshSamples m = 2 \<Longrightarrow> mkPreviousPrice m = 0 \<Longrightarrow> \<exists>m'. \<not> mkPaused m' \<and>
      refresh eng ctx cleanup clk (Inr ref) (e, m) = place_quotes eng ctx cleanup clk ref (e, m')"
proof -
  let ?m = "recordRecoveringReference clk ref m"
  obtain j where j: "priceMovementBPS (refPrice ref) (refPrice previous) = Inr j" "j \<le> cfMaxJumpBPS (mkConfig m)"
    using assms(4) by (auto simp: within_jump_def)
  show "\<exists>m'. refresh eng ctx cleanup clk (Inr ref) (e, m) = ((e, m'), None) \<and> mkPaused m' \<and>
      mkRecoveryPrice m' = refPrice ref \<and> mkFreshSamples m' = 2 \<and> mkConfig m' = mkConfig m \<and> mkPreviousPrice m' = mkPreviousPrice m"
    if "mkFreshSamples m = 1"
    using that assms(1-3) j by (intro exI [of _ "?m\<lparr> mkRecoveryPrice := refPrice ref, mkFreshSamples := 2 \<rparr>"])
      (simp add: refresh_def Let_def assms(5) recover_def numeral_2_eq_2)
  show "\<exists>m'. \<not> mkPaused m' \<and> refresh eng ctx cleanup clk (Inr ref) (e, m) = place_quotes eng ctx cleanup clk ref (e, m')"
    if "mkFreshSamples m = 2" "mkPreviousPrice m = 0"
    using that assms(1-3) j
    by (intro exI [of _ "?m\<lparr> mkPaused := False, mkRecoveryPrice := 0, mkFreshSamples := 0 \<rparr>"])
      (simp add: refresh_def Let_def assms(5) recover_def validateReferenceJump_def)
qed

text \<open>C19 Three references that are fresh and within the allowed movement of each other end a pause:
  the first two only count, and the third refresh goes on to place quotes on the engine that the
  pause left.\<close>

theorem third_stable_reference_quotes:
  assumes "pauseUnsafe eng ctx0 clk0 cause x = ((e0, m0), r0)"
    and "validateBasicReference clk1 m0 ref1 = Inr ()" "validateBasicReference clk2 m0 ref2 = Inr ()"
    and "validateBasicReference clk3 m0 ref3 = Inr ()" "within_jump m0 ref2 ref1" "within_jump m0 ref3 ref2"
  shows "\<exists>m1 m2 m3. refresh eng ctx1 cleanup1 clk1 (Inr ref1) (e0, m0) = ((e0, m1), None) \<and>
    refresh eng ctx2 cleanup2 clk2 (Inr ref2) (e0, m1) = ((e0, m2), None) \<and> \<not> mkPaused m3 \<and>
    refresh eng ctx3 cleanup3 clk3 (Inr ref3) (e0, m2) = place_quotes eng ctx3 cleanup3 clk3 ref3 (e0, m3)"
proof -
  note P = pauseUnsafe_result [OF assms(1)]
  have p: "0 < refPrice ref1" "0 < refPrice ref2" using assms(2,3) by (auto simp: validateBasicReference_def split: if_splits)
  obtain m1 where m1: "refresh eng ctx1 cleanup1 clk1 (Inr ref1) (e0, m0) = ((e0, m1), None)" "mkPaused m1"
    "mkRecoveryPrice m1 = refPrice ref1" "mkFreshSamples m1 = 1" "mkConfig m1 = mkConfig m0" "mkPreviousPrice m1 = 0"
    using refresh_first_sample [OF P(1,3) assms(2)] P(2) by metis
  have j1: "within_jump m1 ref2 ref1" "validateBasicReference clk2 m1 ref2 = Inr ()"
    using assms(3,5) m1(5) validateBasicReference_config [of m1 m0] by (auto simp: within_jump_def)
  obtain m2 where m2: "refresh eng ctx2 cleanup2 clk2 (Inr ref2) (e0, m1) = ((e0, m2), None)" "mkPaused m2"
    "mkRecoveryPrice m2 = refPrice ref2" "mkFreshSamples m2 = 2" "mkConfig m2 = mkConfig m0" "mkPreviousPrice m2 = 0"
    using refresh_next_sample(1) [OF m1(2,3) p(1) j1 m1(4)] m1(5,6) by metis
  have j2: "within_jump m2 ref3 ref2" "validateBasicReference clk3 m2 ref3 = Inr ()"
    using assms(4,6) m2(5) validateBasicReference_config [of m2 m0] by (auto simp: within_jump_def)
  show ?thesis using m1(1) m2(1)
      refresh_next_sample(2) [OF m2(2,3) p(2) j2 m2(4,6), where eng = eng and ctx = ctx3 and cleanup = cleanup3 and e = e0] by blast
qed

lemma demo_jump: "priceMovementBPS 50000000000 49990000000 = Inr 3" "priceMovementBPS 50010000000 50000000000 = Inr 2"
  by code_simp+

theorem third_stable_reference_quotes_witness:
  "\<exists>m1 m2 m3. demo_refresh 49990000000 demo_paused = ((0, m1), None) \<and> demo_refresh 50000000000 (0, m1) = ((0, m2), None) \<and>
     \<not> mkPaused m3 \<and> demo_refresh 50010000000 (0, m2) =
       place_quotes counting_engine None None (\<lambda>_. 9000000000) (demo_reference 50010000000) (0, m3)"
proof -
  have f: "validateBasicReference (\<lambda>_. 9000000000) m (demo_reference p) = Inr ()" if "mkConfig m = DefaultConfig" "0 < p" for m p
    using that by (simp add: validateBasicReference_def demo_reference_def DefaultConfig_def time_sub_def MaxInt64_def MinInt64_def)
  have "fst demo_paused = 0" "mkConfig (snd demo_paused) = DefaultConfig" by code_simp+
  then obtain m0 where p: "demo_paused = (0, m0)" and c: "mkConfig m0 = DefaultConfig" by (metis prod.collapse)
  have j: "within_jump m0 (demo_reference 50000000000) (demo_reference 49990000000)"
    "within_jump m0 (demo_reference 50010000000) (demo_reference 50000000000)"
    using demo_jump by (simp_all add: within_jump_def demo_reference_def c DefaultConfig_def)
  obtain r0 where r0: "pauseUnsafe counting_engine None (\<lambda>_. 9000000000) ErrUnsafeReference (0, sample_maker None) = ((0, m0), r0)"
    using p by (metis demo_paused_def prod.collapse)
  show ?thesis
    using third_stable_reference_quotes [OF r0 f [OF c] f [OF c] f [OF c] j, of None None None None None None]
    by (simp add: demo_refresh_def p)
qed

end
