(* ===== verification/Runner.thy ===== *)
theory Runner
  imports Exchange_Run Recovery
begin

text \<open>
  The package \<open>trading/runtime\<close>: the runner that owns the exchange of one market and executes its
  commands one after the other, behind a bounded queue and the write gate of the recovery
  coordinator.

  \<^item> \<open>MarketRunner\<close> has the fields of the struct. The channel \<open>queue\<close> is the list of its
    commands, \<open>stop\<close> and \<open>done\<close> tell whether the channels are closed. The exchange and its
    stores stay outside, as in the theory of the exchange.
  \<^item> A command carries the number of its response channel; \<open>wReplies\<close> is what was sent on those
    channels. An error message of the status is the error itself, the empty message is \<open>None\<close>.
  \<^item> The goroutines interleave as steps of \<open>runner_step\<close>: a call that asks the gate, a call that
    enters the queue, \<open>Close\<close>, the steps of the coordinator, and the loop. The loop handles a command
    in several steps, with no lock held in between, and \<open>phase\<close> is the point it has reached: it
    takes the command from the queue, validates its admission, reads the state of the runner,
    executes the command, writes sequence and hash to the status, saves the periodic snapshot,
    and sends the response; after a persistence error it stops accepting and then recovers. A
    \<open>Status\<close> call reads the fields of the runner between any two steps.
  \<^item> What one step joins commutes with the other goroutines: it holds one lock, or works on the
    exchange, which only the loop changes, and writes fields that only the loop writes.
  \<^item> The contexts with a timeout, the clock and the orders in which requests are walked are readings,
    chosen freely for every step.
\<close>

section \<open>Data\<close>

datatype RunnerState = StateReady | StateRecovering | StateFailed | StateClosing | StateClosed

record 'g WriteGate =
  wgRequireWritable :: "ctx \<Rightarrow> 'g \<Rightarrow> 'g \<times> unit res"
  wgAdmit :: "ctx \<Rightarrow> AdmissionMode \<Rightarrow> AccountID \<Rightarrow> 'g \<Rightarrow> 'g \<times> Admission res"
  wgValidateAdmission :: "ctx \<Rightarrow> Admission \<Rightarrow> 'g \<Rightarrow> 'g \<times> unit res"

definition coordinator_gate :: "'t RecoveryEnv \<Rightarrow> ('t coordinator) WriteGate" where
  "coordinator_gate renv = \<lparr> wgRequireWritable = RequireWritable renv, wgAdmit = Admit renv,
     wgValidateAdmission = ValidateAdmission renv \<rparr>"

record RunnerConfig =
  rcQueueSize :: int
  rcSnapshotEvery :: nat
  rcSnapshotTimeout :: int

definition DefaultRunnerConfig :: RunnerConfig where
  "DefaultRunnerConfig = \<lparr> rcQueueSize = 256, rcSnapshotEvery = 100, rcSnapshotTimeout = 2 * 60 * 1000000000 \<rparr>"

datatype operation = operationFund | operationSubmit | operationCancel | operationOther nat

record RunnerCommand =
  cmKind :: operation
  cmFund :: FundRequest
  cmSubmit :: NewOrder
  cmCancel :: CancelOrder
  cmResponse :: nat
  cmSafetyCancel :: bool
  cmSafetyFund :: bool
  cmAdmission :: "Admission option"

definition zeroFundRequest :: FundRequest where
  "zeroFundRequest = \<lparr> fRequestID = [], fAccountID = [], fAsset = [], fAmount = 0 \<rparr>"

definition zeroNewOrder :: NewOrder where
  "zeroNewOrder = \<lparr> nClientOrderID = [], nAccountID = [], nSide = SideOther 0, nType = OrderTypeOther 0,
     nTimeInForce = TimeInForceOther 0, nPrice = 0, nQuantity = 0, nQuoteBudget = 0, nPostOnly = False \<rparr>"

definition zeroCancelOrder :: CancelOrder where
  "zeroCancelOrder = \<lparr> cRequestID = [], cAccountID = [], cOrderID = [] \<rparr>"

definition zeroCommand :: "operation \<Rightarrow> RunnerCommand" where
  "zeroCommand kind = \<lparr> cmKind = kind, cmFund = zeroFundRequest, cmSubmit = zeroNewOrder, cmCancel = zeroCancelOrder,
     cmResponse = 0, cmSafetyCancel = False, cmSafetyFund = False, cmAdmission = None \<rparr>"

record MarketRunner =
  rnMarket :: Market
  rnConfig :: RunnerConfig
  rnQueue :: "RunnerCommand list"
  rnStop :: bool
  rnDone :: bool
  rnAccepting :: bool
  rnState :: RunnerState
  rnSequence :: nat
  rnStateHash :: string
  rnLastError :: "error option"
  rnLastIncident :: "error option"
  rnLastIncidentAt :: instant
  rnLastRecoveredAt :: instant
  rnRecoveryCount :: nat
  rnCloseErr :: "error option"

definition NewMarketRunner ::
  "ctx \<Rightarrow> walk \<Rightarrow> Market \<Rightarrow> 's EventStore option \<Rightarrow> ('s, 'b) SnapshotStore option \<Rightarrow> 'b Codec \<Rightarrow> RunnerConfig \<Rightarrow> 's
     \<Rightarrow> 's \<times> (MarketRunner \<times> 's exchange) res" where
  "NewMarketRunner ctx walk market eventLog snapshots c config st =
     (if rcQueueSize config \<le> 0 then (st, Inl (ErrPlain ''queue size must be positive''))
      else if rcSnapshotEvery config = 0 then (st, Inl (ErrPlain ''snapshot interval must be positive''))
      else if rcSnapshotTimeout config < 0 then (st, Inl (ErrPlain ''snapshot timeout must not be negative''))
      else
        (let config' = (if rcSnapshotTimeout config = 0
                        then config\<lparr> rcSnapshotTimeout := rcSnapshotTimeout DefaultRunnerConfig \<rparr> else config)
         in case Restore ctx market eventLog snapshots c st of
              (st', Inl err) \<Rightarrow> (st', Inl err)
            | (st', Inr restored) \<Rightarrow>
                (case StateHash (rewalk walk c) restored of
                   Inl err \<Rightarrow> (st', Inl err)
                 | Inr initialHash \<Rightarrow>
                     (st', Inr (\<lparr> rnMarket = market, rnConfig = config', rnQueue = [], rnStop = False, rnDone = False,
                                  rnAccepting = True, rnState = StateReady, rnSequence = Sequence restored,
                                  rnStateHash = initialHash, rnLastError = None, rnLastIncident = None,
                                  rnLastIncidentAt = 0, rnLastRecoveredAt = 0, rnRecoveryCount = 0,
                                  rnCloseErr = None \<rparr>, restored)))))"

text \<open>The arguments of the constructor are those of the source and \<open>walk\<close>, the order in which its own
  hash walks the requests.\<close>

section \<open>Calls\<close>

text \<open>The commands of the methods; a safety command of another account is refused before it is made.\<close>

definition Runner_Fund :: "FundRequest \<Rightarrow> RunnerCommand" where
  "Runner_Fund request = (zeroCommand operationFund)\<lparr> cmFund := request \<rparr>"

definition Runner_Submit :: "NewOrder \<Rightarrow> RunnerCommand" where
  "Runner_Submit request = (zeroCommand operationSubmit)\<lparr> cmSubmit := request \<rparr>"

definition Runner_Cancel :: "CancelOrder \<Rightarrow> RunnerCommand" where
  "Runner_Cancel request = (zeroCommand operationCancel)\<lparr> cmCancel := request \<rparr>"

definition FundSafety :: "FundRequest \<Rightarrow> RunnerCommand res" where
  "FundSafety request =
     (if fAccountID request \<noteq> ''system:demo-maker'' then Inl ErrRecoveryInProgress
      else Inr ((zeroCommand operationFund)\<lparr> cmFund := request, cmSafetyFund := True \<rparr>))"

definition CancelSafety :: "CancelOrder \<Rightarrow> RunnerCommand res" where
  "CancelSafety request =
     (if cAccountID request \<noteq> ''system:demo-maker'' then Inl ErrRecoveryInProgress
      else Inr ((zeroCommand operationCancel)\<lparr> cmCancel := request, cmSafetyCancel := True \<rparr>))"

definition admission_mode :: "RunnerCommand \<Rightarrow> AdmissionMode" where
  "admission_mode request =
     (if cmSafetyCancel request then AdmissionSafetyCancel
      else if cmSafetyFund request then AdmissionBootstrap else AdmissionNormal)"

definition admission_account :: "RunnerCommand \<Rightarrow> AccountID" where
  "admission_account request =
     (if cmSafetyCancel request then cAccountID (cmCancel request)
      else if cmSafetyFund request then fAccountID (cmFund request)
      else case cmKind request of
        operationFund \<Rightarrow> fAccountID (cmFund request)
      | operationSubmit \<Rightarrow> nAccountID (cmSubmit request)
      | operationCancel \<Rightarrow> cAccountID (cmCancel request)
      | operationOther _ \<Rightarrow> [])"

text \<open>The first part of \<open>execute\<close>: the gate, and the response channel.\<close>

definition execute_admit ::
  "'g WriteGate option \<Rightarrow> ctx \<Rightarrow> nat \<Rightarrow> RunnerCommand \<Rightarrow> 'g \<Rightarrow> 'g \<times> RunnerCommand res" where
  "execute_admit gate ctx channel request g =
     (case gate of
        None \<Rightarrow> (g, Inr (request\<lparr> cmResponse := channel \<rparr>))
      | Some wg \<Rightarrow>
          (case wgAdmit wg ctx (admission_mode request) (admission_account request) g of
             (g', Inl err) \<Rightarrow> (g', Inl ErrRecoveryInProgress)
           | (g', Inr admission) \<Rightarrow>
               (g', Inr (request\<lparr> cmAdmission := Some admission, cmResponse := channel \<rparr>))))"

text \<open>The second part: the queue. When both there is room and the context has ended, \<open>select\<close>
  takes either (\<open>pick\<close>).\<close>

definition execute_enqueue ::
  "bool \<Rightarrow> ctx \<Rightarrow> RunnerCommand \<Rightarrow> MarketRunner \<Rightarrow> MarketRunner \<times> unit res" where
  "execute_enqueue pick ctx request r =
     (if \<not> rnAccepting r
      then (r, Inl (if rnState r = StateClosed then ErrClosed else ErrUnavailable))
      else
        (let room = int (length (rnQueue r)) < rcQueueSize (rnConfig r) in
         case ctx of
           Some err \<Rightarrow> if room \<and> pick then (r\<lparr> rnQueue := rnQueue r @ [request] \<rparr>, Inr ()) else (r, Inl err)
         | None \<Rightarrow> if room then (r\<lparr> rnQueue := rnQueue r @ [request] \<rparr>, Inr ()) else (r, Inl ErrQueueFull)))"

section \<open>The loop\<close>

record readings =
  rdCtx :: ctx
  rdLate :: ctx
  rdWalk :: walk
  rdHashWalk :: walk
  rdGate :: ctx
  rdSnapshot :: ctx
  rdRestore :: ctx
  rdNow :: instant

definition recordIncidentLocked :: "instant \<Rightarrow> error \<Rightarrow> MarketRunner \<Rightarrow> MarketRunner" where
  "recordIncidentLocked now err r =
     r\<lparr> rnLastError := Some err, rnLastIncident := Some err, rnLastIncidentAt := now \<rparr>"

definition setLastError :: "instant \<Rightarrow> error \<Rightarrow> MarketRunner \<Rightarrow> MarketRunner" where
  "setLastError now err r = recordIncidentLocked now err r"

definition clearLastError :: "MarketRunner \<Rightarrow> MarketRunner" where
  "clearLastError r = r\<lparr> rnLastError := None \<rparr>"

definition setState :: "RunnerState \<Rightarrow> error option \<Rightarrow> MarketRunner \<Rightarrow> MarketRunner" where
  "setState state lastError r = r\<lparr> rnState := state, rnLastError := lastError \<rparr>"

definition gate_check ::
  "'g WriteGate option \<Rightarrow> ctx \<Rightarrow> RunnerCommand \<Rightarrow> 'g \<Rightarrow> 'g \<times> unit res" where
  "gate_check gate ctx request g =
     (case gate of
        None \<Rightarrow> (g, Inr ())
      | Some wg \<Rightarrow>
          (case cmAdmission request of
             None \<Rightarrow> (g, Inl ErrRecoveryInProgress)
           | Some admission \<Rightarrow>
               (case wgValidateAdmission wg ctx admission g of
                  (g', Inl err) \<Rightarrow> (g', Inl ErrRecoveryInProgress)
                | (g', Inr _) \<Rightarrow> (g', Inr ()))))"

definition apply_operation ::
  "('s, 'b) Env \<Rightarrow> ctx \<Rightarrow> RunnerCommand \<Rightarrow> 's exchange \<Rightarrow> 's exchange \<times> Result res" where
  "apply_operation env ctx request x =
     (case cmKind request of
        operationFund \<Rightarrow> Fund env ctx (cmFund request) x
      | operationSubmit \<Rightarrow> Submit env ctx (cmSubmit request) x
      | operationCancel \<Rightarrow> Cancel env ctx (cmCancel request) x
      | operationOther _ \<Rightarrow> (x, Inl (ErrPlain ''unsupported runner operation'')))"

text \<open>After a command that succeeded: sequence and hash go to the status.\<close>

definition report_success :: "('s, 'b) Env \<Rightarrow> readings \<Rightarrow> MarketRunner \<Rightarrow> 's exchange \<Rightarrow> MarketRunner" where
  "report_success env rd r x =
     (let (after, stateHash) = StateFingerprint (rewalk (rdHashWalk rd) (enCodec env)) x
      in case stateHash of
           Inr h \<Rightarrow> r\<lparr> rnSequence := after, rnStateHash := h \<rparr>
         | Inl err \<Rightarrow> recordIncidentLocked (rdNow rd) err (r\<lparr> rnSequence := after, rnStateHash := [] \<rparr>))"

text \<open>Then the periodic snapshot.\<close>

definition snapshot_due :: "nat \<Rightarrow> MarketRunner \<Rightarrow> 's exchange \<Rightarrow> bool" where
  "snapshot_due before r x \<longleftrightarrow> Sequence x > before \<and> Sequence x mod rcSnapshotEvery (rnConfig r) = 0"

definition periodic_snapshot ::
  "('s, 'b) Env \<Rightarrow> readings \<Rightarrow> MarketRunner \<Rightarrow> 's exchange \<Rightarrow> MarketRunner \<times> 's exchange" where
  "periodic_snapshot env rd r x =
     (case SaveSnapshot (call_env (rdWalk rd) (rdLate rd) env) (rdSnapshot rd) x of
        (x', Inl err) \<Rightarrow> (setLastError (rdNow rd) err r, x')
      | (x', Inr _) \<Rightarrow> (clearLastError r, x'))"

text \<open>\<open>recoverAfterPersistenceError\<close>: what it does before it reads the stores, and the rest.\<close>

definition begin_recovery :: "readings \<Rightarrow> error \<Rightarrow> MarketRunner \<Rightarrow> MarketRunner" where
  "begin_recovery rd cause r =
     recordIncidentLocked (rdNow rd) cause (r\<lparr> rnAccepting := False, rnState := StateRecovering \<rparr>)"

definition finish_recovery ::
  "('s, 'b) Env \<Rightarrow> readings \<Rightarrow> MarketRunner \<Rightarrow> 's exchange \<Rightarrow> MarketRunner \<times> 's exchange" where
  "finish_recovery env rd r x =
     (case Restore (rdRestore rd) (rnMarket r) (Some (enEventLog env)) (Some (enSnapshots env))
             (rewalk (rdWalk rd) (enCodec env)) (fst x) of
        (st, Inl err) \<Rightarrow> (recordIncidentLocked (rdNow rd) err (r\<lparr> rnState := StateFailed \<rparr>), (st, snd x))
      | (st, Inr restored) \<Rightarrow>
          (case snd (StateFingerprint (rewalk (rdHashWalk rd) (enCodec env)) restored) of
             Inl err \<Rightarrow> (recordIncidentLocked (rdNow rd) err (r\<lparr> rnState := StateFailed \<rparr>), (st, snd x))
           | Inr restoredHash \<Rightarrow>
               (let r1 = r\<lparr> rnSequence := Sequence restored, rnStateHash := restoredHash, rnLastError := None,
                            rnLastRecoveredAt := rdNow rd, rnRecoveryCount := rnRecoveryCount r + 1 \<rparr>
                in (if rnStop r then r1\<lparr> rnState := StateClosing \<rparr>
                    else r1\<lparr> rnState := StateReady, rnAccepting := True \<rparr>, restored))))"

text \<open>
  How far the loop has come with a command: it has taken it from the queue, validated its
  admission, found the runner in a state that executes, executed it (with its result and the
  sequence before it), written the status and has a snapshot to save; or the command has met a
  persistence error, and the runner recovers.
\<close>

datatype phase =
    Idle
  | Taken RunnerCommand
  | Validated RunnerCommand
  | Cleared RunnerCommand
  | Applied RunnerCommand Result nat
  | Snapshotting RunnerCommand Result
  | Failing RunnerCommand error
  | Recovering RunnerCommand error

fun busy_command :: "phase \<Rightarrow> RunnerCommand list" where
  "busy_command Idle = []"
| "busy_command (Taken request) = [request]"
| "busy_command (Validated request) = [request]"
| "busy_command (Cleared request) = [request]"
| "busy_command (Applied request _ _) = [request]"
| "busy_command (Snapshotting request _) = [request]"
| "busy_command (Failing request _) = [request]"
| "busy_command (Recovering request _) = [request]"

text \<open>\<open>handle\<close>, from one phase to the next (\<open>Inl\<close>) or to the response (\<open>Inr\<close>).\<close>

fun runner_handle ::
  "('s, 'b) Env \<Rightarrow> 'g WriteGate option \<Rightarrow> readings \<Rightarrow> phase \<Rightarrow> 'g \<Rightarrow> MarketRunner \<Rightarrow> 's exchange
     \<Rightarrow> 'g \<times> MarketRunner \<times> 's exchange \<times> (phase + Result res)" where
  "runner_handle env gate rd Idle g r x = (g, r, x, Inl Idle)"
| "runner_handle env gate rd (Taken request) g r x =
     (case gate_check gate (rdGate rd) request g of
        (g', Inl err) \<Rightarrow> (g', r, x, Inr (Inl err))
      | (g', Inr _) \<Rightarrow> (g', r, x, Inl (Validated request)))"
| "runner_handle env gate rd (Validated request) g r x =
     (if rnState r \<noteq> StateReady \<and> rnState r \<noteq> StateClosing then (g, r, x, Inr (Inl ErrUnavailable))
      else (g, r, x, Inl (Cleared request)))"
| "runner_handle env gate rd (Cleared request) g r x =
     (case apply_operation (call_env (rdWalk rd) (rdLate rd) env) (rdCtx rd) request x of
        (x', Inl err) \<Rightarrow>
          if errors_is err ErrPersistence then (g, r, x', Inl (Failing request err))
          else (g, r, x', Inr (Inl err))
      | (x', Inr result) \<Rightarrow> (g, r, x', Inl (Applied request result (Sequence x))))"
| "runner_handle env gate rd (Applied request result before) g r x =
     (g, report_success env rd r x, x,
      if snapshot_due before r x then Inl (Snapshotting request result) else Inr (Inr result))"
| "runner_handle env gate rd (Snapshotting request result) g r x =
     (let (r', x') = periodic_snapshot env rd r x in (g, r', x', Inr (Inr result)))"
| "runner_handle env gate rd (Failing request err) g r x =
     (g, begin_recovery rd err r, x, Inl (Recovering request err))"
| "runner_handle env gate rd (Recovering request err) g r x =
     (let (r', x') = finish_recovery env rd r x in (g, r', x', Inr (Inl err)))"

text \<open>The part of \<open>Close\<close> that runs once.\<close>

definition close_once :: "MarketRunner \<Rightarrow> MarketRunner" where
  "close_once r =
     (if rnStop r then r
      else (setState StateClosing None (r\<lparr> rnAccepting := False \<rparr>))\<lparr> rnStop := True \<rparr>)"

definition Runner_Close :: "ctx \<Rightarrow> MarketRunner \<Rightarrow> error option option" where
  "Runner_Close ctx r =
     (if rnDone r then Some (rnCloseErr r) else case ctx of Some err \<Rightarrow> Some (Some err) | None \<Rightarrow> None)"

text \<open>The \<open>default\<close> branch of \<open>drainAndClose\<close>.\<close>

definition close_loop ::
  "('s, 'b) Env \<Rightarrow> readings \<Rightarrow> MarketRunner \<Rightarrow> 's exchange \<Rightarrow> MarketRunner \<times> 's exchange" where
  "close_loop env rd r x =
     (let (x', saved) = SaveSnapshot (call_env (rdWalk rd) (rdLate rd) env) (rdSnapshot rd) x;
          closeErr = (case saved of Inl err \<Rightarrow> Some err | Inr _ \<Rightarrow> None);
          r1 = r\<lparr> rnCloseErr := closeErr \<rparr>;
          r2 = (case closeErr of None \<Rightarrow> r1 | Some err \<Rightarrow> recordIncidentLocked (rdNow rd) err r1)
      in (r2\<lparr> rnState := StateClosed, rnDone := True \<rparr>, x'))"

section \<open>Queries\<close>

definition readyExchange :: "MarketRunner \<Rightarrow> 's exchange \<Rightarrow> 's exchange res" where
  "readyExchange r x =
     (if rnState r \<noteq> StateReady then Inl (if rnState r = StateClosed then ErrClosed else ErrUnavailable) else Inr x)"

definition Runner_Market :: "MarketRunner \<Rightarrow> 's exchange \<Rightarrow> Market res" where
  "Runner_Market r x = bindE (readyExchange r x) (\<lambda>trading. Inr (Exchange_Market trading))"

definition Runner_Balance :: "AccountID \<Rightarrow> Asset \<Rightarrow> MarketRunner \<Rightarrow> 's exchange \<Rightarrow> BalanceView res" where
  "Runner_Balance accountID asset r x = bindE (readyExchange r x) (\<lambda>trading. Inr (Exchange_Balance accountID asset trading))"

definition Runner_Balances :: "AccountID \<Rightarrow> MarketRunner \<Rightarrow> 's exchange \<Rightarrow> AssetBalanceView list res" where
  "Runner_Balances accountID r x = bindE (readyExchange r x) (\<lambda>trading. Inr (Exchange_Balances accountID trading))"

definition Runner_Order :: "OrderID \<Rightarrow> MarketRunner \<Rightarrow> 's exchange \<Rightarrow> Order option res" where
  "Runner_Order orderID r x = bindE (readyExchange r x) (\<lambda>trading. Inr (Exchange_Order orderID trading))"

definition Runner_Orders :: "AccountID \<Rightarrow> bool \<Rightarrow> MarketRunner \<Rightarrow> 's exchange \<Rightarrow> Order list res" where
  "Runner_Orders accountID openOnly r x =
     bindE (readyExchange r x) (\<lambda>trading. Inr (Exchange_Orders accountID openOnly trading))"

definition Runner_Trades :: "AccountID \<Rightarrow> MarketRunner \<Rightarrow> 's exchange \<Rightarrow> Trade list res" where
  "Runner_Trades accountID r x = bindE (readyExchange r x) (\<lambda>trading. Inr (Exchange_Trades accountID trading))"

definition Runner_Depth :: "int \<Rightarrow> MarketRunner \<Rightarrow> 's exchange \<Rightarrow> OrderBookView res" where
  "Runner_Depth levels r x = bindE (readyExchange r x) (\<lambda>trading. Depth levels trading)"

record RunnerStatus =
  stMarketID :: MarketID
  stState :: RunnerState
  stSequence :: nat
  stQueueDepth :: nat
  stRecoveryCount :: nat
  stLastError :: "error option"
  stLastIncident :: "error option"
  stLastIncidentAt :: "instant option"
  stLastRecoveredAt :: "instant option"
  stStateHash :: string

text \<open>The text of a time is not modelled; the zero time has none.\<close>

definition formatStatusTime :: "instant \<Rightarrow> instant option" where
  "formatStatusTime value = (if value = 0 then None else Some value)"

definition Runner_Status :: "MarketRunner \<Rightarrow> RunnerStatus" where
  "Runner_Status r = \<lparr> stMarketID = mID (rnMarket r), stState = rnState r, stSequence = rnSequence r,
     stQueueDepth = length (rnQueue r), stRecoveryCount = rnRecoveryCount r, stLastError = rnLastError r,
     stLastIncident = rnLastIncident r, stLastIncidentAt = formatStatusTime (rnLastIncidentAt r),
     stLastRecoveredAt = formatStatusTime (rnLastRecoveredAt r), stStateHash = rnStateHash r \<rparr>"

section \<open>Interleavings\<close>

text \<open>The world of the runner: \<open>wCalls\<close> are calls that have passed the gate and have not reached
  the queue, \<open>wBusy\<close> is how far the loop has come with the command it handles, \<open>wNext\<close> the
  number of response channels made so far, \<open>wAccepted\<close> the channels of the commands that entered
  the queue.\<close>

record ('g, 's) world =
  wGate :: 'g
  wRunner :: MarketRunner
  wExchange :: "'s exchange"
  wCalls :: "RunnerCommand list"
  wBusy :: phase
  wReplies :: "(nat \<times> Result res) list"
  wNext :: nat
  wAccepted :: "nat list"

text \<open>The payload of a command is in the range of its types.\<close>

definition runner_command64 :: "RunnerCommand \<Rightarrow> bool" where
  "runner_command64 request \<longleftrightarrow> in64 (fAmount (cmFund request)) \<and> in64 (nPrice (cmSubmit request)) \<and>
     in64 (nQuantity (cmSubmit request)) \<and> in64 (nQuoteBudget (cmSubmit request))"

text \<open>The commands that the methods make.\<close>

definition runner_call :: "RunnerCommand \<Rightarrow> bool" where
  "runner_call request \<longleftrightarrow> (\<exists>f. request = Runner_Fund f) \<or> (\<exists>n. request = Runner_Submit n) \<or> (\<exists>k. request = Runner_Cancel k) \<or>
     (\<exists>f. FundSafety f = Inr request) \<or> (\<exists>k. CancelSafety k = Inr request)"

inductive runner_step ::
  "('s, 'b) Env \<Rightarrow> 'g WriteGate option \<Rightarrow> ('g \<Rightarrow> 'g \<Rightarrow> bool) \<Rightarrow> ('g, 's) world \<Rightarrow> ('g, 's) world \<Rightarrow> bool"
  for env :: "('s, 'b) Env" and gate :: "'g WriteGate option" and gstep :: "'g \<Rightarrow> 'g \<Rightarrow> bool" where
  step_gate: "gstep (wGate w) g \<Longrightarrow> runner_step env gate gstep w (w\<lparr> wGate := g \<rparr>)"
| step_refused: "execute_admit gate ctx (wNext w) request (wGate w) = (g, Inl err) \<Longrightarrow>
    runner_step env gate gstep w (w\<lparr> wGate := g \<rparr>)"
| step_admitted: "execute_admit gate ctx (wNext w) request (wGate w) = (g, Inr request') \<Longrightarrow> runner_call request \<Longrightarrow>
    runner_command64 request \<Longrightarrow>
    runner_step env gate gstep w (w\<lparr> wGate := g, wCalls := wCalls w @ [request'], wNext := wNext w + 1 \<rparr>)"
| step_enqueued: "wCalls w = as @ request # bs \<Longrightarrow> execute_enqueue pick ctx request (wRunner w) = (r, Inr ()) \<Longrightarrow>
    runner_step env gate gstep w
      (w\<lparr> wCalls := as @ bs, wRunner := r, wAccepted := wAccepted w @ [cmResponse request] \<rparr>)"
| step_not_enqueued: "wCalls w = as @ request # bs \<Longrightarrow> execute_enqueue pick ctx request (wRunner w) = (r, Inl err) \<Longrightarrow>
    runner_step env gate gstep w (w\<lparr> wCalls := as @ bs, wRunner := r \<rparr>)"
| step_taken: "wBusy w = Idle \<Longrightarrow> \<not> rnDone (wRunner w) \<Longrightarrow> rnQueue (wRunner w) = request # queue \<Longrightarrow>
    runner_step env gate gstep w (w\<lparr> wRunner := (wRunner w)\<lparr> rnQueue := queue \<rparr>, wBusy := Taken request \<rparr>)"
| step_handled: "busy_command (wBusy w) = [request] \<Longrightarrow> permutes (rdWalk rd) \<Longrightarrow> permutes (rdHashWalk rd) \<Longrightarrow>
    runner_handle env gate rd (wBusy w) (wGate w) (wRunner w) (wExchange w) = (g, r, x, Inl p) \<Longrightarrow>
    runner_step env gate gstep w (w\<lparr> wGate := g, wRunner := r, wExchange := x, wBusy := p \<rparr>)"
| step_answered: "busy_command (wBusy w) = [request] \<Longrightarrow> permutes (rdWalk rd) \<Longrightarrow> permutes (rdHashWalk rd) \<Longrightarrow>
    runner_handle env gate rd (wBusy w) (wGate w) (wRunner w) (wExchange w) = (g, r, x, Inr reply) \<Longrightarrow>
    runner_step env gate gstep w
      (w\<lparr> wGate := g, wRunner := r, wExchange := x, wBusy := Idle, wReplies := wReplies w @ [(cmResponse request, reply)] \<rparr>)"
| step_close: "runner_step env gate gstep w (w\<lparr> wRunner := close_once (wRunner w) \<rparr>)"
| step_closed: "wBusy w = Idle \<Longrightarrow> \<not> rnDone (wRunner w) \<Longrightarrow> rnStop (wRunner w) \<Longrightarrow> rnQueue (wRunner w) = [] \<Longrightarrow>
    permutes (rdWalk rd) \<Longrightarrow> close_loop env rd (wRunner w) (wExchange w) = (r, x) \<Longrightarrow>
    runner_step env gate gstep w (w\<lparr> wRunner := r, wExchange := x \<rparr>)"

inductive_cases runner_stepE: "runner_step env gate gstep w w'"

definition initial_world :: "'g \<Rightarrow> MarketRunner \<Rightarrow> 's exchange \<Rightarrow> ('g, 's) world" where
  "initial_world g r x = \<lparr> wGate = g, wRunner = r, wExchange = x, wCalls = [], wBusy = Idle, wReplies = [],
     wNext = 0, wAccepted = [] \<rparr>"

end
