(* ===== verification/Runner_Invariant.thy ===== *)
theory Runner_Invariant
  imports Runner Recovery_Invariant
begin

text \<open>
  Properties of the market runner over all interleavings.

  \<^item> \<open>channels_ok\<close>: the bookkeeping of queue and response channels.
  \<^item> \<open>runner_ok\<close>, in the locale of an exchange over an event log: the exchange behind the runner
    agrees with its log, the runner reports its sequence and a hash of it, except between the
    execution of a command and the update of the status, and accepts only when ready.
  \<^item> \<open>validated_before\<close>: a command that is about to be executed passed the gate after the loop took it.
  \<^item> \<open>write_gate\<close> is the interface that the runner has to its gate; the recovery coordinator over
    its in-memory store provides it.
\<close>


section \<open>What the operations leave alone\<close>

definition same_channels :: "MarketRunner \<Rightarrow> MarketRunner \<Rightarrow> bool" where
  "same_channels r r' \<longleftrightarrow> rnQueue r' = rnQueue r \<and> rnStop r' = rnStop r \<and> rnDone r' = rnDone r \<and>
     rnConfig r' = rnConfig r \<and> rnMarket r' = rnMarket r"

lemma same_channelsD:
  assumes "same_channels r r'"
  shows "rnQueue r' = rnQueue r" "rnStop r' = rnStop r" "rnDone r' = rnDone r" "rnConfig r' = rnConfig r"
    "rnMarket r' = rnMarket r"
  using assms by (simp_all add: same_channels_def)

lemma finish_recovery_frame:
  assumes "finish_recovery env rd r x = (r', x')"
  shows "same_channels r r'" "rnAccepting r' \<Longrightarrow> rnAccepting r \<or> \<not> rnStop r \<and> rnState r' = StateReady"
  using assms
  by (auto simp: finish_recovery_def same_channels_def recordIncidentLocked_def Let_def
      split: prod.splits sum.splits if_splits)

lemma report_success_frame:
  "same_channels r (report_success env rd r x)" "rnAccepting (report_success env rd r x) = rnAccepting r"
  "rnState (report_success env rd r x) = rnState r" "rnSequence (report_success env rd r x) = Sequence x"
  "state_hash (rewalk (rdHashWalk rd) (enCodec env)) (snd x) = Inr h \<Longrightarrow> rnStateHash (report_success env rd r x) = h"
  by (auto simp: report_success_def same_channels_def recordIncidentLocked_def Sequence_def StateFingerprint_def split: sum.split)

lemma periodic_snapshot_frame:
  assumes "periodic_snapshot env rd r x = (r', x')"
  shows "same_channels r r'" "rnAccepting r' = rnAccepting r" "rnState r' = rnState r" "rnSequence r' = rnSequence r"
    "rnStateHash r' = rnStateHash r" "x' = fst (SaveSnapshot (call_env (rdWalk rd) (rdLate rd) env) (rdSnapshot rd) x)"
  using assms
  by (auto simp: periodic_snapshot_def same_channels_def setLastError_def recordIncidentLocked_def clearLastError_def
      split: prod.splits sum.splits)

lemma runner_handle_frame:
  assumes "runner_handle env gate rd p g r x = (g', r', x', out)"
  shows "same_channels r r'" "rnAccepting r' \<Longrightarrow> rnStop r \<Longrightarrow> rnAccepting r"
    "out = Inl p' \<Longrightarrow> busy_command p' = busy_command p"
proof -
  have "same_channels r r' \<and> (rnAccepting r' \<longrightarrow> rnStop r \<longrightarrow> rnAccepting r) \<and> (out = Inl p' \<longrightarrow> busy_command p' = busy_command p)"
  proof (cases p)
    case (Snapshotting request result)
    with assms have "periodic_snapshot env rd r x = (r', x')" "out = Inr (Inr result)" by (auto split: prod.splits)
    with periodic_snapshot_frame(1,2) [OF this(1)] show ?thesis by simp
  next
    case (Recovering request err)
    with assms have "finish_recovery env rd r x = (r', x')" "out = Inr (Inl err)" by (auto split: prod.splits)
    with finish_recovery_frame [OF this(1)] show ?thesis by auto
  next
    case (Applied request result n)
    with assms report_success_frame(1,2) [where r = r and env = env and rd = rd and x = x] show ?thesis by (auto split: if_splits)
  qed (use assms in \<open>auto simp: same_channels_def begin_recovery_def recordIncidentLocked_def split: prod.splits sum.splits if_splits\<close>)
  then show "same_channels r r'" "rnAccepting r' \<Longrightarrow> rnStop r \<Longrightarrow> rnAccepting r"
    "out = Inl p' \<Longrightarrow> busy_command p' = busy_command p" by auto
qed

lemma close_once_frame:
  "rnQueue (close_once r) = rnQueue r" "rnDone (close_once r) = rnDone r" "rnConfig (close_once r) = rnConfig r"
  "rnMarket (close_once r) = rnMarket r" "rnStop (close_once r)" "rnSequence (close_once r) = rnSequence r"
  "rnStateHash (close_once r) = rnStateHash r" "\<not> rnStop r \<Longrightarrow> \<not> rnAccepting (close_once r)"
  "rnStop r \<Longrightarrow> close_once r = r"
  by (simp_all add: close_once_def setState_def)

lemma close_loop_frame:
  assumes "close_loop env rd r x = (r', x')"
  shows "rnQueue r' = rnQueue r" "rnStop r' = rnStop r" "rnDone r'" "rnConfig r' = rnConfig r" "rnMarket r' = rnMarket r"
    "rnAccepting r' = rnAccepting r" "rnSequence r' = rnSequence r" "rnStateHash r' = rnStateHash r"
    "rnState r' = StateClosed" "x' = fst (SaveSnapshot (call_env (rdWalk rd) (rdLate rd) env) (rdSnapshot rd) x)"
  using assms
  by (auto simp: close_loop_def Let_def recordIncidentLocked_def split: prod.splits option.splits sum.splits)

lemma execute_admit_frame:
  assumes "execute_admit gate ctx n request g = (g', Inr request')"
  shows "cmResponse request' = n" "runner_command64 request' = runner_command64 request"
    "admission_mode request' = admission_mode request" "admission_account request' = admission_account request"
  using assms
  by (auto simp: execute_admit_def runner_command64_def admission_mode_def admission_account_def
      split: option.splits prod.splits sum.splits operation.split)

lemma execute_enqueue_frame:
  assumes "execute_enqueue pick ctx request r = (r', Inr ())"
  shows "r' = r\<lparr> rnQueue := rnQueue r @ [request] \<rparr>" "rnAccepting r" "int (length (rnQueue r)) < rcQueueSize (rnConfig r)"
  using assms by (auto simp: execute_enqueue_def Let_def split: if_splits option.splits)

lemma execute_enqueue_error: "execute_enqueue pick ctx request r = (r', Inl err) \<Longrightarrow> r' = r"
  by (auto simp: execute_enqueue_def Let_def split: if_splits option.splits)

section \<open>Every accepted command is answered once, in order\<close>

definition busy_channels :: "phase \<Rightarrow> nat list" where
  "busy_channels p = map cmResponse (busy_command p)"

lemma busy_channels_simps [simp]: "busy_channels Idle = []" "busy_channels (Taken request) = [cmResponse request]"
  by (simp_all add: busy_channels_def)

lemma busy_command_Idle [simp]: "busy_command p = [] \<longleftrightarrow> p = Idle"
  by (cases p) auto

text \<open>The channels in use are distinct and were made.\<close>

definition fresh_ok :: "('g, 's) world \<Rightarrow> bool" where
  "fresh_ok w \<longleftrightarrow> distinct (wAccepted w @ map cmResponse (wCalls w)) \<and>
     (\<forall>n \<in> set (wAccepted w @ map cmResponse (wCalls w)). n < wNext w)"

definition closing_ok :: "MarketRunner \<Rightarrow> bool" where
  "closing_ok r \<longleftrightarrow> int (length (rnQueue r)) \<le> rcQueueSize (rnConfig r) \<and> (rnStop r \<longrightarrow> \<not> rnAccepting r) \<and>
     (rnDone r \<longrightarrow> rnStop r \<and> rnQueue r = [])"

definition channels_ok :: "('g, 's) world \<Rightarrow> bool" where
  "channels_ok w \<longleftrightarrow> fresh_ok w \<and> closing_ok (wRunner w) \<and> (rnDone (wRunner w) \<longrightarrow> wBusy w = Idle) \<and>
     wAccepted w = map fst (wReplies w) @ busy_channels (wBusy w) @ map cmResponse (rnQueue (wRunner w))"

lemma fresh_step: "runner_step env gate gstep w w' \<Longrightarrow> fresh_ok w \<Longrightarrow> fresh_ok w'"
proof (induction rule: runner_step.induct)
  case (step_admitted ctx w request g request')
  then show ?case using execute_admit_frame(1) [OF step_admitted(1)] by (auto simp: fresh_ok_def less_Suc_eq)
qed (auto simp: fresh_ok_def)

lemma closing_step: "runner_step env gate gstep w w' \<Longrightarrow> closing_ok (wRunner w) \<Longrightarrow> closing_ok (wRunner w')"
proof (induction rule: runner_step.induct)
  case (step_enqueued w as request bs pick ctx r)
  then show ?case using execute_enqueue_frame [OF step_enqueued(2)] by (auto simp: closing_ok_def)
next
  case (step_not_enqueued w as request bs pick ctx r err)
  then show ?case using execute_enqueue_error [OF step_not_enqueued(2)] by simp
next
  case (step_taken w request queue)
  then show ?case by (auto simp: closing_ok_def)
next
  case (step_handled w request rd g r x p)
  note F = runner_handle_frame(1,2) [OF step_handled(4)]
  show ?case using step_handled(5) same_channelsD [OF F(1)] F(2) by (auto simp: closing_ok_def)
next
  case (step_answered w request rd g r x reply)
  note F = runner_handle_frame(1,2) [OF step_answered(4)]
  show ?case using step_answered(5) same_channelsD [OF F(1)] F(2) by (auto simp: closing_ok_def)
next
  case (step_close w)
  then show ?case using close_once_frame [of "wRunner w"] by (cases "rnStop (wRunner w)") (auto simp: closing_ok_def)
next
  case (step_closed w rd r x)
  then show ?case using close_loop_frame(1-6) [OF step_closed(6)] by (auto simp: closing_ok_def)
qed simp_all

lemma channels_step:
  assumes "runner_step env gate gstep w w'" "channels_ok w"
  shows "channels_ok w'"
proof -
  have ok: "fresh_ok w'" "closing_ok (wRunner w')"
    using fresh_step closing_step assms by (auto simp: channels_ok_def)
  note C = assms(2) [unfolded channels_ok_def closing_ok_def]
  from assms(1) have "(rnDone (wRunner w') \<longrightarrow> wBusy w' = Idle) \<and>
    wAccepted w' = map fst (wReplies w') @ busy_channels (wBusy w') @ map cmResponse (rnQueue (wRunner w'))"
  proof cases
    case (step_enqueued as request bs pick ctx r)
    then show ?thesis using C execute_enqueue_frame [OF step_enqueued(3)] by auto
  next
    case (step_not_enqueued as request bs pick ctx r err)
    then show ?thesis using C execute_enqueue_error [OF step_not_enqueued(3)] by simp
  next
    case (step_taken request queue)
    then show ?thesis using C by simp
  next
    case (step_handled request rd g r x p)
    note F = runner_handle_frame(1,3) [OF step_handled(5)]
    show ?thesis using C step_handled(1,2) same_channelsD [OF F(1)] F(2) [of p] by (auto simp: busy_channels_def)
  next
    case (step_answered request rd g r x reply)
    note F = runner_handle_frame(1) [OF step_answered(5)]
    show ?thesis using C step_answered(1,2) same_channelsD [OF F] by (auto simp: busy_channels_def)
  next
    case step_close
    then show ?thesis using C close_once_frame [of "wRunner w"] by simp
  next
    case (step_closed rd r x)
    then show ?thesis using C close_loop_frame [OF step_closed(7)] by simp
  qed (use C in simp_all)
  with ok show ?thesis by (simp add: channels_ok_def)
qed


section \<open>The exchange behind the runner\<close>

text \<open>The commands on their way to the loop and in it.\<close>

definition commands_ok :: "(RunnerCommand \<Rightarrow> bool) \<Rightarrow> ('g, 's) world \<Rightarrow> bool" where
  "commands_ok P w \<longleftrightarrow>
     (\<forall>request \<in> set (wCalls w) \<union> set (rnQueue (wRunner w)) \<union> set (busy_command (wBusy w)). P request)"

lemma commands_step:
  assumes "runner_step env gate gstep w w'" "commands_ok P w"
    and "\<And>ctx n request g g' request'. execute_admit gate ctx n request g = (g', Inr request') \<Longrightarrow> runner_call request \<Longrightarrow>
      runner_command64 request \<Longrightarrow> P request'"
  shows "commands_ok P w'"
  using assms(1)
proof cases
  case (step_admitted ctx request g request')
  then show ?thesis using assms(2) assms(3) [OF step_admitted(2-4)] by (auto simp: commands_ok_def)
next
  case (step_enqueued as request bs pick ctx r)
  then show ?thesis using assms(2) execute_enqueue_frame [OF step_enqueued(3)] by (auto simp: commands_ok_def)
next
  case (step_not_enqueued as request bs pick ctx r err)
  then show ?thesis using assms(2) execute_enqueue_error [OF step_not_enqueued(3)] by (auto simp: commands_ok_def)
next
  case (step_handled request rd g r x p)
  note F = runner_handle_frame(1,3) [OF step_handled(5)]
  show ?thesis using assms(2) step_handled(1) same_channelsD [OF F(1)] F(2) [of p] by (auto simp: commands_ok_def)
next
  case (step_answered request rd g r x reply)
  then show ?thesis using assms(2) same_channelsD [OF runner_handle_frame(1) [OF step_answered(5)]] by (auto simp: commands_ok_def)
next
  case step_close
  then show ?thesis using assms(2) close_once_frame [of "wRunner w"] by (auto simp: commands_ok_def)
next
  case (step_closed rd r x)
  then show ?thesis using assms(2) close_loop_frame [OF step_closed(7)] by (auto simp: commands_ok_def)
qed (use assms(2) in \<open>auto simp: commands_ok_def\<close>)

lemma commands64_step:
  assumes "runner_step env gate gstep w w'" "commands_ok runner_command64 w"
  shows "commands_ok runner_command64 w'"
  by (rule commands_step [OF assms]) (simp add: execute_admit_frame(2))

text \<open>The runner reports the state of the exchange, or, when a command has just been executed, the
  sequence before it.\<close>

fun reports :: "'b Codec \<Rightarrow> phase \<Rightarrow> MarketRunner \<Rightarrow> 's exchange \<Rightarrow> bool" where
  "reports c (Applied request result before) r x \<longleftrightarrow>
     rnSequence r = before \<and> before \<le> Sequence x \<and> Sequence x \<le> before + 1"
| "reports c _ r x \<longleftrightarrow> rnSequence r = Sequence x \<and> hashes_to c (snd x) (rnStateHash r)"

fun recovering :: "phase \<Rightarrow> bool" where
  "recovering (Recovering _ _) = True"
| "recovering _ = False"

lemma reports_Idle:
  assumes "reports c p r x" "\<not> (\<exists>request result before. p = Applied request result before)"
  shows "rnSequence r = Sequence x" "hashes_to c (snd x) (rnStateHash r)"
  using assms by (cases p; simp)+

lemma reports_cong:
  assumes "reports c p r x" "rnSequence r' = rnSequence r" "rnStateHash r' = rnStateHash r" "snd x' = snd x"
  shows "reports c p r' x'"
  using assms by (cases p) (simp_all add: Sequence_def)

text \<open>A command adds at most one to the sequence.\<close>

lemma runLocked_sequence:
  assumes "state_ok (snd x)" "command64 cmd"
  shows "Sequence x \<le> Sequence (fst (runLocked env ctx cmd x)) \<and> Sequence (fst (runLocked env ctx cmd x)) \<le> Sequence x + 1"
proof -
  obtain st s where x: "x = (st, s)" by (cases x)
  obtain x' r where run: "runLocked env ctx cmd (st, s) = (x', r)" by (cases "runLocked env ctx cmd (st, s)")
  from run have "sSequence s \<le> sSequence (snd x') \<and> sSequence (snd x') \<le> sSequence s + 1"
  proof (cases rule: runLocked_cases)
    case (committed st' t rec res)
    have "command64 (cmd\<lparr> cmdSequence := sSequence s + 1 \<rparr>)" using assms(2) by (simp add: command64_def)
    from run_trial_ok(2) [OF committed(2) _ this] assms(1) x committed(4) show ?thesis by simp
  qed auto
  then show ?thesis using run x by (simp add: Sequence_def)
qed

lemma apply_operation_sequence:
  assumes "state_ok (snd x)" "runner_command64 request"
  shows "Sequence x \<le> Sequence (fst (apply_operation env ctx request x)) \<and>
    Sequence (fst (apply_operation env ctx request x)) \<le> Sequence x + 1"
  using assms(2) by (simp add: apply_operation_def Fund_def Submit_def Cancel_def runner_command64_def request64_def
      runLocked_sequence [OF assms(1), simplified] split: operation.split sum.split)

lemma SaveSnapshot_state: "snd (fst (SaveSnapshot env ctx x)) = snd x"
  by (auto simp: SaveSnapshot_def Let_def split: sum.splits prod.splits)

context exchange_log
begin

abbreviation runner_ok :: "('g, 's) world \<Rightarrow> bool" where
  "runner_ok w \<equiv> consistent (wExchange w) \<and> rnMarket (wRunner w) = market \<and>
     reports c (wBusy w) (wRunner w) (wExchange w) \<and>
     (rnAccepting (wRunner w) \<longrightarrow> rnState (wRunner w) = StateReady \<and> \<not> recovering (wBusy w))"

lemma apply_operation_consistent:
  assumes "consistent x" "runner_command64 request" "permutes w"
  shows "consistent (fst (apply_operation (env_of w late) ctx request x))"
  using assms consistent_Fund consistent_Submit consistent_Cancel
  by (auto simp: apply_operation_def runner_command64_def request64_def split: operation.split)

lemma apply_operation_failed: "apply_operation (env_of w late) ctx request x = (x', Inl e) \<Longrightarrow> x' = x"
  by (auto simp: apply_operation_def split: operation.splits dest: call_failed)

lemma some_hash:
  assumes "permutes w"
  obtains h where "state_hash (rewalk w c) s = Inr h" "hashes_to c s h"
  using hash_total [OF codec_ok_rewalk [OF codec assms], of s] assms by (auto simp: hashes_to_def)

lemma finish_recovery_ok:
  assumes "finish_recovery env rd r x = (r', x')" "consistent x" "rnMarket r = market"
    and "rnSequence r = Sequence x" "hashes_to c (snd x) (rnStateHash r)" "permutes (rdWalk rd)" "permutes (rdHashWalk rd)"
  shows "x' = x" "rnSequence r' = Sequence x" "hashes_to c (snd x) (rnStateHash r')"
proof -
  obtain h where h: "state_hash (rewalk (rdHashWalk rd) c) (snd x) = Inr h" "hashes_to c (snd x) h"
    using some_hash [OF assms(7)] by blast
  have "x' = x \<and> rnSequence r' = Sequence x \<and> hashes_to c (snd x) (rnStateHash r')"
    using Restore_any [OF assms(2,6), of "rdRestore rd"] assms(1,3-5) h
    by (auto simp: finish_recovery_def StateFingerprint_def recordIncidentLocked_def Let_def)
  then show "x' = x" "rnSequence r' = Sequence x" "hashes_to c (snd x) (rnStateHash r')" by auto
qed

text \<open>One step of the loop keeps the exchange and what the runner says about it.\<close>

lemma runner_handle_ok:
  assumes "runner_handle env gate rd p g r x = (g', r', x', out)" "consistent x" "rnMarket r = market" "reports c p r x"
    and "\<forall>request \<in> set (busy_command p). runner_command64 request" "permutes (rdWalk rd)" "permutes (rdHashWalk rd)"
  shows "consistent x' \<and> reports c (case out of Inl p' \<Rightarrow> p' | Inr _ \<Rightarrow> Idle) r' x'"
proof (cases p)
  case (Taken request)
  with assms(1,2,4) show ?thesis by (auto split: prod.splits sum.splits)
next
  case (Validated request)
  with assms(1,2,4) show ?thesis by (auto split: if_splits)
next
  case (Cleared request)
  obtain y res where ap: "apply_operation (env_of (rdWalk rd) (rdLate rd)) (rdCtx rd) request x = (y, res)"
    by (cases "apply_operation (env_of (rdWalk rd) (rdLate rd)) (rdCtx rd) request x")
  have y: "consistent y" using apply_operation_consistent [OF assms(2) _ assms(6), of request "rdLate rd" "rdCtx rd"] ap assms(5) Cleared by simp
  have e: "y = x" if "res = Inl err" for err using apply_operation_failed ap that by blast
  have s: "Sequence x \<le> Sequence y \<and> Sequence y \<le> Sequence x + 1"
    using apply_operation_sequence [OF log_okD(1) [OF assms(2)], of request "env_of (rdWalk rd) (rdLate rd)" "rdCtx rd"] ap assms(5) Cleared by simp
  show ?thesis using assms(1,4) ap y e s Cleared by (auto split: sum.splits if_splits)
next
  case (Applied request result n)
  obtain h where h: "state_hash (rewalk (rdHashWalk rd) c) (snd x) = Inr h" "hashes_to c (snd x) h"
    using some_hash [OF assms(7)] by blast
  show ?thesis using assms(1,2) Applied report_success_frame(4,5) [where r = r and env = env and rd = rd and x = x] h by auto
next
  case (Snapshotting request result)
  with assms(1) have p: "periodic_snapshot env rd r x = (r', x')" "out = Inr (Inr result)" by (auto split: prod.splits)
  note F = periodic_snapshot_frame [OF p(1)]
  have "snd x' = snd x" using F(6) SaveSnapshot_state by simp
  moreover have "consistent x'" using F(6) consistent_SaveSnapshot [OF assms(2,6), of "rdLate rd" "rdSnapshot rd"] by simp
  ultimately show ?thesis using F(4,5) assms(4) Snapshotting p(2) by (simp add: Sequence_def)
next
  case (Failing request err)
  with assms(1,2,4) show ?thesis by (auto simp: begin_recovery_def recordIncidentLocked_def)
next
  case (Recovering request err)
  with assms(1) have f: "finish_recovery env rd r x = (r', x')" "out = Inr (Inl err)" by (auto split: prod.splits)
  from assms(4) Recovering have "rnSequence r = Sequence x" "hashes_to c (snd x) (rnStateHash r)" by simp_all
  from finish_recovery_ok [OF f(1) assms(2,3) this assms(6,7)] assms(2) f(2) show ?thesis by simp
qed (use assms in auto)

lemma runner_handle_ready:
  assumes "runner_handle env gate rd p g r x = (g', r', x', out)" "rnAccepting r \<longrightarrow> rnState r = StateReady \<and> \<not> recovering p" "rnAccepting r'"
  shows "rnState r' = StateReady \<and> \<not> recovering (case out of Inl p' \<Rightarrow> p' | Inr _ \<Rightarrow> Idle)"
proof (cases p)
  case (Applied request result n)
  with assms report_success_frame(2,3) [where r = r and env = env and rd = rd and x = x] show ?thesis by (auto split: if_splits)
next
  case (Snapshotting request result)
  with assms(1) have p: "periodic_snapshot env rd r x = (r', x')" "out = Inr (Inr result)" by (auto split: prod.splits)
  with periodic_snapshot_frame(2,3) [OF p(1)] assms(2,3) show ?thesis by simp
next
  case (Recovering request err)
  with assms(1) have f: "finish_recovery env rd r x = (r', x')" "out = Inr (Inl err)" by (auto split: prod.splits)
  with finish_recovery_frame(2) [OF f(1)] assms(2,3) Recovering show ?thesis by simp
qed (use assms in \<open>auto simp: begin_recovery_def recordIncidentLocked_def split: prod.splits sum.splits if_splits\<close>)

lemma close_loop_ok:
  assumes "close_loop env rd r x = (r', x')" "consistent x" "permutes (rdWalk rd)"
  shows "consistent x'" "snd x' = snd x"
  using close_loop_frame(10) [OF assms(1)] consistent_SaveSnapshot [OF assms(2,3), of "rdLate rd" "rdSnapshot rd"] SaveSnapshot_state
  by simp_all

lemma runner_step_ok:
  assumes "runner_step env gate gstep w w'" "runner_ok w" "commands_ok runner_command64 w" "closing_ok (wRunner w)"
  shows "runner_ok w'"
  using assms(1)
proof cases
  case (step_enqueued as request bs pick ctx r)
  then show ?thesis using assms(2) execute_enqueue_frame [OF step_enqueued(3)] reports_cong [of c "wBusy w" "wRunner w" "wExchange w" r "wExchange w"] by simp
next
  case (step_not_enqueued as request bs pick ctx r err)
  then show ?thesis using assms(2) execute_enqueue_error [OF step_not_enqueued(3)] by simp
next
  case (step_taken request queue)
  then show ?thesis using assms(2) by simp
next
  case (step_handled request rd g r x p)
  have "\<forall>request \<in> set (busy_command (wBusy w)). runner_command64 request" using assms(3) by (simp add: commands_ok_def)
  note H = runner_handle_ok [OF step_handled(5) _ _ _ this step_handled(3,4)] runner_handle_ready [OF step_handled(5)]
    same_channelsD(5) [OF runner_handle_frame(1) [OF step_handled(5)]]
  show ?thesis using H assms(2) step_handled(1) by simp
next
  case (step_answered request rd g r x reply)
  have "\<forall>request \<in> set (busy_command (wBusy w)). runner_command64 request" using assms(3) by (simp add: commands_ok_def)
  note H = runner_handle_ok [OF step_answered(5) _ _ _ this step_answered(3,4)] runner_handle_ready [OF step_answered(5)]
    same_channelsD(5) [OF runner_handle_frame(1) [OF step_answered(5)]]
  show ?thesis using H assms(2) step_answered(1) by simp
next
  case step_close
  then show ?thesis using assms(2) close_once_frame [of "wRunner w"]
      reports_cong [of c "wBusy w" "wRunner w" "wExchange w" "close_once (wRunner w)" "wExchange w"]
    by (cases "rnStop (wRunner w)") simp_all
next
  case (step_closed rd r x)
  note F = close_loop_frame [OF step_closed(7)] and C = close_loop_ok [OF step_closed(7) _ step_closed(6)]
  show ?thesis using C F assms(2,4) step_closed(1,2,4) by (simp add: closing_ok_def Sequence_def)
qed (use assms(2) in simp_all)

text \<open>Only the execution of a command changes the state of the exchange.\<close>

lemma runner_step_executes:
  assumes "runner_step env gate gstep w w'" "runner_ok w" "snd (wExchange w') \<noteq> snd (wExchange w)"
  obtains request result where "wBusy w = Cleared request" "wBusy w' = Applied request result (Sequence (wExchange w))"
    "\<exists>walk late ctx. permutes walk \<and> apply_operation (env_of walk late) ctx request (wExchange w) = (wExchange w', Inr result)"
proof -
  have handled: "\<exists>request result. p = Cleared request \<and> out = Inl (Applied request result (Sequence x)) \<and>
      apply_operation (env_of (rdWalk rd) (rdLate rd)) (rdCtx rd) request x = (x', Inr result)"
    if h: "runner_handle env gate rd p g r x = (g', r', x', out)" "snd x' \<noteq> snd x" "consistent x" "rnMarket r = market" "reports c p r x"
      "permutes (rdWalk rd)" "permutes (rdHashWalk rd)"
    for p rd g r x g' r' x' and out :: "phase + Result res"
  proof (cases p)
    case (Cleared request)
    with h(1,2) show ?thesis by (auto split: prod.splits sum.splits if_splits dest: apply_operation_failed)
  next
    case (Snapshotting request result)
    with h(1) have "periodic_snapshot env rd r x = (r', x')" by (auto split: prod.splits)
    from periodic_snapshot_frame(6) [OF this] h(2) show ?thesis by (simp add: SaveSnapshot_state)
  next
    case (Recovering request err)
    with h(1) have f: "finish_recovery env rd r x = (r', x')" by (auto split: prod.splits)
    from h(5) Recovering have "rnSequence r = Sequence x" "hashes_to c (snd x) (rnStateHash r)" by simp_all
    from finish_recovery_ok(1) [OF f h(3,4) this h(6,7)] h(2) show ?thesis by simp
  qed (use h(1,2) in \<open>auto split: prod.splits sum.splits if_splits\<close>)
  from assms(1) show ?thesis
  proof cases
    case (step_handled request rd g r x p)
    from handled [OF step_handled(5)] assms(2,3) step_handled(1,3,4)
    obtain q res where "wBusy w = Cleared q" "p = Applied q res (Sequence (wExchange w))"
      "apply_operation (env_of (rdWalk rd) (rdLate rd)) (rdCtx rd) q (wExchange w) = (x, Inr res)" by auto
    with step_handled(1,3) show ?thesis by (intro that [of q res]) auto
  next
    case (step_answered request rd g r x reply)
    from handled [OF step_answered(5)] assms(2,3) step_answered(1,3,4) show ?thesis by auto
  next
    case (step_closed rd r x)
    show ?thesis using close_loop_ok(2) [OF step_closed(7) _ step_closed(6)] assms(2,3) step_closed(1) by simp
  qed (use assms(3) in simp_all)
qed

end

section \<open>The gate\<close>

text \<open>A command that the loop is about to execute passed the gate in an earlier step of the same run,
  after the loop took it and with no response in between.\<close>

definition validated_before ::
  "(('g, 's) world \<Rightarrow> ('g, 's) world \<Rightarrow> bool) \<Rightarrow> 'g WriteGate option \<Rightarrow> ('g, 's) world \<Rightarrow> ('g, 's) world \<Rightarrow> RunnerCommand \<Rightarrow> bool" where
  "validated_before step gate w0 w request \<longleftrightarrow>
     (\<exists>w1 w2 ctx. step\<^sup>*\<^sup>* w0 w1 \<and> step w1 w2 \<and> step\<^sup>*\<^sup>* w2 w \<and> wBusy w1 = Taken request \<and>
        gate_check gate ctx request (wGate w1) = (wGate w2, Inr ()) \<and> wReplies w = wReplies w1)"

lemma validated_before_step:
  assumes "validated_before step gate w0 w request" "step w w'" "wReplies w' = wReplies w"
  shows "validated_before step gate w0 w' request"
proof -
  obtain w1 w2 ctx where v: "step\<^sup>*\<^sup>* w0 w1" "step w1 w2" "step\<^sup>*\<^sup>* w2 w" "wBusy w1 = Taken request"
    "gate_check gate ctx request (wGate w1) = (wGate w2, Inr ())" "wReplies w = wReplies w1"
    using assms(1) unfolding validated_before_def by blast
  have "step\<^sup>*\<^sup>* w2 w'" by (rule rtranclp.rtrancl_into_rtrancl [OF v(3) assms(2)])
  moreover have "wReplies w' = wReplies w1" using v(6) assms(3) by simp
  ultimately show ?thesis unfolding validated_before_def using v(1,2,4,5) by blast
qed

lemma handle_validates:
  assumes "runner_handle env gate rd p g r x = (g', r', x', Inl p')" "p' = Validated request \<or> p' = Cleared request"
  shows "p = Taken request \<and> gate_check gate (rdGate rd) request g = (g', Inr ()) \<or> p = Validated request"
  using assms by (cases p) (auto split: prod.splits sum.splits if_splits)

lemma validated_run:
  assumes "(runner_step env gate gstep)\<^sup>*\<^sup>* w0 w" "wBusy w0 = Idle"
    and "wBusy w = Validated request \<or> wBusy w = Cleared request"
  shows "validated_before (runner_step env gate gstep) gate w0 w request"
  using assms(1,3)
proof (induction rule: rtranclp_induct)
  case (step y z)
  from step.hyps(2) show ?case
  proof cases
    case (step_handled request' rd g r x p)
    have p: "p = Validated request \<or> p = Cleared request" using step.prems step_handled(1) by simp
    from handle_validates [OF step_handled(5) this] show ?thesis
    proof
      assume t: "wBusy y = Taken request \<and> gate_check gate (rdGate rd) request (wGate y) = (g, Inr ())"
      then have "gate_check gate (rdGate rd) request (wGate y) = (wGate z, Inr ())" "wReplies z = wReplies y" using step_handled(1) by simp_all
      with t step.hyps show ?thesis unfolding validated_before_def by blast
    next
      assume "wBusy y = Validated request"
      with step.IH have v: "validated_before (runner_step env gate gstep) gate w0 y request" by simp
      show ?thesis by (rule validated_before_step [OF v step.hyps(2)]) (simp add: step_handled(1))
    qed
  qed (use step.prems step.IH validated_before_step [where step = "runner_step env gate gstep", OF _ step.hyps(2)] in auto)
qed (use assms(2) in auto)

text \<open>
  What the runner relies on: an admission names the mode and the account it was asked for, and
  an admission that validates is authorized now.
\<close>

locale write_gate =
  fixes wg :: "'g WriteGate" and authorized :: "'g \<Rightarrow> AdmissionMode \<Rightarrow> AccountID \<Rightarrow> bool"
  assumes admit_names: "wgAdmit wg ctx mode account g = (g', Inr adm) \<Longrightarrow> adMode adm = mode \<and> adAccountID adm = account"
    and validate_authorizes: "wgValidateAdmission wg ctx adm g = (g', Inr ()) \<Longrightarrow> authorized g' (adMode adm) (adAccountID adm)"
begin

abbreviation admitted :: "RunnerCommand \<Rightarrow> bool" where
  "admitted request \<equiv> (\<exists>call. runner_call call \<and> admission_mode request = admission_mode call \<and>
     admission_account request = admission_account call \<and> cmKind request = cmKind call) \<and>
   (\<exists>adm. cmAdmission request = Some adm \<and> adMode adm = admission_mode request \<and> adAccountID adm = admission_account request)"

lemma admit_admitted:
  assumes "execute_admit (Some wg) ctx n request g = (g', Inr request')" "runner_call request"
  shows "admitted request'"
proof -
  obtain adm where adm: "wgAdmit wg ctx (admission_mode request) (admission_account request) g = (g', Inr adm)"
    "request' = request\<lparr> cmAdmission := Some adm, cmResponse := n \<rparr>"
    using assms(1) by (auto simp: execute_admit_def split: prod.splits sum.splits)
  then show ?thesis using admit_names [OF adm(1)] execute_admit_frame(3,4) [OF assms(1)] assms(2) by auto
qed

lemma admitted_step:
  assumes "runner_step env (Some wg) gstep w w'" "commands_ok admitted w"
  shows "commands_ok admitted w'"
  by (rule commands_step [OF assms]) (rule admit_admitted)

lemma gate_check_authorized:
  assumes "gate_check (Some wg) ctx request g = (g', Inr ())" "admitted request"
  shows "authorized g' (admission_mode request) (admission_account request)"
proof -
  obtain adm where adm: "cmAdmission request = Some adm" "adMode adm = admission_mode request" "adAccountID adm = admission_account request"
    using assms(2) by blast
  then have "wgValidateAdmission wg ctx adm g = (g', Inr ())"
    using assms(1) by (auto simp: gate_check_def split: prod.splits sum.splits)
  from validate_authorizes [OF this] adm show ?thesis by simp
qed

end

definition row_authorizes :: "MemoryStore RecoveryEnv \<Rightarrow> MemoryStore coordinator \<Rightarrow> AdmissionMode \<Rightarrow> AccountID \<Rightarrow> bool" where
  "row_authorizes renv g mode account \<longleftrightarrow>
     (\<exists>row. fmlookup (msCurrent (fst g)) (coMarketID (snd g)) = Some row \<and>
        authorize (reUrls renv) (effectiveStatus (reUrls renv) (snd g) row) mode account = Inr ())"

lemma write_gate_coordinator:
  assumes "reStore renv = Memory_RecoveryStore"
  shows "write_gate (coordinator_gate renv) (row_authorizes renv)"
proof
  fix ctx mode account g g' adm
  show "wgAdmit (coordinator_gate renv) ctx mode account g = (g', Inr adm) \<Longrightarrow> adMode adm = mode \<and> adAccountID adm = account"
    by (auto simp: coordinator_gate_def Admit_def bindE_eq_Inr split: prod.splits sum.splits)
  show "wgValidateAdmission (coordinator_gate renv) ctx adm g = (g', Inr ()) \<Longrightarrow>
      row_authorizes renv g' (adMode adm) (adAccountID adm)"
  proof -
    assume v: "wgValidateAdmission (coordinator_gate renv) ctx adm g = (g', Inr ())"
    obtain st c where g: "g = (st, c)" by (cases g)
    obtain row where row: "fmlookup (msCurrent st) (coMarketID c) = Some row"
      using v assms by (auto simp: coordinator_gate_def ValidateAdmission_def Coordinator_Status_def g Memory_RecoveryStore_def
          MemoryStore_Load_def split: option.splits)
    have "g' = (st, observeEpoch (rsEpochID row) c)"
      "authorize (reUrls renv) (effectiveStatus (reUrls renv) (observeEpoch (rsEpochID row) c) row) (adMode adm) (adAccountID adm) = Inr ()"
      using v assms row by (auto simp: coordinator_gate_def ValidateAdmission_def Coordinator_Status_def g Memory_RecoveryStore_def
          MemoryStore_Load_def Let_def split: if_splits)
    moreover have "coMarketID (observeEpoch e c) = coMarketID c" for e by (simp add: observeEpoch_def Let_def)
    ultimately show ?thesis using row by (simp add: row_authorizes_def)
  qed
qed

interpretation coordinator: write_gate "coordinator_gate (renv\<lparr> reStore := Memory_RecoveryStore \<rparr>)"
  "row_authorizes (renv\<lparr> reStore := Memory_RecoveryStore \<rparr>)" for renv :: "MemoryStore RecoveryEnv"
  by (rule write_gate_coordinator) simp

lemma runner_call_safety:
  assumes "runner_call request"
  shows "admission_mode request = AdmissionNormal \<or>
    cmKind request \<in> {operationFund, operationCancel} \<and> admission_account request = demo_maker"
  using assms
  by (auto simp: runner_call_def Runner_Fund_def Runner_Submit_def Runner_Cancel_def FundSafety_def CancelSafety_def
      zeroCommand_def admission_mode_def admission_account_def demo_maker_def split: if_splits)

lemma authorize_normal: "authorize u row AdmissionNormal account = Inr () \<Longrightarrow> writable u row"
  by (simp add: authorize_def split: if_splits)

section \<open>Runs\<close>

lemma channels_initial:
  assumes "NewMarketRunner ctx walk market es ss c config st = (st', Inr (r, x))"
  shows "channels_ok (initial_world g r x)" "rcQueueSize (rnConfig r) = rcQueueSize config"
  using assms
  by (auto simp: NewMarketRunner_def Let_def channels_ok_def fresh_ok_def closing_ok_def initial_world_def
      split: if_splits prod.splits sum.splits)

lemma config_step: "runner_step env gate gstep w w' \<Longrightarrow> rnConfig (wRunner w') = rnConfig (wRunner w)"
  by (induction rule: runner_step.induct)
    (auto dest: execute_enqueue_frame(1) execute_enqueue_error same_channelsD(4) [OF runner_handle_frame(1)]
      close_loop_frame(4) simp: close_once_frame)

lemma channels_steps:
  assumes "(runner_step env gate gstep)\<^sup>*\<^sup>* w w'" "channels_ok w"
  shows "channels_ok w' \<and> rnConfig (wRunner w') = rnConfig (wRunner w)"
  using assms by (induction rule: rtranclp_induct) (auto intro: channels_step dest: config_step)

context exchange_log
begin

lemma runner_initial:
  assumes "NewMarketRunner ctx walk market (Some es) (Some ss) c config (fst x0) = (st', Inr (r, x))" "consistent x0" "permutes walk"
  shows "runner_ok (initial_world g r x)" "commands_ok P (initial_world g r x)" "x = x0"
proof -
  show *: "x = x0" using assms Restore_any [OF assms(2) walk_own, of ctx]
    by (auto simp: NewMarketRunner_def Let_def split: if_splits prod.splits sum.splits)
  have "hashes_to c (snd x) (rnStateHash r)" using assms(1,3)
    by (auto simp: NewMarketRunner_def Let_def StateHash_def hashes_to_def split: if_splits prod.splits sum.splits)
  then show "runner_ok (initial_world g r x)" using assms(1,2) *
    by (auto simp: NewMarketRunner_def Let_def initial_world_def split: if_splits prod.splits sum.splits)
  show "commands_ok P (initial_world g r x)" using assms
    by (auto simp: NewMarketRunner_def Let_def initial_world_def commands_ok_def split: if_splits prod.splits sum.splits)
qed

text \<open>The invariants along a run.\<close>

lemma runner_steps_ok:
  assumes "(runner_step env gate gstep)\<^sup>*\<^sup>* w w'" "runner_ok w" "commands_ok runner_command64 w" "channels_ok w"
  shows "runner_ok w' \<and> commands_ok runner_command64 w' \<and> channels_ok w'"
  using assms
proof (induction rule: rtranclp_induct)
  case (step y z)
  then have y: "runner_ok y" "commands_ok runner_command64 y" "channels_ok y" by blast+
  then have "closing_ok (wRunner y)" by (simp add: channels_ok_def)
  from runner_step_ok [OF step.hyps(2) y(1,2) this] commands64_step [OF step.hyps(2) y(2)] channels_step [OF step.hyps(2) y(3)]
  show ?case by blast
qed blast

end

text \<open>A run on the empty in-memory store, without a gate: one call that is refused by the exchange, then
  \<open>Close\<close>.\<close>

lemma fresh_runner:
  assumes "codec_ok c" "permutes walk"
  obtains r x where "NewMarketRunner None walk DefaultBTCUSDTMarket (Some (Memory_EventStore Inr)) (Some Memory_SnapshotStore) c
      DefaultRunnerConfig NewMemory = (NewMemory, Inr (r, (NewMemory, x)))" "newState DefaultBTCUSDTMarket = Inr x"
    "rnQueue r = []" "\<not> rnStop r" "\<not> rnDone r" "rnAccepting r" "rnState r = StateReady" "rnConfig r = DefaultRunnerConfig"
proof -
  obtain s where s: "newState DefaultBTCUSDTMarket = Inr s" "sSequence s = 0" using newState_ok [OF market_ok_default] by blast
  obtain h where "state_hash (rewalk walk c) s = Inr h" using hash_total [OF codec_ok_rewalk [OF assms]] by blast
  with s that show ?thesis
    by (simp add: NewMarketRunner_def DefaultRunnerConfig_def Restore_def Memory_SnapshotStore_def Memory_EventStore_def
        Memory_Load_def Memory_RecordsAfter_def NewMemory_def StateHash_def Sequence_def)
qed

definition plain_readings :: readings where
  "plain_readings = \<lparr> rdCtx = None, rdLate = None, rdWalk = (\<lambda>_ xs. xs), rdHashWalk = (\<lambda>_ xs. xs), rdGate = None,
     rdSnapshot = None, rdRestore = None, rdNow = 0 \<rparr>"

lemma plain_readings_simps [simp]:
  "rdCtx plain_readings = None" "rdLate plain_readings = None" "rdGate plain_readings = None"
  "rdSnapshot plain_readings = None" "permutes (rdWalk plain_readings)" "permutes (rdHashWalk plain_readings)"
  by (simp_all add: plain_readings_def permutes_def)

text \<open>A call on its way to the loop of a runner that has nothing to do.\<close>

lemma call_taken:
  fixes env :: "('s, 'b) Env" and x :: "'s exchange"
  assumes "rnQueue r = []" "\<not> rnDone r" "rnAccepting r" "rnConfig r = DefaultRunnerConfig"
    and "execute_admit gate None 0 call g = (g, Inr call')" "runner_call call" "runner_command64 call"
  shows "(runner_step env gate gstep)\<^sup>*\<^sup>* (initial_world g r x)
    ((initial_world g r x)\<lparr> wBusy := Taken call', wNext := 1, wAccepted := [cmResponse call'] \<rparr>)"
proof -
  let ?step = "runner_step env gate gstep" and ?w0 = "initial_world g r x"
  have a: "execute_admit gate None (wNext ?w0) call (wGate ?w0) = (g, Inr call')" using assms(5) by (simp add: initial_world_def)
  have s1: "?step ?w0 (?w0\<lparr> wGate := g, wCalls := wCalls ?w0 @ [call'], wNext := wNext ?w0 + 1 \<rparr>)" (is "runner_step _ _ _ _ ?w1")
    by (rule runner_step.step_admitted [OF a assms(6,7)])
  have s2: "?step ?w1 (?w1\<lparr> wCalls := [] @ [], wRunner := r\<lparr> rnQueue := [call'] \<rparr>, wAccepted := wAccepted ?w1 @ [cmResponse call'] \<rparr>)"
    (is "runner_step _ _ _ _ ?w2")
    by (rule runner_step.step_enqueued [where pick = True and ctx = None])
      (use assms(1-4) in \<open>simp_all add: initial_world_def execute_enqueue_def DefaultRunnerConfig_def\<close>)
  have s3: "?step ?w2 (?w2\<lparr> wRunner := (wRunner ?w2)\<lparr> rnQueue := [] \<rparr>, wBusy := Taken call' \<rparr>)" (is "runner_step _ _ _ _ ?w3")
    by (rule runner_step.step_taken) (use assms in \<open>simp_all add: initial_world_def\<close>)
  have "?w3 = ?w0\<lparr> wBusy := Taken call', wNext := 1, wAccepted := [cmResponse call'] \<rparr>"
    using assms(1) by (simp add: initial_world_def)
  with s1 s2 s3 show ?thesis by (metis (no_types, lifting) converse_rtranclp_into_rtranclp rtranclp.rtrancl_refl)
qed

lemma sample_run:
  fixes env :: "('s, 'b) Env" and x :: "'s exchange"
  assumes "rnQueue r = []" "\<not> rnStop r" "\<not> rnDone r" "rnAccepting r" "rnState r = StateReady" "rnConfig r = DefaultRunnerConfig"
  obtains w where "(runner_step env None gstep)\<^sup>*\<^sup>* (initial_world g r x) w" "rnDone (wRunner w)" "wAccepted w = [0]"
proof -
  let ?call = "Runner_Cancel zeroCancelOrder" and ?step = "runner_step env None gstep"
  let ?call' = "?call\<lparr> cmResponse := 0 \<rparr>"
  have a: "execute_admit None None 0 ?call g = (g, Inr ?call')" by (simp add: execute_admit_def)
  have b: "runner_call ?call" "runner_command64 ?call"
    by (auto simp: runner_call_def runner_command64_def Runner_Cancel_def zeroCommand_def zeroFundRequest_def zeroNewOrder_def
        in64_def MaxInt64_def MinInt64_def)
  let ?w1 = "(initial_world g r x)\<lparr> wBusy := Taken ?call', wNext := 1, wAccepted := [cmResponse ?call'] \<rparr>"
  have s1: "?step\<^sup>*\<^sup>* (initial_world g r x) ?w1" by (rule call_taken [OF assms(1,3,4,6) a b])
  have s2: "?step ?w1 (?w1\<lparr> wRunner := close_once (wRunner ?w1) \<rparr>)" (is "runner_step _ _ _ _ ?w2") by (rule runner_step.step_close)
  have s3: "?step ?w2 (?w2\<lparr> wGate := g, wRunner := wRunner ?w2, wExchange := x, wBusy := Validated ?call' \<rparr>)" (is "runner_step _ _ _ _ ?w3")
    by (rule runner_step.step_handled [where request = ?call' and rd = plain_readings]) (simp_all add: gate_check_def initial_world_def)
  have s4: "?step ?w3 (?w3\<lparr> wGate := g, wRunner := wRunner ?w2, wExchange := x, wBusy := Cleared ?call' \<rparr>)" (is "runner_step _ _ _ _ ?w4")
    by (rule runner_step.step_handled [where request = ?call' and rd = plain_readings])
      (use assms(2) in \<open>simp_all add: initial_world_def close_once_def setState_def\<close>)
  have c: "Cancel e None zeroCancelOrder x = (x, Inl ErrInvalidRequest)" for e :: "('s, 'b) Env"
    by (simp add: Cancel_def CancelOrder_Validate_def zeroCancelOrder_def)
  have s5: "?step ?w4 (?w4\<lparr> wGate := g, wRunner := wRunner ?w2, wExchange := x, wBusy := Idle,
      wReplies := wReplies ?w4 @ [(cmResponse ?call', Inl ErrInvalidRequest)] \<rparr>)" (is "runner_step _ _ _ _ ?w5")
    by (rule runner_step.step_answered [where rd = plain_readings])
      (use c in \<open>simp_all add: initial_world_def apply_operation_def Runner_Cancel_def zeroCommand_def\<close>)
  obtain r6 x6 where l: "close_loop env plain_readings (wRunner ?w5) (wExchange ?w5) = (r6, x6)"
    by (cases "close_loop env plain_readings (wRunner ?w5) (wExchange ?w5)")
  have s6: "?step ?w5 (?w5\<lparr> wRunner := r6, wExchange := x6 \<rparr>)"
    by (rule runner_step.step_closed [OF _ _ _ _ _ l]) (use assms(1-3) in \<open>simp_all add: initial_world_def close_once_def setState_def\<close>)
  have "?step\<^sup>*\<^sup>* (initial_world g r x) (?w5\<lparr> wRunner := r6, wExchange := x6 \<rparr>)"
    using s1 s2 s3 s4 s5 s6 by (meson rtranclp.rtrancl_into_rtrancl)
  then show ?thesis by (rule that) (use close_loop_frame(3) [OF l] in \<open>simp_all add: initial_world_def Runner_Cancel_def\<close>)
qed

end
