(* ===== verification/Quality.thy ===== *)
theory Quality
  imports Recovery
begin

text \<open>
  The package \<open>marketdata/quality\<close>: the evaluation of provider evidence (\<open>contract.go\<close>,
  \<open>policy.go\<close>, \<open>evaluate.go\<close>), the quarantine gate (\<open>gate.go\<close>) and the monitor (\<open>monitor.go\<close>).

  \<^item> The string types of the package that are keys of maps (sources, capabilities, metrics, hard
    faults) are strings; the others are datatypes with a constructor for every other string.
  \<^item> A time is its instant and whether its location is UTC (record \<open>Stamp\<close>); a difference
    saturates. The texts of errors are left out.
  \<^item> Counters are \<open>uint64\<close> values, as integers; the source checks their sums for overflow. The
    counters of a report count pieces of evidence of a window.
  \<^item> Metrics of evidence are walked in the order of their names; the source's sums do not depend
    on the order. \<open>regexp\<close> patterns are predicates on strings.
\<close>

section \<open>Data\<close>

type_synonym SourceKind = string

abbreviation SourceBinanceSpot :: SourceKind where "SourceBinanceSpot \<equiv> ''binance_spot''"
abbreviation SourceCoinGlassDerivative :: SourceKind where "SourceCoinGlassDerivative \<equiv> ''coinglass_derivatives''"
abbreviation SourceXiuqiuResearch :: SourceKind where "SourceXiuqiuResearch \<equiv> ''xiuqiu_research''"

type_synonym Capability = string

abbreviation CapabilitySpotTicker :: Capability where "CapabilitySpotTicker \<equiv> ''spot_ticker''"
abbreviation CapabilityOHLCV :: Capability where "CapabilityOHLCV \<equiv> ''ohlcv''"
abbreviation CapabilityOpenInterest :: Capability where "CapabilityOpenInterest \<equiv> ''open_interest''"
abbreviation CapabilityLiquidation :: Capability where "CapabilityLiquidation \<equiv> ''liquidation''"
abbreviation CapabilityFunding :: Capability where "CapabilityFunding \<equiv> ''funding''"
abbreviation CapabilityResearchSummary :: Capability where "CapabilityResearchSummary \<equiv> ''research_summary''"
abbreviation CapabilityResearchEvents :: Capability where "CapabilityResearchEvents \<equiv> ''research_events''"

datatype Outcome = OutcomeSuccess | OutcomeRateLimit | OutcomeUpstream5xx | OutcomeTimeout | OutcomeBadPayload
  | OutcomeUnsupported | OutcomeAuth | OutcomePermission | OutcomeNetwork | OutcomeUnconfigured | OutcomeStale
  | OutcomeOther string

datatype LicenseStatus = LicenseApproved | LicenseUnknown | LicenseRestricted | LicenseProhibited | LicenseOther string

fun License_String :: "LicenseStatus \<Rightarrow> string" where
  "License_String LicenseApproved = ''approved''"
| "License_String LicenseUnknown = ''unknown''"
| "License_String LicenseRestricted = ''restricted''"
| "License_String LicenseProhibited = ''prohibited''"
| "License_String (LicenseOther s) = s"

datatype ResearchPriority = PriorityNone | PriorityP0 | PriorityP1 | PriorityP2 | PriorityOther string

datatype QStatus = StatusInsufficient | StatusHealthy | StatusDegraded | StatusQuarantined | StatusRecovering | StatusOther string

datatype Grade = GradeA | GradeB | GradeC | GradeD | GradeF

type_synonym Metric = string

abbreviation MetricFreshness :: Metric where "MetricFreshness \<equiv> ''freshness''"
abbreviation MetricLatency :: Metric where "MetricLatency \<equiv> ''latency''"
abbreviation MetricAvailability :: Metric where "MetricAvailability \<equiv> ''availability''"
abbreviation MetricCompleteness :: Metric where "MetricCompleteness \<equiv> ''completeness''"
abbreviation MetricSchema :: Metric where "MetricSchema \<equiv> ''schema''"
abbreviation MetricConsistency :: Metric where "MetricConsistency \<equiv> ''consistency''"
abbreviation MetricDuplicate :: Metric where "MetricDuplicate \<equiv> ''duplicate''"
abbreviation MetricConflict :: Metric where "MetricConflict \<equiv> ''conflict''"
abbreviation MetricOutOfOrder :: Metric where "MetricOutOfOrder \<equiv> ''out_of_order''"
abbreviation MetricFuture :: Metric where "MetricFuture \<equiv> ''future''"
abbreviation MetricStale :: Metric where "MetricStale \<equiv> ''stale''"
abbreviation MetricUnit :: Metric where "MetricUnit \<equiv> ''unit''"
abbreviation MetricPrecision :: Metric where "MetricPrecision \<equiv> ''precision''"
abbreviation MetricIdentity :: Metric where "MetricIdentity \<equiv> ''identity''"
abbreviation MetricCoverage :: Metric where "MetricCoverage \<equiv> ''coverage''"
abbreviation MetricRateLimit :: Metric where "MetricRateLimit \<equiv> ''rate_limit''"
abbreviation MetricUpstream5xx :: Metric where "MetricUpstream5xx \<equiv> ''upstream_5xx''"
abbreviation MetricTimeout :: Metric where "MetricTimeout \<equiv> ''timeout''"
abbreviation MetricCacheHit :: Metric where "MetricCacheHit \<equiv> ''cache_hit''"
abbreviation MetricStaleServe :: Metric where "MetricStaleServe \<equiv> ''stale_serve''"
abbreviation MetricResearchSource :: Metric where "MetricResearchSource \<equiv> ''research_source''"
abbreviation MetricResearchWatch :: Metric where "MetricResearchWatch \<equiv> ''research_watch''"
abbreviation MetricResearchInvalidation :: Metric where "MetricResearchInvalidation \<equiv> ''research_invalidation''"
abbreviation MetricResearchLegacy :: Metric where "MetricResearchLegacy \<equiv> ''research_legacy''"
abbreviation MetricResearchPriority :: Metric where "MetricResearchPriority \<equiv> ''research_priority''"
abbreviation MetricContentHashConflict :: Metric where "MetricContentHashConflict \<equiv> ''content_hash_conflict''"

datatype Polarity = PolarityPositive | PolarityFault | PolarityInformational | PolarityOther string

type_synonym HardFault = string

abbreviation HardFaultFuture :: HardFault where "HardFaultFuture \<equiv> ''future''"
abbreviation HardFaultSchema :: HardFault where "HardFaultSchema \<equiv> ''schema''"
abbreviation HardFaultIdentity :: HardFault where "HardFaultIdentity \<equiv> ''identity''"
abbreviation HardFaultUnit :: HardFault where "HardFaultUnit \<equiv> ''unit''"
abbreviation HardFaultPrecision :: HardFault where "HardFaultPrecision \<equiv> ''precision''"
abbreviation HardFaultConflict :: HardFault where "HardFaultConflict \<equiv> ''conflict''"
abbreviation HardFaultStaleServe :: HardFault where "HardFaultStaleServe \<equiv> ''stale_serve''"
abbreviation HardFaultContentHashConflict :: HardFault where "HardFaultContentHashConflict \<equiv> ''content_hash_conflict''"
abbreviation HardFaultStale :: HardFault where "HardFaultStale \<equiv> ''stale''"

definition BasisPoints :: int where "BasisPoints = 10000"

definition MaxUint64 :: int where "MaxUint64 = 18446744073709551615"

record Counters =
  ctNumerator :: int
  ctDenominator :: int

definition zeroCounters :: Counters where "zeroCounters = \<lparr> ctNumerator = 0, ctDenominator = 0 \<rparr>"

text \<open>The conversion to \<open>uint32\<close> truncates; \<open>bits.Div64\<close> panics when the quotient does not fit,
  which is \<open>Inl\<close> here.\<close>

definition BPS :: "Counters \<Rightarrow> int option res" where
  "BPS c =
     (if ctDenominator c = 0 \<or> ctNumerator c > ctDenominator c then Inr None
      else
        (let whole = ctNumerator c div ctDenominator c;
             remainder = ctNumerator c mod ctDenominator c;
             (hi, lo) = Mul64 (word_of_int remainder) (word_of_int BasisPoints)
         in bindE (Div64 hi lo (word_of_int (ctDenominator c))) (\<lambda>(fraction, roundingRemainder).
              let fraction' = (if uint roundingRemainder \<ge> ctDenominator c div 2 + ctDenominator c mod 2
                               then fraction + 1 else fraction)
              in Inr (Some (uint (word_of_int whole * word_of_int BasisPoints + fraction' :: 64 word) mod 2 ^ 32)))))"

record Stamp =
  tsInstant :: instant
  tsUTC :: bool

definition UTC :: "Stamp \<Rightarrow> Stamp" where "UTC t = t\<lparr> tsUTC := True \<rparr>"
definition stamp_Add :: "Stamp \<Rightarrow> int \<Rightarrow> Stamp" where "stamp_Add t d = t\<lparr> tsInstant := tsInstant t + d \<rparr>"
definition IsZero :: "Stamp \<Rightarrow> bool" where "IsZero t \<longleftrightarrow> tsInstant t = 0"
definition Before :: "Stamp \<Rightarrow> Stamp \<Rightarrow> bool" where "Before t u \<longleftrightarrow> tsInstant t < tsInstant u"
definition stamp_Sub :: "Stamp \<Rightarrow> Stamp \<Rightarrow> int" where "stamp_Sub t u = time_sub (tsInstant t) (tsInstant u)"

record MetricRule =
  mrPolarity :: Polarity
  mrWeightBPS :: int
  mrRequired :: bool
  mrThresholdBPS :: int

definition zeroMetricRule :: MetricRule where
  "zeroMetricRule = \<lparr> mrPolarity = PolarityOther [], mrWeightBPS = 0, mrRequired = False, mrThresholdBPS = 0 \<rparr>"

record CapabilityRule =
  crMinSamples :: int
  crMaxAge :: int

definition zeroCapabilityRule :: CapabilityRule where "zeroCapabilityRule = \<lparr> crMinSamples = 0, crMaxAge = 0 \<rparr>"

record Policy =
  poSource :: SourceKind
  poWindowDuration :: int
  poMinSamples :: int
  poRequiredCapabilities :: "Capability list"
  poCapabilityRules :: "(Capability, CapabilityRule) fmap"
  poDeclaredCoverageGaps :: "Capability list"
  poMetricRules :: "(Metric, MetricRule) fmap"
  poMaxLatency :: int
  poHealthyScoreBPS :: int
  poStaleHardFault :: bool
  poRecoveryHealthyWindows :: int

type_synonym Policies = "(SourceKind, Policy) fmap"

record EvidenceRef =
  erSourceID :: string
  erContentHash :: string

record PriorityCounts =
  pcP0 :: int
  pcP1 :: int
  pcP2 :: int

record Evidence =
  qeID :: string
  qeSource :: SourceKind
  qeCapability :: Capability
  qeAt :: Stamp
  qeOutcome :: Outcome
  qeLatency :: int
  qeLicense :: LicenseStatus
  qeMetrics :: "(Metric, Counters) fmap"
  qeHardFaults :: "HardFault list"
  qeCacheHit :: bool
  qeStaleServe :: bool
  qeNoData :: bool
  qeLive :: bool
  qePriority :: ResearchPriority
  qePriorities :: PriorityCounts
  qeRef :: EvidenceRef

record EvidenceWindow =
  ewStart :: Stamp
  ewEnd :: Stamp
  ewDuration :: int
  ewSampleCount :: int
  ewMinSamples :: int
  ewEvidence :: "Evidence list"

record Dimension =
  dmMetric :: Metric
  dmPolarity :: Polarity
  dmNumerator :: int
  dmDenominator :: int
  dmBPS :: "int option"

record CapabilityReport =
  cpCapability :: Capability
  cpMinSamples :: int
  cpMaxAge :: int
  cpSampleCount :: int
  cpSuccessCount :: int
  cpValidSampleCount :: int
  cpLastAttemptAt :: "Stamp option"
  cpLastSuccessAt :: "Stamp option"
  cpAge :: "int option"
  cpStatus :: QStatus
  cpReasons :: "string list"

record GateState =
  gsSource :: SourceKind
  gsStatus :: QStatus
  gsHealthyWindowStreak :: int
  gsRecoveryRequired :: int
  gsReasons :: "string list"

record Report =
  rpSource :: SourceKind
  rpWindow :: EvidenceWindow
  rpDimensions :: "Dimension list"
  rpCapabilities :: "CapabilityReport list"
  rpTechnicalScoreBPS :: "int option"
  rpGrade :: "Grade option"
  rpStatus :: QStatus
  rpLicense :: LicenseStatus
  rpCoverageGaps :: "Capability list"
  rpReasons :: "string list"
  rpEvidenceRefs :: "EvidenceRef list"
  rpLastAttemptAt :: "Stamp option"
  rpLastSuccessAt :: "Stamp option"
  rpAge :: "int option"
  rpAttemptCount :: int
  rpSuccessCount :: int
  rpCacheHitCount :: int
  rpStaleServeCount :: int
  rpErrorCounts :: "(Outcome, int) fmap"
  rpPriorityCounts :: PriorityCounts
  rpPublicEligible :: bool
  rpResearchContextEligible :: bool
  rpDiagnosticEligible :: bool
  rpTradeEligible :: bool
  rpReferenceEligible :: bool
  rpMatcherEligible :: bool
  rpLedgerEligible :: bool
  rpGate :: GateState

end
