(* ===== verification/QualityEval.thy ===== *)
theory QualityEval
  imports Quality
begin

text \<open>
  Operations of the package \<open>marketdata/quality\<close>: validation of policies and evidence
  (\<open>policy.go\<close>), windows (\<open>contract.go\<close>), the evaluation of a window (\<open>evaluate.go\<close>), the
  gate (\<open>gate.go\<close>) and the monitor (\<open>monitor.go\<close>).

  \<open>Evaluate\<close> is split at its loops: \<open>eval_evidence\<close> is the body of the loop over the evidence,
  \<open>eval_capability\<close> that over the required capabilities, \<open>eval_metric\<close> that over the metrics, and
  \<open>EvalState\<close> holds their variables. Copies (\<open>clone\<dots>\<close>) are the values themselves.
\<close>

section \<open>Policies and evidence\<close>

definition validSource :: "SourceKind \<Rightarrow> bool" where
  "validSource v \<longleftrightarrow> v = SourceBinanceSpot \<or> v = SourceCoinGlassDerivative \<or> v = SourceXiuqiuResearch"

definition stableSources :: "SourceKind list" where
  "stableSources = [SourceBinanceSpot, SourceCoinGlassDerivative, SourceXiuqiuResearch]"

definition validPolarity :: "Polarity \<Rightarrow> bool" where
  "validPolarity v \<longleftrightarrow> v = PolarityPositive \<or> v = PolarityFault \<or> v = PolarityInformational"

definition validLicense :: "LicenseStatus \<Rightarrow> bool" where
  "validLicense v \<longleftrightarrow> v = LicenseApproved \<or> v = LicenseUnknown \<or> v = LicenseRestricted \<or> v = LicenseProhibited"

fun validOutcome :: "Outcome \<Rightarrow> bool" where
  "validOutcome (OutcomeOther _) = False"
| "validOutcome _ = True"

definition validCapabilityForSource :: "SourceKind \<Rightarrow> Capability \<Rightarrow> bool" where
  "validCapabilityForSource source capability =
     (if source = SourceBinanceSpot then capability = CapabilitySpotTicker \<or> capability = CapabilityOHLCV
      else if source = SourceCoinGlassDerivative
      then capability = CapabilityOpenInterest \<or> capability = CapabilityLiquidation \<or> capability = CapabilityFunding
      else if source = SourceXiuqiuResearch
      then capability = CapabilityResearchSummary \<or> capability = CapabilityResearchEvents
      else False)"

definition allMetrics :: "Metric list" where
  "allMetrics = [MetricFreshness, MetricLatency, MetricAvailability, MetricCompleteness, MetricSchema, MetricConsistency,
     MetricDuplicate, MetricConflict, MetricOutOfOrder, MetricFuture, MetricStale, MetricUnit, MetricPrecision,
     MetricIdentity, MetricCoverage, MetricRateLimit, MetricUpstream5xx, MetricTimeout, MetricCacheHit, MetricStaleServe,
     MetricResearchSource, MetricResearchWatch, MetricResearchInvalidation, MetricResearchLegacy, MetricResearchPriority,
     MetricContentHashConflict]"

definition validMetric :: "Metric \<Rightarrow> bool" where
  "validMetric v \<longleftrightarrow> list_ex (\<lambda>metric. metric = v) allMetrics"

definition isFaultMetric :: "Metric \<Rightarrow> bool" where
  "isFaultMetric v \<longleftrightarrow> list_ex (\<lambda>metric. metric = v)
     [MetricDuplicate, MetricConflict, MetricOutOfOrder, MetricFuture, MetricStale, MetricUnit, MetricPrecision,
      MetricIdentity, MetricRateLimit, MetricUpstream5xx, MetricTimeout, MetricStaleServe, MetricResearchLegacy,
      MetricContentHashConflict]"

definition validHardFault :: "HardFault \<Rightarrow> bool" where
  "validHardFault v \<longleftrightarrow> list_ex (\<lambda>fault. fault = v)
     [HardFaultFuture, HardFaultSchema, HardFaultIdentity, HardFaultUnit, HardFaultPrecision, HardFaultConflict,
      HardFaultStaleServe, HardFaultContentHashConflict, HardFaultStale]"

definition metricRules :: "int \<Rightarrow> int \<Rightarrow> int \<Rightarrow> int \<Rightarrow> int \<Rightarrow> int \<Rightarrow> (Metric, MetricRule) fmap" where
  "metricRules freshness availability completeness schema consistency coverage =
     (let base = fold (\<lambda>metric rules. fmupd metric (zeroMetricRule\<lparr> mrPolarity :=
                   (if isFaultMetric metric then PolarityFault else PolarityInformational) \<rparr>) rules) allMetrics fmempty;
          positive = (\<lambda>weight threshold. \<lparr> mrPolarity = PolarityPositive, mrWeightBPS = weight, mrRequired = True,
                        mrThresholdBPS = threshold \<rparr>)
      in fmupd MetricCoverage (positive coverage BasisPoints)
           (fmupd MetricConsistency (positive consistency BasisPoints)
           (fmupd MetricSchema (positive schema BasisPoints)
           (fmupd MetricCompleteness (positive completeness 9500)
           (fmupd MetricAvailability (positive availability 9500)
           (fmupd MetricFreshness (positive freshness 9500) base))))))"

definition researchMetricRules :: "(Metric, MetricRule) fmap" where
  "researchMetricRules =
     fold (\<lambda>metric rules. fmupd metric \<lparr> mrPolarity = PolarityPositive, mrWeightBPS = 0, mrRequired = True,
             mrThresholdBPS = BasisPoints \<rparr> rules)
       [MetricResearchSource, MetricResearchWatch, MetricResearchInvalidation]
       (metricRules 1500 1500 2000 1500 1000 2500)"

definition second :: int where "second = 1000000000"

definition DefaultPolicies :: Policies where
  "DefaultPolicies = fmap_of_list
     [(SourceBinanceSpot,
       \<lparr> poSource = SourceBinanceSpot, poWindowDuration = 5 * 60 * second, poMinSamples = 7,
         poRequiredCapabilities = [CapabilitySpotTicker, CapabilityOHLCV],
         poCapabilityRules = fmap_of_list
           [(CapabilitySpotTicker, \<lparr> crMinSamples = 5, crMaxAge = 5 * second \<rparr>),
            (CapabilityOHLCV, \<lparr> crMinSamples = 2, crMaxAge = 65 * second \<rparr>)],
         poDeclaredCoverageGaps = [], poMetricRules = metricRules 2500 2000 2000 1500 1000 1000,
         poMaxLatency = 2 * second, poHealthyScoreBPS = 9000, poStaleHardFault = True, poRecoveryHealthyWindows = 3 \<rparr>),
      (SourceCoinGlassDerivative,
       \<lparr> poSource = SourceCoinGlassDerivative, poWindowDuration = 5 * 3600 * second, poMinSamples = 2,
         poRequiredCapabilities = [CapabilityOpenInterest, CapabilityLiquidation],
         poCapabilityRules = fmap_of_list
           [(CapabilityOpenInterest, \<lparr> crMinSamples = 1, crMaxAge = 5 * 3600 * second \<rparr>),
            (CapabilityLiquidation, \<lparr> crMinSamples = 1, crMaxAge = 5 * 3600 * second \<rparr>)],
         poDeclaredCoverageGaps = [CapabilityFunding], poMetricRules = metricRules 2000 2000 2000 1500 1500 1000,
         poMaxLatency = 5 * second, poHealthyScoreBPS = 9000, poStaleHardFault = True, poRecoveryHealthyWindows = 3 \<rparr>),
      (SourceXiuqiuResearch,
       \<lparr> poSource = SourceXiuqiuResearch, poWindowDuration = 168 * 3600 * second, poMinSamples = 2,
         poRequiredCapabilities = [CapabilityResearchSummary, CapabilityResearchEvents],
         poCapabilityRules = fmap_of_list
           [(CapabilityResearchSummary, \<lparr> crMinSamples = 1, crMaxAge = 168 * 3600 * second \<rparr>),
            (CapabilityResearchEvents, \<lparr> crMinSamples = 1, crMaxAge = 168 * 3600 * second \<rparr>)],
         poDeclaredCoverageGaps = [], poMetricRules = researchMetricRules,
         poMaxLatency = 5 * second, poHealthyScoreBPS = 9000, poStaleHardFault = True, poRecoveryHealthyWindows = 3 \<rparr>)]"

text \<open>The loops of \<open>ValidatePolicy\<close>: required capabilities with the sum of their minima, declared
  gaps, and metric rules with the sum of their weights.\<close>

definition validate_capability ::
  "Policy \<Rightarrow> Capability \<Rightarrow> Capability list \<times> int \<Rightarrow> (Capability list \<times> int) res" where
  "validate_capability p capability st =
     (let (required, capabilityMinimum) = st;
          rule = fmget zeroCapabilityRule (poCapabilityRules p) capability
      in if \<not> validCapabilityForSource (poSource p) capability \<or> capability |\<notin>| fmdom (poCapabilityRules p) \<or>
            crMinSamples rule = 0 \<or> crMaxAge rule \<le> 0 \<or> crMaxAge rule > poWindowDuration p
         then Inl ErrInvalidPolicy
         else if List.member required capability then Inl ErrInvalidPolicy
         else Inr (required @ [capability], (capabilityMinimum + crMinSamples rule) mod 2 ^ 64))"

definition validate_gap :: "Policy \<Rightarrow> Capability list \<Rightarrow> Capability \<Rightarrow> Capability list \<Rightarrow> Capability list res" where
  "validate_gap p required gap seenGaps =
     (if \<not> validCapabilityForSource (poSource p) gap then Inl ErrInvalidPolicy
      else if List.member required gap then Inl ErrInvalidPolicy
      else if List.member seenGaps gap then Inl ErrInvalidPolicy
      else Inr (seenGaps @ [gap]))"

definition validate_rule :: "Policy \<Rightarrow> Metric \<Rightarrow> int \<Rightarrow> int res" where
  "validate_rule p metric weight =
     (let rule = fmget zeroMetricRule (poMetricRules p) metric
      in if metric |\<notin>| fmdom (poMetricRules p) \<or> \<not> validPolarity (mrPolarity rule) \<or>
            mrWeightBPS rule > BasisPoints \<or> mrThresholdBPS rule > BasisPoints
         then Inl ErrInvalidPolicy
         else if mrPolarity rule = PolarityInformational \<and> mrWeightBPS rule \<noteq> 0 then Inl ErrInvalidPolicy
         else Inr (weight + mrWeightBPS rule))"

definition ValidatePolicy :: "Policy \<Rightarrow> unit res" where
  "ValidatePolicy p =
     (if \<not> validSource (poSource p) \<or> poWindowDuration p \<le> 0 \<or> poWindowDuration p > 30 * 24 * 3600 * second \<or>
         poMinSamples p = 0 \<or> poMinSamples p > 1000000
      then Inl ErrInvalidPolicy
      else if poMaxLatency p \<le> 0 \<or> poMaxLatency p > poWindowDuration p \<or> poHealthyScoreBPS p > BasisPoints \<or>
              poRecoveryHealthyWindows p = 0 \<or> poRecoveryHealthyWindows p > 100
      then Inl ErrInvalidPolicy
      else if poRequiredCapabilities p = [] \<or> fcard (fmdom (poMetricRules p)) \<noteq> length allMetrics
      then Inl ErrInvalidPolicy
      else
        bindE (foldE (validate_capability p) (poRequiredCapabilities p) ([], 0)) (\<lambda>(required, capabilityMinimum).
          if poMinSamples p \<noteq> capabilityMinimum then Inl ErrInvalidPolicy
          else if fcard (fmdom (poCapabilityRules p)) \<noteq> length required then Inl ErrInvalidPolicy
          else bindE (foldE (validate_gap p required) (poDeclaredCoverageGaps p) []) (\<lambda>_.
               bindE (foldE (validate_rule p) allMetrics 0) (\<lambda>weight.
                 if weight \<noteq> BasisPoints then Inl ErrInvalidPolicy else Inr ()))))"

text \<open>\<open>safeID\<close>, \<open>safeSourceID\<close> and \<open>sha256Hex\<close>.\<close>

definition safeID :: "string \<Rightarrow> bool" where
  "safeID s \<longleftrightarrow> s \<noteq> [] \<and> is_alnum (hd s) \<and> length (tl s) \<le> 127 \<and>
     list_all (\<lambda>c. is_alnum c \<or> List.member ''._:/=-'' c) (tl s)"

definition safeSourceID :: "string \<Rightarrow> bool" where
  "safeSourceID s \<longleftrightarrow> s \<noteq> [] \<and> is_alnum (hd s) \<and> length (tl s) \<le> 511 \<and>
     list_all (\<lambda>c. is_alnum c \<or> List.member ''._:/=@+,;-'' c) (tl s)"

definition sha256Hex :: "string \<Rightarrow> bool" where
  "sha256Hex s \<longleftrightarrow> length s = 64 \<and>
     list_all (\<lambda>c. is_digit c \<or> 97 \<le> (of_char c :: nat) \<and> (of_char c :: nat) \<le> 102) s"

definition ValidateEvidence :: "Evidence \<Rightarrow> unit res" where
  "ValidateEvidence e =
     (if \<not> safeID (qeID e) \<or> \<not> validSource (qeSource e) \<or> \<not> validCapabilityForSource (qeSource e) (qeCapability e) \<or>
         \<not> validOutcome (qeOutcome e) \<or> \<not> validLicense (qeLicense e)
      then Inl ErrInvalidEvidence
      else if IsZero (qeAt e) \<or> \<not> tsUTC (qeAt e) \<or> qeLatency e < 0 \<or> qeLatency e > 10 * 60 * second
      then Inl ErrInvalidEvidence
      else if \<not> safeSourceID (erSourceID (qeRef e)) \<or>
              (erContentHash (qeRef e) \<noteq> [] \<and> \<not> sha256Hex (erContentHash (qeRef e)))
      then Inl ErrInvalidEvidence
      else if pcP0 (qePriorities e) > 50 \<or> pcP1 (qePriorities e) > 50 \<or> pcP2 (qePriorities e) > 50
      then Inl ErrInvalidEvidence
      else
        (let priorityTotal = pcP0 (qePriorities e) + pcP1 (qePriorities e) + pcP2 (qePriorities e) in
         if priorityTotal > 50 then Inl ErrInvalidEvidence
         else if qeSource e \<noteq> SourceXiuqiuResearch \<and> (qePriority e \<noteq> PriorityNone \<or> priorityTotal \<noteq> 0)
         then Inl ErrInvalidEvidence
         else if qePriority e \<notin> {PriorityNone, PriorityP0, PriorityP1, PriorityP2} then Inl ErrInvalidEvidence
         else if qePriority e \<noteq> PriorityNone \<and> priorityTotal \<noteq> 0 then Inl ErrInvalidEvidence
         else if qeNoData e \<and> qeOutcome e \<noteq> OutcomeSuccess then Inl ErrInvalidEvidence
         else if \<not> list_all (\<lambda>(metric, counter). validMetric metric \<and> ctNumerator counter \<le> ctDenominator counter)
                      (sorted_list_of_fmap (qeMetrics e))
         then Inl ErrInvalidEvidence
         else if \<not> list_all validHardFault (qeHardFaults e) \<or> \<not> distinct (qeHardFaults e) then Inl ErrInvalidEvidence
         else Inr ()))"

definition ValidatePolicies :: "Policies \<Rightarrow> unit res" where
  "ValidatePolicies policies =
     (if fcard (fmdom policies) \<noteq> 3 then Inl ErrInvalidPolicy
      else foldE (\<lambda>source _. case fmlookup policies source of
                    None \<Rightarrow> Inl ErrInvalidPolicy
                  | Some policy \<Rightarrow> if poSource policy \<noteq> source then Inl ErrInvalidPolicy else ValidatePolicy policy)
             stableSources ())"

section \<open>Windows\<close>

definition Window_Validate :: "EvidenceWindow \<Rightarrow> unit res" where
  "Window_Validate w =
     (if IsZero (ewStart w) \<or> IsZero (ewEnd w) \<or> \<not> tsUTC (ewStart w) \<or> \<not> tsUTC (ewEnd w) then Inl ErrInvalidWindow
      else if \<not> Before (ewStart w) (ewEnd w) \<or> ewDuration w \<noteq> stamp_Sub (ewEnd w) (ewStart w) then Inl ErrInvalidWindow
      else if ewMinSamples w = 0 \<or> ewSampleCount w \<noteq> int (length (ewEvidence w)) then Inl ErrInvalidWindow
      else if list_all (\<lambda>e. tsUTC (qeAt e) \<and> \<not> Before (qeAt e) (ewStart w) \<and> Before (qeAt e) (ewEnd w)) (ewEvidence w)
      then Inr () else Inl ErrInvalidWindow)"

definition sort_evidence :: "Evidence list \<Rightarrow> Evidence list" where
  "sort_evidence = sort_key (\<lambda>e. (tsInstant (qeAt e), qeID e))"

definition NewEvidenceWindow :: "Stamp \<Rightarrow> Stamp \<Rightarrow> int \<Rightarrow> Evidence list \<Rightarrow> EvidenceWindow res" where
  "NewEvidenceWindow start end minSamples evidence =
     (let w = \<lparr> ewStart = UTC start, ewEnd = UTC end, ewDuration = stamp_Sub (UTC end) (UTC start),
                ewSampleCount = int (length evidence), ewMinSamples = minSamples,
                ewEvidence = map (\<lambda>e. e\<lparr> qeAt := UTC (qeAt e) \<rparr>) evidence \<rparr>
      in bindE (Window_Validate w) (\<lambda>_. Inr (w\<lparr> ewEvidence := sort_evidence (ewEvidence w) \<rparr>)))"

text \<open>\<open>cloneWindow\<close> ignores the error, whose window is the zero value.\<close>

definition zeroStamp :: Stamp where "zeroStamp = \<lparr> tsInstant = 0, tsUTC = True \<rparr>"

definition cloneWindow :: "EvidenceWindow \<Rightarrow> EvidenceWindow" where
  "cloneWindow w =
     (case NewEvidenceWindow (ewStart w) (ewEnd w) (ewMinSamples w) (ewEvidence w) of
        Inr cloned \<Rightarrow> cloned
      | Inl _ \<Rightarrow> \<lparr> ewStart = zeroStamp, ewEnd = zeroStamp, ewDuration = 0, ewSampleCount = 0, ewMinSamples = 0, ewEvidence = [] \<rparr>)"

section \<open>Counters and faults\<close>

definition addCounters :: "Metric \<Rightarrow> Counters \<Rightarrow> (Metric, Counters) fmap \<Rightarrow> (Metric, Counters) fmap res" where
  "addCounters metric value dst =
     (let current = fmget zeroCounters dst metric in
      if ctNumerator value > MaxUint64 - ctNumerator current \<or> ctDenominator value > MaxUint64 - ctDenominator current
      then Inl ErrInvalidEvidence
      else Inr (fmupd metric \<lparr> ctNumerator = ctNumerator current + ctNumerator value,
                               ctDenominator = ctDenominator current + ctDenominator value \<rparr> dst))"

definition boolCounter :: "bool \<Rightarrow> Counters" where
  "boolCounter ok = \<lparr> ctNumerator = (if ok then 1 else 0), ctDenominator = 1 \<rparr>"

definition addIfAbsent ::
  "(Metric, Counters) fmap \<Rightarrow> Metric \<Rightarrow> Counters \<Rightarrow> (Metric, Counters) fmap \<Rightarrow> (Metric, Counters) fmap res" where
  "addIfAbsent supplied metric value dst =
     (if metric |\<in>| fmdom supplied then Inr dst else addCounters metric value dst)"

definition addPriorityCounts :: "PriorityCounts \<Rightarrow> PriorityCounts \<Rightarrow> PriorityCounts res" where
  "addPriorityCounts value target =
     (if pcP0 value > MaxUint64 - pcP0 target \<or> pcP1 value > MaxUint64 - pcP1 target \<or> pcP2 value > MaxUint64 - pcP2 target
      then Inl ErrInvalidEvidence
      else Inr \<lparr> pcP0 = pcP0 target + pcP0 value, pcP1 = pcP1 target + pcP1 value, pcP2 = pcP2 target + pcP2 value \<rparr>)"

definition evidenceHasConsistencyFault :: "Evidence \<Rightarrow> bool" where
  "evidenceHasConsistencyFault e \<longleftrightarrow>
     list_ex (\<lambda>fault. fault = HardFaultFuture \<or> fault = HardFaultConflict \<or> fault = HardFaultContentHashConflict) (qeHardFaults e) \<or>
     list_ex (\<lambda>metric. ctNumerator (fmget zeroCounters (qeMetrics e) metric) > 0)
       [MetricDuplicate, MetricConflict, MetricOutOfOrder, MetricFuture, MetricContentHashConflict]"

text \<open>The reason of the fault that a counter shows, if it shows one.\<close>

definition metricHardFaultReason :: "Metric \<Rightarrow> Counters \<Rightarrow> Policy \<Rightarrow> string option" where
  "metricHardFaultReason metric counter policy =
     (if metric = MetricSchema
      then if ctDenominator counter > 0 \<and> ctNumerator counter < ctDenominator counter then Some HardFaultSchema else None
      else if metric = MetricFreshness
      then if poStaleHardFault policy \<and> ctDenominator counter > 0 \<and> ctNumerator counter < ctDenominator counter
           then Some HardFaultStale else None
      else if List.member [MetricFuture, MetricIdentity, MetricUnit, MetricPrecision, MetricConflict, MetricStaleServe,
                           MetricContentHashConflict] metric
      then if ctNumerator counter > 0 then Some metric else None
      else if metric = MetricStale
      then if poStaleHardFault policy \<and> ctNumerator counter > 0 then Some HardFaultStale else None
      else None)"

definition evidenceHasHardFault :: "Evidence \<Rightarrow> Policy \<Rightarrow> bool" where
  "evidenceHasHardFault e policy \<longleftrightarrow>
     qeOutcome e = OutcomeBadPayload \<or> qeOutcome e = OutcomeStale \<or> qeStaleServe e \<or> qeHardFaults e \<noteq> [] \<or>
     list_ex (\<lambda>(metric, counters). metricHardFaultReason metric counters policy \<noteq> None) (sorted_list_of_fmap (qeMetrics e))"

definition addDerived :: "Evidence \<Rightarrow> Policy \<Rightarrow> (Metric, Counters) fmap \<Rightarrow> (Metric, Counters) fmap res" where
  "addDerived evidence policy dst =
     (let supplied = qeMetrics evidence; outcome = qeOutcome evidence;
          success = (outcome = OutcomeSuccess);
          add = (\<lambda>cond metric value d. if cond then addIfAbsent supplied metric value d else Inr d)
      in bindE (add (outcome \<noteq> OutcomeUnsupported) MetricAvailability (boolCounter success) dst)
         (\<lambda>d. bindE (add (outcome \<noteq> OutcomeUnsupported) MetricRateLimit (boolCounter (outcome = OutcomeRateLimit)) d)
         (\<lambda>d. bindE (add (outcome \<noteq> OutcomeUnsupported) MetricUpstream5xx (boolCounter (outcome = OutcomeUpstream5xx)) d)
         (\<lambda>d. bindE (add (outcome \<noteq> OutcomeUnsupported) MetricTimeout (boolCounter (outcome = OutcomeTimeout)) d)
         (\<lambda>d. bindE (add success MetricLatency (boolCounter (qeLatency evidence \<le> poMaxLatency policy)) d)
         (\<lambda>d. bindE (add success MetricCacheHit (boolCounter (qeCacheHit evidence)) d)
         (\<lambda>d. bindE (add success MetricStaleServe (boolCounter (qeStaleServe evidence)) d)
         (\<lambda>d. bindE (add (success \<or> outcome = OutcomeBadPayload) MetricSchema (boolCounter success) d)
         (\<lambda>d. bindE (add success MetricConsistency (boolCounter (\<not> evidenceHasConsistencyFault evidence)) d)
         (\<lambda>d. bindE (add (outcome = OutcomeStale) MetricFreshness \<lparr> ctNumerator = 0, ctDenominator = 1 \<rparr> d)
         (\<lambda>d. add (outcome = OutcomeStale) MetricStale \<lparr> ctNumerator = 1, ctDenominator = 1 \<rparr> d)))))))))))"

definition licenseRank :: "LicenseStatus \<Rightarrow> nat" where
  "licenseRank v = (case v of LicenseApproved \<Rightarrow> 0 | LicenseUnknown \<Rightarrow> 1 | LicenseRestricted \<Rightarrow> 2 | LicenseProhibited \<Rightarrow> 3
     | LicenseOther _ \<Rightarrow> 4)"

definition gradeFor :: "int \<Rightarrow> Grade" where
  "gradeFor score = (if score \<ge> 9000 then GradeA else if score \<ge> 8000 then GradeB else if score \<ge> 7000 then GradeC
     else if score \<ge> 5000 then GradeD else GradeF)"

definition setLatest :: "Stamp option \<Rightarrow> Stamp \<Rightarrow> Stamp option" where
  "setLatest target candidate =
     (case target of None \<Rightarrow> Some candidate | Some t \<Rightarrow> if Before t candidate then Some candidate else Some t)"

definition containsCapability :: "Capability list \<Rightarrow> Capability \<Rightarrow> bool" where
  "containsCapability items target \<longleftrightarrow> list_ex (\<lambda>item. item = target) items"

definition uniqueSortedStrings :: "string list \<Rightarrow> string list" where
  "uniqueSortedStrings items = remdups_adj (sort items)"

definition uniqueRefs :: "EvidenceRef list \<Rightarrow> EvidenceRef list" where
  "uniqueRefs items = remdups_adj items"

section \<open>Evaluation\<close>

record EvalState =
  esReport :: Report
  esAggregates :: "(Metric, Counters) fmap"
  esCapabilities :: "(Capability, CapabilityReport) fmap"
  esCapabilityHard :: "Capability fset"
  esLicenseSet :: bool
  esAllLive :: bool
  esHardReasons :: "string fset"

definition zeroGate :: GateState where
  "zeroGate = \<lparr> gsSource = [], gsStatus = StatusOther [], gsHealthyWindowStreak = 0, gsRecoveryRequired = 0, gsReasons = [] \<rparr>"

definition initial_report :: "Policy \<Rightarrow> EvidenceWindow \<Rightarrow> Report" where
  "initial_report policy window =
     \<lparr> rpSource = poSource policy, rpWindow = cloneWindow window, rpDimensions = [], rpCapabilities = [],
       rpTechnicalScoreBPS = None, rpGrade = None, rpStatus = StatusOther [], rpLicense = LicenseUnknown,
       rpCoverageGaps = poDeclaredCoverageGaps policy, rpReasons = [], rpEvidenceRefs = [], rpLastAttemptAt = None,
       rpLastSuccessAt = None, rpAge = None, rpAttemptCount = 0, rpSuccessCount = 0, rpCacheHitCount = 0,
       rpStaleServeCount = 0, rpErrorCounts = fmempty, rpPriorityCounts = \<lparr> pcP0 = 0, pcP1 = 0, pcP2 = 0 \<rparr>,
       rpPublicEligible = False, rpResearchContextEligible = False, rpDiagnosticEligible = (ewEvidence window \<noteq> []),
       rpTradeEligible = False, rpReferenceEligible = False, rpMatcherEligible = False, rpLedgerEligible = False,
       rpGate = zeroGate \<rparr>"

definition initial_capability :: "Policy \<Rightarrow> Capability \<Rightarrow> CapabilityReport" where
  "initial_capability policy capability =
     (let rule = fmget zeroCapabilityRule (poCapabilityRules policy) capability
      in \<lparr> cpCapability = capability, cpMinSamples = crMinSamples rule, cpMaxAge = crMaxAge rule, cpSampleCount = 0,
           cpSuccessCount = 0, cpValidSampleCount = 0, cpLastAttemptAt = None, cpLastSuccessAt = None, cpAge = None,
           cpStatus = StatusInsufficient, cpReasons = [] \<rparr>)"

definition initial_eval :: "Policy \<Rightarrow> EvidenceWindow \<Rightarrow> EvalState" where
  "initial_eval policy window =
     \<lparr> esReport = initial_report policy window, esAggregates = fmempty,
       esCapabilities = fold (\<lambda>capability m. fmupd capability (initial_capability policy capability) m)
                          (poRequiredCapabilities policy) fmempty,
       esCapabilityHard = {||}, esLicenseSet = False, esAllLive = True, esHardReasons = {||} \<rparr>"

text \<open>The part of the loop body that every piece of evidence goes through.\<close>

definition eval_common :: "Evidence \<Rightarrow> EvalState \<Rightarrow> EvalState" where
  "eval_common e s =
     (let r = (esReport s)\<lparr> rpEvidenceRefs := rpEvidenceRefs (esReport s) @ [qeRef e] \<rparr>;
          worse = (\<not> esLicenseSet s \<or> licenseRank (qeLicense e) > licenseRank (rpLicense r))
      in s\<lparr> esReport := (if worse then r\<lparr> rpLicense := qeLicense e \<rparr> else r),
            esLicenseSet := (esLicenseSet s \<or> worse), esAllLive := (esAllLive s \<and> qeLive e) \<rparr>)"

text \<open>A cache hit is not an attempt.\<close>

definition eval_cache_hit :: "Evidence \<Rightarrow> EvalState \<Rightarrow> EvalState res" where
  "eval_cache_hit e s =
     bindE (addCounters MetricCacheHit \<lparr> ctNumerator = 1, ctDenominator = 1 \<rparr> (esAggregates s)) (\<lambda>aggregates.
     bindE (if qeStaleServe e
            then bindE (addCounters MetricStaleServe \<lparr> ctNumerator = 1, ctDenominator = 1 \<rparr> aggregates) (\<lambda>a.
                   Inr (a, finsert HardFaultStaleServe (esHardReasons s), 1))
            else Inr (aggregates, esHardReasons s, 0)) (\<lambda>(a, hard, stale).
       Inr (s\<lparr> esReport := (esReport s)\<lparr> rpCacheHitCount := rpCacheHitCount (esReport s) + 1,
                             rpStaleServeCount := rpStaleServeCount (esReport s) + stale \<rparr>,
               esAggregates := a, esHardReasons := hard |\<union>| fset_of_list (qeHardFaults e) \<rparr>)))"

text \<open>The counts of an attempt, in the report of its capability and in the report.\<close>

definition attempt_capability :: "Policy \<Rightarrow> Evidence \<Rightarrow> CapabilityReport \<Rightarrow> CapabilityReport" where
  "attempt_capability policy e c =
     (let c1 = c\<lparr> cpSampleCount := cpSampleCount c + 1, cpLastAttemptAt := setLatest (cpLastAttemptAt c) (qeAt e) \<rparr>
      in if qeOutcome e = OutcomeSuccess
         then c1\<lparr> cpSuccessCount := cpSuccessCount c1 + 1, cpLastSuccessAt := setLatest (cpLastSuccessAt c1) (qeAt e),
                  cpValidSampleCount := (if \<not> qeNoData e \<and> \<not> evidenceHasHardFault e policy
                                         then cpValidSampleCount c1 + 1 else cpValidSampleCount c1) \<rparr>
         else c1)"

definition attempt_report :: "Evidence \<Rightarrow> Report \<Rightarrow> Report" where
  "attempt_report e r =
     (let r1 = r\<lparr> rpAttemptCount := rpAttemptCount r + 1, rpLastAttemptAt := setLatest (rpLastAttemptAt r) (qeAt e) \<rparr>;
          r2 = (if qeOutcome e = OutcomeSuccess
                then r1\<lparr> rpSuccessCount := rpSuccessCount r1 + 1, rpLastSuccessAt := setLatest (rpLastSuccessAt r1) (qeAt e) \<rparr>
                else r1\<lparr> rpErrorCounts := fmupd (qeOutcome e) (fmget 0 (rpErrorCounts r1) (qeOutcome e) + 1) (rpErrorCounts r1) \<rparr>)
      in if qeStaleServe e then r2\<lparr> rpStaleServeCount := rpStaleServeCount r2 + 1 \<rparr> else r2)"

definition evidence_priorities :: "Evidence \<Rightarrow> PriorityCounts" where
  "evidence_priorities e =
     (case qePriority e of
        PriorityP0 \<Rightarrow> (qePriorities e)\<lparr> pcP0 := 1 \<rparr>
      | PriorityP1 \<Rightarrow> (qePriorities e)\<lparr> pcP1 := 1 \<rparr>
      | PriorityP2 \<Rightarrow> (qePriorities e)\<lparr> pcP2 := 1 \<rparr>
      | _ \<Rightarrow> qePriorities e)"

definition eval_attempt :: "Policy \<Rightarrow> Evidence \<Rightarrow> EvalState \<Rightarrow> EvalState res" where
  "eval_attempt policy e s =
     bindE (addDerived e policy (esAggregates s)) (\<lambda>a1.
     bindE (foldE (\<lambda>(metric, counters). addCounters metric counters) (sorted_list_of_fmap (qeMetrics e)) a1) (\<lambda>a2.
     bindE (addPriorityCounts (evidence_priorities e) (rpPriorityCounts (esReport s))) (\<lambda>priorities.
       Inr (s\<lparr> esReport := (attempt_report e (esReport s))\<lparr> rpPriorityCounts := priorities \<rparr>,
               esAggregates := a2,
               esCapabilities := (case fmlookup (esCapabilities s) (qeCapability e) of
                   None \<Rightarrow> esCapabilities s
                 | Some c \<Rightarrow> fmupd (qeCapability e) (attempt_capability policy e c) (esCapabilities s)),
               esHardReasons := (if qeStaleServe e then finsert HardFaultStaleServe (esHardReasons s) else esHardReasons s)
                 |\<union>| fset_of_list (qeHardFaults e),
               esCapabilityHard := (if evidenceHasHardFault e policy then finsert (qeCapability e) (esCapabilityHard s)
                                    else esCapabilityHard s) \<rparr>))))"

definition eval_evidence :: "Policy \<Rightarrow> Evidence \<Rightarrow> EvalState \<Rightarrow> EvalState res" where
  "eval_evidence policy e s =
     bindE (ValidateEvidence e) (\<lambda>_.
       if qeSource e \<noteq> poSource policy then Inl ErrInvalidEvidence
       else
         (let s1 = eval_common e s in
          if qeOutcome e = OutcomeUnsupported
          then Inr (if containsCapability (poDeclaredCoverageGaps policy) (qeCapability e) then s1
                    else s1\<lparr> esReport := (esReport s1)\<lparr> rpReasons := rpReasons (esReport s1) @
                           [''unexpected_unsupported:'' @ qeCapability e] \<rparr> \<rparr>)
          else if qeCacheHit e then eval_cache_hit e s1
          else eval_attempt policy e s1))"

text \<open>The loop over the required capabilities: \<open>CapState\<close> is the numerator of the coverage, whether a
  capability is insufficient, the hard reasons and the reports so far.\<close>

record CapState =
  csCovered :: int
  csInsufficient :: bool
  csHardReasons :: "string fset"
  csReports :: "CapabilityReport list"

definition eval_capability :: "Policy \<Rightarrow> EvidenceWindow \<Rightarrow> EvalState \<Rightarrow> Capability \<Rightarrow> CapState \<Rightarrow> CapState" where
  "eval_capability policy window s capability st =
     (let c0 = fmget (initial_capability policy capability) (esCapabilities s) capability;
          c = c0\<lparr> cpAge := (case cpLastSuccessAt c0 of None \<Rightarrow> None | Some t \<Rightarrow> Some (stamp_Sub (ewEnd window) t)) \<rparr>;
          covered = (if cpSuccessCount c \<ge> cpMinSamples c then csCovered st + 1 else csCovered st);
          finish = (\<lambda>status reasons insufficient hard.
            st\<lparr> csCovered := covered, csInsufficient := (csInsufficient st \<or> insufficient),
                csHardReasons := csHardReasons st |\<union>| hard,
                csReports := csReports st @ [c\<lparr> cpStatus := status, cpReasons := cpReasons c @ reasons \<rparr>] \<rparr>)
      in if capability |\<in>| esCapabilityHard s then finish StatusQuarantined [''hard_fault''] False {||}
         else if cpValidSampleCount c < cpMinSamples c
         then finish StatusInsufficient
                ([''min_samples''] @ (if cpSuccessCount c > 0 \<and> cpValidSampleCount c = 0 then [''no_data''] else [])) True {||}
         else case cpAge c of
           None \<Rightarrow> finish StatusInsufficient [''missing_success''] True {||}
         | Some age \<Rightarrow>
             if age < 0 then finish StatusQuarantined [''future''] False {| HardFaultFuture |}
             else if age > cpMaxAge c
             then finish StatusQuarantined [''stale''] False (if poStaleHardFault policy then {| HardFaultStale |} else {||})
             else if cpSampleCount c > cpSuccessCount c then finish StatusDegraded [''attempt_failures''] False {||}
             else finish StatusHealthy [] False {||})"

definition eval_metric ::
  "Policy \<Rightarrow> (Metric, Counters) fmap \<Rightarrow> Metric \<Rightarrow> Dimension list \<times> string fset \<Rightarrow> (Dimension list \<times> string fset) res" where
  "eval_metric policy aggregates metric st =
     (let (dimensions, hardReasons) = st;
          rule = fmget zeroMetricRule (poMetricRules policy) metric;
          counter = fmget zeroCounters aggregates metric
      in bindE (BPS counter) (\<lambda>bps.
           Inr (dimensions @ [\<lparr> dmMetric = metric, dmPolarity = mrPolarity rule, dmNumerator = ctNumerator counter,
                                dmDenominator = ctDenominator counter, dmBPS = bps \<rparr>],
                case metricHardFaultReason metric counter policy of
                  None \<Rightarrow> hardReasons | Some reason \<Rightarrow> finsert reason hardReasons)))"

text \<open>The loop of \<open>technicalScore\<close>: the weighted sum, whether all thresholds hold, and whether evidence
  is insufficient.\<close>

definition score_dimension :: "Policy \<Rightarrow> Dimension \<Rightarrow> int \<times> bool \<times> bool \<Rightarrow> int \<times> bool \<times> bool" where
  "score_dimension policy dimension st =
     (let (weighted, healthy, insufficient) = st;
          rule = fmget zeroMetricRule (poMetricRules policy) (dmMetric dimension);
          insufficient' = (insufficient \<or> mrRequired rule \<and> dmDenominator dimension = 0)
      in case dmBPS dimension of
           None \<Rightarrow> (weighted, healthy, insufficient')
         | Some bps \<Rightarrow>
             if mrWeightBPS rule = 0 then (weighted, healthy, insufficient')
             else if mrPolarity rule = PolarityFault
             then (weighted + (BasisPoints - bps) * mrWeightBPS rule, healthy \<and> bps \<le> mrThresholdBPS rule, insufficient')
             else (weighted + bps * mrWeightBPS rule, healthy \<and> bps \<ge> mrThresholdBPS rule, insufficient'))"

definition technicalScore :: "Policy \<Rightarrow> Dimension list \<Rightarrow> bool \<Rightarrow> int option \<times> bool \<times> bool" where
  "technicalScore policy dimensions insufficient =
     (let (weighted, healthy, insufficient') = fold (score_dimension policy) dimensions (0, True, insufficient)
      in if insufficient' then (None, False, True)
         else (Some ((weighted + BasisPoints div 2) div BasisPoints), healthy, False))"

definition research_coverage :: "Policy \<Rightarrow> (Metric, Counters) fmap \<Rightarrow> (Metric, Counters) fmap res" where
  "research_coverage policy aggregates =
     (if poSource policy = SourceXiuqiuResearch
      then foldE (\<lambda>contextMetric a. addCounters MetricCoverage (fmget zeroCounters a contextMetric) a)
             [MetricResearchSource, MetricResearchWatch, MetricResearchInvalidation] aggregates
      else Inr aggregates)"

definition final_status_of ::
  "Policy \<Rightarrow> Report \<Rightarrow> string fset \<Rightarrow> bool \<Rightarrow> int option \<Rightarrow> bool \<Rightarrow> QStatus" where
  "final_status_of policy r hardReasons insufficient score thresholdsHealthy =
     (if hardReasons \<noteq> {||} then StatusQuarantined
      else if rpLicense r \<noteq> LicenseApproved \<and> rpAttemptCount r > 0 then StatusQuarantined
      else case score of
        None \<Rightarrow> StatusInsufficient
      | Some sc \<Rightarrow>
          if insufficient then StatusInsufficient
          else if sc \<ge> poHealthyScoreBPS policy \<and> thresholdsHealthy then StatusHealthy
          else StatusDegraded)"

text \<open>Behind the loops: reasons, references, status and eligibility.\<close>

definition eval_finish ::
  "Policy \<Rightarrow> EvidenceWindow \<Rightarrow> bool \<Rightarrow> string fset \<Rightarrow> bool \<Rightarrow> Report \<Rightarrow> Report" where
  "eval_finish policy window allLive hardReasons insufficient0 r =
     (let (score, thresholdsHealthy, insufficient) = technicalScore policy (rpDimensions r) insufficient0;
          reasons = rpReasons r @
            (if ewSampleCount window = 0 then [''empty_window''] else []) @
            (if insufficient then [''insufficient_evidence''] else []) @
            map (\<lambda>reason. ''hard_fault:'' @ reason) (sorted_list_of_fset hardReasons) @
            (if rpLicense r \<noteq> LicenseApproved then [''license_'' @ License_String (rpLicense r)] else []) @
            (if \<not> allLive then [''not_live''] else []);
          status = final_status_of policy r hardReasons insufficient score thresholdsHealthy;
          public = (status = StatusHealthy \<and> rpLicense r = LicenseApproved \<and> allLive)
      in r\<lparr> rpTechnicalScoreBPS := score, rpGrade := map_option gradeFor score, rpReasons := uniqueSortedStrings reasons,
            rpEvidenceRefs := uniqueRefs (sort_key (\<lambda>ref. (erSourceID ref, erContentHash ref)) (rpEvidenceRefs r)),
            rpStatus := status, rpPublicEligible := public,
            rpResearchContextEligible := (rpSource r = SourceXiuqiuResearch \<and> public) \<rparr>)"

text \<open>\<open>Evaluate\<close>, from its last loop back to its first: the stages are named so that each is evaluated
  on the values of the one before.\<close>

definition eval_report ::
  "Policy \<Rightarrow> EvidenceWindow \<Rightarrow> EvalState \<Rightarrow> CapState \<Rightarrow> Dimension list \<times> string fset \<Rightarrow> Report res" where
  "eval_report policy window s caps dh =
     (let r = (esReport s)\<lparr> rpCapabilities := csReports caps, rpDimensions := fst dh,
                rpAge := (case rpLastSuccessAt (esReport s) of None \<Rightarrow> None
                          | Some t \<Rightarrow> Some (stamp_Sub (ewEnd window) t)) \<rparr>;
          insufficient = (ewSampleCount window < ewMinSamples window \<or> rpAttemptCount r < poMinSamples policy \<or>
                          csInsufficient caps)
      in Inr (eval_finish policy window (esAllLive s) (snd dh) insufficient r))"

definition eval_metrics ::
  "Policy \<Rightarrow> EvidenceWindow \<Rightarrow> EvalState \<Rightarrow> CapState \<Rightarrow> (Metric, Counters) fmap \<Rightarrow> Report res" where
  "eval_metrics policy window s caps aggregates =
     bindE (foldE (eval_metric policy aggregates) allMetrics ([], csHardReasons caps)) (eval_report policy window s caps)"

definition eval_coverage :: "Policy \<Rightarrow> EvidenceWindow \<Rightarrow> EvalState \<Rightarrow> CapState \<Rightarrow> Report res" where
  "eval_coverage policy window s caps =
     (let coverage = \<lparr> ctNumerator = csCovered caps, ctDenominator = int (length (poRequiredCapabilities policy)) \<rparr>
      in bindE (research_coverage policy (fmupd MetricCoverage coverage (esAggregates s))) (eval_metrics policy window s caps))"

definition eval_capabilities :: "Policy \<Rightarrow> EvidenceWindow \<Rightarrow> EvalState \<Rightarrow> Report res" where
  "eval_capabilities policy window s =
     eval_coverage policy window s
       (fold (eval_capability policy window s) (poRequiredCapabilities policy)
          \<lparr> csCovered = 0, csInsufficient = False, csHardReasons = esHardReasons s, csReports = [] \<rparr>)"

definition eval_license :: "EvalState \<Rightarrow> EvalState" where
  "eval_license s =
     (if esLicenseSet s then s
      else s\<lparr> esReport := (esReport s)\<lparr> rpLicense := LicenseUnknown \<rparr>, esAllLive := False \<rparr>)"

definition eval_after :: "Policy \<Rightarrow> EvidenceWindow \<Rightarrow> EvalState \<Rightarrow> Report res" where
  "eval_after policy window s = eval_capabilities policy window (eval_license s)"

definition Evaluate :: "Policy \<Rightarrow> EvidenceWindow \<Rightarrow> Report res" where
  "Evaluate policy window =
     bindE (ValidatePolicy policy) (\<lambda>_.
     bindE (Window_Validate window) (\<lambda>_.
     bindE (foldE (eval_evidence policy) (ewEvidence window) (initial_eval policy window)) (eval_after policy window)))"

section \<open>The gate\<close>

record Gate =
  gtPolicy :: Policy
  gtState :: GateState
  gtQuarantined :: bool
  gtLastWindowEnd :: Stamp
  gtSeenRefs :: "EvidenceRef fset"

definition NewGate :: "Policy \<Rightarrow> Gate res" where
  "NewGate policy =
     bindE (ValidatePolicy policy) (\<lambda>_.
       Inr \<lparr> gtPolicy = policy,
             gtState = \<lparr> gsSource = poSource policy, gsStatus = StatusInsufficient, gsHealthyWindowStreak = 0,
                         gsRecoveryRequired = poRecoveryHealthyWindows policy, gsReasons = [] \<rparr>,
             gtQuarantined = False, gtLastWindowEnd = zeroStamp, gtSeenRefs = {||} \<rparr>)"

definition gate_set :: "QStatus \<Rightarrow> int \<Rightarrow> bool \<Rightarrow> Gate \<Rightarrow> Gate" where
  "gate_set status streak quarantined g =
     g\<lparr> gtState := (gtState g)\<lparr> gsStatus := status, gsHealthyWindowStreak := streak \<rparr>, gtQuarantined := quarantined \<rparr>"

definition gate_reasons :: "string list \<Rightarrow> Gate \<Rightarrow> Gate" where
  "gate_reasons reasons g = g\<lparr> gtState := (gtState g)\<lparr> gsReasons := reasons \<rparr> \<rparr>"

text \<open>The \<open>switch\<close> of \<open>Advance\<close> over the status of the report.\<close>

definition gate_switch :: "Report \<Rightarrow> Gate \<Rightarrow> Gate" where
  "gate_switch report g0 =
     (let g = gate_reasons (rpReasons report) g0; streak = gsHealthyWindowStreak (gtState g) in
      case rpStatus report of
        StatusQuarantined \<Rightarrow> gate_set StatusQuarantined 0 True g
      | StatusHealthy \<Rightarrow>
          if gtQuarantined g
          then if (streak + 1) mod 2 ^ 32 \<ge> poRecoveryHealthyWindows (gtPolicy g)
               then gate_set StatusHealthy (poRecoveryHealthyWindows (gtPolicy g)) False g
               else gate_set StatusRecovering ((streak + 1) mod 2 ^ 32) True g
          else gate_set StatusHealthy 0 False g
      | StatusDegraded \<Rightarrow> gate_set (if gtQuarantined g then StatusQuarantined else StatusDegraded) 0 (gtQuarantined g) g
      | StatusInsufficient \<Rightarrow>
          if gsStatus (gtState g) = StatusRecovering then gate_set StatusQuarantined 0 True g
          else if \<not> gtQuarantined g then gate_set StatusInsufficient 0 False g
          else g
      | _ \<Rightarrow> gate_reasons [''invalid_report_status''] (gate_set StatusQuarantined 0 True g))"

definition Gate_Advance :: "Report \<Rightarrow> Gate \<Rightarrow> Gate" where
  "Gate_Advance report g =
     (if rpSource report \<noteq> poSource (gtPolicy g)
      then gate_reasons [''invalid_report_source''] (gate_set StatusQuarantined 0 True g)
      else if IsZero (ewEnd (rpWindow report)) then gate_switch report g
      else if \<not> IsZero (gtLastWindowEnd g) \<and> tsInstant (ewEnd (rpWindow report)) = tsInstant (gtLastWindowEnd g) then g
      else if \<not> IsZero (gtLastWindowEnd g) \<and> Before (ewEnd (rpWindow report)) (gtLastWindowEnd g)
      then gate_reasons [''non_monotonic_window''] (gate_set StatusQuarantined 0 True g)
      else
        (let hasNew = list_ex (\<lambda>ref. ref |\<notin>| gtSeenRefs g) (rpEvidenceRefs report);
             g1 = g\<lparr> gtLastWindowEnd := ewEnd (rpWindow report), gtSeenRefs := fset_of_list (rpEvidenceRefs report) \<rparr>
         in if rpStatus report = StatusHealthy \<and> \<not> hasNew then gate_reasons [''no_new_evidence''] g1
            else gate_switch report g1))"

section \<open>The monitor\<close>

record Monitor =
  moPolicies :: Policies
  moEvidence :: "(SourceKind, (string, Evidence) fmap) fmap"
  moGates :: "(SourceKind, Gate) fmap"
  moEvaluatedIDs :: "(SourceKind, string fset) fmap"
  moLastAdvanceEnd :: Stamp
  moSnapshot :: "Report list"

definition maxEvidencePerSource :: nat where "maxEvidencePerSource = 4096"

definition NewMonitor :: "Policies \<Rightarrow> bool \<Rightarrow> Monitor res" where
  "NewMonitor policies has_clock =
     bindE (ValidatePolicies policies) (\<lambda>_.
       if \<not> has_clock then Inl (ErrPlain ''quality: nil clock'')
       else
         bindE (foldE (\<lambda>(source, policy) gates. bindE (NewGate policy) (\<lambda>gate. Inr (fmupd source gate gates)))
                  (sorted_list_of_fmap policies) fmempty) (\<lambda>gates.
           Inr \<lparr> moPolicies = policies, moEvidence = fmempty, moGates = gates, moEvaluatedIDs = fmempty,
                 moLastAdvanceEnd = zeroStamp, moSnapshot = [] \<rparr>))"

text \<open>Metrics are compared by the entries of the first map and by the number of entries.\<close>

definition evidenceEqual :: "Evidence \<Rightarrow> Evidence \<Rightarrow> bool" where
  "evidenceEqual a b \<longleftrightarrow>
     qeID a = qeID b \<and> qeSource a = qeSource b \<and> qeCapability a = qeCapability b \<and>
     tsInstant (qeAt a) = tsInstant (qeAt b) \<and> qeOutcome a = qeOutcome b \<and> qeLatency a = qeLatency b \<and>
     qeLicense a = qeLicense b \<and> qeCacheHit a = qeCacheHit b \<and> qeStaleServe a = qeStaleServe b \<and>
     qeNoData a = qeNoData b \<and> qeLive a = qeLive b \<and> qePriority a = qePriority b \<and> qePriorities a = qePriorities b \<and>
     qeRef a = qeRef b \<and> fcard (fmdom (qeMetrics a)) = fcard (fmdom (qeMetrics b)) \<and>
     length (qeHardFaults a) = length (qeHardFaults b) \<and>
     list_all (\<lambda>(metric, counters). fmget zeroCounters (qeMetrics b) metric = counters) (sorted_list_of_fmap (qeMetrics a)) \<and>
     list_all (\<lambda>(x, y). x = y) (zip (qeHardFaults a) (qeHardFaults b))"

definition Monitor_Record :: "Stamp \<Rightarrow> Evidence \<Rightarrow> Monitor \<Rightarrow> Monitor \<times> unit res" where
  "Monitor_Record now evidence m =
     (case ValidateEvidence evidence of
        Inl err \<Rightarrow> (m, Inl err)
      | Inr _ \<Rightarrow>
          (case fmlookup (moPolicies m) (qeSource evidence) of
             None \<Rightarrow> (m, Inl ErrInvalidEvidence)
           | Some policy \<Rightarrow>
               (let source = qeSource evidence;
                    byID = fmget fmempty (moEvidence m) source
                in case fmlookup byID (qeID evidence) of
                     Some existing \<Rightarrow>
                       (m\<lparr> moEvidence := fmupd source byID (moEvidence m) \<rparr>,
                        if \<not> evidenceEqual existing evidence then Inl ErrInvalidEvidence else Inr ())
                   | None \<Rightarrow>
                       (let cutoff = stamp_Add (UTC now) (- poWindowDuration policy);
                            old = (\<lambda>i. Before (qeAt (the (fmlookup byID i))) cutoff);
                            kept = fmfilter (\<lambda>i. \<not> old i) byID;
                            seen = fmget {||} (moEvaluatedIDs m) source;
                            m1 = m\<lparr> moEvidence := fmupd source kept (moEvidence m),
                                   moEvaluatedIDs := (if source |\<in>| fmdom (moEvaluatedIDs m)
                                     then fmupd source (ffilter (\<lambda>i. i |\<notin>| fmdom byID \<or> i |\<in>| fmdom kept) seen) (moEvaluatedIDs m)
                                     else moEvaluatedIDs m) \<rparr>
                        in if fcard (fmdom kept) \<ge> maxEvidencePerSource then (m1, Inl ErrEvidenceLimit)
                           else (m1\<lparr> moEvidence := fmupd source (fmupd (qeID evidence) evidence kept) (moEvidence m1) \<rparr>,
                                 Inr ())))))"

text \<open>One source of \<open>evaluateLocked\<close>.\<close>

definition source_items :: "Stamp \<Rightarrow> Stamp \<Rightarrow> (string, Evidence) fmap \<Rightarrow> Evidence list" where
  "source_items start end byID =
     sort_evidence (filter (\<lambda>e. \<not> Before (qeAt e) start \<and> Before (qeAt e) end) (map snd (sorted_list_of_fmap byID)))"

definition zeroPolicy :: Policy where
  "zeroPolicy = \<lparr> poSource = [], poWindowDuration = 0, poMinSamples = 0, poRequiredCapabilities = [], poCapabilityRules = fmempty,
     poDeclaredCoverageGaps = [], poMetricRules = fmempty, poMaxLatency = 0, poHealthyScoreBPS = 0, poStaleHardFault = False,
     poRecoveryHealthyWindows = 0 \<rparr>"

definition advance_gate :: "SourceKind \<Rightarrow> Policy \<Rightarrow> Evidence list \<Rightarrow> Report \<Rightarrow> Monitor \<Rightarrow> Monitor \<times> Report \<times> GateState" where
  "advance_gate source policy items report m =
     (let seen = fmget {||} (moEvaluatedIDs m) source;
          hasNew = list_ex (\<lambda>item. qeID item |\<notin>| seen \<and> qeOutcome item = OutcomeSuccess \<and> \<not> qeCacheHit item \<and>
                      \<not> qeNoData item \<and> \<not> evidenceHasHardFault item policy) items;
          gate = the (fmlookup (moGates m) source);
          advanced = (hasNew \<or> rpStatus report \<noteq> StatusHealthy);
          gate' = (if advanced then Gate_Advance report gate else gate);
          report' = (if advanced then report
                     else report\<lparr> rpReasons := uniqueSortedStrings (rpReasons report @ [''no_new_evidence'']) \<rparr>)
      in (m\<lparr> moGates := fmupd source gate' (moGates m),
             moEvaluatedIDs := fmupd source (seen |\<union>| fset_of_list (map qeID items)) (moEvaluatedIDs m) \<rparr>,
          report', gtState gate'))"

definition evaluate_source :: "Stamp \<Rightarrow> bool \<Rightarrow> SourceKind \<Rightarrow> Monitor \<times> Report list \<Rightarrow> (Monitor \<times> Report list) \<times> unit res" where
  "evaluate_source end advance source st =
     (let (m, reports) = st;
          policy = fmget zeroPolicy (moPolicies m) source;
          start = stamp_Add end (- poWindowDuration policy);
          items = source_items start end (fmget fmempty (moEvidence m) source)
      in case bindE (NewEvidenceWindow start end (poMinSamples policy) items) (Evaluate policy) of
           Inl err \<Rightarrow> (st, Inl err)
         | Inr report \<Rightarrow>
             (let (m', report1, gateState) =
                    (if advance then advance_gate source policy items report m
                     else (m, report, \<lparr> gsSource = source, gsStatus = rpStatus report, gsHealthyWindowStreak = 0,
                                        gsRecoveryRequired = poRecoveryHealthyWindows policy, gsReasons = [] \<rparr>));
                  report2 = report1\<lparr> rpGate := gateState, rpStatus := gsStatus gateState \<rparr>;
                  report3 = (if rpStatus report2 \<noteq> StatusHealthy
                             then report2\<lparr> rpPublicEligible := False, rpResearchContextEligible := False \<rparr> else report2)
              in ((m', reports @ [report3]), Inr ())))"

text \<open>An error stops the loop; the gates of the sources before it have moved on.\<close>

fun evaluate_sources :: "Stamp \<Rightarrow> bool \<Rightarrow> SourceKind list \<Rightarrow> Monitor \<times> Report list \<Rightarrow> (Monitor \<times> Report list) \<times> unit res" where
  "evaluate_sources end advance [] st = (st, Inr ())"
| "evaluate_sources end advance (source # sources) st =
     (case evaluate_source end advance source st of
        (st', Inl err) \<Rightarrow> (st', Inl err)
      | (st', Inr _) \<Rightarrow> evaluate_sources end advance sources st')"

definition evaluateLocked :: "Stamp \<Rightarrow> bool \<Rightarrow> Monitor \<Rightarrow> Monitor \<times> Report list res" where
  "evaluateLocked end advance m =
     (case evaluate_sources end advance stableSources (m, []) of
        ((m', _), Inl err) \<Rightarrow> (m', Inl err)
      | ((m', reports), Inr _) \<Rightarrow> (m', Inr reports))"

definition Reports :: "Stamp \<Rightarrow> Monitor \<Rightarrow> Report list res" where
  "Reports now m =
     (if \<not> tsUTC now then Inl (ErrPlain ''quality: clock must return UTC'')
      else if moSnapshot m \<noteq> [] then Inr (moSnapshot m)
      else snd (evaluateLocked now False m))"

definition Monitor_Advance :: "Stamp \<Rightarrow> Monitor \<Rightarrow> Monitor \<times> Report list res" where
  "Monitor_Advance end m =
     (if \<not> tsUTC end then (m, Inl ErrInvalidWindow)
      else if \<not> IsZero (moLastAdvanceEnd m) \<and> tsInstant end = tsInstant (moLastAdvanceEnd m) then (m, Inr (moSnapshot m))
      else if \<not> IsZero (moLastAdvanceEnd m) \<and> Before end (moLastAdvanceEnd m) then (m, Inl ErrInvalidWindow)
      else case evaluateLocked end True m of
             (m', Inl err) \<Rightarrow> (m', Inl err)
           | (m', Inr reports) \<Rightarrow> (m'\<lparr> moLastAdvanceEnd := end, moSnapshot := reports \<rparr>, Inr reports))"

end
