(* ===== verification/Quality_Invariant.thy ===== *)
theory Quality_Invariant
  imports QualityEval
begin

text \<open>
  What a quality report promises: the exact ratio in basis points, and what a report that is
  eligible for publication says about the evidence of its window.
\<close>

section \<open>Basis points\<close>

lemma uint_of_uint64: "0 \<le> x \<Longrightarrow> x < 2 ^ 64 \<Longrightarrow> uint (word_of_int x :: 64 word) = x"
  by (simp add: uint_word_of_int take_bit_int_eq_self)

lemma Div64_wide:
  fixes p d :: int
  assumes "0 \<le> p" "p div 2 ^ 64 < d" "0 < d" "d < 2 ^ 64"
  shows "Div64 (word_of_int (p div 2 ^ 64)) (word_of_int p) (word_of_int d) =
    Inr (word_of_int (p div d), word_of_int (p mod d))"
proof -
  have d: "uint (word_of_int d :: 64 word) = d"
    using assms by (intro uint_of_uint64) auto
  have hi: "uint (word_of_int (p div 2 ^ 64) :: 64 word) = p div 2 ^ 64"
    using assms by (intro uint_of_uint64) auto
  have lo: "uint (word_of_int p :: 64 word) = p mod 2 ^ 64"
    by (simp add: uint_word_of_int take_bit_int_def)
  have "(word_of_int d :: 64 word) \<noteq> 0" using d assms by auto
  moreover have "\<not> (word_of_int d :: 64 word) \<le> word_of_int (p div 2 ^ 64)"
    using assms by (simp only: word_le_def d hi not_le)
  ultimately show ?thesis
    by (simp only: Div64_def d hi lo Let_def if_False simp_thms div_mult_mod_eq)
qed

definition counters_ok :: "Counters \<Rightarrow> bool" where
  "counters_ok c \<longleftrightarrow> 0 \<le> ctNumerator c \<and> ctNumerator c \<le> MaxUint64 \<and> 0 \<le> ctDenominator c \<and> ctDenominator c \<le> MaxUint64"

lemma half_up:
  fixes q r d :: int
  assumes "0 < d" "0 \<le> r" "r < d"
  shows "(2 * (q * d + r) + d) div (2 * d) = (if d div 2 + d mod 2 \<le> r then q + 1 else q)"
proof -
  have *: "2 * (q * d + r) + d = (2 * r + d) + q * (2 * d)" by (simp add: algebra_simps)
  have "(2 * r + d) div (2 * d) = (if d \<le> 2 * r then 1 else 0)"
    using assms by (cases "d \<le> 2 * r") (simp_all add: div_pos_geq)
  moreover have "d \<le> 2 * r \<longleftrightarrow> d div 2 + d mod 2 \<le> r" by presburger
  ultimately show ?thesis unfolding * using assms by (subst div_mult_self1) auto
qed

lemma Mul64_remainder:
  assumes "0 \<le> r" "r < 2 ^ 64"
  shows "Mul64 (word_of_int r) (word_of_int BasisPoints) = (word_of_int (r * 10000 div 2 ^ 64), word_of_int (r * 10000))"
proof -
  have "uint (word_of_int r :: 64 word) = r" "uint (word_of_int 10000 :: 64 word) = 10000"
    using assms by (simp_all add: uint_of_uint64)
  then show ?thesis by (simp only: Mul64_def BasisPoints_def Let_def)
qed

lemma BPS_below:
  assumes "0 \<le> n" "n < d" "d \<le> MaxUint64"
  shows "BPS \<lparr> ctNumerator = n, ctDenominator = d \<rparr> = Inr (Some ((20000 * n + d) div (2 * d)))"
    and "(20000 * n + d) div (2 * d) \<le> 10000"
proof -
  have d: "0 < d" "d < 2 ^ 64" "n < 2 ^ 64" using assms by (auto simp: MaxUint64_def)
  define q where "q = n * 10000 div d"
  define r where "r = n * 10000 mod d"
  have qr: "n * 10000 = q * d + r" "0 \<le> r" "r < d" using d by (auto simp: q_def r_def)
  have "0 \<le> q" using assms d by (simp add: q_def pos_imp_zdiv_nonneg_iff)
  have "n * 10000 < d * 10000" using assms by simp
  then have "q < 10000" using d by (simp add: q_def div_less_iff_int mult.commute)
  have hi: "n * 10000 div 2 ^ 64 < d"
  proof -
    have "n * 10000 < d * 2 ^ 64" using assms d by simp
    then show ?thesis by (simp add: div_less_iff_int mult.commute)
  qed
  define q' where "q' = (if d div 2 + d mod 2 \<le> r then q + 1 else q)"
  have q': "0 \<le> q'" "q' \<le> 10000" using \<open>0 \<le> q\<close> \<open>q < 10000\<close> by (auto simp: q'_def)
  have eq: "(20000 * n + d) div (2 * d) = q'"
  proof -
    have "20000 * n + d = 2 * (q * d + r) + d" using qr(1) by simp
    then show ?thesis using half_up [OF d(1) qr(2,3), of q] by (simp only: q'_def)
  qed
  have ur: "uint (word_of_int r :: 64 word) = r" using qr d by (intro uint_of_uint64) auto
  have uq: "uint (word_of_int q' :: 64 word) = q'" using q' by (intro uint_of_uint64) auto
  have fr: "(if d div 2 + d mod 2 \<le> r then word_of_int q + 1 else word_of_int q :: 64 word) = word_of_int q'"
    by (simp add: q'_def)
  have "n div d = 0" "n mod d = n" using assms by auto
  moreover have "Div64 (word_of_int (n * 10000 div 2 ^ 64)) (word_of_int (n * 10000)) (word_of_int d) =
      Inr (word_of_int q, word_of_int r)"
    using Div64_wide [of "n * 10000" d] hi assms d by (simp add: q_def r_def)
  ultimately show "BPS \<lparr> ctNumerator = n, ctDenominator = d \<rparr> = Inr (Some ((20000 * n + d) div (2 * d)))"
    using assms d q' Mul64_remainder [of n] by (simp add: BPS_def Let_def ur fr uq eq)
  show "(20000 * n + d) div (2 * d) \<le> 10000" using eq q' by simp
qed

lemma full_bps: "0 < d \<Longrightarrow> (20000 * d + d) div (2 * d) = (10000 :: int)"
  by (rule int_div_pos_eq [where r = d]) auto

lemma BPS_full:
  assumes "0 < d" "d \<le> MaxUint64"
  shows "BPS \<lparr> ctNumerator = d, ctDenominator = d \<rparr> = Inr (Some 10000)"
proof -
  have d: "d < 2 ^ 64" using assms by (auto simp: MaxUint64_def)
  have ud: "uint (word_of_int d :: 64 word) = d" using assms d by (intro uint_of_uint64) auto
  have "Div64 (word_of_int (0 div 2 ^ 64)) (word_of_int 0) (word_of_int d) = Inr (word_of_int (0 div d), word_of_int (0 mod d))"
    using assms d by (intro Div64_wide) auto
  moreover have "\<not> d div 2 + d mod 2 \<le> 0" using assms by presburger
  moreover have "uint (word_of_int 10000 :: 64 word) = 10000" by (intro uint_of_uint64) auto
  ultimately show ?thesis
    using assms Mul64_remainder [of 0] by (simp add: BPS_def Let_def BasisPoints_def)
qed

lemma BPS_exact:
  assumes "counters_ok c"
  shows "BPS c = Inr (if ctDenominator c = 0 \<or> ctNumerator c > ctDenominator c then None
      else Some ((20000 * ctNumerator c + ctDenominator c) div (2 * ctDenominator c)))"
proof (cases c)
  case (fields n d)
  consider "d = 0 \<or> n > d" | "n < d" | "n = d" "0 < d" using assms fields by (fastforce simp: counters_ok_def)
  then show ?thesis
  proof cases
    case 1
    then show ?thesis using fields by (auto simp: BPS_def)
  next
    case 2
    then show ?thesis using assms fields BPS_below(1) [of n d] by (simp add: counters_ok_def)
  next
    case 3
    then show ?thesis using assms fields BPS_full [of d] full_bps [of d] by (simp add: counters_ok_def)
  qed
qed

lemma BPS_range:
  assumes "counters_ok c" "BPS c = Inr (Some b)"
  shows "0 \<le> b \<and> b \<le> 10000"
proof (cases c)
  case (fields n d)
  from assms BPS_exact [OF assms(1)] fields have b: "b = (20000 * n + d) div (2 * d)" "0 < d" "n \<le> d" "0 \<le> n" "d \<le> MaxUint64"
    by (auto simp: counters_ok_def split: if_splits)
  then have "0 \<le> b" by (simp add: pos_imp_zdiv_nonneg_iff)
  moreover have "b \<le> 10000"
  proof (cases "n < d")
    case True
    with b BPS_below(2) show ?thesis by blast
  next
    case False
    with b have "n = d" by simp
    with b full_bps [of d] show ?thesis by simp
  qed
  ultimately show ?thesis by simp
qed


section \<open>The loop over the evidence\<close>

definition report_isolated :: "Report \<Rightarrow> bool" where
  "report_isolated r \<longleftrightarrow> \<not> rpTradeEligible r \<and> \<not> rpReferenceEligible r \<and> \<not> rpMatcherEligible r \<and> \<not> rpLedgerEligible r"

definition valid_sample :: "Policy \<Rightarrow> Capability \<Rightarrow> Evidence \<Rightarrow> bool" where
  "valid_sample policy c e \<longleftrightarrow> qeCapability e = c \<and> qeOutcome e = OutcomeSuccess \<and> \<not> qeCacheHit e \<and> \<not> qeNoData e \<and>
     \<not> evidenceHasHardFault e policy"

text \<open>The evaluation counts the attempts: unsupported evidence is skipped, and a cache hit counts only
  with the flag that it served stale data and with the faults it lists.\<close>

definition attempted :: "Evidence \<Rightarrow> bool" where
  "attempted e \<longleftrightarrow> qeOutcome e \<noteq> OutcomeUnsupported \<and> \<not> qeCacheHit e"

text \<open>
  The outcome of a piece of evidence is a hard fault by itself (\<open>evidenceHasHardFault\<close>), but the
  evaluation only sees it in the counter that it derives from the outcome. It derives none when the
  evidence supplies a counter of that metric itself, and a stale outcome is no reason under a
  policy for which stale data is not a hard fault.
\<close>

definition silenced :: "Policy \<Rightarrow> Evidence \<Rightarrow> bool" where
  "silenced policy e \<longleftrightarrow>
     qeOutcome e = OutcomeBadPayload \<and> MetricSchema |\<in>| fmdom (qeMetrics e) \<or>
     qeOutcome e = OutcomeStale \<and> (MetricStale |\<in>| fmdom (qeMetrics e) \<or> \<not> poStaleHardFault policy)"

definition evidence_fault :: "Policy \<Rightarrow> Evidence \<Rightarrow> bool" where
  "evidence_fault policy e \<longleftrightarrow> qeOutcome e \<noteq> OutcomeUnsupported \<and>
     (qeStaleServe e \<or> qeHardFaults e \<noteq> [] \<or> attempted e \<and> evidenceHasHardFault e policy \<and> \<not> silenced policy e)"

text \<open>The counters of a piece of evidence are values of \<open>uint64\<close>.\<close>

definition counters_in_range :: "Evidence \<Rightarrow> bool" where
  "counters_in_range e \<longleftrightarrow> (\<forall>metric c. fmlookup (qeMetrics e) metric = Some c \<longrightarrow> counters_ok c)"

lemma eval_evidence_cases:
  assumes "eval_evidence policy e s = Inr t"
  obtains (unsupported) u where "ValidateEvidence e = Inr ()" "qeOutcome e = OutcomeUnsupported"
      "t = (eval_common e s)\<lparr> esReport := (esReport (eval_common e s))\<lparr> rpReasons := u \<rparr> \<rparr>"
    | (hit) "ValidateEvidence e = Inr ()" "qeOutcome e \<noteq> OutcomeUnsupported" "qeCacheHit e"
      "eval_cache_hit e (eval_common e s) = Inr t"
    | (attempt) "ValidateEvidence e = Inr ()" "qeOutcome e \<noteq> OutcomeUnsupported" "\<not> qeCacheHit e"
      "eval_attempt policy e (eval_common e s) = Inr t"
proof -
  have v: "ValidateEvidence e = Inr ()" using assms by (cases "ValidateEvidence e") (auto simp: eval_evidence_def)
  show ?thesis
  proof (cases "qeOutcome e = OutcomeUnsupported")
    case True
    show ?thesis
    proof (cases "containsCapability (poDeclaredCoverageGaps policy) (qeCapability e)")
      case c: True
      then show ?thesis
        using assms v True unsupported [of "rpReasons (esReport (eval_common e s))"]
        by (simp add: eval_evidence_def Let_def split: if_splits)
    next
      case False
      then show ?thesis
        using assms v True unsupported
          [of "rpReasons (esReport (eval_common e s)) @ [''unexpected_unsupported:'' @ qeCapability e]"]
        by (simp add: eval_evidence_def Let_def split: if_splits)
    qed
  next
    case False
    then show ?thesis using assms v hit attempt
      by (cases "qeCacheHit e") (simp_all add: eval_evidence_def Let_def split: if_splits)
  qed
qed

lemma eval_cache_hit_Inr:
  assumes "eval_cache_hit e s = Inr t"
  obtains r a a0 where
    "addCounters MetricCacheHit \<lparr> ctNumerator = 1, ctDenominator = 1 \<rparr> (esAggregates s) = Inr a0"
    "if qeStaleServe e then addCounters MetricStaleServe \<lparr> ctNumerator = 1, ctDenominator = 1 \<rparr> a0 = Inr a else a = a0"
    "t = s\<lparr> esReport := r, esAggregates := a,
       esHardReasons := (if qeStaleServe e then finsert HardFaultStaleServe (esHardReasons s) else esHardReasons s)
                          |\<union>| fset_of_list (qeHardFaults e) \<rparr>"
    "r = (esReport s)\<lparr> rpCacheHitCount := rpCacheHitCount r, rpStaleServeCount := rpStaleServeCount r \<rparr>"
  using assms by (fastforce simp: eval_cache_hit_def bindE_eq_Inr split: if_splits)

lemma eval_attempt_Inr:
  assumes "eval_attempt policy e s = Inr t"
  obtains r a1 a where
    "addDerived e policy (esAggregates s) = Inr a1"
    "foldE (\<lambda>(metric, counters). addCounters metric counters) (sorted_list_of_fmap (qeMetrics e)) a1 = Inr a"
    "t = s\<lparr> esReport := r, esAggregates := a,
       esCapabilities := (case fmlookup (esCapabilities s) (qeCapability e) of
                   None \<Rightarrow> esCapabilities s
                 | Some c \<Rightarrow> fmupd (qeCapability e) (attempt_capability policy e c) (esCapabilities s)),
       esHardReasons := (if qeStaleServe e then finsert HardFaultStaleServe (esHardReasons s) else esHardReasons s)
                          |\<union>| fset_of_list (qeHardFaults e),
       esCapabilityHard := (if evidenceHasHardFault e policy then finsert (qeCapability e) (esCapabilityHard s)
                            else esCapabilityHard s) \<rparr>"
    "r = (attempt_report e (esReport s))\<lparr> rpPriorityCounts := rpPriorityCounts r \<rparr>"
proof -
  from assms obtain a1 a pr where *: "addDerived e policy (esAggregates s) = Inr a1"
    "foldE (\<lambda>(metric, counters). addCounters metric counters) (sorted_list_of_fmap (qeMetrics e)) a1 = Inr a"
    "addPriorityCounts (evidence_priorities e) (rpPriorityCounts (esReport s)) = Inr pr"
    by (auto simp: eval_attempt_def bindE_eq_Inr)
  show ?thesis
    using assms * that [of a1 a "(attempt_report e (esReport s))\<lparr> rpPriorityCounts := pr \<rparr>"]
    by (simp add: eval_attempt_def)
qed


section \<open>License, liveness and isolation\<close>

definition flags_inv :: "Evidence list \<Rightarrow> EvalState \<Rightarrow> bool" where
  "flags_inv es s \<longleftrightarrow> (esLicenseSet s \<longleftrightarrow> es \<noteq> []) \<and>
     (\<forall>e \<in> set es. licenseRank (qeLicense e) \<le> licenseRank (rpLicense (esReport s))) \<and>
     (esAllLive s \<longleftrightarrow> (\<forall>e \<in> set es. qeLive e)) \<and> report_isolated (esReport s) \<and> rpStatus (esReport s) = StatusOther []"

lemma flags_common:
  assumes "flags_inv es s"
  shows "flags_inv (es @ [e]) (eval_common e s)"
  using assms by (auto simp: flags_inv_def eval_common_def Let_def report_isolated_def intro: order_trans)

lemma flags_same:
  assumes "flags_inv es s" "rpLicense (esReport t) = rpLicense (esReport s)" "esLicenseSet t = esLicenseSet s"
    "esAllLive t = esAllLive s" "report_isolated (esReport t) = report_isolated (esReport s)"
    "rpStatus (esReport t) = rpStatus (esReport s)"
  shows "flags_inv es t"
  using assms by (simp add: flags_inv_def)

lemma flags_step:
  assumes "flags_inv es s" "eval_evidence policy e s = Inr t"
  shows "flags_inv (es @ [e]) t"
  using assms(2)
proof (cases rule: eval_evidence_cases)
  case (unsupported u)
  then show ?thesis by (intro flags_same [OF flags_common [OF assms(1)]]) (auto simp: report_isolated_def)
next
  case hit
  from hit(4) show ?thesis
  proof (rule eval_cache_hit_Inr, goal_cases)
    case (1 r a a0)
    have "rpLicense r = rpLicense (esReport (eval_common e s))" "report_isolated r = report_isolated (esReport (eval_common e s))"
      "rpStatus r = rpStatus (esReport (eval_common e s))"
      by (subst 1(4), simp add: report_isolated_def)+
    then show ?thesis unfolding 1(3) by (intro flags_same [OF flags_common [OF assms(1)]]) simp_all
  qed
next
  case attempt
  from attempt(4) show ?thesis
  proof (rule eval_attempt_Inr, goal_cases)
    case (1 r a1 a)
    have "rpLicense r = rpLicense (esReport (eval_common e s))" "report_isolated r = report_isolated (esReport (eval_common e s))"
      "rpStatus r = rpStatus (esReport (eval_common e s))"
      by (subst 1(4), simp add: report_isolated_def attempt_report_def Let_def)+
    then show ?thesis unfolding 1(3) by (intro flags_same [OF flags_common [OF assms(1)]]) simp_all
  qed
qed


section \<open>Counters of capabilities\<close>

definition success_at :: "Capability \<Rightarrow> Evidence \<Rightarrow> bool" where
  "success_at c e \<longleftrightarrow> qeCapability e = c \<and> qeOutcome e = OutcomeSuccess \<and> \<not> qeCacheHit e"

definition cap_counts :: "Policy \<Rightarrow> Capability \<Rightarrow> Evidence list \<Rightarrow> CapabilityReport \<Rightarrow> bool" where
  "cap_counts policy c es r \<longleftrightarrow>
     cpMinSamples r = crMinSamples (fmget zeroCapabilityRule (poCapabilityRules policy) c) \<and>
     cpMaxAge r = crMaxAge (fmget zeroCapabilityRule (poCapabilityRules policy) c) \<and>
     cpValidSampleCount r = int (length (filter (valid_sample policy c) es)) \<and>
     (\<forall>t. cpLastSuccessAt r = Some t \<longrightarrow> (\<exists>e \<in> set es. success_at c e \<and> t = qeAt e))"

definition caps_inv :: "Policy \<Rightarrow> Evidence list \<Rightarrow> EvalState \<Rightarrow> bool" where
  "caps_inv policy es s \<longleftrightarrow>
     (\<forall>c \<in> set (poRequiredCapabilities policy). \<exists>r. fmlookup (esCapabilities s) c = Some r \<and> cap_counts policy c es r) \<and>
     (\<forall>c. c |\<in>| esCapabilityHard s \<longrightarrow>
        (\<exists>e \<in> set es. attempted e \<and> qeCapability e = c \<and> evidenceHasHardFault e policy))"

lemma fold_fmupd_lookup:
  "fmlookup (fold (\<lambda>x m. fmupd x (f x) m) xs m) y = (if y \<in> set xs then Some (f y) else fmlookup m y)"
  by (induction xs arbitrary: m) auto

lemma caps_initial: "caps_inv policy [] (initial_eval policy window)"
  by (simp add: caps_inv_def initial_eval_def fold_fmupd_lookup cap_counts_def initial_capability_def Let_def)

lemma cap_counts_other:
  assumes "cap_counts policy c es r" "\<not> valid_sample policy c e"
  shows "cap_counts policy c (es @ [e]) r"
  using assms by (auto simp: cap_counts_def)

lemma cap_counts_attempt:
  assumes "cap_counts policy c es r" "qeCapability e = c" "\<not> qeCacheHit e"
  shows "cap_counts policy c (es @ [e]) (attempt_capability policy e r)"
  using assms
  by (auto simp: cap_counts_def attempt_capability_def valid_sample_def success_at_def setLatest_def Let_def split: option.splits if_splits)

lemma caps_other:
  assumes "caps_inv policy es s" "qeOutcome e = OutcomeUnsupported \<or> qeCacheHit e"
    "esCapabilities t = esCapabilities s" "esCapabilityHard t = esCapabilityHard s"
  shows "caps_inv policy (es @ [e]) t"
proof -
  have "\<not> valid_sample policy c e" for c using assms(2) by (auto simp: valid_sample_def)
  then show ?thesis using assms(1,3,4) cap_counts_other by (fastforce simp: caps_inv_def)
qed

lemma eval_common_caps [simp]:
  "esCapabilities (eval_common e s) = esCapabilities s" "esCapabilityHard (eval_common e s) = esCapabilityHard s"
  "esAggregates (eval_common e s) = esAggregates s" "esHardReasons (eval_common e s) = esHardReasons s"
  by (simp_all add: eval_common_def Let_def)

lemma caps_step:
  assumes "caps_inv policy es s" "eval_evidence policy e s = Inr t"
  shows "caps_inv policy (es @ [e]) t"
  using assms(2)
proof (cases rule: eval_evidence_cases)
  case (unsupported u)
  then show ?thesis using caps_other [OF assms(1)] by simp
next
  case hit
  from hit(4) show ?thesis
    by (rule eval_cache_hit_Inr) (use hit caps_other [OF assms(1)] in simp)
next
  case attempt
  from attempt(4) show ?thesis
  proof (rule eval_attempt_Inr, goal_cases)
    case (1 r a1 a)
    have "\<exists>r. fmlookup (esCapabilities t) c = Some r \<and> cap_counts policy c (es @ [e]) r"
      if c: "c \<in> set (poRequiredCapabilities policy)" for c
    proof -
      from assms(1) c obtain r where r: "fmlookup (esCapabilities s) c = Some r" "cap_counts policy c es r"
        by (auto simp: caps_inv_def)
      show ?thesis
      proof (cases "qeCapability e = c")
        case True
        then show ?thesis using r cap_counts_attempt [OF r(2) True attempt(3)] by (simp add: 1(3))
      next
        case False
        then have "\<not> valid_sample policy c e" by (simp add: valid_sample_def)
        then show ?thesis using False r cap_counts_other [OF r(2)] by (simp add: 1(3) split: option.splits)
      qed
    qed
    moreover have "attempted e" using attempt(2,3) by (simp add: attempted_def)
    ultimately show ?thesis using assms(1) by (auto simp: caps_inv_def 1(3))
  qed
qed


section \<open>Hard faults\<close>

definition counters_le :: "Counters \<Rightarrow> bool" where
  "counters_le c \<longleftrightarrow> 0 \<le> ctNumerator c \<and> ctNumerator c \<le> ctDenominator c"

definition aggregates_ok :: "(Metric, Counters) fmap \<Rightarrow> bool" where
  "aggregates_ok a \<longleftrightarrow> (\<forall>metric. counters_le (fmget zeroCounters a metric))"

definition aggregates_bad :: "Policy \<Rightarrow> (Metric, Counters) fmap \<Rightarrow> bool" where
  "aggregates_bad policy a \<longleftrightarrow> (\<exists>metric. metricHardFaultReason metric (fmget zeroCounters a metric) policy \<noteq> None)"

definition grows :: "Policy \<Rightarrow> (Metric, Counters) fmap \<Rightarrow> (Metric, Counters) fmap \<Rightarrow> bool" where
  "grows policy a b \<longleftrightarrow> (aggregates_ok a \<longrightarrow> aggregates_ok b \<and> (aggregates_bad policy a \<longrightarrow> aggregates_bad policy b))"

lemma grows_refl [simp]: "grows policy a a"
  by (simp add: grows_def)

lemma grows_trans [trans]: "grows policy a b \<Longrightarrow> grows policy b c \<Longrightarrow> grows policy a c"
  by (simp add: grows_def)

lemma reason_sum:
  assumes "counters_le c" "counters_le v"
    "metricHardFaultReason metric c policy \<noteq> None \<or> metricHardFaultReason metric v policy \<noteq> None"
  shows "metricHardFaultReason metric \<lparr> ctNumerator = ctNumerator c + ctNumerator v,
           ctDenominator = ctDenominator c + ctDenominator v \<rparr> policy \<noteq> None"
  using assms by (auto simp: metricHardFaultReason_def counters_le_def split: if_splits)

lemma addCounters_get:
  assumes "addCounters metric v a = Inr b"
  shows "fmget zeroCounters b m = (if m = metric
    then \<lparr> ctNumerator = ctNumerator (fmget zeroCounters a m) + ctNumerator v,
           ctDenominator = ctDenominator (fmget zeroCounters a m) + ctDenominator v \<rparr>
    else fmget zeroCounters a m)"
  using assms by (auto simp: addCounters_def Let_def fmget_def split: if_splits)

lemma addCounters_ok:
  assumes "addCounters metric v a = Inr b" "aggregates_ok a" "counters_le v"
  shows "aggregates_ok b"
  using assms(2,3) by (auto simp: aggregates_ok_def addCounters_get [OF assms(1)] counters_le_def add_mono)

lemma addCounters_grows:
  assumes "addCounters metric v a = Inr b" "counters_le v"
  shows "grows policy a b"
proof -
  have "aggregates_bad policy b" if "aggregates_ok a" "aggregates_bad policy a"
  proof -
    from that(2) obtain m where m: "metricHardFaultReason m (fmget zeroCounters a m) policy \<noteq> None"
      by (auto simp: aggregates_bad_def)
    have "metricHardFaultReason m (fmget zeroCounters b m) policy \<noteq> None"
      using m reason_sum [OF _ assms(2), of "fmget zeroCounters a m" m policy] that(1)
      by (auto simp: addCounters_get [OF assms(1)] aggregates_ok_def)
    then show ?thesis by (auto simp: aggregates_bad_def)
  qed
  then show ?thesis using addCounters_ok [OF assms(1) _ assms(2)] by (simp add: grows_def)
qed

lemma addCounters_bad:
  assumes "addCounters metric v a = Inr b" "aggregates_ok a" "counters_le v" "metricHardFaultReason metric v policy \<noteq> None"
  shows "aggregates_bad policy b"
proof -
  have "metricHardFaultReason metric (fmget zeroCounters b metric) policy \<noteq> None"
    using assms(2,4) reason_sum [OF _ assms(3), of "fmget zeroCounters a metric" metric policy]
    by (simp add: addCounters_get [OF assms(1)] aggregates_ok_def)
  then show ?thesis by (auto simp: aggregates_bad_def)
qed

lemma counters_le_units [simp]:
  "counters_le (boolCounter b)" "counters_le \<lparr> ctNumerator = 0, ctDenominator = 1 \<rparr>" "counters_le \<lparr> ctNumerator = 1, ctDenominator = 1 \<rparr>"
  by (simp_all add: counters_le_def boolCounter_def)

lemma addIfAbsent_grows: "addIfAbsent supplied metric v a = Inr b \<Longrightarrow> counters_le v \<Longrightarrow> grows policy a b"
  by (auto simp: addIfAbsent_def intro: addCounters_grows split: if_splits)

lemma if_addIfAbsent_grows:
  "(if cond then addIfAbsent supplied metric v a else Inr a) = Inr b \<Longrightarrow> counters_le v \<Longrightarrow> grows policy a b"
  by (auto intro: addIfAbsent_grows split: if_splits)

text \<open>The contribution of an outcome: a payload that cannot be read shows in the counter of the schema
  and stale data in that of staleness, unless the evidence carries this counter itself.\<close>

definition outcome_fault :: "Policy \<Rightarrow> Evidence \<Rightarrow> bool" where
  "outcome_fault policy e \<longleftrightarrow>
     qeOutcome e = OutcomeBadPayload \<and> MetricSchema |\<notin>| fmdom (qeMetrics e) \<or>
     qeOutcome e = OutcomeStale \<and> MetricStale |\<notin>| fmdom (qeMetrics e) \<and> poStaleHardFault policy"

lemma addDerived_grows:
  assumes "addDerived e policy dst = Inr a" "aggregates_ok dst"
  shows "grows policy dst a" "outcome_fault policy e \<Longrightarrow> aggregates_bad policy a"
proof -
  let ?add = "\<lambda>cond metric value d. if cond then addIfAbsent (qeMetrics e) metric value d else Inr d"
  from assms(1) obtain d1 d2 d3 d4 d5 d6 d7 d8 d9 d10 where
    early: "?add (qeOutcome e \<noteq> OutcomeUnsupported) MetricAvailability (boolCounter (qeOutcome e = OutcomeSuccess)) dst = Inr d1"
      "?add (qeOutcome e \<noteq> OutcomeUnsupported) MetricRateLimit (boolCounter (qeOutcome e = OutcomeRateLimit)) d1 = Inr d2"
      "?add (qeOutcome e \<noteq> OutcomeUnsupported) MetricUpstream5xx (boolCounter (qeOutcome e = OutcomeUpstream5xx)) d2 = Inr d3"
      "?add (qeOutcome e \<noteq> OutcomeUnsupported) MetricTimeout (boolCounter (qeOutcome e = OutcomeTimeout)) d3 = Inr d4"
      "?add (qeOutcome e = OutcomeSuccess) MetricLatency (boolCounter (qeLatency e \<le> poMaxLatency policy)) d4 = Inr d5"
      "?add (qeOutcome e = OutcomeSuccess) MetricCacheHit (boolCounter (qeCacheHit e)) d5 = Inr d6"
      "?add (qeOutcome e = OutcomeSuccess) MetricStaleServe (boolCounter (qeStaleServe e)) d6 = Inr d7"
    and schema: "?add (qeOutcome e = OutcomeSuccess \<or> qeOutcome e = OutcomeBadPayload) MetricSchema
        (boolCounter (qeOutcome e = OutcomeSuccess)) d7 = Inr d8"
    and late: "?add (qeOutcome e = OutcomeSuccess) MetricConsistency (boolCounter (\<not> evidenceHasConsistencyFault e)) d8 = Inr d9"
      "?add (qeOutcome e = OutcomeStale) MetricFreshness \<lparr> ctNumerator = 0, ctDenominator = 1 \<rparr> d9 = Inr d10"
    and stale: "?add (qeOutcome e = OutcomeStale) MetricStale \<lparr> ctNumerator = 1, ctDenominator = 1 \<rparr> d10 = Inr a"
    unfolding addDerived_def Let_def bindE_eq_Inr by blast
  note g = if_addIfAbsent_grows [where policy = policy]
  have early': "grows policy dst d7"
    using g [OF early(1)] g [OF early(2)] g [OF early(3)] g [OF early(4)] g [OF early(5)] g [OF early(6)] g [OF early(7)]
    by (meson counters_le_units(1) grows_trans)
  have late': "grows policy d8 d10" using g [OF late(1)] g [OF late(2)] by (meson counters_le_units grows_trans)
  have s': "grows policy d7 d8" and st': "grows policy d10 a" using g [OF schema] g [OF stale] by simp_all
  show "grows policy dst a" using early' s' late' st' by (meson grows_trans)
  assume "outcome_fault policy e"
  then consider "qeOutcome e = OutcomeBadPayload" "MetricSchema |\<notin>| fmdom (qeMetrics e)"
    | "qeOutcome e = OutcomeStale" "MetricStale |\<notin>| fmdom (qeMetrics e)" "poStaleHardFault policy"
    by (auto simp: outcome_fault_def)
  then show "aggregates_bad policy a"
  proof cases
    case 1
    then have "addCounters MetricSchema (boolCounter False) d7 = Inr d8" using schema by (simp add: addIfAbsent_def)
    moreover have ok7: "aggregates_ok d7" using early' assms(2) by (simp add: grows_def)
    ultimately have "aggregates_bad policy d8"
      by (rule addCounters_bad) (auto simp: metricHardFaultReason_def boolCounter_def counters_le_def)
    then show ?thesis using s' late' st' ok7 by (simp add: grows_def)
  next
    case 2
    then have "addCounters MetricStale \<lparr> ctNumerator = 1, ctDenominator = 1 \<rparr> d10 = Inr a" using stale by (simp add: addIfAbsent_def)
    moreover have "aggregates_ok d10" using early' s' late' assms(2) by (simp add: grows_def)
    ultimately show ?thesis
      by (rule addCounters_bad) (use 2 in \<open>auto simp: metricHardFaultReason_def counters_le_def\<close>)
  qed
qed


lemma metrics_grow:
  assumes "foldE (\<lambda>(metric, counters). addCounters metric counters) ms a = Inr b"
    and "\<forall>(metric, c) \<in> set ms. counters_le c" "aggregates_ok a"
  shows "grows policy a b \<and> ((\<exists>(metric, c) \<in> set ms. metricHardFaultReason metric c policy \<noteq> None) \<longrightarrow> aggregates_bad policy b)"
  using assms
proof (induction ms arbitrary: a)
  case Nil
  then show ?case by simp
next
  case (Cons x ms)
  obtain metric c where x: "x = (metric, c)" by (cases x)
  from Cons.prems(1) obtain d where d: "addCounters metric c a = Inr d"
    "foldE (\<lambda>(metric, counters). addCounters metric counters) ms d = Inr b"
    by (auto simp: x bindE_eq_Inr)
  have le: "counters_le c" "\<forall>(metric, c) \<in> set ms. counters_le c" using Cons.prems(2) by (auto simp: x)
  have ok: "aggregates_ok d" by (rule addCounters_ok [OF d(1) Cons.prems(3) le(1)])
  note IH = Cons.IH [OF d(2) le(2) ok]
  have "aggregates_bad policy b" if "metricHardFaultReason metric c policy \<noteq> None"
    using IH ok addCounters_bad [OF d(1) Cons.prems(3) le(1) that] by (simp add: grows_def)
  moreover have "grows policy a b" using addCounters_grows [OF d(1) le(1), of policy] IH by (blast intro: grows_trans)
  ultimately show ?case using IH by (auto simp: x)
qed

definition hard_inv :: "Policy \<Rightarrow> Evidence list \<Rightarrow> EvalState \<Rightarrow> bool" where
  "hard_inv policy es s \<longleftrightarrow> aggregates_ok (esAggregates s) \<and>
     ((\<exists>e \<in> set es. evidence_fault policy e) \<longrightarrow> esHardReasons s \<noteq> {||} \<or> aggregates_bad policy (esAggregates s))"

lemma hard_invI:
  assumes "hard_inv policy es s" "grows policy (esAggregates s) (esAggregates t)" "esHardReasons s |\<subseteq>| esHardReasons t"
    "evidence_fault policy e \<Longrightarrow> esHardReasons t \<noteq> {||} \<or> aggregates_bad policy (esAggregates t)"
  shows "hard_inv policy (es @ [e]) t"
  using assms by (auto simp: hard_inv_def grows_def)

lemma ValidateEvidence_metrics:
  assumes "ValidateEvidence e = Inr ()" "counters_in_range e"
  shows "\<forall>(metric, c) \<in> set (sorted_list_of_fmap (qeMetrics e)). counters_le c"
proof -
  have "list_all (\<lambda>(metric, counter). validMetric metric \<and> ctNumerator counter \<le> ctDenominator counter)
      (sorted_list_of_fmap (qeMetrics e))"
    using assms(1) by (simp add: ValidateEvidence_def Let_def split: if_splits)
  moreover have "0 \<le> ctNumerator c" if "(metric, c) \<in> set (sorted_list_of_fmap (qeMetrics e))" for metric c
    using that assms(2) unfolding counters_in_range_def counters_ok_def sorted_list_of_fmap_props by blast
  ultimately show ?thesis by (auto simp: list_all_iff counters_le_def)
qed

lemma fault_reasons:
  assumes "evidenceHasHardFault e policy" "\<not> silenced policy e"
  obtains (served) "qeStaleServe e" | (listed) "qeHardFaults e \<noteq> []" | (outcome) "outcome_fault policy e"
    | (metric) "\<exists>(metric, c) \<in> set (sorted_list_of_fmap (qeMetrics e)). metricHardFaultReason metric c policy \<noteq> None"
  using assms unfolding evidenceHasHardFault_def silenced_def outcome_fault_def list_ex_iff by blast

lemma hard_step:
  assumes inv: "hard_inv policy es s" and step: "eval_evidence policy e s = Inr t"
    and ok: "counters_in_range e"
  shows "hard_inv policy (es @ [e]) t"
  using step
proof (cases rule: eval_evidence_cases)
  case (unsupported u)
  then show ?thesis using inv by (auto simp: hard_inv_def evidence_fault_def)
next
  case hit
  from hit(4) show ?thesis
  proof (rule eval_cache_hit_Inr, goal_cases)
    case (1 r a a0)
    have "grows policy (esAggregates s) a0" using 1(1) by (auto intro: addCounters_grows)
    moreover have "grows policy a0 a" using 1(2) by (auto intro: addCounters_grows split: if_splits)
    ultimately have "grows policy (esAggregates s) a" by (rule grows_trans)
    then show ?thesis using hit by (intro hard_invI [OF inv]) (auto simp: 1(3) evidence_fault_def attempted_def)
  qed
next
  case attempt
  note le = ValidateEvidence_metrics [OF attempt(1) ok]
  from attempt(4) show ?thesis
  proof (rule eval_attempt_Inr, goal_cases)
    case (1 r a1 a)
    have oks: "aggregates_ok (esAggregates s)" using inv by (simp add: hard_inv_def)
    note d = addDerived_grows [OF 1(1) [simplified] oks]
    have ok1: "aggregates_ok a1" using d(1) oks by (simp add: grows_def)
    note m = metrics_grow [OF 1(2) le ok1, of policy]
    have "esHardReasons t \<noteq> {||} \<or> aggregates_bad policy a" if fault: "evidence_fault policy e"
    proof -
      consider "qeStaleServe e" | "qeHardFaults e \<noteq> []" | "evidenceHasHardFault e policy" "\<not> silenced policy e"
        using fault unfolding evidence_fault_def by blast
      then show ?thesis
      proof cases
        case 3
        then show ?thesis
        proof (cases rule: fault_reasons)
          case outcome
          then show ?thesis using d(2) m ok1 by (simp add: grows_def)
        next
          case metric
          then show ?thesis using m by blast
        qed (auto simp: 1(3))
      qed (auto simp: 1(3))
    qed
    moreover have "grows policy (esAggregates s) a" using d(1) m by (blast intro: grows_trans)
    ultimately show ?thesis by (intro hard_invI [OF inv]) (auto simp: 1(3))
  qed
qed


section \<open>Behind the loop over the evidence\<close>

definition cap_fine :: "Policy \<Rightarrow> EvidenceWindow \<Rightarrow> EvalState \<Rightarrow> Capability \<Rightarrow> bool" where
  "cap_fine policy window s c \<longleftrightarrow>
     (let r = fmget (initial_capability policy c) (esCapabilities s) c
      in cpMinSamples r \<le> cpValidSampleCount r \<and>
         (\<exists>t. cpLastSuccessAt r = Some t \<and> 0 \<le> stamp_Sub (ewEnd window) t \<and>
            (poStaleHardFault policy \<longrightarrow> stamp_Sub (ewEnd window) t \<le> cpMaxAge r)))"

lemma eval_capability_mono:
  "csInsufficient st \<Longrightarrow> csInsufficient (eval_capability policy window s c st)"
  "csHardReasons st |\<subseteq>| csHardReasons (eval_capability policy window s c st)"
  by (auto simp: eval_capability_def Let_def split: option.splits)

lemma eval_capability_fine:
  assumes "c |\<notin>| esCapabilityHard s"
  shows "csInsufficient (eval_capability policy window s c st) \<or>
    csHardReasons (eval_capability policy window s c st) \<noteq> {||} \<or> cap_fine policy window s c"
  using assms
  by (cases "cpLastSuccessAt (fmget (initial_capability policy c) (esCapabilities s) c)")
     (auto simp: eval_capability_def cap_fine_def Let_def)

lemma eval_capabilities_mono:
  "csInsufficient st \<Longrightarrow> csInsufficient (fold (eval_capability policy window s) cs st)"
  "csHardReasons st |\<subseteq>| csHardReasons (fold (eval_capability policy window s) cs st)"
proof (induction cs arbitrary: st)
  case (Cons c cs)
  { case 1 then show ?case using Cons.IH(1) [OF eval_capability_mono(1)] by simp }
  { case 2 show ?case using Cons.IH(2) [of "eval_capability policy window s c st"] eval_capability_mono(2) [of st policy window s c]
      by auto }
qed simp_all

lemma eval_capabilities_fine:
  assumes "\<not> csInsufficient (fold (eval_capability policy window s) cs st)"
    "csHardReasons (fold (eval_capability policy window s) cs st) = {||}"
    "c \<in> set cs" "c |\<notin>| esCapabilityHard s"
  shows "cap_fine policy window s c"
  using assms(1-3)
proof (induction cs arbitrary: st)
  case (Cons x cs)
  let ?st = "eval_capability policy window s x st"
  show ?case
  proof (cases "c = x")
    case True
    have "\<not> csInsufficient ?st" using Cons.prems(1) eval_capabilities_mono(1) by auto
    moreover have "csHardReasons ?st = {||}"
      using Cons.prems(2) eval_capabilities_mono(2) [of ?st policy window s cs] by auto
    ultimately show ?thesis using eval_capability_fine [OF assms(4)] True by blast
  next
    case False
    then show ?thesis using Cons.prems by (intro Cons.IH [of ?st]) auto
  qed
qed simp

lemma reason_metrics:
  assumes "metricHardFaultReason metric c policy \<noteq> None"
  shows "metric \<in> set allMetrics" "metric \<noteq> MetricCoverage"
  using assms by (auto simp: metricHardFaultReason_def allMetrics_def split: if_splits)

lemma eval_metric_Inr:
  assumes "eval_metric policy aggregates metric st = Inr st'"
  shows "snd st |\<subseteq>| snd st'"
    "metricHardFaultReason metric (fmget zeroCounters aggregates metric) policy \<noteq> None \<Longrightarrow> snd st' \<noteq> {||}"
  using assms by (auto simp: eval_metric_def Let_def bindE_eq_Inr split: prod.splits option.splits)

lemma eval_metrics_reasons:
  assumes "foldE (eval_metric policy aggregates) ms st = Inr st'"
  shows "snd st |\<subseteq>| snd st' \<and>
    ((\<exists>m \<in> set ms. metricHardFaultReason m (fmget zeroCounters aggregates m) policy \<noteq> None) \<longrightarrow> snd st' \<noteq> {||})"
  using assms
proof (induction ms arbitrary: st)
  case (Cons m ms)
  then obtain u where u: "eval_metric policy aggregates m st = Inr u" "foldE (eval_metric policy aggregates) ms u = Inr st'"
    by (auto simp: bindE_eq_Inr)
  show ?case using Cons.IH [OF u(2)] eval_metric_Inr [OF u(1)] by auto
qed simp

lemma research_coverage_get:
  assumes "research_coverage policy a = Inr b" "m \<noteq> MetricCoverage"
  shows "fmget zeroCounters b m = fmget zeroCounters a m"
proof (cases "poSource policy = SourceXiuqiuResearch")
  case True
  show ?thesis
    using assms(1) unfolding research_coverage_def if_P [OF True]
  proof (rule foldE_invariant [where P = "\<lambda>x. fmget zeroCounters x m = fmget zeroCounters a m"])
    fix metric u t
    assume "fmget zeroCounters u m = fmget zeroCounters a m" "addCounters MetricCoverage (fmget zeroCounters u metric) u = Inr t"
    then show "fmget zeroCounters t m = fmget zeroCounters a m"
      using addCounters_get [of MetricCoverage "fmget zeroCounters u metric" u t m] assms(2) by simp
  qed simp
next
  case False
  then show ?thesis using assms(1) by (simp add: research_coverage_def)
qed

lemma bad_aggregates_reasons:
  assumes "aggregates_bad policy a" "research_coverage policy (fmupd MetricCoverage cov a) = Inr b"
    "foldE (eval_metric policy b) allMetrics st = Inr st'"
  shows "snd st' \<noteq> {||}"
proof -
  from assms(1) obtain m where m: "metricHardFaultReason m (fmget zeroCounters a m) policy \<noteq> None"
    by (auto simp: aggregates_bad_def)
  note rm = reason_metrics [OF m]
  have "fmget zeroCounters b m = fmget zeroCounters a m"
    using research_coverage_get [OF assms(2) rm(2)] rm(2) by (simp add: fmget_def)
  with m have "metricHardFaultReason m (fmget zeroCounters b m) policy \<noteq> None" by simp
  with rm(1) eval_metrics_reasons [OF assms(3)] show ?thesis by blast
qed

lemma eval_finish_public:
  assumes "rpPublicEligible (eval_finish policy window allLive hard insufficient r)"
  shows "hard = {||}" "rpLicense r = LicenseApproved" "allLive" "\<not> insufficient"
    "rpStatus (eval_finish policy window allLive hard insufficient r) = StatusHealthy"
proof -
  obtain score healthy ins where t: "technicalScore policy (rpDimensions r) insufficient = (score, healthy, ins)"
    by (cases "technicalScore policy (rpDimensions r) insufficient") auto
  have h: "final_status_of policy r hard ins score healthy = StatusHealthy" "rpLicense r = LicenseApproved" "allLive"
    "rpStatus (eval_finish policy window allLive hard insufficient r) = StatusHealthy"
    using assms t by (auto simp: eval_finish_def Let_def)
  then show "rpLicense r = LicenseApproved" "allLive"
    "rpStatus (eval_finish policy window allLive hard insufficient r) = StatusHealthy" by simp_all
  show "hard = {||}" using h(1) by (auto simp: final_status_of_def split: if_splits)
  have "snd (snd (fold (score_dimension policy) ds (w, ok, True)))" for ds w ok
    by (induction ds arbitrary: w ok) (auto simp: score_dimension_def Let_def split: option.splits)
  then have "ins" if insufficient
    using t that by (auto simp: technicalScore_def split: prod.splits if_splits) (metis snd_conv)
  moreover have "\<not> ins" using h(1) by (auto simp: final_status_of_def split: if_splits option.splits)
  ultimately show "\<not> insufficient" by blast
qed


text \<open>What \<open>Evaluate\<close> returned, in the terms of its loops.\<close>

definition capability_loop :: "Policy \<Rightarrow> EvidenceWindow \<Rightarrow> EvalState \<Rightarrow> CapState" where
  "capability_loop policy window s = fold (eval_capability policy window s) (poRequiredCapabilities policy)
     \<lparr> csCovered = 0, csInsufficient = False, csHardReasons = esHardReasons s, csReports = [] \<rparr>"

lemma Evaluate_Inr:
  assumes "Evaluate policy window = Inr r"
  obtains s0 s caps aggregates dims hard r1 where
    "ValidatePolicy policy = Inr ()" "Window_Validate window = Inr ()"
    "foldE (eval_evidence policy) (ewEvidence window) (initial_eval policy window) = Inr s0"
    "s = eval_license s0"
    "caps = fold (eval_capability policy window s) (poRequiredCapabilities policy)
              \<lparr> csCovered = 0, csInsufficient = False, csHardReasons = esHardReasons s, csReports = [] \<rparr>"
    "research_coverage policy (fmupd MetricCoverage \<lparr> ctNumerator = csCovered caps,
       ctDenominator = int (length (poRequiredCapabilities policy)) \<rparr> (esAggregates s)) = Inr aggregates"
    "foldE (eval_metric policy aggregates) allMetrics ([], csHardReasons caps) = Inr (dims, hard)"
    "r1 = (esReport s)\<lparr> rpCapabilities := csReports caps, rpDimensions := dims,
            rpAge := (case rpLastSuccessAt (esReport s) of None \<Rightarrow> None | Some t \<Rightarrow> Some (stamp_Sub (ewEnd window) t)) \<rparr>"
    "r = eval_finish policy window (esAllLive s) hard
           (ewSampleCount window < ewMinSamples window \<or> rpAttemptCount r1 < poMinSamples policy \<or> csInsufficient caps) r1"
proof -
  from assms obtain s0 where "ValidatePolicy policy = Inr ()" "Window_Validate window = Inr ()"
    "foldE (eval_evidence policy) (ewEvidence window) (initial_eval policy window) = Inr s0"
    and after: "eval_capabilities policy window (eval_license s0) = Inr r"
    by (auto simp: Evaluate_def bindE_eq_Inr eval_after_def)
  moreover from after obtain aggregates dh where
    "research_coverage policy (fmupd MetricCoverage \<lparr> ctNumerator = csCovered (capability_loop policy window (eval_license s0)),
       ctDenominator = int (length (poRequiredCapabilities policy)) \<rparr> (esAggregates (eval_license s0))) = Inr aggregates"
    "foldE (eval_metric policy aggregates) allMetrics ([], csHardReasons (capability_loop policy window (eval_license s0))) = Inr dh"
    "eval_report policy window (eval_license s0) (capability_loop policy window (eval_license s0)) dh = Inr r"
    by (auto simp: eval_capabilities_def eval_coverage_def eval_metrics_def capability_loop_def Let_def bindE_eq_Inr)
  ultimately show ?thesis
    using that [of s0 "eval_license s0" "capability_loop policy window (eval_license s0)" aggregates "fst dh" "snd dh"]
    by (simp add: eval_report_def Let_def capability_loop_def)
qed

lemma eval_finish_keeps [simp]:
  "report_isolated (eval_finish policy window allLive hard insufficient r) = report_isolated r"
  by (simp add: eval_finish_def Let_def report_isolated_def split: prod.splits)

lemma flags_initial: "flags_inv [] (initial_eval policy window)"
  by (simp add: flags_inv_def initial_eval_def initial_report_def report_isolated_def)

lemma hard_initial: "hard_inv policy [] (initial_eval policy window)"
  by (simp add: hard_inv_def initial_eval_def aggregates_ok_def fmget_def counters_le_def zeroCounters_def)

lemma Evaluate_flags:
  assumes "foldE (eval_evidence policy) (ewEvidence window) (initial_eval policy window) = Inr s0"
  shows "flags_inv (ewEvidence window) s0"
  using assms by (rule foldE_prefix) (rule flags_initial, erule (1) flags_step)

lemma Evaluate_isolated: "Evaluate policy window = Inr r \<Longrightarrow> report_isolated r"
proof (erule Evaluate_Inr, goal_cases)
  case (1 s0 s caps aggregates dims hard r1)
  have "report_isolated (esReport s0)" using Evaluate_flags [OF 1(3)] by (simp add: flags_inv_def)
  then have "report_isolated r1" by (simp add: 1(4,8) report_isolated_def eval_license_def)
  then show ?case by (simp add: 1(9))
qed

lemma Evaluate_public:
  assumes ev: "Evaluate policy window = Inr r" and public: "rpPublicEligible r"
    and ok: "\<forall>e \<in> set (ewEvidence window). counters_in_range e"
  shows "rpStatus r = StatusHealthy \<and> ewEvidence window \<noteq> [] \<and>
    (\<forall>e \<in> set (ewEvidence window). qeLicense e = LicenseApproved \<and> qeLive e \<and>
       (qeOutcome e \<noteq> OutcomeUnsupported \<longrightarrow> \<not> qeStaleServe e \<and> qeHardFaults e = []) \<and>
       (attempted e \<and> evidenceHasHardFault e policy \<longrightarrow> silenced policy e)) \<and>
    (\<forall>c \<in> set (poRequiredCapabilities policy).
       let rule = fmget zeroCapabilityRule (poCapabilityRules policy) c in
       (\<exists>e \<in> set (ewEvidence window). attempted e \<and> qeCapability e = c \<and> silenced policy e) \<or>
       crMinSamples rule \<le> int (length (filter (valid_sample policy c) (ewEvidence window))) \<and>
       (\<exists>e \<in> set (ewEvidence window). success_at c e \<and> 0 \<le> stamp_Sub (ewEnd window) (qeAt e) \<and>
          (poStaleHardFault policy \<longrightarrow> stamp_Sub (ewEnd window) (qeAt e) \<le> crMaxAge rule)))"
  using ev
proof (rule Evaluate_Inr, goal_cases)
  case (1 s0 s caps aggregates dims hard r1)
  note fin = eval_finish_public [OF public [unfolded 1(9)]]
  note flags = Evaluate_flags [OF 1(3)]
  have hardI: "hard_inv policy (ewEvidence window) s0"
    using 1(3) by (rule foldE_prefix) (use ok hard_initial hard_step in blast)+
  have capsI: "caps_inv policy (ewEvidence window) s0"
    using 1(3) by (rule foldE_prefix) (rule caps_initial, erule (1) caps_step)
  have set: "esLicenseSet s0" using fin(3) 1(4) by (auto simp: eval_license_def split: if_splits)
  then have s: "s = s0" using 1(4) by (simp add: eval_license_def)
  have lic: "rpLicense (esReport s0) = LicenseApproved" using fin(2) by (simp add: 1(8) s)
  have hd: "csHardReasons caps = {||}" "\<not> aggregates_bad policy (esAggregates s0)"
    using eval_metrics_reasons [OF 1(7)] fin(1) bad_aggregates_reasons [OF _ 1(6,7)] by (auto simp: s)
  have "esHardReasons s0 = {||}"
    using hd(1) eval_capabilities_mono(2) [of "\<lparr> csCovered = 0, csInsufficient = False, csHardReasons = esHardReasons s,
      csReports = [] \<rparr>" policy window s "poRequiredCapabilities policy"] unfolding 1(5) by (simp add: s)
  then have nofault: "\<forall>e \<in> set (ewEvidence window). \<not> evidence_fault policy e"
    using hardI hd(2) by (auto simp: hard_inv_def)
  then have quiet: "silenced policy e" if "e \<in> set (ewEvidence window)" "attempted e" "evidenceHasHardFault e policy" for e
    using that by (auto simp: evidence_fault_def attempted_def)
  have "let rule = fmget zeroCapabilityRule (poCapabilityRules policy) c in
       (\<exists>e \<in> set (ewEvidence window). attempted e \<and> qeCapability e = c \<and> silenced policy e) \<or>
       crMinSamples rule \<le> int (length (filter (valid_sample policy c) (ewEvidence window))) \<and>
       (\<exists>e \<in> set (ewEvidence window). success_at c e \<and> 0 \<le> stamp_Sub (ewEnd window) (qeAt e) \<and>
          (poStaleHardFault policy \<longrightarrow> stamp_Sub (ewEnd window) (qeAt e) \<le> crMaxAge rule))"
    if c: "c \<in> set (poRequiredCapabilities policy)" for c
  proof (cases "c |\<in>| esCapabilityHard s")
    case True
    then obtain e where "e \<in> set (ewEvidence window)" "attempted e" "qeCapability e = c" "evidenceHasHardFault e policy"
      using capsI unfolding caps_inv_def s by blast
    with quiet show ?thesis unfolding Let_def by blast
  next
    case False
    then have "cap_fine policy window s c"
      using eval_capabilities_fine [OF _ _ c] hd(1) fin(4) unfolding 1(5) by blast
    then show ?thesis using capsI c by (fastforce simp: caps_inv_def cap_fine_def cap_counts_def s fmget_def Let_def)
  qed
  moreover have "qeLicense e = LicenseApproved" if "e \<in> set (ewEvidence window)" for e
    using flags that lic by (cases "qeLicense e") (auto simp: flags_inv_def licenseRank_def)
  moreover have "\<not> qeStaleServe e \<and> qeHardFaults e = []" if "e \<in> set (ewEvidence window)" "qeOutcome e \<noteq> OutcomeUnsupported" for e
    using nofault that by (auto simp: evidence_fault_def)
  ultimately show ?case using fin(3,5) flags set quiet by (auto simp: flags_inv_def s 1(9))
qed

section \<open>Properties\<close>

text \<open>The three policies of the package are its own; here the one for derivatives, with one observation
  of each of its capabilities.\<close>

definition demo_policy :: Policy where
  "demo_policy = the (fmlookup DefaultPolicies SourceCoinGlassDerivative)"

definition demo_evidence :: "string \<Rightarrow> Capability \<Rightarrow> int \<Rightarrow> Evidence" where
  "demo_evidence i c at =
     \<lparr> qeID = i, qeSource = SourceCoinGlassDerivative, qeCapability = c, qeAt = \<lparr> tsInstant = at, tsUTC = True \<rparr>,
       qeOutcome = OutcomeSuccess, qeLatency = 100, qeLicense = LicenseApproved,
       qeMetrics = fmap_of_list [(MetricFreshness, \<lparr> ctNumerator = 1, ctDenominator = 1 \<rparr>),
                                 (MetricCompleteness, \<lparr> ctNumerator = 3, ctDenominator = 3 \<rparr>)],
       qeHardFaults = [], qeCacheHit = False, qeStaleServe = False, qeNoData = False, qeLive = True,
       qePriority = PriorityNone, qePriorities = \<lparr> pcP0 = 0, pcP1 = 0, pcP2 = 0 \<rparr>,
       qeRef = \<lparr> erSourceID = i, erContentHash = [] \<rparr> \<rparr>"

definition demo_window :: EvidenceWindow where
  "demo_window = \<lparr> ewStart = \<lparr> tsInstant = second, tsUTC = True \<rparr>, ewEnd = \<lparr> tsInstant = 18001 * second, tsUTC = True \<rparr>,
     ewDuration = 18000 * second, ewSampleCount = 2, ewMinSamples = 2,
     ewEvidence = [demo_evidence ''oi1'' CapabilityOpenInterest (100 * second),
                   demo_evidence ''liq1'' CapabilityLiquidation (200 * second)] \<rparr>"

lemma demo_public: "case Evaluate demo_policy demo_window of Inl _ \<Rightarrow> False | Inr r \<Rightarrow> rpPublicEligible r"
  by code_simp

lemma demo_evidence_range: "counters_in_range (demo_evidence i c at)"
  by (auto simp: counters_in_range_def demo_evidence_def fmlookup_of_list counters_ok_def MaxUint64_def split: if_splits)

lemma bps_twice: "2 * BasisPoints * x = 20000 * x"
  by (simp add: BasisPoints_def)

text \<open>C35 The ratio of two \<open>uint64\<close> counters in basis points never panics. It is absent exactly when
  the denominator is zero or below the numerator; otherwise it is ten thousand times the ratio,
  rounded half up, and so between 0 and 10000, although the product does not fit 64 bits.\<close>

theorem bps_exact:
  assumes "counters_ok c"
  shows "BPS c = Inr (if ctDenominator c = 0 \<or> ctNumerator c > ctDenominator c then None
           else Some ((2 * BasisPoints * ctNumerator c + ctDenominator c) div (2 * ctDenominator c))) \<and>
    (\<forall>b. BPS c = Inr (Some b) \<longrightarrow> 0 \<le> b \<and> b \<le> BasisPoints)"
  by (intro conjI allI impI BPS_range [OF assms, folded BasisPoints_def] BPS_exact [OF assms, folded bps_twice])

theorem bps_exact_witness:
  "counters_ok \<lparr> ctNumerator = 12297829382473034410, ctDenominator = 18446744073709551615 \<rparr> \<and>
   BPS \<lparr> ctNumerator = 12297829382473034410, ctDenominator = 18446744073709551615 \<rparr> = Inr (Some 6667)"
  using bps_exact [of "\<lparr> ctNumerator = 12297829382473034410, ctDenominator = 18446744073709551615 \<rparr>"]
  by (simp add: counters_ok_def MaxUint64_def BasisPoints_def)

text \<open>C21 A report that is eligible for publication is backed by its window. The window is not empty and
  all its evidence is licensed and live. Evidence that is not skipped as unsupported neither served
  stale data nor lists a fault, and an attempt that the code itself counts as a hard fault
  (\<open>evidenceHasHardFault\<close>) is there only when its outcome is silenced: a bad payload with a schema
  counter of its own, or a stale outcome with a stale counter of its own or under a policy for
  which stale is no hard fault. Every required capability has such a silenced attempt, or it has
  the required number of valid samples and a success that is not from the future and, where
  stale data is a hard fault, no older than its rule allows. The counters of the evidence are in
  the range of \<open>uint64\<close>.\<close>

theorem public_report_backed:
  assumes "Evaluate policy window = Inr r" "rpPublicEligible r" "\<forall>e \<in> set (ewEvidence window). counters_in_range e"
  shows "rpStatus r = StatusHealthy \<and> ewEvidence window \<noteq> [] \<and>
    (\<forall>e \<in> set (ewEvidence window). qeLicense e = LicenseApproved \<and> qeLive e \<and>
       (qeOutcome e \<noteq> OutcomeUnsupported \<longrightarrow> \<not> qeStaleServe e \<and> qeHardFaults e = []) \<and>
       (attempted e \<and> evidenceHasHardFault e policy \<longrightarrow> silenced policy e)) \<and>
    (\<forall>c \<in> set (poRequiredCapabilities policy).
       let rule = fmget zeroCapabilityRule (poCapabilityRules policy) c in
       (\<exists>e \<in> set (ewEvidence window). attempted e \<and> qeCapability e = c \<and> silenced policy e) \<or>
       crMinSamples rule \<le> int (length (filter (valid_sample policy c) (ewEvidence window))) \<and>
       (\<exists>e \<in> set (ewEvidence window). success_at c e \<and> 0 \<le> stamp_Sub (ewEnd window) (qeAt e) \<and>
          (poStaleHardFault policy \<longrightarrow> stamp_Sub (ewEnd window) (qeAt e) \<le> crMaxAge rule)))"
  by (rule Evaluate_public [OF assms])

theorem public_report_backed_witness:
  "\<exists>r. Evaluate demo_policy demo_window = Inr r \<and> rpPublicEligible r \<and> rpStatus r = StatusHealthy"
proof -
  obtain r where r: "Evaluate demo_policy demo_window = Inr r" "rpPublicEligible r"
    using demo_public by (auto split: sum.splits)
  moreover have "\<forall>e \<in> set (ewEvidence demo_window). counters_in_range e" by (simp add: demo_window_def demo_evidence_range)
  ultimately show ?thesis using public_report_backed [of demo_policy demo_window r] by blast
qed

end
