(* ===== verification/Quality_Monitor.thy ===== *)
theory Quality_Monitor
  imports Quality_Invariant
begin

text \<open>
  The gate and the monitor of \<open>marketdata/quality\<close>: quarantine and recovery over the reports of
  successive windows, and what the monitor keeps over any sequence of calls.
\<close>

section \<open>The gate\<close>

text \<open>A fold of a step function keeps what every step keeps.\<close>

locale kept_by_steps =
  fixes step :: "'a \<Rightarrow> 's \<Rightarrow> 's" and keeps :: "'s \<Rightarrow> bool"
  assumes step_keeps: "keeps s \<Longrightarrow> keeps (step x s)"
begin

lemma fold_keeps: "keeps s \<Longrightarrow> keeps (fold step xs s)"
  by (induction xs arbitrary: s) (auto intro: step_keeps)

end

text \<open>A gate in quarantine is either shut or recovering with fewer healthy windows than its policy asks
  for; outside quarantine it shows the status of the last report.\<close>

definition gate_ok :: "Gate \<Rightarrow> bool" where
  "gate_ok g \<longleftrightarrow>
     0 < poRecoveryHealthyWindows (gtPolicy g) \<and> poRecoveryHealthyWindows (gtPolicy g) \<le> 100 \<and>
     gsSource (gtState g) = poSource (gtPolicy g) \<and> gsRecoveryRequired (gtState g) = poRecoveryHealthyWindows (gtPolicy g) \<and>
     (if gtQuarantined g
      then gsStatus (gtState g) = StatusQuarantined \<and> gsHealthyWindowStreak (gtState g) = 0 \<or>
           gsStatus (gtState g) = StatusRecovering \<and> 0 < gsHealthyWindowStreak (gtState g) \<and>
           gsHealthyWindowStreak (gtState g) < poRecoveryHealthyWindows (gtPolicy g)
      else (gsStatus (gtState g) = StatusInsufficient \<or> gsStatus (gtState g) = StatusHealthy \<or> gsStatus (gtState g) = StatusDegraded) \<and>
           (gsHealthyWindowStreak (gtState g) = 0 \<or> gsHealthyWindowStreak (gtState g) = poRecoveryHealthyWindows (gtPolicy g)))"

lemma ValidatePolicy_windows:
  assumes "ValidatePolicy p = Inr u"
  shows "0 \<noteq> poRecoveryHealthyWindows p" "poRecoveryHealthyWindows p \<le> 100" "poHealthyScoreBPS p \<le> BasisPoints"
    "0 < poWindowDuration p"
  using assms by (auto simp: ValidatePolicy_def split: if_splits)

lemma NewGate_ok: "NewGate policy = Inr g \<Longrightarrow> 0 \<le> poRecoveryHealthyWindows policy \<Longrightarrow> gate_ok g \<and> gtPolicy g = policy"
  using ValidatePolicy_windows [of policy] by (fastforce simp: NewGate_def gate_ok_def bindE_eq_Inr)

lemmas gate_simps = gate_switch_def gate_set_def gate_reasons_def Let_def

lemma streak_wrap:
  assumes "gate_ok g" "gtQuarantined g"
  shows "(gsHealthyWindowStreak (gtState g) + 1) mod 2 ^ 32 = gsHealthyWindowStreak (gtState g) + 1"
  using assms by (auto simp: gate_ok_def)

lemma gate_switch_ok:
  assumes "gate_ok g"
  shows "gate_ok (gate_switch report g)"
proof (cases "rpStatus report = StatusHealthy \<and> gtQuarantined g")
  case True
  define k where "k = (gsHealthyWindowStreak (gtState g) + 1) mod 2 ^ 32"
  have k: "k = gsHealthyWindowStreak (gtState g) + 1" using streak_wrap [OF assms] True by (simp add: k_def)
  then have "0 < k" using assms True by (auto simp: gate_ok_def)
  moreover have "gate_switch report g =
    (if poRecoveryHealthyWindows (gtPolicy g) \<le> k
     then gate_set StatusHealthy (poRecoveryHealthyWindows (gtPolicy g)) False (gate_reasons (rpReasons report) g)
     else gate_set StatusRecovering k True (gate_reasons (rpReasons report) g))"
    using True by (simp add: gate_simps k_def)
  ultimately show ?thesis using assms by (simp add: gate_ok_def gate_set_def gate_reasons_def)
next
  case False
  then show ?thesis using assms
    by (cases "rpStatus report") (simp_all add: gate_simps gate_ok_def, auto split: if_splits)
qed

lemma gate_set_frame [simp]:
  "gtLastWindowEnd (gate_set st k q g) = gtLastWindowEnd g" "gtSeenRefs (gate_set st k q g) = gtSeenRefs g"
  "gtPolicy (gate_set st k q g) = gtPolicy g" "gtLastWindowEnd (gate_reasons rs g) = gtLastWindowEnd g"
  "gtSeenRefs (gate_reasons rs g) = gtSeenRefs g" "gtPolicy (gate_reasons rs g) = gtPolicy g"
  by (simp_all add: gate_set_def gate_reasons_def)

lemma gate_switch_frame [simp]:
  "gtLastWindowEnd (gate_switch r g) = gtLastWindowEnd g" "gtSeenRefs (gate_switch r g) = gtSeenRefs g"
  "gtPolicy (gate_switch r g) = gtPolicy g"
  by (cases "rpStatus r", simp_all add: gate_switch_def Let_def)+

lemma Gate_Advance_policy [simp]: "gtPolicy (Gate_Advance report g) = gtPolicy g"
  by (simp add: Gate_Advance_def Let_def)

lemma Gate_Advance_ok: "gate_ok g \<Longrightarrow> gate_ok (Gate_Advance report g)"
proof -
  assume g: "gate_ok g"
  have shut: "gate_ok (gate_reasons rs (gate_set StatusQuarantined 0 True g))" for rs
    using g by (simp add: gate_ok_def gate_set_def gate_reasons_def)
  have same: "gate_ok (g\<lparr> gtLastWindowEnd := t, gtSeenRefs := refs \<rparr>)" for t refs using g by (simp add: gate_ok_def)
  have "gate_ok (gate_reasons rs (g\<lparr> gtLastWindowEnd := t, gtSeenRefs := refs \<rparr>))" for rs t refs
    using g by (simp add: gate_ok_def gate_reasons_def)
  then show ?thesis using shut same g by (simp add: Gate_Advance_def gate_switch_ok Let_def)
qed

interpretation gate: kept_by_steps Gate_Advance gate_ok
  by unfold_locales (rule Gate_Advance_ok)

lemma fold_policy [simp]: "gtPolicy (fold Gate_Advance rs g) = gtPolicy g"
  by (induction rs arbitrary: g) auto

text \<open>Reports of successive windows of the source of the gate.\<close>

fun successive :: "SourceKind \<Rightarrow> Stamp \<Rightarrow> Report list \<Rightarrow> bool" where
  "successive source prev [] = True"
| "successive source prev (r # rs) \<longleftrightarrow> rpSource r = source \<and> \<not> IsZero (ewEnd (rpWindow r)) \<and>
     Before prev (ewEnd (rpWindow r)) \<and> successive source (ewEnd (rpWindow r)) rs"

lemma Gate_Advance_next:
  assumes "successive (poSource (gtPolicy g)) (gtLastWindowEnd g) (r # rs)"
  shows "Gate_Advance r g =
    (let g1 = g\<lparr> gtLastWindowEnd := ewEnd (rpWindow r), gtSeenRefs := fset_of_list (rpEvidenceRefs r) \<rparr>
     in if rpStatus r = StatusHealthy \<and> \<not> list_ex (\<lambda>ref. ref |\<notin>| gtSeenRefs g) (rpEvidenceRefs r)
        then gate_reasons [''no_new_evidence''] g1 else gate_switch r g1)"
  using assms by (simp add: Gate_Advance_def Before_def Let_def)

lemma Gate_Advance_next_end:
  assumes "successive (poSource (gtPolicy g)) (gtLastWindowEnd g) (r # rs)"
  shows "gtLastWindowEnd (Gate_Advance r g) = ewEnd (rpWindow r)" "gtSeenRefs (Gate_Advance r g) = fset_of_list (rpEvidenceRefs r)"
  by (simp_all add: Gate_Advance_next [OF assms] gate_reasons_def Let_def)

lemma quarantine_step:
  assumes ok: "gate_ok g" and q: "gtQuarantined g" and nx: "successive (poSource (gtPolicy g)) (gtLastWindowEnd g) (r # rs)"
  shows "rpStatus r \<noteq> StatusHealthy \<Longrightarrow> gtQuarantined (Gate_Advance r g) \<and> gsHealthyWindowStreak (gtState (Gate_Advance r g)) = 0"
    "gtQuarantined (Gate_Advance r g) \<Longrightarrow>
       gsHealthyWindowStreak (gtState (Gate_Advance r g)) \<le> gsHealthyWindowStreak (gtState g) + 1"
    "\<not> gtQuarantined (Gate_Advance r g) \<Longrightarrow>
       rpStatus r = StatusHealthy \<and> poRecoveryHealthyWindows (gtPolicy g) \<le> gsHealthyWindowStreak (gtState g) + 1"
proof -
  note * = streak_wrap [OF ok q]
  show "rpStatus r \<noteq> StatusHealthy \<Longrightarrow> gtQuarantined (Gate_Advance r g) \<and> gsHealthyWindowStreak (gtState (Gate_Advance r g)) = 0"
    using ok q by (cases "rpStatus r") (auto simp: Gate_Advance_next [OF nx] gate_simps gate_ok_def)
  show "gtQuarantined (Gate_Advance r g) \<Longrightarrow>
       gsHealthyWindowStreak (gtState (Gate_Advance r g)) \<le> gsHealthyWindowStreak (gtState g) + 1"
    using q * by (cases "rpStatus r") (auto simp: Gate_Advance_next [OF nx] gate_simps split: if_splits)
  show "\<not> gtQuarantined (Gate_Advance r g) \<Longrightarrow>
       rpStatus r = StatusHealthy \<and> poRecoveryHealthyWindows (gtPolicy g) \<le> gsHealthyWindowStreak (gtState g) + 1"
    using q * by (cases "rpStatus r") (auto simp: Gate_Advance_next [OF nx] gate_simps split: if_splits)
qed

lemma recovery_streak:
  assumes "gate_ok g" "gtQuarantined g" "successive (poSource (gtPolicy g)) (gtLastWindowEnd g) rs"
    "\<not> gtQuarantined (fold Gate_Advance rs g)"
  shows "\<exists>a b c. rs = a @ b @ c \<and> (\<forall>r \<in> set b. rpStatus r = StatusHealthy) \<and>
    poRecoveryHealthyWindows (gtPolicy g) \<le> int (length b) + (if a = [] then gsHealthyWindowStreak (gtState g) else 0)"
  using assms
proof (induction rs arbitrary: g)
  case Nil
  then show ?case by simp
next
  case (Cons r rs)
  let ?g = "Gate_Advance r g"
  note step = quarantine_step [OF Cons.prems(1,2,3)]
  show ?case
  proof (cases "gtQuarantined ?g")
    case False
    with step(3) have "rpStatus r = StatusHealthy" "poRecoveryHealthyWindows (gtPolicy g) \<le> 1 + gsHealthyWindowStreak (gtState g)"
      by auto
    then show ?thesis by (intro exI [of _ "[]"] exI [of _ "[r]"] exI [of _ rs]) auto
  next
    case True
    have "\<exists>a b c. rs = a @ b @ c \<and> (\<forall>r \<in> set b. rpStatus r = StatusHealthy) \<and>
      poRecoveryHealthyWindows (gtPolicy ?g) \<le> int (length b) + (if a = [] then gsHealthyWindowStreak (gtState ?g) else 0)"
      using Cons.prems True Gate_Advance_next_end(1) [OF Cons.prems(3)] by (intro Cons.IH Gate_Advance_ok) auto
    then obtain a b c where abc: "rs = a @ b @ c" "\<forall>r \<in> set b. rpStatus r = StatusHealthy"
      "poRecoveryHealthyWindows (gtPolicy g) \<le> int (length b) + (if a = [] then gsHealthyWindowStreak (gtState ?g) else 0)"
      by auto
    consider "a \<noteq> []" | "a = []" "rpStatus r = StatusHealthy" | "a = []" "rpStatus r \<noteq> StatusHealthy" by blast
    then show ?thesis
    proof cases
      case 1
      then show ?thesis using abc by (intro exI [of _ "r # a"] exI [of _ b] exI [of _ c]) auto
    next
      case 2
      then show ?thesis using abc step(2) [OF True] by (intro exI [of _ "[]"] exI [of _ "r # b"] exI [of _ c]) auto
    next
      case 3
      then show ?thesis using abc step(1) by (intro exI [of _ "[r]"] exI [of _ b] exI [of _ c]) auto
    qed
  qed
qed

text \<open>Healthy reports that each bring a reference the report before did not have.\<close>

fun renewed :: "EvidenceRef fset \<Rightarrow> Report list \<Rightarrow> bool" where
  "renewed seen [] = True"
| "renewed seen (r # rs) \<longleftrightarrow> rpStatus r = StatusHealthy \<and> (\<exists>ref \<in> set (rpEvidenceRefs r). ref |\<notin>| seen) \<and>
     renewed (fset_of_list (rpEvidenceRefs r)) rs"

lemma open_stays:
  assumes "gate_ok g" "\<not> gtQuarantined g" "gsStatus (gtState g) = StatusHealthy"
    "successive (poSource (gtPolicy g)) (gtLastWindowEnd g) rs" "\<forall>r \<in> set rs. rpStatus r = StatusHealthy"
  shows "gsStatus (gtState (fold Gate_Advance rs g)) = StatusHealthy \<and> \<not> gtQuarantined (fold Gate_Advance rs g)"
  using assms
proof (induction rs arbitrary: g)
  case (Cons r rs)
  have "\<not> gtQuarantined (Gate_Advance r g)" "gsStatus (gtState (Gate_Advance r g)) = StatusHealthy"
    using Cons.prems by (auto simp: Gate_Advance_next [OF Cons.prems(4)] gate_simps)
  then show ?case using Cons.prems Gate_Advance_next_end(1) [OF Cons.prems(4)] by (simp add: Cons.IH Gate_Advance_ok)
qed simp

lemma renewed_healthy: "renewed seen rs \<Longrightarrow> r \<in> set rs \<Longrightarrow> rpStatus r = StatusHealthy"
  by (induction rs arbitrary: seen) auto

lemma recovery_reached:
  assumes "gate_ok g" "gtQuarantined g" "successive (poSource (gtPolicy g)) (gtLastWindowEnd g) rs"
    "renewed (gtSeenRefs g) rs" "poRecoveryHealthyWindows (gtPolicy g) \<le> gsHealthyWindowStreak (gtState g) + int (length rs)"
  shows "gsStatus (gtState (fold Gate_Advance rs g)) = StatusHealthy \<and> \<not> gtQuarantined (fold Gate_Advance rs g)"
  using assms
proof (induction rs arbitrary: g)
  case Nil
  then show ?case by (auto simp: gate_ok_def)
next
  case (Cons r rs)
  let ?g = "Gate_Advance r g" and ?k = "gsHealthyWindowStreak (gtState g)"
  note adv = Gate_Advance_next [OF Cons.prems(3)]
  have new: "list_ex (\<lambda>ref. ref |\<notin>| gtSeenRefs g) (rpEvidenceRefs r)" "rpStatus r = StatusHealthy"
    using Cons.prems(4) by (auto simp: list_ex_iff)
  note wrap = streak_wrap [OF Cons.prems(1,2)]
  have ok: "gate_ok ?g" by (rule Gate_Advance_ok [OF Cons.prems(1)])
  have rest: "successive (poSource (gtPolicy ?g)) (gtLastWindowEnd ?g) rs" "renewed (gtSeenRefs ?g) rs"
    using Cons.prems(3,4) Gate_Advance_next_end [OF Cons.prems(3)] by auto
  show ?case
  proof (cases "poRecoveryHealthyWindows (gtPolicy g) \<le> ?k + 1")
    case True
    then have "\<not> gtQuarantined ?g" "gsStatus (gtState ?g) = StatusHealthy"
      using new wrap Cons.prems(2) by (auto simp: adv gate_simps)
    then show ?thesis using open_stays [OF ok _ _ rest(1)] rest(2) renewed_healthy by auto
  next
    case False
    then have "gtQuarantined ?g" "gsHealthyWindowStreak (gtState ?g) = ?k + 1"
      using new wrap Cons.prems(2) by (auto simp: adv gate_simps)
    then show ?thesis using Cons.IH [OF ok _ rest] Cons.prems(5) by simp
  qed
qed

section \<open>The monitor\<close>

definition report_fine :: "Report \<Rightarrow> bool" where
  "report_fine r \<longleftrightarrow> report_isolated r \<and> rpStatus r = gsStatus (rpGate r) \<and>
     (rpPublicEligible r \<longrightarrow> gsStatus (rpGate r) = StatusHealthy \<and> rpLicense r = LicenseApproved) \<and>
     (rpResearchContextEligible r \<longrightarrow> rpPublicEligible r \<and> rpSource r = SourceXiuqiuResearch)"

definition evidence_kept :: "SourceKind \<Rightarrow> (string, Evidence) fmap \<Rightarrow> bool" where
  "evidence_kept source byID \<longleftrightarrow> fcard (fmdom byID) \<le> maxEvidencePerSource \<and>
     (\<forall>i e. fmlookup byID i = Some e \<longrightarrow> qeID e = i \<and> qeSource e = source \<and> ValidateEvidence e = Inr ())"

definition gate_kept :: "Monitor \<Rightarrow> SourceKind \<Rightarrow> bool" where
  "gate_kept m source \<longleftrightarrow> (\<exists>g. fmlookup (moGates m) source = Some g \<and> gate_ok g \<and> fmlookup (moPolicies m) source = Some (gtPolicy g))"

definition monitor_ok :: "Monitor \<Rightarrow> bool" where
  "monitor_ok m \<longleftrightarrow> (\<forall>source \<in> set stableSources. gate_kept m source) \<and>
     (\<forall>source byID. fmlookup (moEvidence m) source = Some byID \<longrightarrow> evidence_kept source byID) \<and>
     (\<forall>r \<in> set (moSnapshot m). report_fine r)"

lemma monitor_okD:
  assumes "monitor_ok m"
  shows "source \<in> set stableSources \<Longrightarrow> gate_kept m source"
    "fmlookup (moEvidence m) source = Some byID \<Longrightarrow> evidence_kept source byID"
    "r \<in> set (moSnapshot m) \<Longrightarrow> report_fine r"
  using assms by (auto simp: monitor_ok_def)

text \<open>The values of the policies are unsigned.\<close>

definition policies_typed :: "Policies \<Rightarrow> bool" where
  "policies_typed policies \<longleftrightarrow> (\<forall>source p. fmlookup policies source = Some p \<longrightarrow> 0 \<le> poRecoveryHealthyWindows p)"

lemma new_gates:
  assumes "foldE (\<lambda>(source, policy) gates. bindE (NewGate policy) (\<lambda>gate. Inr (fmupd source gate gates))) ps gates = Inr gates'"
    "distinct (map fst ps)" "(source, p) \<in> set ps"
  shows "\<exists>g. fmlookup gates' source = Some g \<and> NewGate p = Inr g"
  using assms
proof (induction ps arbitrary: gates' rule: rev_induct)
  case (snoc x ps)
  obtain s q where x: "x = (s, q)" by (cases x)
  from snoc.prems(1) obtain u g where u:
    "foldE (\<lambda>(source, policy) gates. bindE (NewGate policy) (\<lambda>gate. Inr (fmupd source gate gates))) ps gates = Inr u"
    "NewGate q = Inr g" "gates' = fmupd s g u"
    by (auto simp: x foldE_append bindE_eq_Inr)
  show ?case
  proof (cases "(source, p) = x")
    case True
    then show ?thesis using u x by simp
  next
    case False
    then have mem: "(source, p) \<in> set ps" using snoc.prems(3) by auto
    then have "source \<noteq> s" using snoc.prems(2) by (force simp: x)
    then show ?thesis using snoc.IH [OF u(1) _ mem] snoc.prems(2) u(3) by simp
  qed
qed simp

lemma ValidatePolicies_stable:
  assumes "ValidatePolicies policies = Inr u" "source \<in> set stableSources"
  shows "\<exists>p. fmlookup policies source = Some p \<and> poSource p = source \<and> ValidatePolicy p = Inr ()"
  using assms
  by (auto simp: ValidatePolicies_def stableSources_def bindE_eq_Inr split: if_splits option.splits)

lemma NewMonitor_ok:
  assumes "NewMonitor policies clock = Inr m" "policies_typed policies"
  shows "monitor_ok m"
proof -
  from assms(1) obtain u gates where v: "ValidatePolicies policies = Inr u"
    and g: "foldE (\<lambda>(source, policy) gates. bindE (NewGate policy) (\<lambda>gate. Inr (fmupd source gate gates)))
              (sorted_list_of_fmap policies) fmempty = Inr gates"
    and m: "moPolicies m = policies" "moGates m = gates" "moEvidence m = fmempty" "moSnapshot m = []"
    by (auto simp: NewMonitor_def bindE_eq_Inr split: if_splits)
  have "gate_kept m source" if "source \<in> set stableSources" for source
  proof -
    from ValidatePolicies_stable [OF v that] obtain p where p: "fmlookup policies source = Some p" by blast
    then have "(source, p) \<in> set (sorted_list_of_fmap policies)" by (simp add: sorted_list_of_fmap_props)
    then obtain g' where "fmlookup gates source = Some g'" "NewGate p = Inr g'"
      using new_gates [OF g sorted_list_of_fmap_props(2)] by blast
    then show ?thesis using NewGate_ok [of p g'] p assms(2) by (auto simp: gate_kept_def m policies_typed_def)
  qed
  then show ?thesis by (simp add: monitor_ok_def m)
qed

lemma Monitor_Record_frame [simp]:
  "moPolicies (fst (Monitor_Record now e m)) = moPolicies m" "moGates (fst (Monitor_Record now e m)) = moGates m"
  "moSnapshot (fst (Monitor_Record now e m)) = moSnapshot m" "moLastAdvanceEnd (fst (Monitor_Record now e m)) = moLastAdvanceEnd m"
  by (simp_all add: Monitor_Record_def Let_def split: sum.splits option.splits)


lemma byID_kept: "monitor_ok m \<Longrightarrow> evidence_kept source (fmget fmempty (moEvidence m) source)"
  by (cases "fmlookup (moEvidence m) source") (auto simp: fmget_def evidence_kept_def fcard_fempty dest: monitor_okD(2))

lemma filter_kept:
  assumes "evidence_kept source byID"
  shows "evidence_kept source (fmfilter P byID)"
proof -
  have "fmdom (fmfilter P byID) |\<subseteq>| fmdom byID" by (auto simp: fmdom_filter)
  then have "fcard (fmdom (fmfilter P byID)) \<le> fcard (fmdom byID)" by (rule fcard_mono)
  then show ?thesis using assms by (auto simp: evidence_kept_def split: if_splits)
qed

lemma add_kept:
  assumes "evidence_kept source byID" "fcard (fmdom byID) < maxEvidencePerSource" "qeSource e = source" "ValidateEvidence e = Inr ()"
  shows "evidence_kept source (fmupd (qeID e) e byID)"
  using assms fcard_finsert_if [of "qeID e" "fmdom byID"] by (auto simp: evidence_kept_def split: if_splits)

lemma Monitor_Record_cases:
  assumes "Monitor_Record now e m = (m', res)"
  obtains (invalid) err where "m' = m" "res = Inl err"
    | (known) existing where "ValidateEvidence e = Inr ()"
        "fmlookup (fmget fmempty (moEvidence m) (qeSource e)) (qeID e) = Some existing"
        "m' = m\<lparr> moEvidence := fmupd (qeSource e) (fmget fmempty (moEvidence m) (qeSource e)) (moEvidence m) \<rparr>"
        "res = (if evidenceEqual existing e then Inr () else Inl ErrInvalidEvidence)"
    | (full) P ids where "ValidateEvidence e = Inr ()" "res = Inl ErrEvidenceLimit"
        "m' = m\<lparr> moEvidence := fmupd (qeSource e) (fmfilter P (fmget fmempty (moEvidence m) (qeSource e))) (moEvidence m),
                 moEvaluatedIDs := ids \<rparr>"
    | (added) P ids where "ValidateEvidence e = Inr ()" "res = Inr ()"
        "fcard (fmdom (fmfilter P (fmget fmempty (moEvidence m) (qeSource e)))) < maxEvidencePerSource"
        "m' = m\<lparr> moEvidence := fmupd (qeSource e) (fmupd (qeID e) e (fmfilter P (fmget fmempty (moEvidence m) (qeSource e))))
                   (moEvidence m),
                 moEvaluatedIDs := ids \<rparr>"
proof (cases "ValidateEvidence e")
  case (Inl err)
  then show ?thesis using assms invalid [of err] by (simp add: Monitor_Record_def)
next
  case v: (Inr u)
  show ?thesis
  proof (cases "fmlookup (moPolicies m) (qeSource e)")
    case None
    then show ?thesis using assms v invalid [of ErrInvalidEvidence] by (simp add: Monitor_Record_def)
  next
    case (Some policy)
    show ?thesis
    proof (cases "fmlookup (fmget fmempty (moEvidence m) (qeSource e)) (qeID e)")
      case (Some existing)
      then show ?thesis using assms v \<open>fmlookup (moPolicies m) (qeSource e) = Some policy\<close>
        by (intro known [of existing]) (auto simp: Monitor_Record_def Let_def)
    next
      case None
      let ?byID = "fmget fmempty (moEvidence m) (qeSource e)"
      define P where "P = (\<lambda>i. \<not> Before (qeAt (the (fmlookup ?byID i))) (stamp_Add (UTC now) (- poWindowDuration policy)))"
      define ids where "ids = (if qeSource e |\<in>| fmdom (moEvaluatedIDs m)
        then fmupd (qeSource e) (ffilter (\<lambda>i. i |\<notin>| fmdom ?byID \<or> i |\<in>| fmdom (fmfilter P ?byID))
               (fmget {||} (moEvaluatedIDs m) (qeSource e))) (moEvaluatedIDs m)
        else moEvaluatedIDs m)"
      have r: "Monitor_Record now e m = (let m1 = m\<lparr> moEvidence := fmupd (qeSource e) (fmfilter P ?byID) (moEvidence m),
          moEvaluatedIDs := ids \<rparr> in
        if fcard (fmdom (fmfilter P ?byID)) \<ge> maxEvidencePerSource then (m1, Inl ErrEvidenceLimit)
        else (m1\<lparr> moEvidence := fmupd (qeSource e) (fmupd (qeID e) e (fmfilter P ?byID)) (moEvidence m1) \<rparr>, Inr ()))"
        unfolding Monitor_Record_def Let_def v None \<open>fmlookup (moPolicies m) (qeSource e) = Some policy\<close> sum.case option.case
          P_def ids_def by (rule refl)
      show ?thesis
        using assms v full [where P = P and ids = ids] added [where P = P and ids = ids] unfolding r
        by (cases "maxEvidencePerSource \<le> fcard (fmdom (fmfilter P ?byID))") (auto simp: Let_def)
    qed
  qed
qed

lemma Monitor_Record_ok:
  assumes "monitor_ok m" "Monitor_Record now e m = (m', res)"
  shows "monitor_ok m'"
proof -
  have upd: "monitor_ok (m\<lparr> moEvidence := fmupd source byID ev, moEvaluatedIDs := ids \<rparr>)"
    if "evidence_kept source byID" "\<And>s b. s \<noteq> source \<Longrightarrow> fmlookup ev s = Some b \<Longrightarrow> evidence_kept s b" for source byID ev ids
    using assms(1) that by (auto simp: monitor_ok_def gate_kept_def)
  have other: "\<And>s b. fmlookup (moEvidence m) s = Some b \<Longrightarrow> evidence_kept s b" by (rule monitor_okD(2) [OF assms(1)])
  note byID = byID_kept [OF assms(1)]
  from assms(2) show ?thesis
  proof (cases rule: Monitor_Record_cases)
    case (invalid err)
    then show ?thesis using assms(1) by simp
  next
    case (known existing)
    have "m' = m\<lparr> moEvidence := fmupd (qeSource e) (fmget fmempty (moEvidence m) (qeSource e)) (moEvidence m),
      moEvaluatedIDs := moEvaluatedIDs m \<rparr>" using known by simp
    then show ?thesis by (simp only: upd [OF byID other])
  next
    case (full P ids)
    then show ?thesis by (simp only: upd [OF filter_kept [OF byID] other])
  next
    case (added P ids)
    show ?thesis unfolding added(4)
      by (rule upd [OF add_kept [OF filter_kept [OF byID] added(3) _ added(1)]]) (auto intro: other)
  qed
qed


lemma eval_finish_eligible:
  "rpPublicEligible (eval_finish policy window live hard ins r) \<Longrightarrow> rpLicense (eval_finish policy window live hard ins r) = LicenseApproved"
  "rpResearchContextEligible (eval_finish policy window live hard ins r) \<Longrightarrow>
     rpPublicEligible (eval_finish policy window live hard ins r) \<and> rpSource (eval_finish policy window live hard ins r) = SourceXiuqiuResearch"
  by (auto simp: eval_finish_def Let_def split: prod.splits)

lemma Evaluate_source: "Evaluate policy window = Inr r \<Longrightarrow> rpPublicEligible r \<Longrightarrow> rpLicense r = LicenseApproved"
  "Evaluate policy window = Inr r \<Longrightarrow> rpResearchContextEligible r \<Longrightarrow> rpPublicEligible r \<and> rpSource r = SourceXiuqiuResearch"
  by (erule Evaluate_Inr, simp only: eval_finish_eligible)+

lemma advance_gate_ok:
  assumes "monitor_ok m" "source \<in> set stableSources" "advance_gate source policy items report m = (m', report', gs)"
  shows "monitor_ok m'" "moPolicies m' = moPolicies m" "moSnapshot m' = moSnapshot m" "moLastAdvanceEnd m' = moLastAdvanceEnd m"
    "\<exists>rs. report' = report\<lparr> rpReasons := rs \<rparr>"
proof -
  from monitor_okD(1) [OF assms(1,2)] obtain g where g: "fmlookup (moGates m) source = Some g" "gate_ok g"
    "fmlookup (moPolicies m) source = Some (gtPolicy g)" by (auto simp: gate_kept_def)
  obtain g' ids where g': "g' = g \<or> g' = Gate_Advance report g"
    "m' = m\<lparr> moGates := fmupd source g' (moGates m), moEvaluatedIDs := ids \<rparr>"
    using assms(3) g(1) by (auto simp: advance_gate_def Let_def split: if_splits)
  have "gate_ok g'" "gtPolicy g' = gtPolicy g" using g' g(2) Gate_Advance_ok by auto
  then show "monitor_ok m'" using assms(1) g by (auto simp: monitor_ok_def gate_kept_def g'(2))
  show "moPolicies m' = moPolicies m" "moSnapshot m' = moSnapshot m" "moLastAdvanceEnd m' = moLastAdvanceEnd m"
    by (simp_all add: g'(2))
  show "\<exists>rs. report' = report\<lparr> rpReasons := rs \<rparr>"
  proof (cases "report' = report")
    case True
    then show ?thesis by (intro exI [of _ "rpReasons report"]) simp
  next
    case False
    then show ?thesis using assms(3) by (auto simp: advance_gate_def Let_def split: if_splits)
  qed
qed

lemma evaluate_source_ok:
  assumes "monitor_ok m" "source \<in> set stableSources" "\<forall>r \<in> set reports. report_fine r"
    "evaluate_source end advance source (m, reports) = ((m', reports'), res)"
  shows "monitor_ok m' \<and> (\<forall>r \<in> set reports'. report_fine r) \<and> moLastAdvanceEnd m' = moLastAdvanceEnd m \<and>
    (res = Inr () \<longrightarrow> \<not> IsZero end \<and> length reports' = Suc (length reports))"
proof -
  let ?policy = "fmget zeroPolicy (moPolicies m) source"
  let ?start = "stamp_Add end (- poWindowDuration ?policy)"
  let ?items = "source_items ?start end (fmget fmempty (moEvidence m) source)"
  let ?ev = "bindE (NewEvidenceWindow ?start end (poMinSamples ?policy) ?items) (Evaluate ?policy)"
  show ?thesis
  proof (cases ?ev)
    case (Inl err)
    then show ?thesis using assms by (auto simp: evaluate_source_def Let_def)
  next
    case (Inr report)
    then obtain w where w: "NewEvidenceWindow ?start end (poMinSamples ?policy) ?items = Inr w" "Evaluate ?policy w = Inr report"
      by (auto simp: bindE_eq_Inr)
    have nz: "\<not> IsZero end"
      using w(1) by (auto simp: NewEvidenceWindow_def Let_def bindE_eq_Inr Window_Validate_def IsZero_def UTC_def split: if_splits)
    obtain m1 r1 gs where step: "(if advance then advance_gate source ?policy ?items report m
        else (m, report, \<lparr> gsSource = source, gsStatus = rpStatus report, gsHealthyWindowStreak = 0,
                gsRecoveryRequired = poRecoveryHealthyWindows ?policy, gsReasons = [] \<rparr>)) = (m1, r1, gs)"
      by (metis prod_cases3)
    let ?r = "r1\<lparr> rpGate := gs, rpStatus := gsStatus gs \<rparr>"
    let ?r' = "if rpStatus ?r \<noteq> StatusHealthy then ?r\<lparr> rpPublicEligible := False, rpResearchContextEligible := False \<rparr> else ?r"
    have out: "m' = m1" "reports' = reports @ [?r']" "res = Inr ()"
      using assms(4) Inr step by (auto simp: evaluate_source_def Let_def split: prod.splits)
    have m1: "monitor_ok m1" "moLastAdvanceEnd m1 = moLastAdvanceEnd m"
      using step assms(1) advance_gate_ok(1,4) [OF assms(1,2)] by (auto split: if_splits)
    obtain rs where rs: "r1 = report\<lparr> rpReasons := rs \<rparr>"
    proof (cases advance)
      case True
      with step have "advance_gate source ?policy ?items report m = (m1, r1, gs)" by simp
      from advance_gate_ok(5) [OF assms(1,2) this] show ?thesis using that by blast
    next
      case False
      then show ?thesis using step that [of "rpReasons report"] by simp
    qed
    have "report_fine ?r'"
      using Evaluate_isolated [OF w(2)] Evaluate_source [OF w(2)] by (auto simp: report_fine_def report_isolated_def rs)
    then show ?thesis using assms(3) m1 nz by (simp add: out)
  qed
qed

lemma evaluate_sources_ok:
  assumes "monitor_ok m" "set sources \<subseteq> set stableSources" "\<forall>r \<in> set reports. report_fine r"
    "evaluate_sources end advance sources (m, reports) = ((m', reports'), res)"
  shows "monitor_ok m' \<and> (\<forall>r \<in> set reports'. report_fine r) \<and> moLastAdvanceEnd m' = moLastAdvanceEnd m \<and>
    (res = Inr () \<longrightarrow> length reports' = length reports + length sources \<and> (sources \<noteq> [] \<longrightarrow> \<not> IsZero end))"
  using assms
proof (induction sources arbitrary: m reports)
  case (Cons source sources)
  obtain m1 reports1 res1 where one: "evaluate_source end advance source (m, reports) = ((m1, reports1), res1)"
    by (metis prod.collapse)
  note ok = evaluate_source_ok [OF Cons.prems(1) _ Cons.prems(3) one]
  show ?case
  proof (cases res1)
    case (Inl err)
    then show ?thesis using ok Cons.prems(2,4) one by auto
  next
    case (Inr u)
    then have "evaluate_sources end advance sources (m1, reports1) = ((m', reports'), res)" using Cons.prems(4) one by simp
    then show ?thesis using Cons.IH [of m1 reports1] ok Cons.prems(2) Inr by auto
  qed
qed simp

lemma evaluateLocked_ok:
  assumes "monitor_ok m" "evaluateLocked end advance m = (m', res)"
  shows "monitor_ok m'" "moLastAdvanceEnd m' = moLastAdvanceEnd m"
    "res = Inr reports \<Longrightarrow> (\<forall>r \<in> set reports. report_fine r) \<and> length reports = 3 \<and> \<not> IsZero end"
proof -
  obtain m1 rs r where e: "evaluate_sources end advance stableSources (m, []) = ((m1, rs), r)" by (metis prod.collapse)
  note ok = evaluate_sources_ok [OF assms(1) _ _ e]
  have m': "m' = m1" using assms(2) e by (auto simp: evaluateLocked_def split: sum.splits)
  show "monitor_ok m'" "moLastAdvanceEnd m' = moLastAdvanceEnd m" using ok by (auto simp: m')
  assume "res = Inr reports"
  then have "r = Inr ()" "rs = reports" using assms(2) e by (auto simp: evaluateLocked_def split: sum.splits)
  then show "(\<forall>r \<in> set reports. report_fine r) \<and> length reports = 3 \<and> \<not> IsZero end"
    using ok by (simp add: stableSources_def)
qed

lemma Monitor_Advance_ok:
  assumes "monitor_ok m" "Monitor_Advance end m = (m', res)"
  shows "monitor_ok m'" "res = Inr reports \<Longrightarrow> \<forall>r \<in> set reports. report_fine r"
proof -
  obtain m1 r where e: "evaluateLocked end True m = (m1, r)" by (metis prod.collapse)
  note ok = evaluateLocked_ok [OF assms(1) e]
  have "monitor_ok m' \<and> (\<forall>reports. res = Inr reports \<longrightarrow> (\<forall>r \<in> set reports. report_fine r))"
  proof (cases r)
    case (Inl err)
    then show ?thesis using assms(1,2) e ok(1) monitor_okD(3) [OF assms(1)]
      by (auto simp: Monitor_Advance_def split: if_splits)
  next
    case (Inr reports)
    have "monitor_ok (m1\<lparr> moLastAdvanceEnd := end, moSnapshot := reports \<rparr>)"
      using ok(1) ok(3) [OF Inr] by (simp add: monitor_ok_def gate_kept_def)
    then show ?thesis using assms(1,2) e Inr ok(3) [OF Inr] monitor_okD(3) [OF assms(1)]
      by (auto simp: Monitor_Advance_def split: if_splits)
  qed
  then show "monitor_ok m'" "res = Inr reports \<Longrightarrow> \<forall>r \<in> set reports. report_fine r" by auto
qed


text \<open>The calls that change a monitor.\<close>

datatype MonitorCall = RecordCall Stamp Evidence | AdvanceCall Stamp

fun monitor_call :: "MonitorCall \<Rightarrow> Monitor \<Rightarrow> Monitor" where
  "monitor_call (RecordCall now e) m = fst (Monitor_Record now e m)"
| "monitor_call (AdvanceCall end) m = fst (Monitor_Advance end m)"

interpretation monitor: kept_by_steps monitor_call monitor_ok
proof unfold_locales
  fix m c
  assume "monitor_ok m"
  then show "monitor_ok (monitor_call c m)"
    by (cases c) (auto intro: Monitor_Record_ok Monitor_Advance_ok simp: prod_eq_iff)
qed

lemma Reports_fine:
  assumes "monitor_ok m" "Reports now m = Inr reports"
  shows "\<forall>r \<in> set reports. report_fine r"
proof (cases "moSnapshot m = []")
  case True
  obtain m' res where e: "evaluateLocked now False m = (m', res)" by (metis prod.collapse)
  then have "res = Inr reports" using assms(2) True by (auto simp: Reports_def split: if_splits)
  then show ?thesis using evaluateLocked_ok(3) [OF assms(1) e] by blast
next
  case False
  then show ?thesis using assms monitor_okD(3) by (auto simp: Reports_def split: if_splits)
qed

lemma Monitor_Advance_again:
  assumes "monitor_ok m" "Monitor_Advance end m = (m', Inr reports)"
  shows "Monitor_Advance end m' = (m', Inr reports)" "tsUTC t \<Longrightarrow> Before t end \<Longrightarrow> Monitor_Advance t m' = (m', Inl ErrInvalidWindow)"
proof -
  obtain m1 r where e: "evaluateLocked end True m = (m1, r)" by (metis prod.collapse)
  have "tsUTC end \<and> \<not> IsZero (moLastAdvanceEnd m') \<and> tsInstant end = tsInstant (moLastAdvanceEnd m') \<and> moSnapshot m' = reports"
    using assms(2) e evaluateLocked_ok(3) [OF assms(1) e] by (auto simp: Monitor_Advance_def split: if_splits sum.splits)
  then show "Monitor_Advance end m' = (m', Inr reports)"
    "tsUTC t \<Longrightarrow> Before t end \<Longrightarrow> Monitor_Advance t m' = (m', Inl ErrInvalidWindow)"
    by (auto simp: Monitor_Advance_def Before_def)
qed

lemma evidenceEqual_refl [simp]: "evidenceEqual e e"
  by (auto simp: evidenceEqual_def list_all_iff sorted_list_of_fmap_props fmget_def in_set_zip)

lemma fmupd_same: "fmlookup m k = Some v \<Longrightarrow> fmupd k v m = m"
  by (rule fmap_ext) auto

lemma Monitor_Record_known:
  assumes "ValidateEvidence e = Inr ()" "qeSource e |\<in>| fmdom (moPolicies m)"
    "fmlookup (moEvidence m) (qeSource e) = Some byID" "fmlookup byID (qeID e) = Some existing" "evidenceEqual existing e"
  shows "Monitor_Record now e m = (m, Inr ())"
proof -
  from assms(2) obtain policy where "fmlookup (moPolicies m) (qeSource e) = Some policy" by (auto simp: fmlookup_dom_iff)
  then show ?thesis using assms fmupd_same [OF assms(3)] by (simp add: Monitor_Record_def Let_def fmget_Some)
qed

lemma Monitor_Record_again:
  assumes "Monitor_Record now e m = (m', Inr ())"
  shows "Monitor_Record now' e m' = (m', Inr ())"
proof -
  have pol: "qeSource e |\<in>| fmdom (moPolicies m')"
    using assms Monitor_Record_frame(1) [of now e m]
    by (auto simp: Monitor_Record_def split: sum.splits option.splits intro: fmdomI)
  from assms show ?thesis
  proof (cases rule: Monitor_Record_cases)
    case (known existing)
    then have "evidenceEqual existing e" by (auto split: if_splits)
    then show ?thesis using known pol by (intro Monitor_Record_known) auto
  next
    case (added P ids)
    then show ?thesis using pol by (intro Monitor_Record_known [where existing = e]) auto
  qed simp_all
qed

section \<open>Properties\<close>

text \<open>Reports for the gate of the policy for derivatives.\<close>

definition demo_report :: "QStatus \<Rightarrow> int \<Rightarrow> string \<Rightarrow> Report" where
  "demo_report status end ref = (initial_report demo_policy demo_window)\<lparr> rpStatus := status,
     rpWindow := demo_window\<lparr> ewEnd := \<lparr> tsInstant = end, tsUTC = True \<rparr> \<rparr>,
     rpEvidenceRefs := [\<lparr> erSourceID = ref, erContentHash = [] \<rparr>] \<rparr>"

definition demo_gate :: Gate where
  "demo_gate = \<lparr> gtPolicy = demo_policy,
     gtState = \<lparr> gsSource = poSource demo_policy, gsStatus = StatusInsufficient, gsHealthyWindowStreak = 0,
                 gsRecoveryRequired = poRecoveryHealthyWindows demo_policy, gsReasons = [] \<rparr>,
     gtQuarantined = False, gtLastWindowEnd = zeroStamp, gtSeenRefs = {||} \<rparr>"

lemma demo_policy_facts: "ValidatePolicy demo_policy = Inr ()" "poRecoveryHealthyWindows demo_policy = 3"
  by code_simp+

lemma demo_NewGate: "NewGate demo_policy = Inr demo_gate"
  by (simp add: NewGate_def demo_gate_def demo_policy_facts)

definition demo_fault :: "Report list" where "demo_fault = [demo_report StatusQuarantined 100 ''a'']"

definition demo_recovery :: "Report list" where
  "demo_recovery = [demo_report StatusHealthy 200 ''b'', demo_report StatusHealthy 300 ''c'', demo_report StatusHealthy 400 ''d'']"

lemmas demo_gate_simps = demo_gate_def demo_fault_def demo_recovery_def demo_report_def initial_report_def Gate_Advance_def
  gate_simps demo_policy_facts IsZero_def Before_def zeroStamp_def

lemma demo_gate_run:
  "gsStatus (gtState (fold Gate_Advance demo_fault demo_gate)) = StatusQuarantined"
  "successive (poSource demo_policy) (gtLastWindowEnd (fold Gate_Advance demo_fault demo_gate)) demo_recovery"
  "renewed (gtSeenRefs (fold Gate_Advance demo_fault demo_gate)) demo_recovery"
  by (simp_all add: demo_gate_simps)

lemma demo_gate_recovered:
  "gsStatus (gtState (fold Gate_Advance demo_recovery (fold Gate_Advance demo_fault demo_gate))) = StatusHealthy"
  by (simp add: demo_gate_simps)

lemma gate_reached_ok:
  assumes "NewGate policy = Inr g0" "0 \<le> poRecoveryHealthyWindows policy"
  shows "gate_ok (fold Gate_Advance rs g0)" "gtPolicy (fold Gate_Advance rs g0) = policy"
  using NewGate_ok [OF assms] gate.fold_keeps by auto

text \<open>C22 A quarantined source is not healthy again before a run of consecutive healthy windows as long as
  its policy asks for: whatever reports of successive windows follow, if the gate shows healthy
  after them, then as many reports in a row among them are healthy.\<close>

theorem quarantine_needs_streak:
  assumes "NewGate policy = Inr g0" "0 \<le> poRecoveryHealthyWindows policy" "g = fold Gate_Advance before g0"
    "gsStatus (gtState g) = StatusQuarantined" "successive (poSource policy) (gtLastWindowEnd g) reports"
    "gsStatus (gtState (fold Gate_Advance reports g)) = StatusHealthy"
  shows "\<exists>a run b. reports = a @ run @ b \<and> (\<forall>r \<in> set run. rpStatus r = StatusHealthy) \<and>
    poRecoveryHealthyWindows policy \<le> int (length run)"
proof -
  note ok = gate_reached_ok [OF assms(1,2), of before, folded assms(3)]
  have q: "gtQuarantined g" "gsHealthyWindowStreak (gtState g) = 0" using ok assms(4) by (auto simp: gate_ok_def split: if_splits)
  have "\<not> gtQuarantined (fold Gate_Advance reports g)"
    using gate.fold_keeps [OF ok(1), of reports] assms(6) by (auto simp: gate_ok_def)
  from recovery_streak [OF ok(1) q(1) _ this] assms(5) show ?thesis by (simp add: ok(2) q(2) cong: if_cong)
qed

theorem quarantine_needs_streak_witness:
  "\<exists>a run b. demo_recovery = a @ run @ b \<and> (\<forall>r \<in> set run. rpStatus r = StatusHealthy) \<and> 3 \<le> int (length run)"
  using quarantine_needs_streak [OF demo_NewGate _ refl demo_gate_run(1,2) demo_gate_recovered] by (simp add: demo_policy_facts)

text \<open>C23 A quarantined source recovers: after as many successive windows as its policy asks for, all healthy
  and each with a reference that the window before did not have, the gate shows healthy and
  quarantine is over.\<close>

theorem quarantine_recovers:
  assumes "NewGate policy = Inr g0" "0 \<le> poRecoveryHealthyWindows policy" "g = fold Gate_Advance before g0"
    "gsStatus (gtState g) = StatusQuarantined" "successive (poSource policy) (gtLastWindowEnd g) reports"
    "renewed (gtSeenRefs g) reports" "poRecoveryHealthyWindows policy \<le> int (length reports)"
  shows "gsStatus (gtState (fold Gate_Advance reports g)) = StatusHealthy \<and> \<not> gtQuarantined (fold Gate_Advance reports g)"
proof -
  note ok = gate_reached_ok [OF assms(1,2), of before, folded assms(3)]
  have "gtQuarantined g" "gsHealthyWindowStreak (gtState g) = 0" using ok assms(4) by (auto simp: gate_ok_def split: if_splits)
  then show ?thesis using recovery_reached [OF ok(1)] assms(5-7) by (simp add: ok(2))
qed

theorem quarantine_recovers_witness:
  "gsStatus (gtState (fold Gate_Advance demo_recovery (fold Gate_Advance demo_fault demo_gate))) = StatusHealthy"
  using quarantine_recovers [OF demo_NewGate _ refl demo_gate_run] by (simp add: demo_policy_facts demo_recovery_def)

text \<open>A monitor with the policies of the package.\<close>

definition demo_now :: Stamp where "demo_now = \<lparr> tsInstant = 700000 * second, tsUTC = True \<rparr>"

definition demo_item :: Evidence where
  "demo_item = demo_evidence ''oi1'' CapabilityOpenInterest (690000 * second)"

lemma default_policies_typed: "policies_typed DefaultPolicies"
  by (auto simp: policies_typed_def DefaultPolicies_def fmlookup_of_list split: if_splits)

lemma default_monitor:
  "case NewMonitor DefaultPolicies True of Inl _ \<Rightarrow> False
   | Inr m \<Rightarrow> snd (Monitor_Record demo_now demo_item m) = Inr ()"
  by code_simp

lemma default_reports:
  "case NewMonitor DefaultPolicies True of Inl _ \<Rightarrow> False
   | Inr m \<Rightarrow> (case Reports demo_now m of Inl _ \<Rightarrow> False | Inr reports \<Rightarrow> reports \<noteq> [])"
  by code_simp

lemma reached_monitor_ok:
  "NewMonitor policies clock = Inr m0 \<Longrightarrow> policies_typed policies \<Longrightarrow> monitor_ok (fold monitor_call calls m0)"
  by (rule monitor.fold_keeps [OF NewMonitor_ok])

text \<open>C24 Whatever calls a monitor has seen, no report it returns, from \<open>Reports\<close> or from \<open>Advance\<close>, is
  eligible for trading, as a reference price, for the matcher or for the ledger; a report is public
  only with an approved license and while its gate shows healthy, and context for research only as
  a public report of the research source.\<close>

theorem monitor_reports_isolated:
  assumes "NewMonitor policies clock = Inr m0" "policies_typed policies" "m = fold monitor_call calls m0"
    "Reports now m = Inr reports \<or> snd (Monitor_Advance end m) = Inr reports" "r \<in> set reports"
  shows "\<not> rpTradeEligible r \<and> \<not> rpReferenceEligible r \<and> \<not> rpMatcherEligible r \<and> \<not> rpLedgerEligible r \<and>
    (rpPublicEligible r \<longrightarrow> rpStatus r = StatusHealthy \<and> gsStatus (rpGate r) = StatusHealthy \<and> rpLicense r = LicenseApproved) \<and>
    (rpResearchContextEligible r \<longrightarrow> rpPublicEligible r \<and> rpSource r = SourceXiuqiuResearch)"
proof -
  have ok: "monitor_ok m" unfolding assms(3) by (rule reached_monitor_ok [OF assms(1,2)])
  have "report_fine r"
    using assms(4)
  proof
    assume "Reports now m = Inr reports"
    from Reports_fine [OF ok this] show ?thesis using assms(5) by blast
  next
    assume "snd (Monitor_Advance end m) = Inr reports"
    then have "Monitor_Advance end m = (fst (Monitor_Advance end m), Inr reports)" by (simp add: prod_eq_iff)
    from Monitor_Advance_ok(2) [OF ok this refl] show ?thesis using assms(5) by blast
  qed
  then show ?thesis by (auto simp: report_fine_def report_isolated_def)
qed

theorem monitor_reports_isolated_witness:
  "\<exists>m reports. NewMonitor DefaultPolicies True = Inr m \<and> Reports demo_now m = Inr reports \<and> \<not> rpTradeEligible (hd reports)"
proof -
  obtain m reports where m: "NewMonitor DefaultPolicies True = Inr m" "Reports demo_now m = Inr reports" "reports \<noteq> []"
    using default_reports by (auto split: sum.splits)
  then show ?thesis
    using monitor_reports_isolated [OF m(1) default_policies_typed, of m "[]" demo_now reports demo_now "hd reports"] by auto
qed

text \<open>C25 Whatever calls a monitor has seen, it holds at most 4096 pieces of evidence of a source, all valid
  and under their own identifier and source. Recording the same evidence again changes nothing;
  after a window is closed, closing it again returns the same reports and changes nothing, and
  an earlier end is refused.\<close>

theorem monitor_bounded_idempotent:
  assumes "NewMonitor policies clock = Inr m0" "policies_typed policies" "m = fold monitor_call calls m0"
  shows "(\<forall>source byID. fmlookup (moEvidence m) source = Some byID \<longrightarrow> fcard (fmdom byID) \<le> maxEvidencePerSource \<and>
       (\<forall>i e. fmlookup byID i = Some e \<longrightarrow> qeID e = i \<and> qeSource e = source \<and> ValidateEvidence e = Inr ())) \<and>
    (\<forall>now e m1 later. Monitor_Record now e m = (m1, Inr ()) \<longrightarrow> Monitor_Record later e m1 = (m1, Inr ())) \<and>
    (\<forall>end m1 reports. Monitor_Advance end m = (m1, Inr reports) \<longrightarrow> Monitor_Advance end m1 = (m1, Inr reports) \<and>
       (\<forall>t. tsUTC t \<and> Before t end \<longrightarrow> Monitor_Advance t m1 = (m1, Inl ErrInvalidWindow)))"
proof -
  have ok: "monitor_ok m" unfolding assms(3) by (rule reached_monitor_ok [OF assms(1,2)])
  show ?thesis
    using monitor_okD(2) [OF ok] Monitor_Record_again Monitor_Advance_again [OF ok] unfolding evidence_kept_def by blast
qed

theorem monitor_bounded_idempotent_witness:
  "\<exists>m m1. NewMonitor DefaultPolicies True = Inr m \<and> Monitor_Record demo_now demo_item m = (m1, Inr ()) \<and>
     Monitor_Record demo_now demo_item m1 = (m1, Inr ())"
proof -
  obtain m where m: "NewMonitor DefaultPolicies True = Inr m" "snd (Monitor_Record demo_now demo_item m) = Inr ()"
    using default_monitor by (auto split: sum.splits)
  then have "Monitor_Record demo_now demo_item m = (fst (Monitor_Record demo_now demo_item m), Inr ())" by (simp add: prod_eq_iff)
  then show ?thesis
    using m(1) monitor_bounded_idempotent [OF m(1) default_policies_typed, of m "[]"] by auto
qed

text \<open>The comparison of evidence under one identifier walks the counters of the first piece only and reads
  an absent counter as zero, so that two pieces with different counters can compare equal.\<close>

definition conflicting :: Evidence where
  "conflicting = demo_item\<lparr> qeMetrics := fmap_of_list [(MetricStale, \<lparr> ctNumerator = 0, ctDenominator = 0 \<rparr>)] \<rparr>"

definition conflicting' :: Evidence where
  "conflicting' = demo_item\<lparr> qeMetrics := fmap_of_list [(MetricConflict, \<lparr> ctNumerator = 5, ctDenominator = 5 \<rparr>)] \<rparr>"

theorem evidence_conflict_missed:
  "ValidateEvidence conflicting = Inr () \<and> ValidateEvidence conflicting' = Inr () \<and> qeID conflicting = qeID conflicting' \<and>
   qeMetrics conflicting \<noteq> qeMetrics conflicting' \<and> evidenceEqual conflicting conflicting' \<and> \<not> evidenceEqual conflicting' conflicting"
proof -
  have "fmlookup (qeMetrics conflicting) MetricStale \<noteq> fmlookup (qeMetrics conflicting') MetricStale" by code_simp
  then have "qeMetrics conflicting \<noteq> qeMetrics conflicting'" by auto
  moreover have "ValidateEvidence conflicting = Inr ()" "ValidateEvidence conflicting' = Inr ()" "qeID conflicting = qeID conflicting'"
    "evidenceEqual conflicting conflicting'" "\<not> evidenceEqual conflicting' conflicting"
    by code_simp+
  ultimately show ?thesis by blast
qed

end
