(* ===== verification/Exchange_History.thy ===== *)
theory Exchange_History
  imports Exchange_Run
begin

text \<open>
  What the records of a log say. Every command posts transactions of its own to the ledger, whose
  identifiers carry its sequence number, and numbers its events from one (\<open>apply_command_adds\<close>); so each
  record of a log is numbered by its place, its journal is one that the ledger accepted, and no
  transaction identifier is used twice (\<open>log_records\<close>, \<open>own_tx_inj\<close>).
\<close>

section \<open>What a command adds to the history\<close>

definition numbered :: "nat \<Rightarrow> Event list \<Rightarrow> bool" where
  "numbered n es \<longleftrightarrow> es \<noteq> [] \<and> (\<forall>i < length es. evSequence (es ! i) = n \<and> evIndex (es ! i) = i + 1)"

lemma numbered_single: "evSequence e = n \<Longrightarrow> evIndex e = 1 \<Longrightarrow> numbered n [e]"
  by (simp add: numbered_def)

lemma numbered_append: "numbered n es \<Longrightarrow> evSequence e = n \<Longrightarrow> numbered n (appendEvent es e)"
  by (auto simp: numbered_def appendEvent_def nth_append less_Suc_eq)

text \<open>The transactions of a command carry its sequence number in their identifier.\<close>

definition own_tx :: "nat \<Rightarrow> string \<Rightarrow> bool" where
  "own_tx n i \<longleftrightarrow> i = fund_tx n \<or> i = hold_tx n \<or> i = release_tx n \<or> i = cancel_tx n \<or> (\<exists>k. i = trade_tx n k \<or> i = maker_tx n k)"

definition posted :: "nat \<Rightarrow> Ledger \<Rightarrow> Ledger \<Rightarrow> bool" where
  "posted n l l' \<longleftrightarrow> (\<exists>txs. post_all txs l = Inr l' \<and> (\<forall>tx \<in> set txs. own_tx n (txID tx)))"

lemma posted_refl [simp]: "posted n l l"
  by (auto simp: posted_def post_all_def intro: exI [of _ "[]"])

lemma posted_trans [trans]:
  assumes "posted n a b" "posted n b c"
  shows "posted n a c"
proof -
  from assms obtain xs ys where "post_all xs a = Inr b" "post_all ys b = Inr c" "\<forall>tx \<in> set (xs @ ys). own_tx n (txID tx)"
    by (auto simp: posted_def)
  then show ?thesis unfolding posted_def post_all_def by (intro exI [of _ "xs @ ys"]) (simp add: foldE_append)
qed

lemma posted_Post: "Post l tx = Inr l' \<Longrightarrow> own_tx n (txID tx) \<Longrightarrow> posted n l l'"
  unfolding posted_def post_all_def by (intro exI [of _ "[tx]"]) simp

lemma posted_move:
  "FundVirtual l (fund_tx n) ref a b c = Inr l' \<Longrightarrow> posted n l l'"
  "Hold l (hold_tx n) ref a b c = Inr l' \<Longrightarrow> posted n l l'"
  "Release l (release_tx n) ref a b c = Inr l' \<Longrightarrow> posted n l l'"
  "Release l (cancel_tx n) ref a b c = Inr l' \<Longrightarrow> posted n l l'"
  "Release l (maker_tx n k) ref a b c = Inr l' \<Longrightarrow> posted n l l'"
  by (auto simp: FundVirtual_def Hold_def Release_def Ledger_move_def own_tx_def split: if_splits intro!: posted_Post)

definition extends :: "nat \<Rightarrow> state \<Rightarrow> state \<Rightarrow> bool" where
  "extends n s s' \<longleftrightarrow> posted n (sLedger s) (sLedger s') \<and> sSequence s' = sSequence s"

lemma extends_trans [trans]: "extends n a b \<Longrightarrow> extends n b c \<Longrightarrow> extends n a c"
  by (auto simp: extends_def intro: posted_trans)

lemma extends_refl [simp]: "extends n s s"
  by (simp add: extends_def)

lemma extends_same: "extends n s s1 \<Longrightarrow> sLedger s' = sLedger s1 \<Longrightarrow> sSequence s' = sSequence s1 \<Longrightarrow> extends n s s'"
  by (simp add: extends_def)

lemma settleFill_posted:
  assumes "settleFill n k taker fill s = Inr (s', trade)"
  shows "extends n s s'"
  using assms
  by (auto simp: settleFill_def bindE_eq_Inr Let_def own_tx_def extends_def split: option.splits prod.splits if_splits intro!: posted_Post)

lemma releaseExcessBuyHold_posted:
  assumes "releaseExcessBuyHold n k order s = Inr (s', order')"
  shows "extends n s s'"
proof -
  have "(s' = s \<or> (\<exists>ref a b c. Release (sLedger s) (maker_tx n k) ref a b c = Inr (sLedger s'))) \<and> sSequence s' = sSequence s"
    using assms by (auto simp: releaseExcessBuyHold_def bindE_eq_Inr Let_def split: if_splits)
  then show ?thesis by (auto simp: extends_def dest!: posted_move(5))
qed

lemma settle_maker_posted:
  assumes "settle_maker n k fill s = Inr (s', maker)"
  shows "extends n s s'"
proof -
  let ?rest = "\<lambda>s1 maker2. if oStatus maker2 = OrderStatusFilled
           then if oHeldAmount maker2 \<noteq> 0 then Inl (ErrPlain ''filled maker order retains held amount'')
                else Inr (s1, maker2\<lparr> oHeldAsset := [] \<rparr>)
           else bindE (Book_Update (sBook s1) maker2) (\<lambda>book. Inr (s1\<lparr> sBook := book \<rparr>, maker2))"
  from assms obtain maker1 s1 maker2 where r: "releaseExcessBuyHold n k maker1 s = Inr (s1, maker2)"
    and fin: "?rest s1 maker2 = Inr (s', maker)"
    by (auto simp: settle_maker_def bindE_eq_Inr Let_def)
  have "sLedger s' = sLedger s1 \<and> sSequence s' = sSequence s1"
    using fin by (cases "oStatus maker2 = OrderStatusFilled"; cases "oHeldAmount maker2 = 0") (auto simp: bindE_eq_Inr)
  then show ?thesis using extends_same [OF releaseExcessBuyHold_posted [OF r]] by simp
qed

lemma settle_step_adds:
  assumes "settle_step n k fill l = Inr l'"
  shows "extends n (slState l) (slState l')" "numbered n (slEvents l) \<Longrightarrow> numbered n (slEvents l')"
proof -
  from assms obtain s1 trade order s2 maker rq rb eb where
    one: "settleFill n k (slOrder l) fill (slState l) = Inr (s1, trade)" and two: "settle_maker n k fill s1 = Inr (s2, maker)"
    and l': "sLedger (slState l') = sLedger s2" "sSequence (slState l') = sSequence s2"
    by (auto simp: settle_step_def bindE_eq_Inr Let_def)
  show "extends n (slState l) (slState l')"
    by (rule extends_same [OF extends_trans [OF settleFill_posted [OF one] settle_maker_posted [OF two]] l'])
  show "numbered n (slEvents l) \<Longrightarrow> numbered n (slEvents l')"
    using assms by (auto simp: settle_step_def bindE_eq_Inr Let_def intro!: numbered_append)
qed

lemma settle_fills_adds:
  assumes "settle_fills n k fills l = Inr l'"
  shows "extends n (slState l) (slState l') \<and> (numbered n (slEvents l) \<longrightarrow> numbered n (slEvents l'))"
  using assms
proof (induction fills arbitrary: k l)
  case (Cons fill fills)
  then obtain l1 where l1: "settle_step n k fill l = Inr l1" "settle_fills n (k + 1) fills l1 = Inr l'"
    by (auto simp: bindE_eq_Inr)
  show ?case using settle_step_adds [OF l1(1)] Cons.IH [OF l1(2)] by (blast intro: extends_trans)
qed simp

lemma submit_release_posted:
  assumes "submit_release n asset desired order s = Inr (s', order')"
  shows "extends n s s'"
proof -
  let ?r = "sub64 (oHeldAmount order) desired"
  let ?first = "if ?r > 0
        then bindE (Release (sLedger s) (release_tx n) (''order-release:'' @ oID order) (oAccountID order) asset ?r) (\<lambda>l.
               Inr (s\<lparr> sLedger := l \<rparr>, order\<lparr> oHeldAmount := sub64 (oHeldAmount order) ?r \<rparr>))
        else Inr (s, order)"
  have "\<not> oHeldAmount order < desired" using assms(1) by (auto simp: submit_release_def)
  then obtain order1 where f: "?first = Inr (s', order1)"
    using assms(1) by (auto simp only: submit_release_def Let_def bindE_eq_Inr if_False split_paired_Ex prod.case sum.inject prod.inject)
  show ?thesis
  proof (cases "?r > 0")
    case True
    then show ?thesis using f by (auto simp: bindE_eq_Inr extends_def dest: posted_move(3))
  next
    case False
    then show ?thesis using f by simp
  qed
qed

lemma submit_outcome_adds:
  assumes "submit_outcome n rest stop events order s = Inr (s', events')"
  shows "sLedger s' = sLedger s" "sSequence s' = sSequence s" "numbered n events \<Longrightarrow> numbered n events'"
  using assms
  by (auto simp: submit_outcome_def bindE_eq_Inr rested_event_def filled_event_def canceled_event_def
      intro!: numbered_append split: if_splits)

lemma submit_finish_adds:
  assumes "submit_finish n asset r l = Inr (s', res)" "numbered n (slEvents l)"
  shows "extends n (slState l) s'" "rSequence res = n" "numbered n (rEvents res)"
proof -
  let ?events = "if mrStopReason r = StopSelfTrade then appendEvent (slEvents l) (self_trade_event n (slOrder l)) else slEvents l"
  from assms(1) obtain status desired s1 order1 s2 events where
    rel: "submit_release n asset desired ((slOrder l)\<lparr> oStatus := status \<rparr>) (slState l) = Inr (s1, order1)"
    and out: "submit_outcome n (shouldRest (slOrder l) (mrStopReason r)) (mrStopReason r) ?events order1 s1 = Inr (s2, events)"
    and res: "sLedger s' = sLedger s2" "sSequence s' = sSequence s2" "rSequence res = n" "rEvents res = events"
    by (auto simp: submit_finish_def Let_def bindE_eq_Inr split del: if_split)
  have "numbered n ?events" using assms(2) by (simp add: numbered_append self_trade_event_def)
  then show "numbered n (rEvents res)" using submit_outcome_adds(3) [OF out] res(4) by simp
  show "rSequence res = n" by (rule res(3))
  show "extends n (slState l) s'"
    using extends_same [OF submit_release_posted [OF rel]] submit_outcome_adds(1,2) [OF out] res(1,2) by simp
qed


lemma submit_reserve_adds:
  assumes "submit_reserve n request order s = Inr (s', res)"
  shows "extends n s s'" "rSequence res = n" "numbered n (rEvents res)"
proof -
  from assms obtain asset amount where ra: "reserveFor (sMarket s) order = Inr (asset, amount)"
    by (auto simp: submit_reserve_def bindE_eq_Inr)
  let ?order = "order\<lparr> oHeldAsset := asset, oHeldAmount := amount \<rparr>"
  let ?hold = "Hold (sLedger s) (hold_tx n) (''order-hold:'' @ oID ?order) (oAccountID ?order) asset amount"
  have "extends n s s' \<and> rSequence res = n \<and> numbered n (rEvents res)"
  proof (cases ?hold)
    case (Inl err)
    then show ?thesis using assms ra
      by (auto simp: submit_reserve_def rejectOrder_def Let_def extends_def split: if_splits intro!: numbered_single)
  next
    case (Inr l)
    then have m: "submit_match n request asset ?order (s\<lparr> sLedger := l \<rparr>) = Inr (s', res)"
      using assms ra by (simp add: submit_reserve_def)
    then obtain book order1 r lp where
      fills: "settle_fills n 1 (mrFills r) \<lparr> slState = s\<lparr> sLedger := l, sBook := book \<rparr>, slOrder = order1,
          slEvents = [accepted_event n ?order], slRemainingQuantity = nQuantity request,
          slRemainingQuoteBudget = nQuoteBudget request \<rparr> = Inr lp"
      and fin: "submit_finish n asset r lp = Inr (s', res)"
      by (auto simp: submit_match_def bindE_eq_Inr)
    have ev: "numbered n [accepted_event n ?order]" by (simp add: numbered_single accepted_event_def)
    note F = settle_fills_adds [OF fills]
    have n: "numbered n (slEvents lp)" using F ev by simp
    have "extends n s (s\<lparr> sLedger := l, sBook := book \<rparr>)" using posted_move(2) [OF Inr] by (simp add: extends_def)
    also have "extends n \<dots> (slState lp)" using F by simp
    also have "extends n (slState lp) s'" by (rule submit_finish_adds(1) [OF fin n])
    finally show ?thesis using submit_finish_adds(2,3) [OF fin n] by simp
  qed
  then show "extends n s s'" "rSequence res = n" "numbered n (rEvents res)" by simp_all
qed

lemma apply_command_adds:
  assumes "apply_command cmd s = Inr (s', res)"
  shows "extends (cmdSequence cmd) s s' \<and> rSequence res = cmdSequence cmd \<and>
    numbered (cmdSequence cmd) (rEvents res)"
proof (cases "cmdKind cmd")
  case CommandKindFund
  then show ?thesis using assms
    by (auto simp: apply_command_def applyFund_def bindE_eq_Inr Let_def split: option.splits
        simp: extends_def intro!: numbered_single dest: posted_move)
next
  case CommandKindSubmitOrder
  have rej: "extends n s (fst (rejectOrder n order reason s)) \<and> rSequence (snd (rejectOrder n order reason s)) = n \<and>
      numbered n (rEvents (snd (rejectOrder n order reason s)))" for n order reason
    by (auto simp: rejectOrder_def Let_def extends_def intro!: numbered_single)
  obtain request where r: "cmdSubmit cmd = Some request"
    using assms CommandKindSubmitOrder by (auto simp: apply_command_def applySubmit_def split: option.splits)
  let ?order = "new_order (sMarket s) (cmdSequence cmd) request"
  have "(\<exists>reason. rejectOrder (cmdSequence cmd) ?order reason s = (s', res)) \<or> submit_reserve (cmdSequence cmd) request ?order s = Inr (s', res)"
    using assms CommandKindSubmitOrder r
    by (auto simp: apply_command_def applySubmit_def bindE_eq_Inr Let_def split: if_splits)
  then show ?thesis
  proof
    assume "\<exists>reason. rejectOrder (cmdSequence cmd) ?order reason s = (s', res)"
    then show ?thesis using rej by (metis fst_conv snd_conv)
  next
    assume "submit_reserve (cmdSequence cmd) request ?order s = Inr (s', res)"
    then show ?thesis using submit_reserve_adds by blast
  qed
next
  case CommandKindCancelOrder
  then show ?thesis using assms
    by (auto simp: apply_command_def applyCancel_def cancelRejected_def bindE_eq_Inr Let_def split: option.splits if_splits
        simp: extends_def intro!: numbered_single dest: posted_move)
next
  case (CommandKindOther k)
  then show ?thesis using assms by (simp add: apply_command_def)
qed


section \<open>What a record of the log says\<close>

lemma refuse_eq_Inr: "(if b then Inl e else x) = Inr t \<longleftrightarrow> \<not> b \<and> x = Inr t"
  "(case y of Inl e \<Rightarrow> Inl (g e) | Inr z \<Rightarrow> f z) = Inr t \<longleftrightarrow> (\<exists>z. y = Inr z \<and> f z = Inr t)"
  by (auto split: sum.splits)

lemma replay_trial_adds:
  assumes "replay_trial m rec s = Inr t"
  shows "cmdSequence (recCommand rec) = sSequence s + 1" "sSequence t = sSequence s + 1"
    "rSequence (recResult rec) = sSequence s + 1" "numbered (sSequence s + 1) (rEvents (recResult rec))"
    "cmdFingerprint (recCommand rec) \<noteq> []" "kMarketID (cmdRequestKey (recCommand rec)) = mID m"
    "IdempotencyKey_Validate (cmdRequestKey (recCommand rec)) = Inr ()"
    "\<exists>l l'. post_all (recJournal rec) l = Inr l'" "\<forall>tx \<in> set (recJournal rec). own_tx (sSequence s + 1) (txID tx)"
proof -
  let ?cmd = "recCommand rec"
  from assms have g: "cmdSequence ?cmd = sSequence s + 1" "cmdFingerprint ?cmd \<noteq> []" "kMarketID (cmdRequestKey ?cmd) = mID m"
    "IdempotencyKey_Validate (cmdRequestKey ?cmd) = Inr ()"
    by (auto simp: replay_trial_def Let_def split: if_splits)
  let ?kept = "\<lambda>s1. if recSchemaVersion rec = LegacySchemaVersion \<or> remembered ?cmd then remember ?cmd (recResult rec) s1 else s1"
  from assms obtain trial s1 journal proj where
    trial: "(if recSchemaVersion rec = CurrentSchemaVersion then clone s else Inr s) = Inr trial"
    and ap: "apply_command ?cmd (trial\<lparr> sSequence := cmdSequence ?cmd \<rparr>) = Inr (s1, recResult rec)"
    and co: "collect_trial ?cmd (JournalLen (sLedger trial)) (s1, recResult rec) = Inr (s1, recResult rec, recJournal rec, proj)"
    and cf: "compactForSchema (recSchemaVersion rec) (?kept s1) = Inr t"
    by (auto simp: replay_trial_def Let_def bindE_eq_Inr refuse_eq_Inr collect_trial_def
        split del: if_split)
  note A = apply_command_adds [OF ap]
  have "sSequence t = sSequence (?kept s1)" using cf
    by (auto simp: compactForSchema_def Let_def bindE_eq_Inr compactEphemeralSystemHistory_def split: if_splits)
  also have "\<dots> = sSequence s1" by simp
  finally show "sSequence t = sSequence s + 1" using A g(1) by (simp add: extends_def)
  show "cmdSequence ?cmd = sSequence s + 1" "cmdFingerprint ?cmd \<noteq> []" "kMarketID (cmdRequestKey ?cmd) = mID m"
    "IdempotencyKey_Validate (cmdRequestKey ?cmd) = Inr ()" by (fact g)+
  show "rSequence (recResult rec) = sSequence s + 1" "numbered (sSequence s + 1) (rEvents (recResult rec))" using A g(1) by simp_all
  obtain txs where txs: "post_all txs (sLedger trial) = Inr (sLedger s1)" "\<forall>tx \<in> set txs. own_tx (sSequence s + 1) (txID tx)"
    using A g(1) by (auto simp: extends_def posted_def)
  have "recJournal rec = txs"
    using co post_all_journal [OF txs(1)]
    by (auto simp: collect_trial_def bindE_eq_Inr JournalFrom_def JournalLen_def split: if_splits)
  then show "\<exists>l l'. post_all (recJournal rec) l = Inr l'" "\<forall>tx \<in> set (recJournal rec). own_tx (sSequence s + 1) (txID tx)"
    using txs by blast+
qed

definition record_facts :: "'b Codec \<Rightarrow> Market \<Rightarrow> nat \<Rightarrow> Record \<Rightarrow> bool" where
  "record_facts c m n rec \<longleftrightarrow>
     cmdSequence (recCommand rec) = n \<and> rSequence (recResult rec) = n \<and> numbered n (rEvents (recResult rec)) \<and>
     cmdFingerprint (recCommand rec) \<noteq> [] \<and> kMarketID (cmdRequestKey (recCommand rec)) = mID m \<and>
     IdempotencyKey_Validate (cmdRequestKey (recCommand rec)) = Inr () \<and> (\<exists>t. hashes_to c t (recStateHash rec)) \<and>
     (\<exists>l l'. post_all (recJournal rec) l = Inr l') \<and> (\<forall>tx \<in> set (recJournal rec). own_tx n (txID tx))"

lemma replayed_facts: "replayed c m rec s t \<Longrightarrow> record_facts c m (sSequence s + 1) rec \<and> sSequence t = sSequence s + 1"
  unfolding record_facts_def replayed_def using replay_trial_adds [of m rec s t] by blast

lemma replays_facts:
  assumes "replays c m recs s t"
  shows "sSequence t = sSequence s + length recs \<and> (\<forall>i < length recs. record_facts c m (sSequence s + i + 1) (recs ! i)) \<and>
    (recs \<noteq> [] \<longrightarrow> hashes_to c t (recStateHash (last recs)))"
  using assms
proof (induction recs arbitrary: s)
  case (Cons rec recs)
  then obtain u where u: "replayed c m rec s u" "replays c m recs u t" by auto
  note F = replayed_facts [OF u(1)]
  have "record_facts c m (sSequence s + i + 1) ((rec # recs) ! i)" if "i < length (rec # recs)" for i
    using that F Cons.IH [OF u(2)] by (cases i) auto
  moreover have "recs = [] \<Longrightarrow> hashes_to c t (recStateHash rec)" using u by (simp add: replayed_def)
  ultimately show ?case using F Cons.IH [OF u(2)] by simp
qed simp

lemma log_records:
  assumes "log_ok c m recs sn s"
  shows "i < length recs \<Longrightarrow> record_facts c m (i + 1) (recs ! i)"
    and "recs \<noteq> [] \<Longrightarrow> hashes_to c s (recStateHash (last recs))"
proof -
  from log_okD(5) [OF assms] obtain s0 where s0: "newState m = Inr s0" "replays c m recs s0 s" by blast
  have "sSequence s0 = 0" using s0(1) by (auto simp: newState_def bindE_eq_Inr)
  then show "i < length recs \<Longrightarrow> record_facts c m (i + 1) (recs ! i)" "recs \<noteq> [] \<Longrightarrow> hashes_to c s (recStateHash (last recs))"
    using replays_facts [OF s0(2)] by auto
qed

section \<open>Identifiers of transactions\<close>

lemma seq20_digits: "list_all is_digit (seq20 n)" "seq20 n \<noteq> []"
  by (auto simp: seq20_def pad0_digits show_nat_digits) (simp add: pad0_def)

definition tx_sequence :: "string \<Rightarrow> string" where
  "tx_sequence i = takeWhile is_digit (dropWhile (\<lambda>c. \<not> is_digit c) i)"

lemma digits_drop: "list_all is_digit xs \<Longrightarrow> xs \<noteq> [] \<Longrightarrow> dropWhile (\<lambda>c. \<not> is_digit c) (xs @ ys) = xs @ ys"
  by (cases xs) auto

lemma digits_take: "list_all is_digit xs \<Longrightarrow> takeWhile is_digit (xs @ ys) = xs @ takeWhile is_digit ys"
  by (simp add: takeWhile_append2 list_all_iff)

lemma nondigit_letters: "list_all (\<lambda>c. \<not> is_digit c) ''fund:holdreasctm-Tki''"
  by (simp add: is_digit_def)

lemma own_tx_sequence: "own_tx n i \<Longrightarrow> tx_sequence i = seq20 n"
proof -
  have d: "dropWhile (\<lambda>c. \<not> is_digit c) (seq20 n) = seq20 n" "takeWhile is_digit (seq20 n) = seq20 n"
    using digits_drop [OF seq20_digits, of n "[]"] digits_take [OF seq20_digits(1), of n "[]"] by simp_all
  have dc: "dropWhile (\<lambda>c. \<not> is_digit c) (seq20 n @ ys) = seq20 n @ ys" "takeWhile is_digit (seq20 n @ ys) = seq20 n @ takeWhile is_digit ys" for ys
    using digits_drop [OF seq20_digits, of n ys] digits_take [OF seq20_digits(1), of n ys] by simp_all
  assume "own_tx n i"
  then show ?thesis
    by (auto simp: own_tx_def tx_sequence_def fund_tx_def hold_tx_def release_tx_def cancel_tx_def trade_tx_def maker_tx_def
        trade_id_def d dc nondigit_letters [simplified])
qed

lemma own_tx_inj: "own_tx n i \<Longrightarrow> own_tx k i \<Longrightarrow> n = k"
  by (drule own_tx_sequence)+ (simp add: seq20_def)

end
