(* ===== verification/Reliability.thy ===== *)
theory Reliability
  imports Exchange
begin

text \<open>
  The package \<open>trading/reliability\<close> and its client: the reconciler of event cursors
  (\<open>reconcile.go\<close>), the audit of a complete event history with the proof of recovery (\<open>audit.go\<close>),
  and the subscription to events (\<open>SubscribeEvents\<close> of \<open>trading/rpc/server/server.go\<close>), which sends
  what the reconciler lets through.

  \<^item> Sequences and event indices are natural numbers; the one increment that can leave its type
    (\<open>nextCursor\<close> at the greatest \<open>uint64\<close>) is the source's own check. The conversion of an event
    index of a record to \<open>uint32\<close> is the identity: a record has fewer than \<open>2 ^ 32\<close> events.
  \<^item> The consumer of the reconciler (\<open>ApplyEvent\<close>) is a function that takes and returns the state of
    the consumer. \<open>Reconcile\<close> returns its report with its error.
  \<^item> The texts of errors are left out; \<open>hex.DecodeString\<close> accepts an even number of digits of either case.
\<close>

section \<open>Cursors\<close>

record Cursor =
  cuMarketSequence :: nat
  cuEventIndex :: nat

record Checkpoint =
  ckCursor :: Cursor
  ckBatchEventCount :: nat

record EventEnvelope =
  eeCursor :: Cursor
  eeBatchEventCount :: nat
  eeEvent :: Event

record ReconcileReport =
  rrStart :: Cursor
  rrHead :: Cursor
  rrEnd :: Cursor
  rrApplied :: nat
  rrDuplicates :: nat
  rrComplete :: bool

record EventReconciler =
  rcCheckpoint :: Checkpoint
  rcHead :: Cursor
  rcReconcileStarted :: bool
  rcComplete :: bool

type_synonym 'a ApplyEvent = "EventEnvelope \<Rightarrow> 'a \<Rightarrow> 'a \<times> unit res"

definition zeroCursor :: Cursor where "zeroCursor = \<lparr> cuMarketSequence = 0, cuEventIndex = 0 \<rparr>"

definition zeroReport :: ReconcileReport where
  "zeroReport = \<lparr> rrStart = zeroCursor, rrHead = zeroCursor, rrEnd = zeroCursor, rrApplied = 0, rrDuplicates = 0,
     rrComplete = False \<rparr>"

definition validateCursor :: "Cursor \<Rightarrow> unit res" where
  "validateCursor cursor =
     (if cuMarketSequence cursor = 0 \<and> cuEventIndex cursor \<noteq> 0 then Inl ErrInvalidCursor else Inr ())"

definition validateCheckpoint :: "Checkpoint \<Rightarrow> unit res" where
  "validateCheckpoint checkpoint =
     bindE (validateCursor (ckCursor checkpoint)) (\<lambda>_.
       if cuMarketSequence (ckCursor checkpoint) = 0
       then if ckBatchEventCount checkpoint \<noteq> 0 then Inl ErrInvalidCursor else Inr ()
       else if ckBatchEventCount checkpoint = 0 \<or> cuEventIndex (ckCursor checkpoint) > ckBatchEventCount checkpoint
       then Inl ErrInvalidCursor
       else Inr ())"

definition validateEnvelope :: "EventEnvelope \<Rightarrow> unit res" where
  "validateEnvelope envelope =
     (if cuEventIndex (eeCursor envelope) = 0 then Inl ErrInvalidCursor
      else bindE (validateCheckpoint \<lparr> ckCursor = eeCursor envelope, ckBatchEventCount = eeBatchEventCount envelope \<rparr>) (\<lambda>_.
        if evSequence (eeEvent envelope) \<noteq> cuMarketSequence (eeCursor envelope) \<or>
           evIndex (eeEvent envelope) \<noteq> cuEventIndex (eeCursor envelope)
        then Inl ErrCursorConflict
        else Inr ()))"

definition nextCursor :: "Checkpoint \<Rightarrow> Cursor res" where
  "nextCursor checkpoint =
     (let cursor = ckCursor checkpoint in
      if cuMarketSequence cursor = 0 then Inr \<lparr> cuMarketSequence = 1, cuEventIndex = 1 \<rparr>
      else if cuEventIndex cursor < ckBatchEventCount checkpoint
      then Inr \<lparr> cuMarketSequence = cuMarketSequence cursor, cuEventIndex = cuEventIndex cursor + 1 \<rparr>
      else if int (cuMarketSequence cursor) = 2 ^ 64 - 1 then Inl ErrInvalidCursor
      else Inr \<lparr> cuMarketSequence = cuMarketSequence cursor + 1, cuEventIndex = 1 \<rparr>)"

definition compareCursor :: "Cursor \<Rightarrow> Cursor \<Rightarrow> int" where
  "compareCursor left right =
     (if cuMarketSequence left < cuMarketSequence right then -1
      else if cuMarketSequence left > cuMarketSequence right then 1
      else if cuEventIndex left < cuEventIndex right then -1
      else if cuEventIndex left > cuEventIndex right then 1
      else 0)"

section \<open>The reconciler\<close>

definition NewEventReconciler :: "Checkpoint \<Rightarrow> EventReconciler res" where
  "NewEventReconciler checkpoint =
     bindE (validateCheckpoint checkpoint) (\<lambda>_.
       Inr \<lparr> rcCheckpoint = checkpoint, rcHead = zeroCursor, rcReconcileStarted = False, rcComplete = False \<rparr>)"

text \<open>The body of the loop of \<open>Reconcile\<close>; an error comes with the report so far.\<close>

definition reconcile_event ::
  "'a ApplyEvent \<Rightarrow> Cursor \<Rightarrow> EventEnvelope \<Rightarrow> (EventReconciler \<times> 'a) \<times> ReconcileReport
     \<Rightarrow> ((EventReconciler \<times> 'a) \<times> ReconcileReport) \<times> unit res" where
  "reconcile_event apply head envelope st =
     (let ((r, a), report) = st;
          checkpoint = rcCheckpoint r
      in case validateEnvelope envelope of
           Inl err \<Rightarrow> (st, Inl err)
         | Inr _ \<Rightarrow>
             if compareCursor (eeCursor envelope) head > 0 then (st, Inl ErrCursorConflict)
             else
               (let comparison = compareCursor (eeCursor envelope) (ckCursor checkpoint) in
                if comparison \<le> 0
                then if comparison = 0 \<and> ckBatchEventCount checkpoint \<noteq> eeBatchEventCount envelope
                     then (st, Inl ErrCursorConflict)
                     else (((r, a), report\<lparr> rrDuplicates := rrDuplicates report + 1 \<rparr>), Inr ())
                else
                  (case nextCursor checkpoint of
                     Inl err \<Rightarrow> (st, Inl err)
                   | Inr expected \<Rightarrow>
                       if eeCursor envelope \<noteq> expected then (st, Inl ErrCursorGap)
                       else if cuMarketSequence (eeCursor envelope) = cuMarketSequence (ckCursor checkpoint) \<and>
                               cuMarketSequence (ckCursor checkpoint) \<noteq> 0 \<and>
                               eeBatchEventCount envelope \<noteq> ckBatchEventCount checkpoint
                       then (st, Inl ErrCursorConflict)
                       else
                         (case apply envelope a of
                            (a', Inl err) \<Rightarrow> (((r, a'), report), Inl err)
                          | (a', Inr _) \<Rightarrow>
                              (((r\<lparr> rcCheckpoint := \<lparr> ckCursor = eeCursor envelope,
                                     ckBatchEventCount = eeBatchEventCount envelope \<rparr> \<rparr>, a'),
                                report\<lparr> rrApplied := rrApplied report + 1, rrEnd := eeCursor envelope \<rparr>), Inr ())))))"

fun reconcile_events ::
  "'a ApplyEvent \<Rightarrow> Cursor \<Rightarrow> EventEnvelope list \<Rightarrow> (EventReconciler \<times> 'a) \<times> ReconcileReport
     \<Rightarrow> ((EventReconciler \<times> 'a) \<times> ReconcileReport) \<times> unit res" where
  "reconcile_events apply head [] st = (st, Inr ())"
| "reconcile_events apply head (envelope # envelopes) st =
     (case reconcile_event apply head envelope st of
        (st', Inl err) \<Rightarrow> (st', Inl err)
      | (st', Inr _) \<Rightarrow> reconcile_events apply head envelopes st')"

definition Reconcile ::
  "Cursor \<Rightarrow> EventEnvelope list \<Rightarrow> 'a ApplyEvent option \<Rightarrow> EventReconciler \<times> 'a
     \<Rightarrow> (EventReconciler \<times> 'a) \<times> ReconcileReport \<times> unit res" where
  "Reconcile head events apply x =
     (case apply of
        None \<Rightarrow> (x, zeroReport, Inl (ErrPlain ''event apply function is required''))
      | Some f \<Rightarrow>
          (case validateCursor head of
             Inl err \<Rightarrow> (x, zeroReport, Inl err)
           | Inr _ \<Rightarrow>
               (let cursor = ckCursor (rcCheckpoint (fst x));
                    report = \<lparr> rrStart = cursor, rrHead = head, rrEnd = cursor, rrApplied = 0, rrDuplicates = 0,
                               rrComplete = False \<rparr>
                in if compareCursor head cursor < 0 then (x, report, Inl ErrCursorRegression)
                   else
                     (case reconcile_events f head events (x, report) of
                        ((x', report'), Inl err) \<Rightarrow> (x', report', Inl err)
                      | (((r, a), report'), Inr _) \<Rightarrow>
                          (let complete = (ckCursor (rcCheckpoint r) = head)
                           in ((r\<lparr> rcHead := head, rcReconcileStarted := True, rcComplete := complete \<rparr>, a),
                               report'\<lparr> rrEnd := ckCursor (rcCheckpoint r), rrComplete := complete \<rparr>, Inr ()))))))"

definition Reconciler_Checkpoint :: "EventReconciler \<Rightarrow> Checkpoint" where
  "Reconciler_Checkpoint r = rcCheckpoint r"

definition Reconciler_RequireWritable :: "EventReconciler \<Rightarrow> unit res" where
  "Reconciler_RequireWritable r =
     (if \<not> rcReconcileStarted r \<or> \<not> rcComplete r \<or> ckCursor (rcCheckpoint r) \<noteq> rcHead r
      then Inl ErrReconcileIncomplete else Inr ())"

section \<open>The subscription to events\<close>

text \<open>
  \<open>EventSource\<close> gives the size of a batch and the events behind a cursor; \<open>convert\<close> is \<open>toEvent\<close>, the
  protocol buffer of an event, and \<open>send\<close> is \<open>stream.Send\<close>. A poll is one round of the loop; the loop
  goes on as long as the rounds return a state. Errors of the stream are returned as they are.
\<close>

record StoredEvent =
  seMarketID :: MarketID
  seCursor :: Cursor
  seBatchEventCount :: nat
  seEvent :: Event

record 'w Message =
  msMarketId :: MarketID
  msSequence :: string
  msEventIndex :: nat
  msEvent :: 'w

definition cursorAfter :: "Cursor \<Rightarrow> Cursor \<Rightarrow> bool" where
  "cursorAfter left right \<longleftrightarrow> cuMarketSequence left > cuMarketSequence right \<or>
     (cuMarketSequence left = cuMarketSequence right \<and> cuEventIndex left > cuEventIndex right)"

definition parseCursor :: "string \<Rightarrow> nat \<Rightarrow> Cursor res" where
  "parseCursor sequence eventIndex =
     (if sequence = []
      then if eventIndex \<noteq> 0 then Inl (ErrPlain ''event index requires a sequence'') else Inr zeroCursor
      else if list_all is_digit sequence \<and> read_nat sequence < 2 ^ 64
      then Inr \<lparr> cuMarketSequence = read_nat sequence, cuEventIndex = eventIndex \<rparr>
      else Inl (ErrPlain ''cursor_sequence must be an unsigned integer''))"

record Subscription =
  suCursor :: Cursor
  suReconciler :: EventReconciler

definition subscribe_start ::
  "(nat \<Rightarrow> nat option res) option \<Rightarrow> Market res \<Rightarrow> MarketID \<Rightarrow> string \<Rightarrow> nat \<Rightarrow> Subscription res" where
  "subscribe_start batchEventCount market requested sequence eventIndex =
     bindE market (\<lambda>m.
       if requested = [] \<or> requested \<noteq> mID m then Inl (ErrPlain ''unknown market_id'')
       else case batchEventCount of
         None \<Rightarrow> Inl ErrUnavailable
       | Some batch \<Rightarrow>
           bindE (parseCursor sequence eventIndex) (\<lambda>cursor.
           bindE (if cuMarketSequence cursor > 0
                  then (case batch (cuMarketSequence cursor) of
                          Inl _ \<Rightarrow> Inl ErrUnavailable
                        | Inr None \<Rightarrow> Inl (ErrPlain ''cursor sequence is unavailable'')
                        | Inr (Some n) \<Rightarrow> Inr n)
                  else Inr 0) (\<lambda>eventCount.
           bindE (NewEventReconciler \<lparr> ckCursor = cursor, ckBatchEventCount = eventCount \<rparr>) (\<lambda>reconciler.
             Inr \<lparr> suCursor = cursor, suReconciler = reconciler \<rparr>))))"

text \<open>The head is the greatest cursor of the batch and the checkpoint.\<close>

definition poll_envelope :: "Market \<Rightarrow> StoredEvent \<Rightarrow> Cursor \<times> EventEnvelope list \<Rightarrow> (Cursor \<times> EventEnvelope list) res" where
  "poll_envelope market stored acc =
     (let (head, envelopes) = acc in
      if seMarketID stored \<noteq> mID market then Inl (ErrPlain ''event source returned another market'')
      else Inr (if cursorAfter (seCursor stored) head then seCursor stored else head,
                envelopes @ [\<lparr> eeCursor = seCursor stored, eeBatchEventCount = seBatchEventCount stored,
                               eeEvent = seEvent stored \<rparr>]))"

definition send_event ::
  "(Market \<Rightarrow> Event \<Rightarrow> 'w res) \<Rightarrow> ('w Message \<Rightarrow> 'a \<Rightarrow> 'a \<times> unit res) \<Rightarrow> Market \<Rightarrow> 'a ApplyEvent" where
  "send_event convert send market event a =
     (case convert market (eeEvent event) of
        Inl err \<Rightarrow> (a, Inl err)
      | Inr converted \<Rightarrow>
          send \<lparr> msMarketId = mID market, msSequence = show_nat (cuMarketSequence (eeCursor event)),
                 msEventIndex = cuEventIndex (eeCursor event), msEvent = converted \<rparr> a)"

definition subscribe_poll ::
  "(Market \<Rightarrow> Event \<Rightarrow> 'w res) \<Rightarrow> ('w Message \<Rightarrow> 'a \<Rightarrow> 'a \<times> unit res) \<Rightarrow> Market
     \<Rightarrow> (Cursor \<Rightarrow> StoredEvent list res) \<Rightarrow> Subscription \<times> 'a \<Rightarrow> (Subscription \<times> 'a) \<times> unit res" where
  "subscribe_poll convert send market eventsAfter x =
     (let (s, a) = x in
      case eventsAfter (suCursor s) of
        Inl _ \<Rightarrow> (x, Inl ErrUnavailable)
      | Inr events \<Rightarrow>
          (case foldE (poll_envelope market) events (ckCursor (Reconciler_Checkpoint (suReconciler s)), []) of
             Inl err \<Rightarrow> (x, Inl err)
           | Inr (head, envelopes) \<Rightarrow>
               (case Reconcile head envelopes (Some (send_event convert send market)) (suReconciler s, a) of
                  ((r, a'), report, Inl err) \<Rightarrow> ((s\<lparr> suReconciler := r \<rparr>, a'), Inl err)
                | ((r, a'), report, Inr _) \<Rightarrow> ((s\<lparr> suCursor := rrEnd report, suReconciler := r \<rparr>, a'), Inr ()))))"

fun subscribe_loop ::
  "(Market \<Rightarrow> Event \<Rightarrow> 'w res) \<Rightarrow> ('w Message \<Rightarrow> 'a \<Rightarrow> 'a \<times> unit res) \<Rightarrow> Market
     \<Rightarrow> (Cursor \<Rightarrow> StoredEvent list res) list \<Rightarrow> Subscription \<times> 'a \<Rightarrow> (Subscription \<times> 'a) \<times> unit res" where
  "subscribe_loop convert send market [] x = (x, Inl ErrContext)"
| "subscribe_loop convert send market (eventsAfter # polls) x =
     (case subscribe_poll convert send market eventsAfter x of
        (x', Inl err) \<Rightarrow> (x', Inl err)
      | (x', Inr _) \<Rightarrow> subscribe_loop convert send market polls x')"

section \<open>The audit of a history\<close>

record LedgerProof =
  lpMarketID :: MarketID
  lpFirstSequence :: nat
  lpFinalSequence :: nat
  lpFinalStateHash :: string
  lpRecords :: nat
  lpTransactions :: nat
  lpEntries :: nat
  lpAssetNet :: "(Asset, int) fmap"

record RecoveryProof =
  rpLedger :: LedgerProof
  rpRestoredSequence :: nat
  rpRestoredStateHash :: string

definition supportedRecordSchema :: "nat \<Rightarrow> bool" where
  "supportedRecordSchema v \<longleftrightarrow> v = LegacySchemaVersion \<or> v = PreviousSchemaVersion \<or> v = CurrentSchemaVersion"

definition hex_digit :: "char \<Rightarrow> bool" where
  "hex_digit c \<longleftrightarrow> is_digit c \<or> 97 \<le> (of_char c :: nat) \<and> (of_char c :: nat) \<le> 102 \<or>
     65 \<le> (of_char c :: nat) \<and> (of_char c :: nat) \<le> 70"

definition validStateHash :: "string \<Rightarrow> bool" where
  "validStateHash stateHash \<longleftrightarrow> list_all hex_digit stateHash \<and> length stateHash = 64"

text \<open>The loops over entries, transactions and records; the variables are the sums of the transaction,
  the sums and counts of the proof and the transaction identifiers so far.\<close>

definition audit_entry :: "Entry \<Rightarrow> (Asset, int) fmap \<times> LedgerProof \<Rightarrow> ((Asset, int) fmap \<times> LedgerProof) res" where
  "audit_entry entry st =
     (let (transactionNet, proof) = st in
      if eAccount entry = [] \<or> eAsset entry = [] \<or> eAmount entry = 0 then Inl ErrLedgerProofFailed
      else case CheckedAdd (fmget 0 transactionNet (eAsset entry)) (eAmount entry) of
             Inl _ \<Rightarrow> Inl ErrLedgerProofFailed
           | Inr nxt \<Rightarrow>
               (case CheckedAdd (fmget 0 (lpAssetNet proof) (eAsset entry)) (eAmount entry) of
                  Inl _ \<Rightarrow> Inl ErrLedgerProofFailed
                | Inr assetTotal \<Rightarrow>
                    Inr (fmupd (eAsset entry) nxt transactionNet,
                         proof\<lparr> lpAssetNet := fmupd (eAsset entry) assetTotal (lpAssetNet proof),
                                lpEntries := lpEntries proof + 1 \<rparr>)))"

definition audit_transaction :: "Transaction \<Rightarrow> string fset \<times> LedgerProof \<Rightarrow> (string fset \<times> LedgerProof) res" where
  "audit_transaction transaction st =
     (let (transactionIDs, proof) = st in
      if txID transaction = [] \<or> txReference transaction = [] \<or> length (txEntries transaction) < 2
      then Inl ErrLedgerProofFailed
      else if txID transaction |\<in>| transactionIDs then Inl ErrLedgerProofFailed
      else bindE (foldE audit_entry (txEntries transaction) (fmempty, proof)) (\<lambda>(transactionNet, proof1).
        if \<not> fmpred (\<lambda>_ net. net = 0) transactionNet then Inl ErrLedgerProofFailed
        else Inr (finsert (txID transaction) transactionIDs,
                  proof1\<lparr> lpTransactions := lpTransactions proof1 + 1 \<rparr>)))"

definition audit_record :: "Market \<Rightarrow> nat \<Rightarrow> Record \<Rightarrow> string fset \<times> LedgerProof \<Rightarrow> (string fset \<times> LedgerProof) res" where
  "audit_record market recordIndex rec st =
     (let wantSequence = recordIndex + 1;
          (transactionIDs, proof0) = st;
          proof = (if recordIndex = 0 then proof0\<lparr> lpFirstSequence := wantSequence \<rparr> else proof0)
      in if recMarketID rec \<noteq> mID market then Inl ErrLedgerProofFailed
         else if \<not> supportedRecordSchema (recSchemaVersion rec) then Inl ErrLedgerProofFailed
         else if cmdSequence (recCommand rec) \<noteq> wantSequence \<or> rSequence (recResult rec) \<noteq> wantSequence
         then Inl ErrLedgerProofFailed
         else if cmdFingerprint (recCommand rec) = [] \<or> kMarketID (cmdRequestKey (recCommand rec)) \<noteq> mID market
         then Inl ErrLedgerProofFailed
         else if IdempotencyKey_Validate (cmdRequestKey (recCommand rec)) \<noteq> Inr () then Inl ErrLedgerProofFailed
         else if \<not> list_all (\<lambda>(eventIndex, event). evSequence event = wantSequence \<and> evIndex event = eventIndex + 1)
                      (enumerate 0 (rEvents (recResult rec)))
         then Inl ErrLedgerProofFailed
         else bindE (foldE audit_transaction (recJournal rec) (transactionIDs, proof)) (\<lambda>(transactionIDs1, proof1).
           if \<not> validStateHash (recStateHash rec) then Inl ErrLedgerProofFailed
           else Inr (transactionIDs1, proof1\<lparr> lpFinalSequence := wantSequence,
                                              lpFinalStateHash := recStateHash rec \<rparr>)))"

fun audit_records :: "Market \<Rightarrow> nat \<Rightarrow> Record list \<Rightarrow> string fset \<times> LedgerProof \<Rightarrow> (string fset \<times> LedgerProof) res" where
  "audit_records market recordIndex [] st = Inr st"
| "audit_records market recordIndex (rec # records) st =
     bindE (audit_record market recordIndex rec st) (audit_records market (recordIndex + 1) records)"

definition AuditRecords :: "Market \<Rightarrow> Record list \<Rightarrow> LedgerProof res" where
  "AuditRecords market records =
     (case Market_Validate market of
        Inl _ \<Rightarrow> Inl ErrLedgerProofFailed
      | Inr _ \<Rightarrow>
          bindE (audit_records market 0 records
                   ({||}, \<lparr> lpMarketID = mID market, lpFirstSequence = 0, lpFinalSequence = 0, lpFinalStateHash = [],
                            lpRecords = length records, lpTransactions = 0, lpEntries = 0, lpAssetNet = fmempty \<rparr>))
            (\<lambda>(_, proof).
               if \<not> fmpred (\<lambda>_ net. net = 0) (lpAssetNet proof) then Inl ErrLedgerProofFailed else Inr proof))"

text \<open>The stores are handed on to \<open>Restore\<close>, which may write a snapshot; \<open>walk\<close> is the order in which
  the last hash walks the requests.\<close>

definition ProveRecovery ::
  "ctx \<Rightarrow> walk \<Rightarrow> Market \<Rightarrow> 's EventStore option \<Rightarrow> ('s, 'b) SnapshotStore option \<Rightarrow> 'b Codec \<Rightarrow> 's
     \<Rightarrow> 's \<times> RecoveryProof res" where
  "ProveRecovery ctx walk market eventLog snapshots c st =
     (case (eventLog, snapshots) of
        (Some es, Some ss) \<Rightarrow>
          (case bindE (esRecordsAfter es ctx 0 st) (AuditRecords market) of
             Inl err \<Rightarrow> (st, Inl err)
           | Inr ledgerProof \<Rightarrow>
               (case Restore ctx market eventLog snapshots c st of
                  (st', Inl err) \<Rightarrow> (st', Inl err)
                | (st', Inr restored) \<Rightarrow>
                    (st',
                     bindE (Exchange_Validate restored) (\<lambda>_.
                     bindE (StateHash (rewalk walk c) restored) (\<lambda>stateHash.
                       if Sequence restored \<noteq> lpFinalSequence ledgerProof then Inl ErrRecoveryDiverged
                       else if lpRecords ledgerProof > 0 \<and> stateHash \<noteq> lpFinalStateHash ledgerProof
                       then Inl ErrRecoveryDiverged
                       else Inr \<lparr> rpLedger = ledgerProof, rpRestoredSequence = Sequence restored,
                                  rpRestoredStateHash = stateHash \<rparr>)))))
      | _ \<Rightarrow> (st, Inl ErrMissingStore))"

end
