(* ===== verification/Reliability_Invariant.thy ===== *)
theory Reliability_Invariant
  imports Reliability Exchange_History
begin

text \<open>
  The reconciler, the subscription and the audit over the log of an exchange.

  \<^item> A chain is a sequence of events in which each is the next one behind its predecessor. The locale
    \<open>event_consumer\<close> is the contract of what the reconciler drives (an event is consumed or leaves the
    consumer as it was); its lemmas show that the consumer only ever sees a chain. The subscription
    is its interpretation.
  \<^item> The events of a log form one chain, and so does what lies behind any cursor of the log; two chains
    from one checkpoint are prefixes of each other. Hence a subscription sends a prefix of the log.
  \<^item> The audit accepts every log that the exchange writes, and what it accepts is numbered, balanced
    and free of repeated transactions.
\<close>

section \<open>Chains of events\<close>

definition checkpoint_of :: "EventEnvelope \<Rightarrow> Checkpoint" where
  "checkpoint_of e = \<lparr> ckCursor = eeCursor e, ckBatchEventCount = eeBatchEventCount e \<rparr>"

definition follows :: "Checkpoint \<Rightarrow> EventEnvelope \<Rightarrow> bool" where
  "follows cp e \<longleftrightarrow> validateEnvelope e = Inr () \<and> nextCursor cp = Inr (eeCursor e) \<and>
     (cuMarketSequence (eeCursor e) = cuMarketSequence (ckCursor cp) \<longrightarrow> cuMarketSequence (ckCursor cp) \<noteq> 0 \<longrightarrow>
      eeBatchEventCount e = ckBatchEventCount cp)"

fun chain :: "Checkpoint \<Rightarrow> EventEnvelope list \<Rightarrow> bool" where
  "chain cp [] = True"
| "chain cp (e # es) \<longleftrightarrow> follows cp e \<and> chain (checkpoint_of e) es"

definition chain_end :: "Checkpoint \<Rightarrow> EventEnvelope list \<Rightarrow> Checkpoint" where
  "chain_end cp es = (if es = [] then cp else checkpoint_of (last es))"

lemma chain_end_simps [simp]:
  "chain_end cp [] = cp" "chain_end cp (e # es) = chain_end (checkpoint_of e) es" "chain_end cp (es @ [e]) = checkpoint_of e"
  by (simp_all add: chain_end_def)

lemma chain_append: "chain cp (xs @ ys) \<longleftrightarrow> chain cp xs \<and> chain (chain_end cp xs) ys"
  by (induction xs arbitrary: cp) auto

lemma chain_end_append [simp]: "chain_end cp (xs @ ys) = chain_end (chain_end cp xs) ys"
  by (induction xs arbitrary: cp) auto

definition cursor_key :: "Cursor \<Rightarrow> nat \<times> nat" where
  "cursor_key c = (cuMarketSequence c, cuEventIndex c)"

lemma cursor_key_inj [simp]: "cursor_key a = cursor_key b \<longleftrightarrow> a = b"
  by (cases a; cases b) (simp add: cursor_key_def)

lemma compareCursor_key:
  "compareCursor a b < 0 \<longleftrightarrow> cursor_key a < cursor_key b" "compareCursor a b > 0 \<longleftrightarrow> cursor_key b < cursor_key a"
  "compareCursor a b = 0 \<longleftrightarrow> a = b" "compareCursor a b \<le> 0 \<longleftrightarrow> cursor_key a \<le> cursor_key b"
  by (cases a; cases b; auto simp: compareCursor_def cursor_key_def less_prod_def less_eq_prod_def)+

lemma nextCursor_less: "nextCursor cp = Inr c \<Longrightarrow> cursor_key (ckCursor cp) < cursor_key c"
  by (auto simp: nextCursor_def Let_def cursor_key_def split: if_splits)

lemma follows_less: "follows cp e \<Longrightarrow> cursor_key (ckCursor cp) < cursor_key (eeCursor e)"
  by (simp add: follows_def nextCursor_less)

lemma chain_less: "chain cp es \<Longrightarrow> e \<in> set es \<Longrightarrow> cursor_key (ckCursor cp) < cursor_key (eeCursor e)"
proof (induction es arbitrary: cp)
  case (Cons x es)
  then show ?case using follows_less [of cp x] by (force simp: checkpoint_of_def intro: less_trans)
qed simp

text \<open>Two chains from one checkpoint: the one that only has events of the other is a prefix of it.\<close>

lemma chain_prefix:
  assumes "chain cp es" "chain cp all" "set es \<subseteq> set all"
  shows "prefix es all"
  using assms
proof (induction es arbitrary: cp all)
  case (Cons e es)
  then obtain x rest where all: "all = x # rest" by (cases all) auto
  have "eeCursor x = eeCursor e" using Cons.prems(1,2) by (simp add: all follows_def)
  moreover have "cursor_key (eeCursor x) < cursor_key (eeCursor y)" if "y \<in> set rest" for y
    using chain_less [of "checkpoint_of x" rest y] Cons.prems(2) that by (simp add: all checkpoint_of_def)
  ultimately have "e = x" using Cons.prems(3) by (force simp: all)
  have "set es \<subseteq> set rest"
  proof
    fix y
    assume y: "y \<in> set es"
    then have "cursor_key (eeCursor e) < cursor_key (eeCursor y)"
      using chain_less [of "checkpoint_of e" es y] Cons.prems(1) by (simp add: checkpoint_of_def)
    then show "y \<in> set rest" using y Cons.prems(3) \<open>e = x\<close> by (auto simp: all)
  qed
  then show ?case using Cons.IH [of "checkpoint_of e" rest] Cons.prems(1,2) \<open>e = x\<close> by (simp add: all)
qed simp

section \<open>The reconciler in front of a consumer\<close>

locale event_consumer =
  fixes consume :: "'a ApplyEvent" and message :: "EventEnvelope \<Rightarrow> 'm res" and applied :: "'a \<Rightarrow> 'm list"
  assumes apply_ok: "consume e a = (a', Inr ()) \<Longrightarrow> \<exists>m. message e = Inr m \<and> applied a' = applied a @ [m]"
    and apply_error: "consume e a = (a', Inl err) \<Longrightarrow> applied a' = applied a"
begin

text \<open>The messages behind the prefix \<open>old\<close> are those of a chain from \<open>cp\<close> that ends at the checkpoint, all
  of whose events were delivered.\<close>

definition in_step :: "Checkpoint \<Rightarrow> 'm list \<Rightarrow> EventEnvelope set \<Rightarrow> EventReconciler \<Rightarrow> 'a \<Rightarrow> bool" where
  "in_step cp old delivered r a \<longleftrightarrow>
     (\<exists>es ms. chain cp es \<and> set es \<subseteq> delivered \<and> list_all2 (\<lambda>e m. message e = Inr m) es ms \<and>
        applied a = old @ ms \<and> rcCheckpoint r = chain_end cp es)"

lemma in_step_start: "rcCheckpoint r = cp \<Longrightarrow> in_step cp (applied a) delivered r a"
  by (auto simp: in_step_def intro!: exI [of _ "[]"])

lemma in_step_mono: "in_step cp old D r a \<Longrightarrow> D \<subseteq> D' \<Longrightarrow> in_step cp old D' r a"
  unfolding in_step_def by blast

lemma in_step_error:
  assumes "in_step cp old D r a" "consume e a = (a', Inl err)"
  shows "in_step cp old D r a'"
  using assms apply_error by (simp add: in_step_def)

lemma in_step_apply:
  assumes "in_step cp old D r a" "follows (rcCheckpoint r) e" "e \<in> D" "consume e a = (a', Inr ())"
    "rcCheckpoint r' = checkpoint_of e"
  shows "in_step cp old D r' a'"
proof -
  from assms(1) obtain es ms where es: "chain cp es" "set es \<subseteq> D" "list_all2 (\<lambda>e m. message e = Inr m) es ms"
    "applied a = old @ ms" "rcCheckpoint r = chain_end cp es" by (auto simp: in_step_def)
  obtain m where "message e = Inr m" "applied a' = applied a @ [m]" using apply_ok [OF assms(4)] by blast
  then show ?thesis unfolding in_step_def using es assms(2,3,5)
    by (intro exI [of _ "es @ [e]"] exI [of _ "ms @ [m]"]) (auto simp: chain_append list_all2_appendI)
qed

lemma reconcile_event_step:
  assumes "in_step cp old D r a" "e \<in> D" "reconcile_event consume head e ((r, a), rep) = (((r', a'), rep'), res)"
  shows "in_step cp old D r' a'"
proof (cases "validateEnvelope e = Inr () \<and> \<not> compareCursor (eeCursor e) head > 0 \<and>
    \<not> compareCursor (eeCursor e) (ckCursor (rcCheckpoint r)) \<le> 0 \<and> follows (rcCheckpoint r) e")
  case True
  obtain a1 r1 where a1: "consume e a = (a1, r1)" by (cases "consume e a")
  have nx: "nextCursor (rcCheckpoint r) = Inr (eeCursor e)" using True by (simp add: follows_def)
  have *: "\<not> (cuMarketSequence (eeCursor e) = cuMarketSequence (ckCursor (rcCheckpoint r)) \<and>
      cuMarketSequence (ckCursor (rcCheckpoint r)) \<noteq> 0 \<and> eeBatchEventCount e \<noteq> ckBatchEventCount (rcCheckpoint r))"
    using True by (auto simp: follows_def)
  show ?thesis
  proof (cases r1)
    case (Inl err)
    then have "r' = r" "a' = a1" using assms(3) True nx * a1 by (auto simp: reconcile_event_def Let_def)
    then show ?thesis using in_step_error [OF assms(1)] a1 Inl by simp
  next
    case (Inr u)
    then have "r' = r\<lparr> rcCheckpoint := checkpoint_of e \<rparr>" "a' = a1"
      using assms(3) True nx * a1 by (auto simp: reconcile_event_def Let_def checkpoint_of_def)
    then show ?thesis using in_step_apply [OF assms(1) _ assms(2)] True a1 Inr by simp
  qed
next
  case False
  then have "r' = r \<and> a' = a"
    using assms(3) by (auto simp: reconcile_event_def follows_def Let_def split: sum.splits if_splits)
  then show ?thesis using assms(1) by simp
qed

lemma reconcile_events_step:
  assumes "in_step cp old D r a" "set es \<subseteq> D" "reconcile_events consume head es ((r, a), rep) = (((r', a'), rep'), res)"
  shows "in_step cp old D r' a'"
  using assms
proof (induction es arbitrary: r a rep)
  case (Cons e es)
  obtain r1 a1 rep1 res1 where one: "reconcile_event consume head e ((r, a), rep) = (((r1, a1), rep1), res1)"
    by (metis prod.collapse)
  have i: "in_step cp old D r1 a1" using Cons.prems(2) by (intro reconcile_event_step [OF Cons.prems(1) _ one]) auto
  show ?case
  proof (cases res1)
    case (Inl err)
    then show ?thesis using i Cons.prems(3) one by simp
  next
    case (Inr u)
    then show ?thesis using Cons.IH [OF i] Cons.prems(2,3) one by simp
  qed
qed simp

lemma Reconcile_step:
  assumes "in_step cp old D r a" "set es \<subseteq> D" "Reconcile head es (Some consume) (r, a) = ((r', a'), rep, res)"
  shows "in_step cp old D r' a'" "res = Inr () \<Longrightarrow> rrEnd rep = ckCursor (rcCheckpoint r')"
proof -
  define rep0 where "rep0 = \<lparr> rrStart = ckCursor (rcCheckpoint r), rrHead = head, rrEnd = ckCursor (rcCheckpoint r),
    rrApplied = 0, rrDuplicates = 0, rrComplete = False \<rparr>"
  obtain r1 a1 rep1 res1 where run: "reconcile_events consume head es ((r, a), rep0) = (((r1, a1), rep1), res1)"
    by (metis prod.collapse)
  have i: "in_step cp old D r1 a1" by (rule reconcile_events_step [OF assms(1,2) run])
  have same: "in_step cp old D (r\<lparr> rcHead := h, rcReconcileStarted := b, rcComplete := c \<rparr>) a = in_step cp old D r a" for h b c r a
    by (simp add: in_step_def)
  show "in_step cp old D r' a'" "res = Inr () \<Longrightarrow> rrEnd rep = ckCursor (rcCheckpoint r')"
    using assms(1,3) run i same
    by (auto simp: Reconcile_def Let_def rep0_def [symmetric] split: sum.splits if_splits)
qed

end

section \<open>The stream of a log\<close>

definition event_envelope :: "nat \<Rightarrow> Event \<Rightarrow> EventEnvelope" where
  "event_envelope n e = \<lparr> eeCursor = \<lparr> cuMarketSequence = evSequence e, cuEventIndex = evIndex e \<rparr>,
     eeBatchEventCount = n, eeEvent = e \<rparr>"

definition record_envelopes :: "Event list \<Rightarrow> EventEnvelope list" where
  "record_envelopes es = map (event_envelope (length es)) es"

definition event_stream :: "Record list \<Rightarrow> EventEnvelope list" where
  "event_stream recs = concat (map (\<lambda>rec. record_envelopes (rEvents (recResult rec))) recs)"

text \<open>The checkpoint behind the first \<open>j\<close> events of batch \<open>n\<close>.\<close>

definition position :: "nat \<Rightarrow> nat \<Rightarrow> nat \<Rightarrow> Checkpoint" where
  "position n j k = \<lparr> ckCursor = \<lparr> cuMarketSequence = n, cuEventIndex = j \<rparr>, ckBatchEventCount = k \<rparr>"

lemma chain_batch:
  assumes "numbered n es" "n \<noteq> 0" "j \<le> length es"
  shows "chain (position n j (length es)) (drop j (record_envelopes es)) \<and>
    chain_end (position n j (length es)) (drop j (record_envelopes es)) = position n (length es) (length es)"
  using assms(3)
proof (induction "length es - j" arbitrary: j)
  case 0
  then show ?case by (simp add: record_envelopes_def)
next
  case (Suc d)
  then have j: "j < length es" by simp
  have e: "drop j (record_envelopes es) = event_envelope (length es) (es ! j) # drop (Suc j) (record_envelopes es)"
    using j by (simp add: record_envelopes_def Cons_nth_drop_Suc [symmetric] drop_map)
  have "evSequence (es ! j) = n" "evIndex (es ! j) = j + 1" using assms(1) j by (auto simp: numbered_def)
  then have "follows (position n j (length es)) (event_envelope (length es) (es ! j))"
    "checkpoint_of (event_envelope (length es) (es ! j)) = position n (Suc j) (length es)"
    using j assms(2) by (auto simp: follows_def event_envelope_def position_def nextCursor_def validateEnvelope_def
        validateCheckpoint_def validateCursor_def checkpoint_of_def)
  then show ?case using Suc.hyps(1) [of "Suc j"] Suc.hyps(2) j by (simp add: e)
qed

text \<open>A checkpoint at the end of batch \<open>n\<close>, or at the start of the market.\<close>

definition batch_end :: "nat \<Rightarrow> Checkpoint \<Rightarrow> bool" where
  "batch_end n cp \<longleftrightarrow> cuMarketSequence (ckCursor cp) = n \<and> (n = 0 \<or> cuEventIndex (ckCursor cp) = ckBatchEventCount cp)"

lemma chain_next_batch:
  assumes "batch_end n cp" "numbered (Suc n) es" "Suc n < 2 ^ 64"
  shows "chain cp (record_envelopes es)" "chain_end cp (record_envelopes es) = position (Suc n) (length es) (length es)"
proof -
  have es: "es \<noteq> []" "evSequence (es ! 0) = Suc n" "evIndex (es ! 0) = 1" using assms(2) by (auto simp: numbered_def)
  have e: "record_envelopes es = event_envelope (length es) (es ! 0) # drop 1 (record_envelopes es)"
    using es(1) by (simp add: record_envelopes_def Cons_nth_drop_Suc [of 0, symmetric, simplified] drop_map neq_Nil_conv)
       (cases es; simp)
  have "int n \<noteq> 2 ^ 64 - 1" using assms(3) by auto
  then have f: "follows cp (event_envelope (length es) (es ! 0))"
    "checkpoint_of (event_envelope (length es) (es ! 0)) = position (Suc n) 1 (length es)"
    using es assms(1) by (auto simp: follows_def event_envelope_def position_def nextCursor_def validateEnvelope_def
        validateCheckpoint_def validateCursor_def checkpoint_of_def batch_end_def Suc_le_eq Let_def)
  have "chain (position (Suc n) 1 (length es)) (drop 1 (record_envelopes es)) \<and>
    chain_end (position (Suc n) 1 (length es)) (drop 1 (record_envelopes es)) = position (Suc n) (length es) (length es)"
    using es(1) by (intro chain_batch [OF assms(2)]) (auto simp: Suc_le_eq)
  then show "chain cp (record_envelopes es)" "chain_end cp (record_envelopes es) = position (Suc n) (length es) (length es)"
    using f by (subst e; simp del: One_nat_def)+
qed

lemma chain_batches:
  assumes "batch_end n cp" "\<And>i. i < length recs \<Longrightarrow> numbered (n + i + 1) (rEvents (recResult (recs ! i)))" "n + length recs < 2 ^ 64"
  shows "chain cp (event_stream recs)"
  using assms
proof (induction recs arbitrary: n cp)
  case (Cons rec recs)
  let ?es = "rEvents (recResult rec)"
  have "numbered (Suc n) ?es" using Cons.prems(2) [of 0] by simp
  note E = chain_next_batch [OF Cons.prems(1) this]
  have "chain (position (Suc n) (length ?es) (length ?es)) (event_stream recs)"
    using Cons.prems(3) Cons.prems(2) [of "Suc i" for i] by (intro Cons.IH [of "Suc n"]) (auto simp: batch_end_def position_def)
  then show ?case using E Cons.prems(3) by (simp add: event_stream_def chain_append)
qed (simp add: event_stream_def)

text \<open>What lies behind a cursor of the log.\<close>

definition behind :: "Cursor \<Rightarrow> EventEnvelope list \<Rightarrow> EventEnvelope list" where
  "behind cursor es = filter (\<lambda>e. cursor_key cursor < cursor_key (eeCursor e)) es"

lemma behind_batch:
  assumes "numbered n es"
  shows "behind \<lparr> cuMarketSequence = n', cuEventIndex = j \<rparr> (record_envelopes es) =
    (if n' < n then record_envelopes es else if n' = n then drop j (record_envelopes es) else [])"
proof -
  have "filter (\<lambda>e. j < evIndex e) es = drop j es"
  proof -
    have "filter (\<lambda>e. j < evIndex e) (take j es) = []" using assms
      by (auto simp: filter_empty_conv in_set_conv_nth numbered_def)
    moreover have "filter (\<lambda>e. j < evIndex e) (drop j es) = drop j es" using assms
      by (auto simp: filter_id_conv in_set_conv_nth numbered_def)
    ultimately show ?thesis by (metis append_take_drop_id filter_append self_append_conv2)
  qed
  moreover have "\<forall>e \<in> set es. evSequence e = n" using assms by (auto simp: numbered_def in_set_conv_nth)
  ultimately show ?thesis
    by (auto simp: behind_def record_envelopes_def filter_map o_def event_envelope_def cursor_key_def less_prod_def
        drop_map filter_empty_conv cong: filter_cong)
qed

lemma behind_stream:
  assumes "\<And>i. i < length recs \<Longrightarrow> numbered (n + i + 1) (rEvents (recResult (recs ! i)))" "n' \<le> n"
  shows "behind \<lparr> cuMarketSequence = n', cuEventIndex = j \<rparr> (event_stream recs) = event_stream recs"
  using assms
proof (induction recs arbitrary: n)
  case (Cons rec recs)
  have "numbered (Suc n) (rEvents (recResult rec))" using Cons.prems(1) [of 0] by simp
  from behind_batch [OF this, of n' j] Cons.IH [of "Suc n"] Cons.prems(1) [of "Suc i" for i] Cons.prems(2)
  show ?case by (simp add: event_stream_def behind_def)
qed (simp add: event_stream_def behind_def)

lemma behind_stream_none:
  assumes "\<And>i. i < length recs \<Longrightarrow> numbered (n + i + 1) (rEvents (recResult (recs ! i)))" "n + length recs < n'"
  shows "behind \<lparr> cuMarketSequence = n', cuEventIndex = j \<rparr> (event_stream recs) = []"
  using assms
proof (induction recs arbitrary: n)
  case (Cons rec recs)
  have "numbered (Suc n) (rEvents (recResult rec))" using Cons.prems(1) [of 0] by simp
  from behind_batch [OF this, of n' j] Cons.IH [of "Suc n"] Cons.prems(1) [of "Suc i" for i] Cons.prems(2)
  show ?case by (simp add: event_stream_def behind_def)
qed (simp add: event_stream_def behind_def)

text \<open>The batch size of a sequence number, as the log has it.\<close>

definition batch_count :: "Record list \<Rightarrow> nat \<Rightarrow> nat option" where
  "batch_count recs n = (if 0 < n \<and> n \<le> length recs then Some (length (rEvents (recResult (recs ! (n - 1))))) else None)"

lemma chain_behind:
  assumes "\<And>i. i < length recs \<Longrightarrow> numbered (i + 1) (rEvents (recResult (recs ! i)))" "length recs < 2 ^ 64"
    and "validateCheckpoint cp = Inr ()"
    and "cuMarketSequence (ckCursor cp) \<noteq> 0 \<Longrightarrow> batch_count recs (cuMarketSequence (ckCursor cp)) = Some (ckBatchEventCount cp)"
  shows "chain cp (behind (ckCursor cp) (event_stream recs))"
proof (cases "cuMarketSequence (ckCursor cp)")
  case 0
  then have "chain cp (event_stream recs)" using assms(1,2) by (intro chain_batches [of 0]) (auto simp: batch_end_def)
  moreover have "ckCursor cp = \<lparr> cuMarketSequence = 0, cuEventIndex = cuEventIndex (ckCursor cp) \<rparr>" using 0 by simp
  ultimately show ?thesis using behind_stream [of recs 0 0] assms(1) by (metis add_0 le0)
next
  case (Suc n)
  let ?es = "rEvents (recResult (recs ! n))"
  obtain j where cur: "ckCursor cp = \<lparr> cuMarketSequence = Suc n, cuEventIndex = j \<rparr>" using Suc by (cases "ckCursor cp") simp
  have n: "n < length recs" and k: "ckBatchEventCount cp = length ?es"
    using assms(4) Suc by (auto simp: batch_count_def split: if_splits)
  have cp: "cp = position (Suc n) j (length ?es)" using cur k by (simp add: position_def)
  have j: "j \<le> length ?es" using assms(3) cur k by (auto simp: validateCheckpoint_def bindE_eq_Inr split: if_splits)
  have es: "numbered (Suc n) ?es" using assms(1) [OF n] by simp
  have split: "event_stream recs = event_stream (take n recs) @ record_envelopes ?es @ event_stream (drop (Suc n) recs)"
    by (simp add: event_stream_def flip: concat_append map_append) (metis id_take_nth_drop [OF n] map_append list.simps(9) concat_append concat.simps(2))
  have "behind (ckCursor cp) (event_stream (take n recs)) = []"
    using behind_stream_none [of "take n recs" 0 "Suc n" j] assms(1) n cur by simp
  moreover have "behind (ckCursor cp) (record_envelopes ?es) = drop j (record_envelopes ?es)"
    using behind_batch [OF es, of "Suc n" j] cur by simp
  moreover have "behind (ckCursor cp) (event_stream (drop (Suc n) recs)) = event_stream (drop (Suc n) recs)"
    using behind_stream [of "drop (Suc n) recs" "Suc n" "Suc n" j] assms(1) cur by simp
  ultimately have b: "behind (ckCursor cp) (event_stream recs) = drop j (record_envelopes ?es) @ event_stream (drop (Suc n) recs)"
    by (simp add: split) (simp add: behind_def)
  note B = chain_batch [OF es _ j]
  have "chain (position (Suc n) (length ?es) (length ?es)) (event_stream (drop (Suc n) recs))"
    using assms(1,2) n by (intro chain_batches [of "Suc n"]) (auto simp: batch_end_def position_def)
  then show ?thesis unfolding b using B by (subst cp) (simp add: chain_append)
qed

section \<open>The subscription\<close>

text \<open>The message of an event, and a stream that remembers what it has sent.\<close>

definition event_message :: "(Market \<Rightarrow> Event \<Rightarrow> 'w res) \<Rightarrow> Market \<Rightarrow> EventEnvelope \<Rightarrow> 'w Message res" where
  "event_message convert market e =
     bindE (convert market (eeEvent e)) (\<lambda>converted.
       Inr \<lparr> msMarketId = mID market, msSequence = show_nat (cuMarketSequence (eeCursor e)),
             msEventIndex = cuEventIndex (eeCursor e), msEvent = converted \<rparr>)"

definition logged :: "('w Message \<Rightarrow> 'a \<Rightarrow> 'a \<times> unit res) \<Rightarrow> 'w Message \<Rightarrow> 'a \<times> 'w Message list \<Rightarrow> ('a \<times> 'w Message list) \<times> unit res" where
  "logged send msg a = (case send msg (fst a) of
     (a', Inl err) \<Rightarrow> ((a', snd a), Inl err)
   | (a', Inr _) \<Rightarrow> ((a', snd a @ [msg]), Inr ()))"

interpretation sub: event_consumer "send_event convert (logged send) market" "event_message convert market" "snd" for convert send market
  by unfold_locales (auto simp: send_event_def logged_def event_message_def split: sum.splits prod.splits)

definition stored_envelope :: "StoredEvent \<Rightarrow> EventEnvelope" where
  "stored_envelope e = \<lparr> eeCursor = seCursor e, eeBatchEventCount = seBatchEventCount e, eeEvent = seEvent e \<rparr>"

lemma poll_envelopes:
  "foldE (poll_envelope market) events (h, es) = Inr (head, es') \<Longrightarrow> es' = es @ map stored_envelope events"
  by (induction events arbitrary: h es) (fastforce simp: bindE_eq_Inr poll_envelope_def stored_envelope_def Let_def split: if_splits)+

text \<open>A source is true to a history when every event it gives is one of the history.\<close>

definition source_of :: "EventEnvelope set \<Rightarrow> (Cursor \<Rightarrow> StoredEvent list res) \<Rightarrow> bool" where
  "source_of D eventsAfter \<longleftrightarrow> (\<forall>cursor events. eventsAfter cursor = Inr events \<longrightarrow> stored_envelope ` set events \<subseteq> D)"

lemma subscribe_poll_step:
  assumes "sub.in_step convert market cp old D (suReconciler s) a" "source_of D eventsAfter"
    and "subscribe_poll convert (logged send) market eventsAfter (s, a) = ((s', a'), res)"
  shows "sub.in_step convert market cp old D (suReconciler s') a'"
proof (cases "eventsAfter (suCursor s)")
  case (Inr events)
  show ?thesis
  proof (cases "foldE (poll_envelope market) events (ckCursor (Reconciler_Checkpoint (suReconciler s)), [])")
    case (Inr he)
    obtain head es where he: "he = (head, es)" by (cases he)
    have D: "set es \<subseteq> D"
      using poll_envelopes [OF Inr [unfolded he]] \<open>eventsAfter (suCursor s) = Inr events\<close> assms(2) by (auto simp: source_of_def)
    obtain r1 a1 rep res1 where run: "Reconcile head es (Some (send_event convert (logged send) market)) (suReconciler s, a) = ((r1, a1), rep, res1)"
      by (metis prod.collapse)
    have "suReconciler s' = r1 \<and> a' = a1"
      using assms(3) \<open>eventsAfter (suCursor s) = Inr events\<close> Inr he run
      by (auto simp: subscribe_poll_def split: sum.splits)
    then show ?thesis using sub.Reconcile_step(1) [OF assms(1) D run] by simp
  next
    case (Inl err)
    then show ?thesis using assms(1,3) \<open>eventsAfter (suCursor s) = Inr events\<close> by (auto simp: subscribe_poll_def)
  qed
next
  case (Inl err)
  then show ?thesis using assms(1,3) by (auto simp: subscribe_poll_def)
qed

lemma subscribe_loop_step:
  assumes "sub.in_step convert market cp old D (suReconciler s) a" "\<forall>p \<in> set polls. source_of D p"
    and "subscribe_loop convert (logged send) market polls (s, a) = ((s', a'), res)"
  shows "sub.in_step convert market cp old D (suReconciler s') a'"
  using assms
proof (induction polls arbitrary: s a)
  case (Cons p polls)
  obtain s1 a1 res1 where one: "subscribe_poll convert (logged send) market p (s, a) = ((s1, a1), res1)" by (metis prod.collapse)
  have i: "sub.in_step convert market cp old D (suReconciler s1) a1"
    using Cons.prems(2) by (intro subscribe_poll_step [OF Cons.prems(1) _ one]) simp
  show ?case
  proof (cases res1)
    case (Inl err)
    then show ?thesis using i Cons.prems(3) one by simp
  next
    case (Inr u)
    then show ?thesis using Cons.IH [OF i] Cons.prems(2,3) one by simp
  qed
qed simp

text \<open>Between two rounds the cursor of the subscription is that of the reconciler's checkpoint.\<close>

definition in_phase :: "Subscription \<Rightarrow> bool" where
  "in_phase s \<longleftrightarrow> suCursor s = ckCursor (rcCheckpoint (suReconciler s))"

lemma subscribe_startD:
  assumes "subscribe_start (Some batch) (Inr market) requested sequence eventIndex = Inr s"
  shows "validateCheckpoint (rcCheckpoint (suReconciler s)) = Inr ()" "in_phase s" "requested = mID market"
    "parseCursor sequence eventIndex = Inr (suCursor s)"
    "cuMarketSequence (suCursor s) \<noteq> 0 \<Longrightarrow>
      batch (cuMarketSequence (suCursor s)) = Inr (Some (ckBatchEventCount (rcCheckpoint (suReconciler s))))"
  using assms
  by (auto simp: subscribe_start_def NewEventReconciler_def bindE_eq_Inr in_phase_def
      split: if_splits sum.splits option.splits)

lemma subscribe_sends_prefix:
  assumes "log_ok c market recs sn s" "length recs < 2 ^ 64"
    and "\<And>n k. batch n = Inr (Some k) \<Longrightarrow> batch_count recs n = Some k"
    and "subscribe_start (Some batch) (Inr market) requested sequence eventIndex = Inr su"
    and "\<forall>p \<in> set polls. source_of (set (event_stream recs)) p"
    and "subscribe_loop convert (logged send) market polls (su, (a, [])) = ((su', (a', sent)), res)"
  shows "\<exists>es. prefix es (behind (suCursor su) (event_stream recs)) \<and> map (event_message convert market) es = map Inr sent"
proof -
  let ?cp = "rcCheckpoint (suReconciler su)"
  note S = subscribe_startD [OF assms(4)]
  have "sub.in_step convert market ?cp [] (set (event_stream recs)) (suReconciler su) (a, [])"
    using sub.in_step_start [where r = "suReconciler su" and cp = ?cp and a = "(a, [])"] by simp
  from subscribe_loop_step [OF this assms(5,6)]
  obtain es where es: "chain ?cp es" "set es \<subseteq> set (event_stream recs)"
    "list_all2 (\<lambda>e m. event_message convert market e = Inr m) es sent"
    by (auto simp: sub.in_step_def)
  have "map (event_message convert market) es = map Inr sent"
    using es(3) by (induction rule: list_all2_induct) auto
  moreover have "set es \<subseteq> set (behind (ckCursor ?cp) (event_stream recs))"
    using es(2) chain_less [OF es(1)] by (auto simp: behind_def)
  moreover have "chain ?cp (behind (ckCursor ?cp) (event_stream recs))"
    using log_records(1) [OF assms(1)] assms(2,3) S(1,2,5)
    by (intro chain_behind) (auto simp: record_facts_def in_phase_def)
  ultimately show ?thesis using chain_prefix [OF es(1)] S(2) by (auto simp: in_phase_def)
qed

section \<open>Delivery\<close>

lemma nextCursor_ahead: "follows cp e \<Longrightarrow> \<not> compareCursor (eeCursor e) (ckCursor cp) \<le> 0"
  using follows_less [of cp e] by (simp add: compareCursor_key)

lemma reconcile_event_next:
  assumes "follows (rcCheckpoint r) e" "cursor_key (eeCursor e) \<le> cursor_key head" "consume e a = (a', Inr ())"
  shows "reconcile_event consume head e ((r, a), rep) =
    (((r\<lparr> rcCheckpoint := checkpoint_of e \<rparr>, a'), rep\<lparr> rrApplied := rrApplied rep + 1, rrEnd := eeCursor e \<rparr>), Inr ())"
proof -
  have "\<not> compareCursor (eeCursor e) head > 0" using assms(2) by (simp add: compareCursor_key not_less)
  then show ?thesis using assms(1,3) nextCursor_ahead [OF assms(1)]
    by (auto simp: reconcile_event_def follows_def Let_def checkpoint_of_def)
qed

lemma chain_bound: "chain cp es \<Longrightarrow> e \<in> set es \<Longrightarrow> cursor_key (eeCursor e) \<le> cursor_key (ckCursor (chain_end cp es))"
proof (induction es arbitrary: cp)
  case (Cons x es)
  then show ?case
  proof (cases "e = x")
    case True
    show ?thesis
    proof (cases es rule: rev_cases)
      case (snoc ys y)
      then show ?thesis using chain_less [of "checkpoint_of x" es y] Cons.prems(1) True by (auto simp: checkpoint_of_def)
    qed (use True in \<open>simp add: checkpoint_of_def\<close>)
  qed auto
qed simp

lemma chain_end_valid:
  assumes "chain cp es" "validateCursor (ckCursor cp) = Inr ()"
  shows "validateCursor (ckCursor (chain_end cp es)) = Inr ()" "cursor_key (ckCursor cp) \<le> cursor_key (ckCursor (chain_end cp es))"
proof -
  have "validateCursor (ckCursor (chain_end cp es)) = Inr () \<and> cursor_key (ckCursor cp) \<le> cursor_key (ckCursor (chain_end cp es))"
  proof (cases es rule: rev_cases)
    case (snoc ys y)
    then have "validateEnvelope y = Inr ()" using assms(1) by (simp add: chain_append follows_def)
    then show ?thesis using chain_less [OF assms(1), of y] snoc
      by (auto simp: checkpoint_of_def validateEnvelope_def validateCheckpoint_def bindE_eq_Inr split: if_splits)
  qed (use assms(2) in simp)
  then show "validateCursor (ckCursor (chain_end cp es)) = Inr ()" "cursor_key (ckCursor cp) \<le> cursor_key (ckCursor (chain_end cp es))"
    by auto
qed

context event_consumer
begin

lemma reconcile_events_all:
  assumes "chain (rcCheckpoint r) es" "\<forall>e \<in> set es. cursor_key (eeCursor e) \<le> cursor_key head"
    and "\<And>e a. e \<in> set es \<Longrightarrow> \<exists>a'. consume e a = (a', Inr ())"
  shows "\<exists>a' rep' ms. reconcile_events consume head es ((r, a), rep) =
      (((r\<lparr> rcCheckpoint := chain_end (rcCheckpoint r) es \<rparr>, a'), rep'), Inr ()) \<and>
    applied a' = applied a @ ms \<and> map message es = map Inr ms"
  using assms
proof (induction es arbitrary: r a rep)
  case (Cons e es)
  obtain a1 where a1: "consume e a = (a1, Inr ())" using Cons.prems(3) by fastforce
  obtain m where m: "message e = Inr m" "applied a1 = applied a @ [m]" using apply_ok [OF a1] by blast
  have "reconcile_event consume head e ((r, a), rep) =
    (((r\<lparr> rcCheckpoint := checkpoint_of e \<rparr>, a1), rep\<lparr> rrApplied := rrApplied rep + 1, rrEnd := eeCursor e \<rparr>), Inr ())"
    using Cons.prems(1,2) by (intro reconcile_event_next a1) auto
  moreover from Cons.IH [of "r\<lparr> rcCheckpoint := checkpoint_of e \<rparr>" a1 "rep\<lparr> rrApplied := rrApplied rep + 1, rrEnd := eeCursor e \<rparr>"]
  obtain a' rep' ms where "reconcile_events consume head es
      ((r\<lparr> rcCheckpoint := checkpoint_of e \<rparr>, a1), rep\<lparr> rrApplied := rrApplied rep + 1, rrEnd := eeCursor e \<rparr>) =
      (((r\<lparr> rcCheckpoint := chain_end (checkpoint_of e) es \<rparr>, a'), rep'), Inr ())"
    "applied a' = applied a1 @ ms" "map message es = map Inr ms"
    using Cons.prems by fastforce
  ultimately show ?case using m by (intro exI [of _ a'] exI [of _ rep'] exI [of _ "m # ms"]) simp
qed simp

lemma Reconcile_all:
  assumes "chain (rcCheckpoint r) es" "validateCursor (ckCursor (rcCheckpoint r)) = Inr ()"
    and "\<And>e a. e \<in> set es \<Longrightarrow> \<exists>a'. consume e a = (a', Inr ())"
  shows "\<exists>r' a' rep ms. Reconcile (ckCursor (chain_end (rcCheckpoint r) es)) es (Some consume) (r, a) = ((r', a'), rep, Inr ()) \<and>
    rcCheckpoint r' = chain_end (rcCheckpoint r) es \<and> rrEnd rep = ckCursor (rcCheckpoint r') \<and>
    applied a' = applied a @ ms \<and> map message es = map Inr ms"
proof -
  let ?head = "ckCursor (chain_end (rcCheckpoint r) es)"
  have bound: "\<forall>e \<in> set es. cursor_key (eeCursor e) \<le> cursor_key ?head" using chain_bound [OF assms(1)] by blast
  have v: "validateCursor ?head = Inr ()" "\<not> compareCursor ?head (ckCursor (rcCheckpoint r)) < 0"
    using chain_end_valid [OF assms(1,2)] by (auto simp: compareCursor_key not_less)
  obtain a' rep' ms where "reconcile_events consume ?head es ((r, a), \<lparr> rrStart = ckCursor (rcCheckpoint r), rrHead = ?head,
        rrEnd = ckCursor (rcCheckpoint r), rrApplied = 0, rrDuplicates = 0, rrComplete = False \<rparr>) =
      (((r\<lparr> rcCheckpoint := chain_end (rcCheckpoint r) es \<rparr>, a'), rep'), Inr ())"
    "applied a' = applied a @ ms" "map message es = map Inr ms"
    using reconcile_events_all [OF assms(1) bound assms(3)] by blast
  then show ?thesis using v
    by (intro exI [of _ "r\<lparr> rcCheckpoint := chain_end (rcCheckpoint r) es, rcHead := ?head, rcReconcileStarted := True, rcComplete := True \<rparr>"]
        exI [of _ a'] exI [of _ "rep'\<lparr> rrEnd := ?head, rrComplete := True \<rparr>"] exI [of _ ms])
      (simp add: Reconcile_def Let_def)
qed

end

lemma poll_chain:
  assumes "chain cp (map stored_envelope events)" "\<forall>e \<in> set events. seMarketID e = mID market"
  shows "foldE (poll_envelope market) events (ckCursor cp, acc) =
    Inr (ckCursor (chain_end cp (map stored_envelope events)), acc @ map stored_envelope events)"
  using assms
proof (induction events arbitrary: cp acc)
  case (Cons e events)
  have "cursorAfter (seCursor e) (ckCursor cp)"
    using follows_less [of cp "stored_envelope e"] Cons.prems(1)
    by (auto simp: stored_envelope_def cursorAfter_def cursor_key_def less_prod_def)
  then have "poll_envelope market e (ckCursor cp, acc) = Inr (ckCursor (checkpoint_of (stored_envelope e)), acc @ [stored_envelope e])"
    using Cons.prems(2) by (simp add: poll_envelope_def stored_envelope_def checkpoint_of_def)
  then show ?case using Cons.IH [of "checkpoint_of (stored_envelope e)"] Cons.prems by simp
qed simp

text \<open>A source that gives the next events of a stream, up to a limit.\<close>

definition next_page :: "MarketID \<Rightarrow> nat \<Rightarrow> EventEnvelope list \<Rightarrow> Cursor \<Rightarrow> StoredEvent list res" where
  "next_page marketID limit stream cursor =
     Inr (map (\<lambda>e. \<lparr> seMarketID = marketID, seCursor = eeCursor e, seBatchEventCount = eeBatchEventCount e, seEvent = eeEvent e \<rparr>)
       (take limit (behind cursor stream)))"

lemma stored_next [simp]:
  "map (stored_envelope \<circ> (\<lambda>e. \<lparr> seMarketID = i, seCursor = eeCursor e, seBatchEventCount = eeBatchEventCount e, seEvent = eeEvent e \<rparr>)) es = es"
  by (induction es) (auto simp: stored_envelope_def)

lemma behind_rest:
  assumes "chain cp (xs @ ys)" "behind (ckCursor cp) stream = xs @ ys"
  shows "behind (ckCursor (chain_end cp xs)) stream = ys"
proof -
  let ?c = "ckCursor (chain_end cp xs)"
  have c: "chain cp xs" "chain (chain_end cp xs) ys" using assms(1) by (auto simp: chain_append)
  have le: "cursor_key (ckCursor cp) \<le> cursor_key ?c"
    using chain_less [OF c(1)] by (cases xs rule: rev_cases) (auto simp: checkpoint_of_def intro: less_imp_le)
  then have "behind ?c stream = behind ?c (behind (ckCursor cp) stream)"
    unfolding behind_def filter_filter by (intro filter_cong) (auto intro: le_less_trans)
  also have "\<dots> = behind ?c xs @ behind ?c ys" unfolding assms(2) by (simp add: behind_def)
  also have "behind ?c xs = []" using chain_bound [OF c(1)] by (auto simp: behind_def filter_empty_conv not_less)
  also have "behind ?c ys = ys" using chain_less [OF c(2)] by (auto simp: behind_def filter_id_conv)
  finally show ?thesis by simp
qed

lemma subscribe_poll_all:
  assumes "in_phase su" "chain (rcCheckpoint (suReconciler su)) (behind (suCursor su) stream)"
    "validateCursor (suCursor su) = Inr ()"
    and "\<And>e. e \<in> set stream \<Longrightarrow> \<exists>w. convert market (eeEvent e) = Inr w" "\<And>m a. \<exists>a'. send m a = (a', Inr ())"
  shows "\<exists>su' a' ms. subscribe_poll convert (logged send) market (next_page (mID market) limit stream) (su, (a, sent)) =
      ((su', (a', sent @ ms)), Inr ()) \<and>
    map (event_message convert market) (take limit (behind (suCursor su) stream)) = map Inr ms \<and>
    in_phase su' \<and> behind (suCursor su') stream = drop limit (behind (suCursor su) stream) \<and>
    chain (rcCheckpoint (suReconciler su')) (behind (suCursor su') stream) \<and> validateCursor (suCursor su') = Inr ()"
proof -
  let ?cp = "rcCheckpoint (suReconciler su)" and ?xs = "take limit (behind (suCursor su) stream)"
    and ?ys = "drop limit (behind (suCursor su) stream)" and ?f = "send_event convert (logged send) market"
  have cur: "suCursor su = ckCursor ?cp" using assms(1) by (simp add: in_phase_def)
  have ch: "chain ?cp ?xs" "chain (chain_end ?cp ?xs) ?ys" using assms(2) by (metis append_take_drop_id chain_append)+
  have "\<exists>a'. ?f e a = (a', Inr ())" if e: "e \<in> set ?xs" for e a
  proof -
    have "e \<in> set stream" using e by (auto dest: in_set_takeD simp: behind_def)
    then obtain w where w: "convert market (eeEvent e) = Inr w" using assms(4) by blast
    show ?thesis unfolding send_event_def w sum.case logged_def
      using assms(5) [of "\<lparr> msMarketId = mID market, msSequence = show_nat (cuMarketSequence (eeCursor e)),
        msEventIndex = cuEventIndex (eeCursor e), msEvent = w \<rparr>" "fst a"] by auto
  qed
  from sub.Reconcile_all [where r = "suReconciler su" and es = ?xs and convert = convert and send = send and market = market and a = "(a, sent)", OF ch(1) _ this]
  obtain r' a' rep ms where run: "Reconcile (ckCursor (chain_end ?cp ?xs)) ?xs (Some ?f) (suReconciler su, (a, sent)) = ((r', (a', sent @ ms)), rep, Inr ())"
    "rcCheckpoint r' = chain_end ?cp ?xs" "rrEnd rep = ckCursor (rcCheckpoint r')"
    "map (event_message convert market) ?xs = map Inr ms"
    using assms(3) cur by auto
  let ?page = "map (\<lambda>e. \<lparr> seMarketID = mID market, seCursor = eeCursor e, seBatchEventCount = eeBatchEventCount e, seEvent = eeEvent e \<rparr>) ?xs"
  have page: "next_page (mID market) limit stream (suCursor su) = Inr ?page" by (simp add: next_page_def)
  have fold: "foldE (poll_envelope market) ?page (ckCursor (Reconciler_Checkpoint (suReconciler su)), []) = Inr (ckCursor (chain_end ?cp ?xs), ?xs)"
    using poll_chain [of ?cp ?page market "[]"] ch(1) by (simp add: Reconciler_Checkpoint_def)
  let ?su = "su\<lparr> suCursor := rrEnd rep, suReconciler := r' \<rparr>"
  have "subscribe_poll convert (logged send) market (next_page (mID market) limit stream) (su, (a, sent)) = ((?su, (a', sent @ ms)), Inr ())"
    unfolding subscribe_poll_def Let_def prod.case page sum.case fold run(1) ..
  moreover have at: "suCursor ?su = ckCursor (chain_end ?cp ?xs)" using run(2,3) by simp
  moreover have "behind (suCursor ?su) stream = ?ys"
    unfolding at using assms(2) by (intro behind_rest) (simp_all only: append_take_drop_id cur [symmetric])
  moreover have "validateCursor (suCursor ?su) = Inr ()"
    unfolding at by (rule chain_end_valid(1) [OF ch(1) assms(3) [unfolded cur]])
  ultimately show ?thesis using run(2-4) ch(2)
    by (intro exI [of _ ?su] exI [of _ a'] exI [of _ ms]) (simp add: in_phase_def)
qed


lemma subscribe_loop_all:
  assumes "in_phase su" "chain (rcCheckpoint (suReconciler su)) (behind (suCursor su) stream)"
    "validateCursor (suCursor su) = Inr ()"
    and "\<And>e. e \<in> set stream \<Longrightarrow> \<exists>w. convert market (eeEvent e) = Inr w" "\<And>m a. \<exists>a'. send m a = (a', Inr ())"
    and "length (behind (suCursor su) stream) \<le> rounds * limit"
  shows "\<exists>su' a' ms. subscribe_loop convert (logged send) market (replicate rounds (next_page (mID market) limit stream)) (su, (a, sent)) =
      ((su', (a', sent @ ms)), Inl ErrContext) \<and>
    map (event_message convert market) (behind (suCursor su) stream) = map Inr ms"
  using assms(1-3,6)
proof (induction rounds arbitrary: su a sent)
  case (Suc rounds)
  let ?b = "behind (suCursor su) stream"
  from subscribe_poll_all [where convert = convert and send = send, OF Suc.prems(1-3) assms(4,5)]
  obtain su1 a1 ms1 where one: "subscribe_poll convert (logged send) market (next_page (mID market) limit stream) (su, (a, sent)) =
      ((su1, (a1, sent @ ms1)), Inr ())" "map (event_message convert market) (take limit ?b) = map Inr ms1"
    "in_phase su1" "behind (suCursor su1) stream = drop limit ?b"
    "chain (rcCheckpoint (suReconciler su1)) (behind (suCursor su1) stream)" "validateCursor (suCursor su1) = Inr ()" by blast
  have "length (behind (suCursor su1) stream) \<le> rounds * limit" using one(4) Suc.prems(4) by simp
  from Suc.IH [OF one(3,5,6) this, of a1 "sent @ ms1"] one(4)
  obtain su' a' ms where "subscribe_loop convert (logged send) market (replicate rounds (next_page (mID market) limit stream)) (su1, (a1, sent @ ms1)) =
      ((su', (a', (sent @ ms1) @ ms)), Inl ErrContext)" "map (event_message convert market) (drop limit ?b) = map Inr ms" by auto
  moreover have "map (event_message convert market) ?b = map Inr (ms1 @ ms)"
    using one(2) calculation(2) by (metis append_take_drop_id map_append)
  ultimately show ?case using one(1) by (intro exI [of _ su'] exI [of _ a'] exI [of _ "ms1 @ ms"]) simp
qed simp

lemma subscribe_delivers:
  assumes "log_ok c market recs sn s" "length recs < 2 ^ 64"
    and "\<And>n k. batch n = Inr (Some k) \<Longrightarrow> batch_count recs n = Some k"
    and "subscribe_start (Some batch) (Inr market) requested sequence eventIndex = Inr su"
    and "\<And>e. e \<in> set (event_stream recs) \<Longrightarrow> \<exists>w. convert market (eeEvent e) = Inr w" "\<And>m a. \<exists>a'. send m a = (a', Inr ())"
    and "length (event_stream recs) \<le> rounds * limit"
  shows "\<exists>su' a' sent.
    subscribe_loop convert (logged send) market (replicate rounds (next_page (mID market) limit (event_stream recs))) (su, (a, [])) =
      ((su', (a', sent)), Inl ErrContext) \<and>
    map (event_message convert market) (behind (suCursor su) (event_stream recs)) = map Inr sent"
proof -
  note S = subscribe_startD [OF assms(4)]
  have "chain (rcCheckpoint (suReconciler su)) (behind (suCursor su) (event_stream recs))"
    using log_records(1) [OF assms(1)] assms(2,3) S(1,2,5) chain_behind [of recs "rcCheckpoint (suReconciler su)"]
    by (auto simp: record_facts_def in_phase_def)
  moreover have "validateCursor (suCursor su) = Inr ()"
    using S(1,2) by (auto simp: in_phase_def validateCheckpoint_def bindE_eq_Inr)
  moreover have "length (behind (suCursor su) (event_stream recs)) \<le> rounds * limit"
    using assms(7) by (auto simp: behind_def intro: le_trans [OF length_filter_le])
  ultimately show ?thesis using subscribe_loop_all [where convert = convert and send = send and a = a and sent = "[]", OF S(2) _ _ assms(5,6)] by simp
qed

section \<open>A log passes its audit\<close>

definition net_zero :: "(Asset, int) fmap \<Rightarrow> bool" where
  "net_zero m \<longleftrightarrow> (\<forall>a. fmget 0 m a = 0)"

lemma net_zero_pred: "fmpred (\<lambda>_ net. net = 0) m \<longleftrightarrow> net_zero m"
  by (auto simp: net_zero_def fmpred_iff fmget_def split: option.splits)

lemma audit_entries:
  assumes "foldE (post_entry l) es (sums, pending) = Inr (sums', pending')" "\<forall>a. fmget 0 (lpAssetNet p) a = fmget 0 sums a"
  shows "\<exists>net. foldE audit_entry es (sums, p) = Inr (sums', p\<lparr> lpAssetNet := net, lpEntries := lpEntries p + length es \<rparr>) \<and>
    (\<forall>a. fmget 0 net a = fmget 0 sums' a)"
  using assms
proof (induction es arbitrary: sums pending p)
  case (Cons e es)
  from Cons.prems(1) obtain s1 p1 where 1: "post_entry l e (sums, pending) = Inr (s1, p1)"
    and 2: "foldE (post_entry l) es (s1, p1) = Inr (sums', pending')" by (auto simp: bindE_eq_Inr)
  from 1 obtain v where v: "CheckedAdd (fmget 0 sums (eAsset e)) (eAmount e) = Inr v" "s1 = fmupd (eAsset e) v sums"
    and e: "\<not> (eAccount e = [] \<or> eAsset e = [] \<or> eAmount e = 0)"
    by (auto simp: post_entry_def Let_def refuse_eq_Inr)
  let ?p = "p\<lparr> lpAssetNet := fmupd (eAsset e) v (lpAssetNet p), lpEntries := lpEntries p + 1 \<rparr>"
  have one: "audit_entry e (sums, p) = Inr (s1, ?p)" using e v Cons.prems(2) by (simp add: audit_entry_def)
  have "\<forall>a. fmget 0 (lpAssetNet ?p) a = fmget 0 s1 a" using Cons.prems(2) v(2) by simp
  from Cons.IH [OF 2 this] obtain net where "foldE audit_entry es (s1, ?p) =
      Inr (sums', ?p\<lparr> lpAssetNet := net, lpEntries := lpEntries ?p + length es \<rparr>)" "\<forall>a. fmget 0 net a = fmget 0 sums' a" by blast
  then show ?case using one by (intro exI [of _ net]) simp
next
  case Nil
  then show ?case by (intro exI [of _ "lpAssetNet p"]) simp
qed

lemma audit_transaction_posted:
  assumes "Post l tx = Inr l'" "net_zero (lpAssetNet p)" "txID tx |\<notin>| ids"
  shows "\<exists>net. audit_transaction tx (ids, p) = Inr (finsert (txID tx) ids,
      p\<lparr> lpAssetNet := net, lpEntries := lpEntries p + length (txEntries tx), lpTransactions := lpTransactions p + 1 \<rparr>) \<and> net_zero net"
proof -
  from assms(1) obtain sums pending where f: "foldE (post_entry l) (txEntries tx) (fmempty, fmempty) = Inr (sums, pending)"
    and z: "fmpred (\<lambda>_ assetSum. assetSum = 0) sums" and g: "txID tx \<noteq> []" "txReference tx \<noteq> []" "\<not> length (txEntries tx) < 2"
    by (auto simp: Post_def bindE_eq_Inr split: if_splits)
  have "\<forall>a. fmget 0 (lpAssetNet p) a = fmget 0 fmempty a" using assms(2) by (simp add: net_zero_def)
  from audit_entries [OF f this] obtain net where "foldE audit_entry (txEntries tx) (fmempty, p) =
      Inr (sums, p\<lparr> lpAssetNet := net, lpEntries := lpEntries p + length (txEntries tx) \<rparr>)" "\<forall>a. fmget 0 net a = fmget 0 sums a" by blast
  then show ?thesis using g z assms(3) by (intro exI [of _ net]) (simp add: audit_transaction_def net_zero_def net_zero_pred)
qed

lemma audit_transactions_posted:
  assumes "post_all txs l = Inr l'" "net_zero (lpAssetNet p)"
    and "\<And>tx. tx \<in> set txs \<Longrightarrow> txID tx |\<in>| ids \<Longrightarrow> txID tx |\<in>| lTransactionIDs l"
  shows "\<exists>net. foldE audit_transaction txs (ids, p) = Inr (ids |\<union>| fset_of_list (map txID txs),
      p\<lparr> lpAssetNet := net, lpEntries := lpEntries p + length (concat (map txEntries txs)),
         lpTransactions := lpTransactions p + length txs \<rparr>) \<and> net_zero net"
  using assms
proof (induction txs arbitrary: l ids p)
  case Nil
  then show ?case by (intro exI [of _ "lpAssetNet p"]) simp
next
  case (Cons tx txs)
  from Cons.prems(1) obtain l1 where l1: "Post l tx = Inr l1" "post_all txs l1 = Inr l'" by (auto simp: bindE_eq_Inr)
  have ids: "txID tx |\<notin>| lTransactionIDs l" "lTransactionIDs l1 = finsert (txID tx) (lTransactionIDs l)"
    using l1(1) by (auto simp: Post_def bindE_eq_Inr split: if_splits)
  obtain net where one: "audit_transaction tx (ids, p) = Inr (finsert (txID tx) ids,
      p\<lparr> lpAssetNet := net, lpEntries := lpEntries p + length (txEntries tx), lpTransactions := lpTransactions p + 1 \<rparr>)" "net_zero net"
    using audit_transaction_posted [OF l1(1) Cons.prems(2)] Cons.prems(3) ids(1) by (metis list.set_intros(1))
  let ?p = "p\<lparr> lpAssetNet := net, lpEntries := lpEntries p + length (txEntries tx), lpTransactions := lpTransactions p + 1 \<rparr>"
  have "\<exists>net. foldE audit_transaction txs (finsert (txID tx) ids, ?p) = Inr (finsert (txID tx) ids |\<union>| fset_of_list (map txID txs),
      ?p\<lparr> lpAssetNet := net, lpEntries := lpEntries ?p + length (concat (map txEntries txs)),
         lpTransactions := lpTransactions ?p + length txs \<rparr>) \<and> net_zero net"
    using one(2) Cons.prems(3) ids(2) by (intro Cons.IH [OF l1(2)]) auto
  then obtain net' where two: "foldE audit_transaction txs (finsert (txID tx) ids, ?p) = Inr (finsert (txID tx) ids |\<union>| fset_of_list (map txID txs),
      ?p\<lparr> lpAssetNet := net', lpEntries := lpEntries ?p + length (concat (map txEntries txs)),
         lpTransactions := lpTransactions ?p + length txs \<rparr>)" "net_zero net'" by blast
  show ?case using two one(1) by (intro exI [of _ net']) simp
qed

text \<open>The identifiers of a log up to a sequence number.\<close>

definition ids_upto :: "nat \<Rightarrow> string fset \<Rightarrow> bool" where
  "ids_upto n ids \<longleftrightarrow> (\<forall>i. i |\<in>| ids \<longrightarrow> (\<exists>k \<le> n. own_tx k i))"

lemma audit_record_facts:
  assumes "record_facts c m (n + 1) rec" "recMarketID rec = mID m" "recSchemaVersion rec = CurrentSchemaVersion"
    "\<And>d. validStateHash (cSum c d)" "net_zero (lpAssetNet p)" "ids_upto n ids"
  shows "\<exists>ids' p'. audit_record m n rec (ids, p) = Inr (ids', p') \<and> ids_upto (n + 1) ids' \<and> net_zero (lpAssetNet p') \<and>
    lpMarketID p' = lpMarketID p \<and> lpRecords p' = lpRecords p \<and>
    lpFinalSequence p' = n + 1 \<and> lpFinalStateHash p' = recStateHash rec \<and>
    lpTransactions p' = lpTransactions p + length (recJournal rec)"
proof -
  define p0 where "p0 = (if n = 0 then p\<lparr> lpFirstSequence := n + 1 \<rparr> else p)"
  have p0: "lpAssetNet p0 = lpAssetNet p" "lpMarketID p0 = lpMarketID p" "lpRecords p0 = lpRecords p" "lpTransactions p0 = lpTransactions p"
    by (simp_all add: p0_def)
  obtain l l' where l: "post_all (recJournal rec) l = Inr l'" using assms(1) by (auto simp: record_facts_def)
  have own: "\<forall>tx \<in> set (recJournal rec). own_tx (n + 1) (txID tx)" using assms(1) by (simp add: record_facts_def)
  have fresh: "txID tx |\<notin>| ids" if tx: "tx \<in> set (recJournal rec)" for tx
  proof
    assume "txID tx |\<in>| ids"
    then obtain k where "k \<le> n" "own_tx k (txID tx)" using assms(6) by (auto simp: ids_upto_def)
    moreover have "own_tx (n + 1) (txID tx)" using own tx by blast
    ultimately have "k = n + 1" by (intro own_tx_inj)
    then show False using \<open>k \<le> n\<close> by simp
  qed
  have "net_zero (lpAssetNet p0)" using assms(5) p0 by simp
  then obtain net where f: "foldE audit_transaction (recJournal rec) (ids, p0) = Inr (ids |\<union>| fset_of_list (map txID (recJournal rec)),
      p0\<lparr> lpAssetNet := net, lpEntries := lpEntries p0 + length (concat (map txEntries (recJournal rec))),
         lpTransactions := lpTransactions p0 + length (recJournal rec) \<rparr>)" "net_zero net"
    using audit_transactions_posted [OF l, where p = p0 and ids = ids] fresh by (metis (no_types, lifting))
  have ev: "list_all (\<lambda>(eventIndex, event). evSequence event = n + 1 \<and> evIndex event = eventIndex + 1)
      (enumerate 0 (rEvents (recResult rec)))"
    using assms(1) by (auto simp: record_facts_def numbered_def list_all_iff in_set_enumerate_eq)
  have h: "validStateHash (recStateHash rec)"
  proof -
    obtain t where "hashes_to c t (recStateHash rec)" using assms(1) by (auto simp: record_facts_def)
    then obtain d where "cSum c d = recStateHash rec" by (auto simp: hashes_to_def state_hash_def bindE_eq_Inr)
    then show ?thesis using assms(4) [of d] by simp
  qed
  have s: "supportedRecordSchema (recSchemaVersion rec)" using assms(3) by (simp add: supportedRecordSchema_def)
  have g: "cmdSequence (recCommand rec) = n + 1" "rSequence (recResult rec) = n + 1" "cmdFingerprint (recCommand rec) \<noteq> []"
    "kMarketID (cmdRequestKey (recCommand rec)) = mID m" "IdempotencyKey_Validate (cmdRequestKey (recCommand rec)) = Inr ()"
    using assms(1) by (simp_all add: record_facts_def)
  have "audit_record m n rec (ids, p) = Inr (ids |\<union>| fset_of_list (map txID (recJournal rec)),
      p0\<lparr> lpAssetNet := net, lpEntries := lpEntries p0 + length (concat (map txEntries (recJournal rec))),
         lpTransactions := lpTransactions p0 + length (recJournal rec), lpFinalSequence := n + 1, lpFinalStateHash := recStateHash rec \<rparr>)"
    unfolding audit_record_def Let_def prod.case p0_def [symmetric] using g s h ev assms(2) by (simp add: f(1) del: One_nat_def add_Suc_right)
  moreover have "ids_upto (n + 1) (ids |\<union>| fset_of_list (map txID (recJournal rec)))"
    unfolding ids_upto_def
  proof (intro allI impI)
    fix i
    assume "i |\<in>| ids |\<union>| fset_of_list (map txID (recJournal rec))"
    then consider "i |\<in>| ids" | tx where "tx \<in> set (recJournal rec)" "i = txID tx" by (auto simp: fset_of_list_elem)
    then show "\<exists>k \<le> n + 1. own_tx k i"
    proof cases
      case 1
      then show ?thesis using assms(6) unfolding ids_upto_def by (meson le_add1 le_trans)
    next
      case 2
      then show ?thesis using own by blast
    qed
  qed
  ultimately show ?thesis using f(2) p0 by (simp del: One_nat_def add_Suc_right)
qed

lemma audit_records_facts:
  assumes "\<And>i. i < length recs \<Longrightarrow> record_facts c m (n + i + 1) (recs ! i)"
    "\<forall>rec \<in> set recs. recSchemaVersion rec = CurrentSchemaVersion \<and> recMarketID rec = mID m"
    "\<And>d. validStateHash (cSum c d)" "net_zero (lpAssetNet p)" "ids_upto n ids"
  shows "\<exists>ids' p'. audit_records m n recs (ids, p) = Inr (ids', p') \<and> net_zero (lpAssetNet p') \<and>
    lpMarketID p' = lpMarketID p \<and> lpRecords p' = lpRecords p \<and>
    lpFinalSequence p' = (if recs = [] then lpFinalSequence p else n + length recs) \<and>
    lpFinalStateHash p' = (if recs = [] then lpFinalStateHash p else recStateHash (last recs)) \<and>
    lpTransactions p' = lpTransactions p + length (concat (map recJournal recs))"
  using assms(1,2,4,5)
proof (induction recs arbitrary: n ids p)
  case (Cons rec recs)
  have "record_facts c m (n + 1) rec" using Cons.prems(1) [of 0] by simp
  moreover have "recMarketID rec = mID m" "recSchemaVersion rec = CurrentSchemaVersion" using Cons.prems(2) by simp_all
  ultimately have "\<exists>ids' p'. audit_record m n rec (ids, p) = Inr (ids', p') \<and> ids_upto (n + 1) ids' \<and> net_zero (lpAssetNet p') \<and>
    lpMarketID p' = lpMarketID p \<and> lpRecords p' = lpRecords p \<and> lpFinalSequence p' = n + 1 \<and> lpFinalStateHash p' = recStateHash rec \<and>
    lpTransactions p' = lpTransactions p + length (recJournal rec)"
    by (rule audit_record_facts [OF _ _ _ assms(3) Cons.prems(3,4)])
  then obtain ids1 p1 where one: "audit_record m n rec (ids, p) = Inr (ids1, p1)" "ids_upto (n + 1) ids1" "net_zero (lpAssetNet p1)"
    "lpMarketID p1 = lpMarketID p" "lpRecords p1 = lpRecords p" "lpFinalSequence p1 = n + 1" "lpFinalStateHash p1 = recStateHash rec"
    "lpTransactions p1 = lpTransactions p + length (recJournal rec)" by blast
  have f: "record_facts c m (n + 1 + i + 1) (recs ! i)" if "i < length recs" for i using Cons.prems(1) [of "Suc i"] that by simp
  have "\<forall>rec \<in> set recs. recSchemaVersion rec = CurrentSchemaVersion \<and> recMarketID rec = mID m" using Cons.prems(2) by simp
  from Cons.IH [OF f this one(3,2)]
  obtain ids' p' where "audit_records m (n + 1) recs (ids1, p1) = Inr (ids', p')" "net_zero (lpAssetNet p')"
    "lpMarketID p' = lpMarketID p1" "lpRecords p' = lpRecords p1"
    "lpFinalSequence p' = (if recs = [] then lpFinalSequence p1 else n + 1 + length recs)"
    "lpFinalStateHash p' = (if recs = [] then lpFinalStateHash p1 else recStateHash (last recs))"
    "lpTransactions p' = lpTransactions p1 + length (concat (map recJournal recs))" by blast
  then show ?case using one by (intro exI [of _ ids'] exI [of _ p']) simp
qed auto

lemma audit_passes:
  assumes "log_ok c m recs sn s" "market_ok m" "\<And>d. validStateHash (cSum c d)"
  shows "\<exists>p. AuditRecords m recs = Inr p \<and> lpMarketID p = mID m \<and> lpRecords p = length recs \<and>
    lpFinalSequence p = length recs \<and> (recs \<noteq> [] \<longrightarrow> hashes_to c s (lpFinalStateHash p)) \<and>
    lpTransactions p = length (concat (map recJournal recs)) \<and> net_zero (lpAssetNet p)"
proof -
  let ?p = "\<lparr> lpMarketID = mID m, lpFirstSequence = 0, lpFinalSequence = 0, lpFinalStateHash = [],
    lpRecords = length recs, lpTransactions = 0, lpEntries = 0, lpAssetNet = fmempty :: (Asset, int) fmap \<rparr>"
  have z: "net_zero (lpAssetNet ?p)" "ids_upto 0 {||}" by (simp_all add: net_zero_def ids_upto_def)
  have f: "record_facts c m (0 + i + 1) (recs ! i)" if "i < length recs" for i using log_records(1) [OF assms(1) that] by simp
  from audit_records_facts [OF f log_okD(4) [OF assms(1)] assms(3) z]
  obtain ids' p' where "audit_records m 0 recs ({||}, ?p) = Inr (ids', p')" "net_zero (lpAssetNet p')"
    "lpMarketID p' = lpMarketID ?p" "lpRecords p' = lpRecords ?p"
    "lpFinalSequence p' = (if recs = [] then lpFinalSequence ?p else 0 + length recs)"
    "lpFinalStateHash p' = (if recs = [] then lpFinalStateHash ?p else recStateHash (last recs))"
    "lpTransactions p' = lpTransactions ?p + length (concat (map recJournal recs))" by blast
  then show ?thesis using market_okD(19) [OF assms(2)] log_records(2) [OF assms(1)]
    by (intro exI [of _ p']) (simp add: AuditRecords_def net_zero_pred)
qed


section \<open>What a passed audit says\<close>

lemma audit_entries_net:
  assumes "foldE audit_entry es (net, p) = Inr (net', p')" "\<forall>e \<in> set es. in64 (eAmount e)" "\<forall>a. in64 (fmget 0 net a)"
  shows "(\<forall>a. fmget 0 net' a = fmget 0 net a + asset_net es a) \<and> lpEntries p' = lpEntries p + length es \<and>
    lpTransactions p' = lpTransactions p"
  using assms
proof (induction es arbitrary: net p)
  case (Cons e es)
  from Cons.prems(1) obtain n1 p1 where 1: "audit_entry e (net, p) = Inr (n1, p1)" and 2: "foldE audit_entry es (n1, p1) = Inr (net', p')"
    by (auto simp: bindE_eq_Inr)
  from 1 obtain v where "CheckedAdd (fmget 0 net (eAsset e)) (eAmount e) = Inr v"
    and n1: "n1 = fmupd (eAsset e) v net" "lpEntries p1 = lpEntries p + 1" "lpTransactions p1 = lpTransactions p"
    by (auto simp: audit_entry_def refuse_eq_Inr)
  then have v: "v = fmget 0 net (eAsset e) + eAmount e" "in64 v"
    using Cons.prems(2,3) by (auto simp: CheckedAdd_spec split: if_splits)
  have "\<forall>a. in64 (fmget 0 n1 a)" using n1(1) v(2) Cons.prems(3) by simp
  from Cons.IH [OF 2 _ this] Cons.prems(2) n1 v(1) show ?case by auto
qed simp

lemma audit_transaction_balanced:
  assumes "audit_transaction tx (ids, p) = Inr (ids', p')" "\<forall>e \<in> set (txEntries tx). in64 (eAmount e)"
  shows "txID tx |\<notin>| ids" "ids' = finsert (txID tx) ids" "asset_net (txEntries tx) a = 0"
    "lpTransactions p' = lpTransactions p + 1" "lpEntries p' = lpEntries p + length (txEntries tx)"
proof -
  from assms(1) obtain net p1 where f: "foldE audit_entry (txEntries tx) (fmempty, p) = Inr (net, p1)"
    and r: "txID tx |\<notin>| ids" "ids' = finsert (txID tx) ids" "fmpred (\<lambda>_ net. net = 0) net"
      "p' = p1\<lparr> lpTransactions := lpTransactions p1 + 1 \<rparr>"
    by (auto simp: audit_transaction_def bindE_eq_Inr split: if_splits)
  have "\<forall>a. in64 (fmget 0 (fmempty :: (Asset, int) fmap) a)" by (simp add: in64_def MinInt64_def MaxInt64_def)
  note E = audit_entries_net [OF f assms(2) this]
  show "txID tx |\<notin>| ids" "ids' = finsert (txID tx) ids" by (fact r)+
  show "asset_net (txEntries tx) a = 0" using E r(3) by (simp add: net_zero_pred net_zero_def)
  show "lpTransactions p' = lpTransactions p + 1" "lpEntries p' = lpEntries p + length (txEntries tx)" using E r(4) by simp_all
qed

definition journal64 :: "Transaction list \<Rightarrow> bool" where
  "journal64 txs \<longleftrightarrow> (\<forall>tx \<in> set txs. \<forall>e \<in> set (txEntries tx). in64 (eAmount e))"

definition balanced :: "Transaction list \<Rightarrow> bool" where
  "balanced txs \<longleftrightarrow> (\<forall>tx \<in> set txs. \<forall>a. asset_net (txEntries tx) a = 0)"

lemma audit_transactions_balanced:
  assumes "foldE audit_transaction txs (ids, p) = Inr (ids', p')" "journal64 txs"
  shows "distinct (map txID txs) \<and> (\<forall>tx \<in> set txs. txID tx |\<notin>| ids) \<and> ids' = ids |\<union>| fset_of_list (map txID txs) \<and> balanced txs \<and>
    lpTransactions p' = lpTransactions p + length txs \<and> lpEntries p' = lpEntries p + length (concat (map txEntries txs))"
  using assms
proof (induction txs arbitrary: ids p)
  case (Cons tx txs)
  from Cons.prems(1) obtain i1 p1 where 1: "audit_transaction tx (ids, p) = Inr (i1, p1)" and 2: "foldE audit_transaction txs (i1, p1) = Inr (ids', p')"
    by (auto simp: bindE_eq_Inr)
  have in64: "\<forall>e \<in> set (txEntries tx). in64 (eAmount e)" "journal64 txs" using Cons.prems(2) by (auto simp: journal64_def)
  note T = audit_transaction_balanced [OF 1 in64(1)]
  show ?case using Cons.IH [OF 2 in64(2)] T by (auto simp: balanced_def fset_of_list_elem)
qed (simp add: balanced_def)

lemma audit_record_sound:
  assumes "audit_record m n rec (ids, p) = Inr (ids', p')" "journal64 (recJournal rec)"
  shows "recMarketID rec = mID m \<and> cmdSequence (recCommand rec) = n + 1 \<and> rSequence (recResult rec) = n + 1 \<and>
    (\<forall>i < length (rEvents (recResult rec)). evSequence (rEvents (recResult rec) ! i) = n + 1 \<and> evIndex (rEvents (recResult rec) ! i) = i + 1) \<and>
    validStateHash (recStateHash rec)"
    "distinct (map txID (recJournal rec)) \<and> (\<forall>tx \<in> set (recJournal rec). txID tx |\<notin>| ids) \<and>
     ids' = ids |\<union>| fset_of_list (map txID (recJournal rec)) \<and> balanced (recJournal rec)"
    "lpTransactions p' = lpTransactions p + length (recJournal rec) \<and>
     lpEntries p' = lpEntries p + length (concat (map txEntries (recJournal rec))) \<and>
     lpFinalSequence p' = n + 1 \<and> lpFinalStateHash p' = recStateHash rec"
proof -
  define p0 where "p0 = (if n = 0 then p\<lparr> lpFirstSequence := n + 1 \<rparr> else p)"
  have p0: "lpTransactions p0 = lpTransactions p" "lpEntries p0 = lpEntries p" by (simp_all add: p0_def)
  have ev: "list_all (\<lambda>(i, e). evSequence e = n + 1 \<and> evIndex e = i + 1) (enumerate 0 es) \<longleftrightarrow>
      (\<forall>i < length es. evSequence (es ! i) = n + 1 \<and> evIndex (es ! i) = i + 1)" for es
    by (auto simp: list_all_iff in_set_enumerate_eq)
  have r: "bindE (foldE audit_transaction (recJournal rec) (ids, p0)) (\<lambda>(transactionIDs1, proof1).
      if \<not> validStateHash (recStateHash rec) then Inl ErrLedgerProofFailed
      else Inr (transactionIDs1, proof1\<lparr> lpFinalSequence := n + 1, lpFinalStateHash := recStateHash rec \<rparr>)) = Inr (ids', p')"
    and g: "recMarketID rec = mID m" "cmdSequence (recCommand rec) = n + 1" "rSequence (recResult rec) = n + 1"
    and e: "list_all (\<lambda>(i, e). evSequence e = n + 1 \<and> evIndex e = i + 1) (enumerate 0 (rEvents (recResult rec)))"
    using assms(1) unfolding audit_record_def Let_def prod.case p0_def [symmetric] refuse_eq_Inr by simp_all
  obtain p1 where f: "foldE audit_transaction (recJournal rec) (ids, p0) = Inr (ids', p1)" and h: "validStateHash (recStateHash rec)"
    and p': "p' = p1\<lparr> lpFinalSequence := n + 1, lpFinalStateHash := recStateHash rec \<rparr>"
    using r by (auto simp: bindE_eq_Inr split: if_splits)
  note J = audit_transactions_balanced [OF f assms(2)]
  show "recMarketID rec = mID m \<and> cmdSequence (recCommand rec) = n + 1 \<and> rSequence (recResult rec) = n + 1 \<and>
    (\<forall>i < length (rEvents (recResult rec)). evSequence (rEvents (recResult rec) ! i) = n + 1 \<and> evIndex (rEvents (recResult rec) ! i) = i + 1) \<and>
    validStateHash (recStateHash rec)"
    using g e h unfolding ev by simp
  show "distinct (map txID (recJournal rec)) \<and> (\<forall>tx \<in> set (recJournal rec). txID tx |\<notin>| ids) \<and>
     ids' = ids |\<union>| fset_of_list (map txID (recJournal rec)) \<and> balanced (recJournal rec)" using J by blast
  show "lpTransactions p' = lpTransactions p + length (recJournal rec) \<and>
     lpEntries p' = lpEntries p + length (concat (map txEntries (recJournal rec))) \<and>
     lpFinalSequence p' = n + 1 \<and> lpFinalStateHash p' = recStateHash rec" using J p' p0 by simp
qed

lemma audit_records_sound:
  assumes "audit_records m n recs (ids, p) = Inr (ids', p')" "journal64 (concat (map recJournal recs))"
  shows "(\<forall>i < length recs. recMarketID (recs ! i) = mID m \<and> cmdSequence (recCommand (recs ! i)) = n + i + 1 \<and>
      rSequence (recResult (recs ! i)) = n + i + 1 \<and>
      (\<forall>k < length (rEvents (recResult (recs ! i))). evSequence (rEvents (recResult (recs ! i)) ! k) = n + i + 1 \<and>
         evIndex (rEvents (recResult (recs ! i)) ! k) = k + 1)) \<and>
    distinct (map txID (concat (map recJournal recs))) \<and> (\<forall>tx \<in> set (concat (map recJournal recs)). txID tx |\<notin>| ids) \<and>
    balanced (concat (map recJournal recs)) \<and>
    lpTransactions p' = lpTransactions p + length (concat (map recJournal recs)) \<and>
    lpEntries p' = lpEntries p + length (concat (map txEntries (concat (map recJournal recs)))) \<and>
    (recs \<noteq> [] \<longrightarrow> lpFinalSequence p' = n + length recs \<and> lpFinalStateHash p' = recStateHash (last recs))"
  using assms
proof (induction recs arbitrary: n ids p)
  case (Cons rec recs)
  from Cons.prems(1) obtain i1 p1 where 1: "audit_record m n rec (ids, p) = Inr (i1, p1)" and 2: "audit_records m (n + 1) recs (i1, p1) = Inr (ids', p')"
    by (auto simp: bindE_eq_Inr)
  have in64: "journal64 (recJournal rec)" "journal64 (concat (map recJournal recs))" using Cons.prems(2) by (auto simp: journal64_def)
  note R = audit_record_sound [OF 1 in64(1)]
  note IH = Cons.IH [OF 2 in64(2)]
  have "recs = [] \<Longrightarrow> p' = p1" using 2 by simp
  have dis: "set (map txID (recJournal rec)) \<inter> set (map txID (concat (map recJournal recs))) = {}"
  proof -
    have "txID tx |\<notin>| i1" if "tx \<in> set (concat (map recJournal recs))" for tx using IH that by blast
    moreover have "i |\<in>| i1" if "i \<in> set (map txID (recJournal rec))" for i
    proof -
      have "i1 = ids |\<union>| fset_of_list (map txID (recJournal rec))" using R(2) by blast
      then show ?thesis using that by (simp add: fset_of_list_elem del: fset_of_list_map)
    qed
    ultimately show ?thesis by (auto simp del: distinct_map) (metis image_eqI)
  qed
  have d: "distinct (map txID (concat (map recJournal (rec # recs))))"
    unfolding list.map concat.simps map_append distinct_append using R(2) IH dis by blast
  have f: "\<forall>tx \<in> set (concat (map recJournal (rec # recs))). txID tx |\<notin>| ids" using R(2) IH by auto
  have b: "balanced (concat (map recJournal (rec # recs)))" using R(2) IH by (auto simp: balanced_def)
  show ?case using R(1,3) IH d f b \<open>recs = [] \<Longrightarrow> p' = p1\<close> by (simp add: nth_Cons' del: distinct_map) 
qed (simp add: balanced_def)


lemma audit_sound:
  assumes "AuditRecords m recs = Inr p" "journal64 (concat (map recJournal recs))"
  shows "(\<forall>i < length recs. recMarketID (recs ! i) = mID m \<and> cmdSequence (recCommand (recs ! i)) = i + 1 \<and>
      rSequence (recResult (recs ! i)) = i + 1 \<and>
      (\<forall>k < length (rEvents (recResult (recs ! i))). evSequence (rEvents (recResult (recs ! i)) ! k) = i + 1 \<and>
         evIndex (rEvents (recResult (recs ! i)) ! k) = k + 1)) \<and>
    distinct (map txID (concat (map recJournal recs))) \<and> balanced (concat (map recJournal recs)) \<and>
    lpTransactions p = length (concat (map recJournal recs)) \<and>
    lpEntries p = length (concat (map txEntries (concat (map recJournal recs)))) \<and>
    (recs \<noteq> [] \<longrightarrow> lpFinalSequence p = length recs \<and> lpFinalStateHash p = recStateHash (last recs))"
proof -
  let ?p = "\<lparr> lpMarketID = mID m, lpFirstSequence = 0, lpFinalSequence = 0, lpFinalStateHash = [],
    lpRecords = length recs, lpTransactions = 0, lpEntries = 0, lpAssetNet = fmempty :: (Asset, int) fmap \<rparr>"
  obtain ids where a: "audit_records m 0 recs ({||}, ?p) = Inr (ids, p)"
    using assms(1) by (auto simp: AuditRecords_def bindE_eq_Inr refuse_eq_Inr split: sum.splits)
  have z: "lpTransactions ?p = 0" "lpEntries ?p = 0" by simp_all
  show ?thesis using audit_records_sound [OF a assms(2)] unfolding z add_0 by blast
qed

end
