(* ===== verification/Composite.thy ===== *)
theory Composite
  imports Decimal_Library
begin

text \<open>
  The composite price of an asset (\<open>marketdata/composite.go\<close>): which markets take part, the median
  filter, the weights of venues with their cap, and the indexer that writes one index and one
  snapshot per venue and asset.

  \<^item> A \<open>decimal.Decimal\<close> is its value, a rational number; addition, subtraction, multiplication and
    comparison of that library are exact. Its division rounds, its parser and printer are not part
    of the repository: they are the fields of \<open>DecimalLib\<close>. A division by zero panics there; the only
    divisor that is not checked before is the median.
  \<^item> Go walks a map in any order. Where the result can depend on it, the order is the argument \<open>walk\<close>,
    which gives the keys in the order of the walk; elsewhere the sorted order is taken. \<open>sort.Slice\<close> may
    order equal keys in any way; the sorts here are stable.
  \<^item> A time is a number of nanoseconds, the zero time is \<open>None\<close>. JSON encoders are arguments.
\<close>

section \<open>Data\<close>

definition seconds :: "int \<Rightarrow> int" where "seconds n = n * 1000000000"

definition CompositeFreshnessLimit :: int where "CompositeFreshnessLimit = seconds 30"
definition StableRateFreshness :: int where "StableRateFreshness = seconds 600"
definition compositeOutlierLimit :: rat where "compositeOutlierLimit = 3 / 100"
definition compositeVenueWeightCap :: rat where "compositeVenueWeightCap = 2 / 5"

record CompositeCandidate =
  ccMarketID :: string
  ccMarketCode :: string
  ccProvider :: string
  ccMarketType :: string
  ccQuoteAsset :: string
  ccPrice :: rat
  ccOpen24h :: "rat option"
  ccChange24hPct :: "rat option"
  ccTurnover24h :: rat
  ccObservedAt :: "int option"
  ccSourceTime :: "int option"
  ccQuoteToUSD :: "rat option"

record CompositeContributor =
  cbMarketID :: string
  cbMarketCode :: string
  cbProvider :: string
  cbWeight :: string
  cbPriceUSD :: string
  cbTurnover24hUSD :: string

record CompositeExclusion =
  ceMarketID :: string
  ceReason :: string

record CompositeResult =
  crAvailable :: bool
  crPriceUSD :: "rat option"
  crOpen24hUSD :: "rat option"
  crChange24hPct :: "rat option"
  crTurnover24hUSD :: "rat option"
  crContributorCount :: nat
  crConfidence :: string
  crContributors :: "CompositeContributor list"
  crExclusions :: "CompositeExclusion list"

record weightedCandidate =
  wcCandidate :: CompositeCandidate
  wcPriceUSD :: rat
  wcOpenUSD :: "rat option"
  wcTurnover :: rat
  wcWeight :: rat

section \<open>Which markets take part\<close>

definition exclusion_reason :: "int \<Rightarrow> CompositeCandidate \<Rightarrow> string" where
  "exclusion_reason now c =
     (if \<not> EqualFold (ccMarketType c) ''spot'' then ''not_spot''
      else if ccPrice c \<le> 0 then ''non_positive_price''
      else case ccObservedAt c of
        None \<Rightarrow> ''stale''
      | Some observedAt \<Rightarrow>
          if now - observedAt > CompositeFreshnessLimit then ''stale''
          else if observedAt > now + seconds 5 then ''future_observation''
          else case ccQuoteToUSD c of
            None \<Rightarrow> ''missing_quote_rate''
          | Some rate \<Rightarrow> if rate \<le> 0 then ''missing_quote_rate'' else [])"

definition open24h_of :: "DecimalLib \<Rightarrow> CompositeCandidate \<Rightarrow> rat option" where
  "open24h_of d c =
     (case (ccOpen24h c, ccChange24hPct c) of
        (None, Some change) \<Rightarrow>
          (let denominator = 1 + dlDiv d change 100
           in if denominator > 0 then Some (dlDiv d (ccPrice c) denominator) else None)
      | (openPrice, _) \<Rightarrow> openPrice)"

definition weigh :: "DecimalLib \<Rightarrow> CompositeCandidate \<Rightarrow> weightedCandidate" where
  "weigh d c =
     (let rate = (case ccQuoteToUSD c of Some rate \<Rightarrow> rate | None \<Rightarrow> 0)
      in \<lparr> wcCandidate = c, wcPriceUSD = ccPrice c * rate,
           wcOpenUSD = (case open24h_of d c of
                          Some value \<Rightarrow> if value > 0 then Some (value * rate) else None
                        | None \<Rightarrow> None),
           wcTurnover = max (ccTurnover24h c * rate) 0, wcWeight = 0 \<rparr>)"

text \<open>The first loop: candidates with a reason are excluded, the others are weighed.\<close>

definition select_candidates ::
  "DecimalLib \<Rightarrow> int \<Rightarrow> CompositeCandidate list \<Rightarrow> weightedCandidate list \<times> CompositeExclusion list" where
  "select_candidates d now candidates =
     (map (weigh d) (filter (\<lambda>c. exclusion_reason now c = []) candidates),
      map (\<lambda>c. \<lparr> ceMarketID = ccMarketID c, ceReason = exclusion_reason now c \<rparr>)
        (filter (\<lambda>c. exclusion_reason now c \<noteq> []) candidates))"

definition decimalMedian :: "DecimalLib \<Rightarrow> rat list \<Rightarrow> rat" where
  "decimalMedian d values =
     (if values = [] then 0
      else
        (let copyValues = sort values;
             middle = length copyValues div 2
         in if length copyValues mod 2 = 1 then copyValues ! middle
            else dlDiv d (copyValues ! (middle - 1) + copyValues ! middle) 2))"

definition outlier :: "DecimalLib \<Rightarrow> rat \<Rightarrow> weightedCandidate \<Rightarrow> bool" where
  "outlier d median w \<longleftrightarrow> dlDiv d \<bar>wcPriceUSD w - median\<bar> median > compositeOutlierLimit"

definition drop_outliers ::
  "DecimalLib \<Rightarrow> rat \<Rightarrow> weightedCandidate list \<Rightarrow> weightedCandidate list \<times> CompositeExclusion list" where
  "drop_outliers d median valid =
     (filter (\<lambda>w. \<not> outlier d median w) valid,
      map (\<lambda>w. \<lparr> ceMarketID = ccMarketID (wcCandidate w), ceReason = ''median_deviation_gt_3pct'' \<rparr>)
        (filter (outlier d median) valid))"

section \<open>Weights\<close>

definition weight_sum :: "(string, rat) fmap \<Rightarrow> rat" where
  "weight_sum m = sum_list (map snd (sorted_list_of_fmap m))"

text \<open>One provider of the capping loop; the last component is \<open>cappedAny\<close>.\<close>

definition cap_provider ::
  "DecimalLib \<Rightarrow> rat \<Rightarrow> rat \<Rightarrow> string \<Rightarrow> (string, rat) fmap \<times> rat \<times> (string, rat) fmap \<times> bool
     \<Rightarrow> (string, rat) fmap \<times> rat \<times> (string, rat) fmap \<times> bool" where
  "cap_provider d cap activeTotal provider st =
     (let (result, remaining, active, cappedAny) = st in
      case fmlookup active provider of
        None \<Rightarrow> st
      | Some weight \<Rightarrow>
          if dlDiv d (remaining * weight) activeTotal > cap
          then (fmupd provider cap result, remaining - cap, fmdrop provider active, True)
          else st)"

definition cap_pass ::
  "DecimalLib \<Rightarrow> rat \<Rightarrow> (string list \<Rightarrow> string list) \<Rightarrow> (string, rat) fmap \<Rightarrow> rat \<Rightarrow> (string, rat) fmap
     \<Rightarrow> (string, rat) fmap \<times> rat \<times> (string, rat) fmap \<times> bool" where
  "cap_pass d cap walk result remaining active =
     fold (cap_provider d cap (weight_sum active)) (walk (map fst (sorted_list_of_fmap active)))
       (result, remaining, active, False)"

lemma cap_providers_dom:
  "fold (cap_provider d cap t) ps (r, m, a, b) = (r', m', a', b') \<Longrightarrow>
    fmdom a' |\<subseteq>| fmdom a \<and> (b' \<longrightarrow> b \<or> fmdom a' |\<subset>| fmdom a)"
proof (induction ps arbitrary: r m a b)
  case (Cons p ps)
  obtain r1 m1 a1 b1 where one: "cap_provider d cap t p (r, m, a, b) = (r1, m1, a1, b1)" by (metis prod_cases4)
  have "fmdom a1 |\<subseteq>| fmdom a \<and> (b1 \<longrightarrow> b \<or> fmdom a1 |\<subset>| fmdom a)"
    using one by (auto simp: cap_provider_def Let_def fmlookup_dom_iff split: option.splits if_splits)
  moreover have "fmdom a' |\<subseteq>| fmdom a1 \<and> (b' \<longrightarrow> b1 \<or> fmdom a' |\<subset>| fmdom a1)"
    using Cons.prems one by (intro Cons.IH [of r1 m1 a1 b1]) simp
  ultimately show ?case by auto
qed simp

lemma cap_pass_dom:
  assumes "(r', m', a', True) = cap_pass d cap walk r m a"
  shows "fcard (fmdom a') < fcard (fmdom a)"
proof -
  have "fold (cap_provider d cap (weight_sum a)) (walk (map fst (sorted_list_of_fmap a))) (r, m, a, False) = (r', m', a', True)"
    using assms by (simp add: cap_pass_def)
  then have "fmdom a' |\<subset>| fmdom a" using cap_providers_dom by blast
  then show ?thesis by (rule pfsubset_fcard_mono)
qed

function (sequential) capped_loop ::
  "DecimalLib \<Rightarrow> rat \<Rightarrow> (string list \<Rightarrow> string list) \<Rightarrow> (string, rat) fmap \<Rightarrow> rat \<Rightarrow> (string, rat) fmap \<Rightarrow> (string, rat) fmap" where
  "capped_loop d cap walk result remaining active =
     (if active = fmempty then result
      else if weight_sum active = 0
      then (let equal = dlDiv d remaining (of_nat (length (sorted_list_of_fmap active)))
            in result ++\<^sub>f fmmap (\<lambda>_. equal) active)
      else
        (case cap_pass d cap walk result remaining active of
           (result', remaining', active', cappedAny) \<Rightarrow>
             if cappedAny then capped_loop d cap walk result' remaining' active'
             else result' ++\<^sub>f fmmap (\<lambda>weight. dlDiv d (remaining' * weight) (weight_sum active)) active'))"
  by pat_completeness auto

termination
  by (relation "measure (\<lambda>(d, cap, walk, result, remaining, active). fcard (fmdom active))") (auto intro: cap_pass_dom)

declare capped_loop.simps [simp del]

definition cappedNormalizedWeights ::
  "DecimalLib \<Rightarrow> (string list \<Rightarrow> string list) \<Rightarrow> (string, rat) fmap \<Rightarrow> rat \<Rightarrow> (string, rat) fmap" where
  "cappedNormalizedWeights d walk raw cap =
     (if length (sorted_list_of_fmap raw) \<le> 2 then raw else capped_loop d cap walk fmempty 1 raw)"

definition venue :: "weightedCandidate \<Rightarrow> string" where
  "venue w = ToLower (TrimSpace (ccProvider (wcCandidate w)))"

definition venue_turnover :: "weightedCandidate list \<Rightarrow> (string, rat) fmap" where
  "venue_turnover ws = fold (\<lambda>w m. fmupd (venue w) (fmget 0 m (venue w) + wcTurnover w) m) ws fmempty"

definition venue_counts :: "weightedCandidate list \<Rightarrow> (string, nat) fmap" where
  "venue_counts ws = fold (\<lambda>w m. fmupd (venue w) (fmget 0 m (venue w) + 1) m) ws fmempty"

definition raw_weights :: "DecimalLib \<Rightarrow> weightedCandidate list \<Rightarrow> (string, rat) fmap" where
  "raw_weights d ws =
     (let venueTurnover = venue_turnover ws;
          totalTurnover = sum_list (map wcTurnover ws);
          venueCount = of_nat (length (sorted_list_of_fmap venueTurnover))
      in fmmap (\<lambda>turnover. if totalTurnover > 0 then dlDiv d turnover totalTurnover else dlDiv d 1 venueCount) venueTurnover)"

definition assignCompositeWeights ::
  "DecimalLib \<Rightarrow> (string list \<Rightarrow> string list) \<Rightarrow> weightedCandidate list \<Rightarrow> weightedCandidate list" where
  "assignCompositeWeights d walk ws =
     (let venueTurnover = venue_turnover ws;
          venueCounts = venue_counts ws;
          cappedVenueWeights = cappedNormalizedWeights d walk (raw_weights d ws) compositeVenueWeightCap
      in map (\<lambda>w. w\<lparr> wcWeight := fmget 0 cappedVenueWeights (venue w) *
           (if fmget 0 venueTurnover (venue w) > 0
            then dlDiv d (wcTurnover w) (fmget 0 venueTurnover (venue w))
            else dlDiv d 1 (of_nat (fmget 0 venueCounts (venue w)))) \<rparr>) ws)"

section \<open>The composite\<close>

definition compositeConfidence :: "nat \<Rightarrow> string" where
  "compositeConfidence n =
     (if n \<ge> 3 then ''high'' else if n = 2 then ''medium'' else if n = 1 then ''low'' else ''unknown'')"

definition unavailable :: "CompositeExclusion list \<Rightarrow> CompositeResult" where
  "unavailable exclusions =
     \<lparr> crAvailable = False, crPriceUSD = None, crOpen24hUSD = None, crChange24hPct = None, crTurnover24hUSD = None,
       crContributorCount = 0, crConfidence = ''unknown'', crContributors = [], crExclusions = exclusions \<rparr>"

definition contributor :: "DecimalLib \<Rightarrow> weightedCandidate \<Rightarrow> CompositeContributor" where
  "contributor d w =
     \<lparr> cbMarketID = ccMarketID (wcCandidate w), cbMarketCode = ccMarketCode (wcCandidate w),
       cbProvider = ccProvider (wcCandidate w), cbWeight = dlString d (wcWeight w),
       cbPriceUSD = dlString d (wcPriceUSD w), cbTurnover24hUSD = dlString d (wcTurnover w) \<rparr>"

definition composite_of :: "DecimalLib \<Rightarrow> weightedCandidate list \<Rightarrow> CompositeExclusion list \<Rightarrow> CompositeResult" where
  "composite_of d ws exclusions =
     (let venues = length (remdups (map venue ws));
          price = sum_list (map (\<lambda>w. wcPriceUSD w * wcWeight w) ws);
          turnover = sum_list (map wcTurnover ws);
          openAvailable = list_all (\<lambda>w. wcOpenUSD w \<noteq> None) ws;
          openPrice = sum_list (map (\<lambda>w. case wcOpenUSD w of None \<Rightarrow> 0 | Some value \<Rightarrow> value * wcWeight w) ws)
      in \<lparr> crAvailable = True, crPriceUSD = Some price,
           crOpen24hUSD = (if openAvailable \<and> openPrice > 0 then Some openPrice else None),
           crChange24hPct = (if openAvailable \<and> openPrice > 0 then Some (dlDiv d (price - openPrice) openPrice * 100) else None),
           crTurnover24hUSD = Some turnover, crContributorCount = venues, crConfidence = compositeConfidence venues,
           crContributors = sort_key (\<lambda>c. (cbProvider c, cbMarketID c)) (map (contributor d) ws),
           crExclusions = exclusions \<rparr>)"

definition BuildComposite ::
  "DecimalLib \<Rightarrow> (string list \<Rightarrow> string list) \<Rightarrow> CompositeCandidate list \<Rightarrow> int \<Rightarrow> CompositeResult res" where
  "BuildComposite d walk candidates now =
     (let (valid, exclusions) = select_candidates d now candidates in
      if valid = [] then Inr (unavailable exclusions)
      else
        (let median = decimalMedian d (map wcPriceUSD valid) in
         if median = 0 then Inl Panic
         else
           (let (filtered, outliers) = drop_outliers d median valid in
            if filtered = [] then Inr (unavailable (exclusions @ outliers))
            else Inr (composite_of d (assignCompositeWeights d walk filtered) (exclusions @ outliers)))))"

section \<open>The indexer\<close>

record CompositeMarketCandidate =
  cmAssetID :: string
  cmMarketID :: string
  cmMarketCode :: string
  cmProvider :: string
  cmMarketType :: string
  cmQuoteAsset :: string
  cmPrice :: string
  cmOpen24h :: "string option"
  cmChange24hPct :: "string option"
  cmQuoteTurnover24h :: "string option"
  cmObservedAt :: "int option"
  cmSourceTime :: "int option"

record 'j AssetPriceIndex =
  aiAssetGuid :: string
  aiPriceUSD :: "string option"
  aiOpen24hUSD :: "string option"
  aiChange24hPct :: "string option"
  aiTurnover24hUSD :: "string option"
  aiContributorCount :: nat
  aiConfidence :: string
  aiAvailable :: bool
  aiObservedAt :: int
  aiContributors :: 'j
  aiExclusions :: 'j

record 'j AssetVenueSnapshot =
  avAssetGuid :: string
  avProvider :: string
  avPriceKind :: string
  avPriceUSD :: "string option"
  avOpen24hUSD :: "string option"
  avChange24hPct :: "string option"
  avTurnover24hUSD :: "string option"
  avContributorCount :: nat
  avMarketCount :: nat
  avConfidence :: string
  avQuality :: string
  avAvailable :: bool
  avSourceTime :: "int option"
  avObservedAt :: int
  avMetadata :: 'j

text \<open>The JSON encodings of the contributors, of the exclusions and of the metadata made of both.\<close>

record 'j CompositeJSON =
  cjContributors :: "CompositeContributor list \<Rightarrow> 'j"
  cjExclusions :: "CompositeExclusion list \<Rightarrow> 'j"
  cjMetadata :: "'j \<Rightarrow> 'j \<Rightarrow> 'j"

text \<open>The store; \<open>csSelected\<close> is there when the store also has \<open>QuerySelectedAssetUnionIDs\<close>.\<close>

record ('s, 'j) CompositeStore =
  csQueryTopAssetIDs :: "nat \<Rightarrow> 's \<Rightarrow> string fset res"
  csSelected :: "('s \<Rightarrow> string fset res) option"
  csQueryUSDReferenceRates :: "int \<Rightarrow> int \<Rightarrow> 's \<Rightarrow> (string, string) fmap res"
  csQueryCompositeMarketCandidates :: "'s \<Rightarrow> CompositeMarketCandidate list res"
  csUpsertAssetPriceIndexes :: "'j AssetPriceIndex list \<Rightarrow> 's \<Rightarrow> 's \<times> unit res"
  csUpsertAssetVenueSnapshots :: "'j AssetVenueSnapshot list \<Rightarrow> 's \<Rightarrow> 's \<times> unit res"

definition scaledDecimal :: "DecimalLib \<Rightarrow> string \<Rightarrow> rat option" where
  "scaledDecimal d value = map_option (\<lambda>parsed. parsed / 10 ^ 8) (dlParse d (TrimSpace value))"

definition decimalString :: "DecimalLib \<Rightarrow> rat option \<Rightarrow> string option" where
  "decimalString d value = map_option (dlString d) value"

definition row_candidate :: "DecimalLib \<Rightarrow> (string, string) fmap \<Rightarrow> CompositeMarketCandidate \<Rightarrow> CompositeCandidate option" where
  "row_candidate d rates row =
     (case scaledDecimal d (cmPrice row) of
        None \<Rightarrow> None
      | Some price \<Rightarrow>
          Some \<lparr> ccMarketID = cmMarketID row, ccMarketCode = cmMarketCode row, ccProvider = cmProvider row,
                 ccMarketType = cmMarketType row, ccQuoteAsset = cmQuoteAsset row, ccPrice = price,
                 ccOpen24h = Option.bind (cmOpen24h row) (scaledDecimal d),
                 ccChange24hPct = Option.bind (cmChange24hPct row) (\<lambda>raw. dlParse d (TrimSpace raw)),
                 ccTurnover24h = (case Option.bind (cmQuoteTurnover24h row) (scaledDecimal d) of
                                    Some turnover \<Rightarrow> turnover | None \<Rightarrow> 0),
                 ccObservedAt = cmObservedAt row, ccSourceTime = cmSourceTime row,
                 ccQuoteToUSD = Option.bind (fmlookup rates (ToUpper (cmQuoteAsset row))) (dlParse d) \<rparr>)"

definition venueSnapshot ::
  "DecimalLib \<Rightarrow> 'j CompositeJSON \<Rightarrow> string \<Rightarrow> string \<Rightarrow> string \<Rightarrow> CompositeCandidate list \<Rightarrow> CompositeResult \<Rightarrow> int
     \<Rightarrow> 'j \<Rightarrow> 'j \<Rightarrow> 'j AssetVenueSnapshot" where
  "venueSnapshot d j assetID provider priceKind candidates result now contributors exclusions =
     \<lparr> avAssetGuid = assetID, avProvider = provider, avPriceKind = priceKind,
       avPriceUSD = decimalString d (crPriceUSD result), avOpen24hUSD = decimalString d (crOpen24hUSD result),
       avChange24hPct = decimalString d (crChange24hPct result),
       avTurnover24hUSD = decimalString d (crTurnover24hUSD result),
       avContributorCount = crContributorCount result,
       avMarketCount = length (filter (\<lambda>c. EqualFold (ccMarketType c) ''spot'') candidates),
       avConfidence = crConfidence result, avQuality = crConfidence result, avAvailable = crAvailable result,
       avSourceTime = fold (\<lambda>c sourceTime. case ccSourceTime c of
                                None \<Rightarrow> sourceTime
                              | Some t \<Rightarrow> (case sourceTime of
                                             None \<Rightarrow> Some t
                                           | Some s \<Rightarrow> if t > s then Some t else sourceTime)) candidates None,
       avObservedAt = now, avMetadata = cjMetadata j contributors exclusions \<rparr>"

definition indexed_providers :: "string list" where
  "indexed_providers = [''binance'', ''bybit'', ''coinbase'', ''okx'']"

type_synonym groups = "(string, CompositeCandidate list) fmap"

definition add_row ::
  "DecimalLib \<Rightarrow> (string, string) fmap \<Rightarrow> CompositeMarketCandidate \<Rightarrow> groups \<times> (string, groups) fmap
     \<Rightarrow> groups \<times> (string, groups) fmap" where
  "add_row d rates row st =
     (case row_candidate d rates row of
        None \<Rightarrow> st
      | Some candidate \<Rightarrow>
          (let (grouped, providerGroups) = st;
               assetID = cmAssetID row;
               provider = ToLower (TrimSpace (cmProvider row))
           in (fmupd assetID (fmget [] grouped assetID @ [candidate]) grouped,
               case fmlookup providerGroups provider of
                 None \<Rightarrow> providerGroups
               | Some byAsset \<Rightarrow>
                   fmupd provider (fmupd assetID (fmget [] byAsset assetID @ [candidate]) byAsset) providerGroups)))"

definition group_rows ::
  "DecimalLib \<Rightarrow> (string, string) fmap \<Rightarrow> string fset \<Rightarrow> CompositeMarketCandidate list \<Rightarrow> groups \<times> (string, groups) fmap" where
  "group_rows d rates topAssets rows =
     (let empty = fmap_of_list (map (\<lambda>assetID. (assetID, [])) (sorted_list_of_fset topAssets))
      in fold (add_row d rates) rows (empty, fmap_of_list (map (\<lambda>provider. (provider, empty)) indexed_providers)))"

definition asset_index ::
  "DecimalLib \<Rightarrow> 'j CompositeJSON \<Rightarrow> int \<Rightarrow> string \<Rightarrow> CompositeResult \<Rightarrow> 'j AssetPriceIndex" where
  "asset_index d j now assetID result =
     \<lparr> aiAssetGuid = assetID, aiPriceUSD = decimalString d (crPriceUSD result),
       aiOpen24hUSD = decimalString d (crOpen24hUSD result), aiChange24hPct = decimalString d (crChange24hPct result),
       aiTurnover24hUSD = decimalString d (crTurnover24hUSD result), aiContributorCount = crContributorCount result,
       aiConfidence = crConfidence result, aiAvailable = crAvailable result, aiObservedAt = now,
       aiContributors = cjContributors j (crContributors result), aiExclusions = cjExclusions j (crExclusions result) \<rparr>"

definition venue_snapshot ::
  "DecimalLib \<Rightarrow> 'j CompositeJSON \<Rightarrow> int \<Rightarrow> string \<Rightarrow> string \<Rightarrow> string \<Rightarrow> CompositeCandidate list \<Rightarrow> CompositeResult
     \<Rightarrow> 'j AssetVenueSnapshot" where
  "venue_snapshot d j now provider priceKind assetID candidates result =
     venueSnapshot d j assetID provider priceKind candidates result now
       (cjContributors j (crContributors result)) (cjExclusions j (crExclusions result))"

text \<open>The loops over the groups; a panic of \<open>BuildComposite\<close> ends the run.\<close>

definition index_groups ::
  "DecimalLib \<Rightarrow> (string list \<Rightarrow> string list) \<Rightarrow> 'j CompositeJSON \<Rightarrow> int \<Rightarrow> groups
     \<Rightarrow> ('j AssetPriceIndex list \<times> 'j AssetVenueSnapshot list) res" where
  "index_groups d walk j now grouped =
     foldE (\<lambda>(assetID, candidates) (indexes, snapshots).
       bindE (BuildComposite d walk candidates now) (\<lambda>result.
         Inr (indexes @ [asset_index d j now assetID result],
              snapshots @ [venue_snapshot d j now ''all'' ''composite_spot'' assetID candidates result])))
       (sorted_list_of_fmap grouped) ([], [])"

definition snapshot_groups ::
  "DecimalLib \<Rightarrow> (string list \<Rightarrow> string list) \<Rightarrow> 'j CompositeJSON \<Rightarrow> int \<Rightarrow> (string, groups) fmap
     \<Rightarrow> 'j AssetVenueSnapshot list res" where
  "snapshot_groups d walk j now providerGroups =
     foldE (\<lambda>(provider, byAsset) snapshots.
       foldE (\<lambda>(assetID, candidates) snapshots.
         bindE (BuildComposite d walk candidates now) (\<lambda>result.
           Inr (snapshots @ [venue_snapshot d j now provider ''venue_spot'' assetID candidates result])))
         (sorted_list_of_fmap byAsset) snapshots)
       (sorted_list_of_fmap providerGroups) []"

text \<open>The selected assets when the store has some, the top fifty otherwise.\<close>

definition indexed_assets :: "('s, 'j) CompositeStore \<Rightarrow> 's \<Rightarrow> string fset res" where
  "indexed_assets store s =
     bindE (csQueryTopAssetIDs store 50 s) (\<lambda>topAssets.
       case csSelected store of
         None \<Rightarrow> Inr topAssets
       | Some select \<Rightarrow>
           bindE (select s) (\<lambda>selectedAssets. Inr (if selectedAssets \<noteq> {||} then selectedAssets else topAssets)))"

definition RunOnce ::
  "DecimalLib \<Rightarrow> (string list \<Rightarrow> string list) \<Rightarrow> 'j CompositeJSON \<Rightarrow> ('s, 'j) CompositeStore \<Rightarrow> int \<Rightarrow> 's \<Rightarrow> 's \<times> unit res" where
  "RunOnce d walk j store now s =
     (case
        bindE (indexed_assets store s) (\<lambda>topAssets.
        bindE (csQueryUSDReferenceRates store StableRateFreshness now s) (\<lambda>rates.
        bindE (csQueryCompositeMarketCandidates store s) (\<lambda>rows.
          let (grouped, providerGroups) = group_rows d rates topAssets rows
          in bindE (index_groups d walk j now grouped) (\<lambda>(indexes, composites).
             bindE (snapshot_groups d walk j now providerGroups) (\<lambda>venues.
               Inr (sort_key aiAssetGuid indexes,
                    sort_key (\<lambda>v. (avProvider v, avAssetGuid v)) (composites @ venues)))))))
      of
        Inl err \<Rightarrow> (s, Inl err)
      | Inr (indexes, snapshots) \<Rightarrow>
          (case csUpsertAssetPriceIndexes store indexes s of
             (s1, Inl err) \<Rightarrow> (s1, Inl err)
           | (s1, Inr _) \<Rightarrow> csUpsertAssetVenueSnapshots store snapshots s1))"

end
