(* ===== verification/Composite_Invariant.thy ===== *)
theory Composite_Invariant
  imports Composite
begin

text \<open>
  What the composite price promises (\<open>Composite\<close>).

  The capping loop is a water filling. \<open>fill_step\<close> caps one venue that is over the cap; the relation is
  confluent and ends, because a capped venue leaves the others a larger share (\<open>ratio_grows\<close>). A pass of
  the code judges a venue with the total of the start of the pass, which is at least as strict, so the
  loop follows the steps of the relation (\<open>capped_loop_filled\<close>) and its result does not depend on the
  order of the walk. The locale \<open>decimal_division\<close> is what the code needs of the decimal library's
  division; it is interpreted on rounding to sixteen places, half away from zero (\<open>lib16\<close>), which is what
  the library documents. \<open>venue_weights\<close> adds weights that are not negative.
\<close>

section \<open>Division\<close>

text \<open>The documented division of the decimal library: the quotient rounded to sixteen places. The
  laws are that it keeps the order of quotients, is exact where it can be, and rounds by at most half
  a unit of the last place.\<close>

definition half_ulp :: rat where "half_ulp = 1 / (2 * 10 ^ 16)"

locale decimal_division =
  fixes d :: DecimalLib
  assumes div_mono: "0 < b \<Longrightarrow> 0 < b' \<Longrightarrow> a / b \<le> a' / b' \<Longrightarrow> dlDiv d a b \<le> dlDiv d a' b'"
    and div_exact: "0 < b \<Longrightarrow> a / b = of_int n / 10 ^ 16 \<Longrightarrow> dlDiv d a b = a / b"
    and div_error: "0 < b \<Longrightarrow> \<bar>dlDiv d a b - a / b\<bar> \<le> half_ulp"
begin

lemma div_cap_exact: "dlDiv d (2 / 5) 1 = 2 / 5"
  using div_exact [of 1 "2 / 5" "4 * 10 ^ 15"] by simp

lemma div_nonneg: "0 \<le> a \<Longrightarrow> 0 < b \<Longrightarrow> 0 \<le> dlDiv d a b"
  using div_mono [of 1 b 0 a] div_exact [of 1 0 0] by simp

lemma div_le_cap: "0 < b \<Longrightarrow> a / b \<le> 2 / 5 \<Longrightarrow> dlDiv d a b \<le> 2 / 5"
  using div_mono [of b 1 a "2 / 5"] div_cap_exact by simp

lemma div_gt_cap: "0 < b \<Longrightarrow> dlDiv d a b > 2 / 5 \<Longrightarrow> a / b > 2 / 5"
  using div_le_cap by (meson not_le)

end

section \<open>Filling up to the cap\<close>

lemma keys_of_fmap: "set (map fst (sorted_list_of_fmap m)) = fset (fmdom m)"
  using sorted_list_of_fmap_props(3) [of m] by (force simp: fmlookup_dom_iff)

lemma weight_sum_eq: "weight_sum m = (\<Sum>k \<in> fset (fmdom m). fmget 0 m k)"
proof -
  have "weight_sum m = sum_list (map (fmget 0 m) (map fst (sorted_list_of_fmap m)))"
    unfolding weight_sum_def using sorted_list_of_fmap_props(3) [of m]
    by (auto simp: comp_def intro!: arg_cong [of _ _ sum_list] map_cong simp: fmget_def)
  also have "\<dots> = (\<Sum>k \<in> set (map fst (sorted_list_of_fmap m)). fmget 0 m k)"
    by (rule sum_list_distinct_conv_sum_set [OF sorted_list_of_fmap_props(2)])
  finally show ?thesis unfolding keys_of_fmap .
qed

definition total_of :: "(string, rat) fmap \<Rightarrow> string set \<Rightarrow> rat" where
  "total_of raw A = (\<Sum>k \<in> A. fmget 0 raw k)"

text \<open>What is left when all venues outside of \<open>A\<close> have the weight of the cap.\<close>

definition left_for :: "(string, rat) fmap \<Rightarrow> string set \<Rightarrow> rat" where
  "left_for raw A = 1 - 2 / 5 * of_nat (card (fset (fmdom raw) - A))"

definition over_cap :: "DecimalLib \<Rightarrow> (string, rat) fmap \<Rightarrow> string set \<Rightarrow> string \<Rightarrow> bool" where
  "over_cap d raw A p \<longleftrightarrow> p \<in> A \<and> total_of raw A > 0 \<and> dlDiv d (left_for raw A * fmget 0 raw p) (total_of raw A) > 2 / 5"

inductive fill_step :: "DecimalLib \<Rightarrow> (string, rat) fmap \<Rightarrow> string set \<Rightarrow> string set \<Rightarrow> bool"
  for d :: DecimalLib and raw :: "(string, rat) fmap" where
  cap_venue: "over_cap d raw A p \<Longrightarrow> fill_step d raw A (A - {p})"

inductive_cases fill_stepE: "fill_step d raw A B"

abbreviation fill_steps :: "DecimalLib \<Rightarrow> (string, rat) fmap \<Rightarrow> string set \<Rightarrow> string set \<Rightarrow> bool" where
  "fill_steps d raw \<equiv> (fill_step d raw)\<^sup>*\<^sup>*"

definition filled :: "DecimalLib \<Rightarrow> (string, rat) fmap \<Rightarrow> string set \<Rightarrow> bool" where
  "filled d raw A \<longleftrightarrow> fill_steps d raw (fset (fmdom raw)) A \<and> (\<forall>p. \<not> over_cap d raw A p)"

definition filled_weight :: "DecimalLib \<Rightarrow> (string, rat) fmap \<Rightarrow> string set \<Rightarrow> string \<Rightarrow> rat" where
  "filled_weight d raw A p =
     (if p \<notin> A then 2 / 5
      else if total_of raw A = 0 then dlDiv d (left_for raw A) (of_nat (card A))
      else dlDiv d (left_for raw A * fmget 0 raw p) (total_of raw A))"

lemma fill_steps_subset: "fill_steps d raw A B \<Longrightarrow> B \<subseteq> A"
  by (induction rule: rtranclp_induct) (auto elim!: fill_stepE)

text \<open>Weights are not negative.\<close>

locale venue_weights = decimal_division +
  fixes raw :: "(string, rat) fmap"
  assumes weights_nonneg: "0 \<le> fmget 0 raw p"
begin

lemma total_nonneg: "0 \<le> total_of raw A"
  by (simp add: total_of_def sum_nonneg weights_nonneg)

lemma total_remove: "finite A \<Longrightarrow> p \<in> A \<Longrightarrow> total_of raw A = fmget 0 raw p + total_of raw (A - {p})"
  by (simp add: total_of_def sum.remove)

lemma weight_le_total: "finite A \<Longrightarrow> p \<in> A \<Longrightarrow> fmget 0 raw p \<le> total_of raw A"
  using total_remove [of A p] total_nonneg [of "A - {p}"] by simp

lemma left_remove:
  assumes "A \<subseteq> fset (fmdom raw)" "p \<in> A"
  shows "left_for raw (A - {p}) = left_for raw A - 2 / 5"
proof -
  have "fset (fmdom raw) - (A - {p}) = insert p (fset (fmdom raw) - A)" using assms by auto
  moreover have "finite (fset (fmdom raw) - A)" by simp
  ultimately have "card (fset (fmdom raw) - (A - {p})) = Suc (card (fset (fmdom raw) - A))" using assms(2) by simp
  then show ?thesis by (simp add: left_for_def field_simps)
qed

lemma finite_active: "A \<subseteq> fset (fmdom raw) \<Longrightarrow> finite A"
  by (rule finite_subset [OF _ finite_fset])

lemma over_cap_exact:
  assumes "over_cap d raw A p"
  shows "left_for raw A * fmget 0 raw p > 2 / 5 * total_of raw A" "fmget 0 raw p > 0"
proof -
  have t: "total_of raw A > 0" and "dlDiv d (left_for raw A * fmget 0 raw p) (total_of raw A) > 2 / 5"
    using assms by (auto simp: over_cap_def)
  then have "left_for raw A * fmget 0 raw p / total_of raw A > 2 / 5" using div_gt_cap by blast
  then show g: "left_for raw A * fmget 0 raw p > 2 / 5 * total_of raw A" using t by (simp add: field_simps)
  then have "left_for raw A * fmget 0 raw p \<noteq> 0" using t by auto
  then show "fmget 0 raw p > 0" using weights_nonneg [of p] by auto
qed

text \<open>Capping a venue gives every other venue a larger share.\<close>

lemma ratio_grows:
  assumes "over_cap d raw A p" "A \<subseteq> fset (fmdom raw)" "total_of raw (A - {p}) > 0"
  shows "left_for raw A / total_of raw A \<le> left_for raw (A - {p}) / total_of raw (A - {p})"
proof -
  have p: "p \<in> A" and t: "total_of raw A > 0" using assms(1) by (auto simp: over_cap_def)
  have *: "total_of raw (A - {p}) = total_of raw A - fmget 0 raw p" using total_remove [OF finite_active [OF assms(2)] p] by simp
  have "left_for raw A * (total_of raw A - fmget 0 raw p) \<le> (left_for raw A - 2 / 5) * total_of raw A"
    using over_cap_exact(1) [OF assms(1)] by (simp add: algebra_simps)
  then have "left_for raw A * total_of raw (A - {p}) \<le> left_for raw (A - {p}) * total_of raw A"
    by (simp add: * left_remove [OF assms(2) p])
  then show ?thesis using t assms(3) by (simp add: divide_simps)
qed

lemma over_cap_persists:
  assumes "over_cap d raw A p" "over_cap d raw A q" "p \<noteq> q" "A \<subseteq> fset (fmdom raw)"
  shows "over_cap d raw (A - {p}) q"
proof -
  have q: "q \<in> A - {p}" using assms(2,3) by (auto simp: over_cap_def)
  have t: "total_of raw A > 0" using assms(1) by (simp add: over_cap_def)
  have "fmget 0 raw q \<le> total_of raw (A - {p})" using q finite_active [OF assms(4)] by (intro weight_le_total) auto
  then have t': "total_of raw (A - {p}) > 0" using over_cap_exact(2) [OF assms(2)] by simp
  have "left_for raw A * fmget 0 raw q / total_of raw A \<le> left_for raw (A - {p}) * fmget 0 raw q / total_of raw (A - {p})"
    using mult_right_mono [OF ratio_grows [OF assms(1,4) t'] weights_nonneg [of q]] by simp
  from div_mono [OF t t' this] assms(2) show ?thesis using q t' by (auto simp: over_cap_def)
qed

lemma fill_diamond:
  assumes "fill_step d raw A B" "fill_step d raw A C" "A \<subseteq> fset (fmdom raw)"
  shows "B = C \<or> (\<exists>E. fill_step d raw B E \<and> fill_step d raw C E)"
proof -
  from assms(1,2) obtain p q where pq: "B = A - {p}" "over_cap d raw A p" "C = A - {q}" "over_cap d raw A q"
    by (auto elim!: fill_stepE)
  show ?thesis
  proof (cases "p = q")
    case False
    have "fill_step d raw B (A - {p} - {q})" using over_cap_persists [OF pq(2,4) False assms(3)] pq(1) by (auto intro: cap_venue)
    moreover have "fill_step d raw C (A - {p} - {q})"
    proof -
      have "A - {p} - {q} = A - {q} - {p}" by auto
      then show ?thesis using cap_venue [OF over_cap_persists [OF pq(4,2) False [symmetric] assms(3)]] pq(3) by simp
    qed
    ultimately show ?thesis by blast
  qed (use pq in simp)
qed

lemma fill_confluent:
  assumes "fill_steps d raw A E" "\<forall>p. \<not> over_cap d raw E p" "A \<subseteq> fset (fmdom raw)" "fill_step d raw A B"
  shows "fill_steps d raw B E"
  using assms
proof (induction arbitrary: B rule: converse_rtranclp_induct)
  case base
  then show ?case by (auto elim: fill_stepE)
next
  case (step A X)
  have sub: "X \<subseteq> fset (fmdom raw)" using step.hyps(1) step.prems(2) by (auto elim!: fill_stepE)
  consider "X = B" | W where "fill_step d raw X W" "fill_step d raw B W"
    using fill_diamond [OF step.hyps(1) step.prems(3,2)] by blast
  then show ?case
  proof cases
    case 1
    then show ?thesis using step.hyps(2) by simp
  next
    case 2
    then show ?thesis using step.IH [OF step.prems(1) sub 2(1)] by (meson converse_rtranclp_into_rtranclp)
  qed
qed

lemma filled_unique:
  assumes "filled d raw A" "filled d raw B"
  shows "A = B"
proof -
  have "fill_steps d raw X B" if "fill_steps d raw (fset (fmdom raw)) X" for X
    using that
  proof (induction rule: rtranclp_induct)
    case base
    then show ?case using assms(2) by (simp add: filled_def)
  next
    case (step Y Z)
    show ?case by (rule fill_confluent [OF step.IH _ fill_steps_subset [OF step.hyps(1)] step.hyps(2)]) (use assms(2) in \<open>simp add: filled_def\<close>)
  qed
  then have "fill_steps d raw A B" using assms(1) by (simp add: filled_def)
  then show ?thesis
  proof (cases rule: converse_rtranclpE)
    case (step Y)
    then show ?thesis using assms(1) by (auto simp: filled_def elim: fill_stepE)
  qed
qed

text \<open>At most two venues are capped.\<close>

lemma capped_at_most_two:
  assumes "fill_steps d raw (fset (fmdom raw)) A"
  shows "card (fset (fmdom raw) - A) \<le> 2"
  using assms
proof (induction rule: rtranclp_induct)
  case (step B C)
  have sub: "B \<subseteq> fset (fmdom raw)" by (rule fill_steps_subset [OF step.hyps(1)])
  obtain p where p: "C = B - {p}" "over_cap d raw B p" using step.hyps(2) by (auto elim: fill_stepE)
  have pB: "p \<in> B" and t: "total_of raw B > 0" using p(2) by (auto simp: over_cap_def)
  have pos: "left_for raw B > 0"
  proof (rule ccontr)
    assume "\<not> left_for raw B > 0"
    then have "left_for raw B * fmget 0 raw p \<le> 0" using weights_nonneg [of p] by (simp add: mult_nonpos_nonneg)
    moreover have "0 < 2 / 5 * total_of raw B" using t by simp
    ultimately show False using over_cap_exact(1) [OF p(2)] by linarith
  qed
  have "left_for raw B * fmget 0 raw p \<le> left_for raw B * total_of raw B"
    using weight_le_total [OF finite_active [OF sub] pB] pos by (simp add: mult_left_mono)
  then have "2 / 5 * total_of raw B < left_for raw B * total_of raw B" using over_cap_exact(1) [OF p(2)] by simp
  then have "2 / 5 < left_for raw B" using t by simp
  then have "(of_nat (card (fset (fmdom raw) - B)) :: rat) < of_nat 2" by (simp add: left_for_def)
  then have "card (fset (fmdom raw) - B) < 2" by (simp only: of_nat_less_iff)
  moreover have "fset (fmdom raw) - C = insert p (fset (fmdom raw) - B)" using p(1) pB sub by auto
  moreover have "finite (fset (fmdom raw) - B)" by simp
  ultimately show ?case by (simp add: card_insert_if)
qed simp

lemma left_pos:
  assumes "fill_steps d raw (fset (fmdom raw)) A"
  shows "left_for raw A > 0"
proof -
  have "(of_nat (card (fset (fmdom raw) - A)) :: rat) \<le> of_nat 2" using capped_at_most_two [OF assms] by (simp only: of_nat_le_iff)
  then show ?thesis by (simp add: left_for_def)
qed

lemma filled_weight_bounds:
  assumes "filled d raw A" "3 \<le> fcard (fmdom raw)" "p |\<in>| fmdom raw"
  shows "0 \<le> filled_weight d raw A p" "filled_weight d raw A p \<le> 2 / 5"
proof -
  have st: "fill_steps d raw (fset (fmdom raw)) A" using assms(1) by (simp add: filled_def)
  have sub: "A \<subseteq> fset (fmdom raw)" by (rule fill_steps_subset [OF st])
  have n: "card (fset (fmdom raw)) = card A + card (fset (fmdom raw) - A)"
    using sub by (metis card_Diff_subset card_mono finite_active finite_fset le_add_diff_inverse)
  have c2: "card (fset (fmdom raw) - A) \<le> 2" by (rule capped_at_most_two [OF st])
  have A: "card A > 0" using n c2 assms(2) by (simp add: fcard.rep_eq)
  have "left_for raw A \<le> 2 / 5 * of_nat (card A)"
  proof -
    have "5 \<le> 2 * (card A + card (fset (fmdom raw) - A))" using n assms(2) by (simp add: fcard.rep_eq)
    then have "(of_nat 5 :: rat) \<le> of_nat (2 * (card A + card (fset (fmdom raw) - A)))" by (simp only: of_nat_le_iff)
    then show ?thesis by (simp add: left_for_def)
  qed
  then have eq: "left_for raw A / of_nat (card A) \<le> 2 / 5" using A by (simp add: pos_divide_le_eq)
  show "0 \<le> filled_weight d raw A p"
    using left_pos [OF st] A weights_nonneg [of p] total_nonneg [of A] by (auto simp: filled_weight_def intro!: div_nonneg mult_nonneg_nonneg)
  show "filled_weight d raw A p \<le> 2 / 5"
  proof (cases "p \<in> A \<and> total_of raw A \<noteq> 0")
    case True
    then have "total_of raw A > 0" using total_nonneg [of A] by simp
    then show ?thesis using assms(1) True by (auto simp: filled_def over_cap_def filled_weight_def not_less)
  next
    case False
    then show ?thesis using div_le_cap [OF _ eq] A by (auto simp: filled_weight_def)
  qed
qed

lemma filled_weight_sum:
  assumes "filled d raw A" "3 \<le> fcard (fmdom raw)"
  shows "\<bar>(\<Sum>p \<in> fset (fmdom raw). filled_weight d raw A p) - 1\<bar> \<le> of_nat (fcard (fmdom raw)) * half_ulp"
proof -
  let ?D = "fset (fmdom raw)"
  have st: "fill_steps d raw ?D A" using assms(1) by (simp add: filled_def)
  have sub: "A \<subseteq> ?D" by (rule fill_steps_subset [OF st])
  have fin: "finite A" by (rule finite_active [OF sub])
  have n: "card ?D = card A + card (?D - A)" using sub by (metis card_Diff_subset card_mono finite_active finite_fset le_add_diff_inverse)
  have A: "card A > 0" using n capped_at_most_two [OF st] assms(2) by (simp add: fcard.rep_eq)
  define share where "share p = (if total_of raw A = 0 then left_for raw A / of_nat (card A) else left_for raw A * fmget 0 raw p / total_of raw A)" for p
  have "(\<Sum>p \<in> A. share p) = left_for raw A"
  proof (cases "total_of raw A = 0")
    case True
    then show ?thesis using A by (simp add: share_def)
  next
    case False
    then have "(\<Sum>p \<in> A. share p) = (\<Sum>p \<in> A. left_for raw A / total_of raw A * fmget 0 raw p)" by (simp add: share_def)
    also have "\<dots> = left_for raw A / total_of raw A * total_of raw A" by (simp only: sum_distrib_left [symmetric] total_of_def)
    finally show ?thesis using False by simp
  qed
  moreover have "\<bar>filled_weight d raw A p - share p\<bar> \<le> half_ulp" if "p \<in> A" for p
    using that div_error [of "of_nat (card A)"] div_error [of "total_of raw A"] A total_nonneg [of A]
    by (auto simp: filled_weight_def share_def)
  then have "\<bar>(\<Sum>p \<in> A. filled_weight d raw A p - share p)\<bar> \<le> of_nat (card A) * half_ulp"
    by (intro order_trans [OF sum_abs] order_trans [OF sum_bounded_above]) auto
  ultimately have "\<bar>(\<Sum>p \<in> A. filled_weight d raw A p) - left_for raw A\<bar> \<le> of_nat (card A) * half_ulp"
    by (simp add: sum_subtractf)
  moreover have "(\<Sum>p \<in> ?D. filled_weight d raw A p) = (\<Sum>p \<in> A. filled_weight d raw A p) + 2 / 5 * of_nat (card (?D - A))"
    using sum.subset_diff [OF sub, of "filled_weight d raw A"] by (simp add: filled_weight_def)
  moreover have "(of_nat (card A) :: rat) * half_ulp \<le> of_nat (fcard (fmdom raw)) * half_ulp"
    using n by (intro mult_right_mono) (auto simp: fcard.rep_eq half_ulp_def)
  ultimately show ?thesis by (simp add: left_for_def)
qed

end

section \<open>The loop of the code fills up\<close>

definition at_venues :: "(string, rat) fmap \<Rightarrow> string set \<Rightarrow> (string, rat) fmap \<Rightarrow> rat \<Rightarrow> (string, rat) fmap \<Rightarrow> bool" where
  "at_venues raw A result remaining active \<longleftrightarrow> A \<subseteq> fset (fmdom raw) \<and> remaining = left_for raw A \<and>
     (\<forall>p. fmlookup active p = (if p \<in> A then fmlookup raw p else None)) \<and>
     (\<forall>p. fmlookup result p = (if p |\<in>| fmdom raw \<and> p \<notin> A then Some (2 / 5) else None))"

lemma at_venues_active:
  assumes "at_venues raw A result remaining active"
  shows "fset (fmdom active) = A" "p \<in> A \<Longrightarrow> fmlookup active p = Some (fmget 0 raw p)" "weight_sum active = total_of raw A"
    "length (sorted_list_of_fmap active) = card A" "set (map fst (sorted_list_of_fmap active)) = A"
proof -
  show D: "fset (fmdom active) = A"
  proof (rule set_eqI)
    fix p
    have "p |\<in>| fmdom active \<longleftrightarrow> (\<exists>v. fmlookup active p = Some v)" by (simp add: fmlookup_dom_iff)
    also have "\<dots> \<longleftrightarrow> p \<in> A" using assms by (auto simp: at_venues_def fmlookup_dom_iff)
    finally show "p \<in> fset (fmdom active) \<longleftrightarrow> p \<in> A" .
  qed
  show l: "fmlookup active p = Some (fmget 0 raw p)" if "p \<in> A" for p
  proof -
    have "p |\<in>| fmdom raw" using assms that by (auto simp: at_venues_def)
    then obtain v where "fmlookup raw p = Some v" by (auto simp: fmlookup_dom_iff)
    then show ?thesis using assms that by (simp add: at_venues_def fmget_def)
  qed
  show "weight_sum active = total_of raw A"
  proof -
    have "fmget 0 active p = fmget 0 raw p" if "p \<in> A" for p using l [OF that] by (simp add: fmget_def [of _ active])
    then show ?thesis unfolding weight_sum_eq D total_of_def by (rule sum.cong [OF refl])
  qed
  show k: "set (map fst (sorted_list_of_fmap active)) = A"
    using keys_of_fmap [of active] D by simp
  show "length (sorted_list_of_fmap active) = card A"
    using distinct_card [OF sorted_list_of_fmap_props(2) [of active]] k by simp
qed

context venue_weights
begin

definition in_pass :: "string set \<Rightarrow> string set \<Rightarrow> bool" where
  "in_pass B A \<longleftrightarrow> fill_steps d raw B A \<and> left_for raw A \<le> left_for raw B \<and>
     (total_of raw A > 0 \<longrightarrow> left_for raw B / total_of raw B \<le> left_for raw A / total_of raw A)"

lemma in_pass_refl: "in_pass B B"
  by (simp add: in_pass_def)

text \<open>A venue that the pass caps, judged with the total at its start, is over the cap now.\<close>

lemma in_pass_over:
  assumes "in_pass B A" "A \<subseteq> fset (fmdom raw)" "total_of raw B > 0" "p \<in> A"
    and "dlDiv d (left_for raw A * fmget 0 raw p) (total_of raw B) > 2 / 5"
  shows "over_cap d raw A p" "in_pass B (A - {p})"
proof -
  have "left_for raw A * fmget 0 raw p / total_of raw B > 2 / 5" by (rule div_gt_cap [OF assms(3,5)])
  then have "left_for raw A * fmget 0 raw p > 0" using assms(3) by (simp add: pos_less_divide_eq)
  then have w: "fmget 0 raw p > 0" using weights_nonneg [of p] by (auto simp: zero_less_mult_iff)
  have tA: "total_of raw A > 0" using weight_le_total [OF finite_active [OF assms(2)] assms(4)] w by simp
  have r: "left_for raw B / total_of raw B \<le> left_for raw A / total_of raw A" "left_for raw A \<le> left_for raw B"
    using assms(1) tA by (auto simp: in_pass_def)
  have "left_for raw A / total_of raw B \<le> left_for raw A / total_of raw A"
    using r assms(3) by (meson divide_right_mono less_imp_le order_trans)
  then have "left_for raw A * fmget 0 raw p / total_of raw B \<le> left_for raw A * fmget 0 raw p / total_of raw A"
    using mult_right_mono [of "left_for raw A / total_of raw B" "left_for raw A / total_of raw A" "fmget 0 raw p"] w by simp
  from div_mono [OF assms(3) tA this] assms(4,5) tA show o: "over_cap d raw A p" by (simp add: over_cap_def)
  have "fill_steps d raw B (A - {p})" using assms(1) o by (auto simp: in_pass_def intro: rtranclp.rtrancl_into_rtrancl cap_venue)
  moreover have "left_for raw (A - {p}) \<le> left_for raw B" using left_remove [OF assms(2,4)] r(2) by simp
  ultimately show "in_pass B (A - {p})" using ratio_grows [OF o assms(2)] r(1) by (auto simp: in_pass_def)
qed

lemma cap_provider_step:
  assumes "at_venues raw A r m a" "in_pass B A" "total_of raw B > 0"
  obtains (kept) "cap_provider d (2 / 5) (total_of raw B) p (r, m, a, b) = (r, m, a, b)"
      "p \<in> A \<Longrightarrow> dlDiv d (left_for raw A * fmget 0 raw p) (total_of raw B) \<le> 2 / 5"
  | (capped) r' m' a' where "cap_provider d (2 / 5) (total_of raw B) p (r, m, a, b) = (r', m', a', True)" "p \<in> A"
      "at_venues raw (A - {p}) r' m' a'" "in_pass B (A - {p})"
proof (cases "p \<in> A \<and> dlDiv d (left_for raw A * fmget 0 raw p) (total_of raw B) > 2 / 5")
  case True
  have sub: "A \<subseteq> fset (fmdom raw)" and m: "m = left_for raw A" using assms(1) by (auto simp: at_venues_def)
  have "cap_provider d (2 / 5) (total_of raw B) p (r, m, a, b) = (fmupd p (2 / 5) r, m - 2 / 5, fmdrop p a, True)"
    using True at_venues_active(2) [OF assms(1)] m by (simp add: cap_provider_def)
  moreover have "at_venues raw (A - {p}) (fmupd p (2 / 5) r) (m - 2 / 5) (fmdrop p a)"
    using assms(1) True left_remove [OF sub, of p] by (auto simp: at_venues_def)
  ultimately show ?thesis using capped in_pass_over(2) [OF assms(2) sub assms(3)] True by blast
next
  case False
  have "cap_provider d (2 / 5) (total_of raw B) p (r, m, a, b) = (r, m, a, b)"
  proof (cases "p \<in> A")
    case True
    then show ?thesis using False at_venues_active(2) [OF assms(1) True] assms(1) by (simp add: cap_provider_def at_venues_def)
  next
    case False
    then have "fmlookup a p = None" using assms(1) by (simp add: at_venues_def)
    then show ?thesis by (simp add: cap_provider_def)
  qed
  then show ?thesis using kept False by force
qed

lemma cap_providers_step:
  assumes "at_venues raw A r m a" "in_pass B A" "total_of raw B > 0"
    and "fold (cap_provider d (2 / 5) (total_of raw B)) ps (r, m, a, b) = (r', m', a', b')"
  shows "\<exists>A'. at_venues raw A' r' m' a' \<and> in_pass B A' \<and> A' \<subseteq> A \<and> b' = (b \<or> A' \<noteq> A) \<and>
    (A' = A \<longrightarrow> r' = r \<and> m' = m \<and> a' = a \<and> (\<forall>p \<in> set ps \<inter> A. dlDiv d (left_for raw A * fmget 0 raw p) (total_of raw B) \<le> 2 / 5))"
  using assms(1,2,4)
proof (induction ps arbitrary: A r m a b)
  case Nil
  then show ?case by auto
next
  case (Cons p ps)
  from Cons.prems(1,2) assms(3) show ?case
  proof (cases rule: cap_provider_step [where p = p and b = b])
    case kept
    then have "fold (cap_provider d (2 / 5) (total_of raw B)) ps (r, m, a, b) = (r', m', a', b')" using Cons.prems(3) by simp
    from Cons.IH [OF Cons.prems(1,2) this] kept(2) show ?thesis by (metis IntE IntI set_ConsD)
  next
    case (capped r1 m1 a1)
    then have "fold (cap_provider d (2 / 5) (total_of raw B)) ps (r1, m1, a1, True) = (r', m', a', b')" using Cons.prems(3) by simp
    from Cons.IH [OF capped(3,4) this] capped(2) obtain A' where "at_venues raw A' r' m' a'" "in_pass B A'" "A' \<subseteq> A - {p}" b' by blast
    then show ?thesis using capped(2) by (intro exI [of _ A']) auto
  qed
qed

lemma capped_loop_filled:
  assumes "at_venues raw A result remaining active" "fill_steps d raw (fset (fmdom raw)) A" "\<And>xs. mset (walk xs) = mset xs"
  shows "\<exists>E. filled d raw E \<and> (\<forall>p. fmlookup (capped_loop d (2 / 5) walk result remaining active) p =
    (if p |\<in>| fmdom raw then Some (filled_weight d raw E p) else None))"
  using assms(1,2)
proof (induction "card A" arbitrary: A result remaining active rule: less_induct)
  case less
  note at = less.prems(1) and st = less.prems(2)
  note V = at_venues_active [OF at]
  have sub: "A \<subseteq> fset (fmdom raw)" and rem: "remaining = left_for raw A" using at by (auto simp: at_venues_def)
  have look: "fmlookup active p = (if p \<in> A then Some (fmget 0 raw p) else None)" for p using V(1,2) by (metis fmdom_notD)
  have caps: "fmlookup result p = (if p |\<in>| fmdom raw \<and> p \<notin> A then Some (2 / 5) else None)" for p using at by (simp add: at_venues_def)
  show ?case
  proof (cases "active = fmempty \<or> weight_sum active = 0")
    case True
    then have z: "total_of raw A = 0" using V(1,3) by (auto simp: total_of_def)
    then have "filled d raw A" using st by (simp add: filled_def over_cap_def)
    moreover have "fmlookup (capped_loop d (2 / 5) walk result remaining active) p =
        (if p |\<in>| fmdom raw then Some (filled_weight d raw A p) else None)" for p
    proof (cases "active = fmempty")
      case True
      then have "A = {}" using V(1) by simp
      then show ?thesis using True caps [of p] by (simp add: capped_loop.simps [of d _ walk] filled_weight_def)
    next
      case False
      then show ?thesis using True caps [of p] look [of p] z sub rem V(1,4)
        by (auto simp: capped_loop.simps [of d _ walk] filled_weight_def Let_def subset_iff)
    qed
    ultimately show ?thesis by blast
  next
    case False
    then have t: "total_of raw A > 0" using V(3) total_nonneg [of A] by simp
    obtain r1 m1 a1 b1 where pass: "cap_pass d (2 / 5) walk result remaining active = (r1, m1, a1, b1)" by (metis prod_cases4)
    let ?ps = "walk (map fst (sorted_list_of_fmap active))"
    have ps: "set ?ps = A" using assms(3) [of "map fst (sorted_list_of_fmap active)"] V(5) by (metis set_mset_mset)
    have "fold (cap_provider d (2 / 5) (total_of raw A)) ?ps (result, remaining, active, False) = (r1, m1, a1, b1)"
      using pass V(3) by (simp add: cap_pass_def)
    from cap_providers_step [OF at in_pass_refl t this]
    obtain A' where A': "at_venues raw A' r1 m1 a1" "in_pass A A'" "A' \<subseteq> A" "b1 = (A' \<noteq> A)"
      and same: "A' = A \<Longrightarrow> m1 = remaining \<and> r1 = result \<and> a1 = active \<and> (\<forall>p \<in> A. dlDiv d (left_for raw A * fmget 0 raw p) (total_of raw A) \<le> 2 / 5)"
      using ps by auto
    have loop: "capped_loop d (2 / 5) walk result remaining active =
        (if b1 then capped_loop d (2 / 5) walk r1 m1 a1
         else r1 ++\<^sub>f fmmap (\<lambda>weight. dlDiv d (m1 * weight) (weight_sum active)) a1)"
      using False pass by (simp add: capped_loop.simps [of d _ walk result])
    show ?thesis
    proof (cases "A' = A")
      case True
      then have "filled d raw A" using st same by (auto simp: filled_def over_cap_def not_less [symmetric])
      moreover have "fmlookup (capped_loop d (2 / 5) walk result remaining active) p =
          (if p |\<in>| fmdom raw then Some (filled_weight d raw A p) else None)" for p
        using loop True A'(4) same caps [of p] look [of p] sub rem V(1,3) t by (auto simp: filled_weight_def subset_iff)
      ultimately show ?thesis by blast
    next
      case neq: False
      have "card A' < card A" using A'(3) neq finite_active [OF sub] by (intro psubset_card_mono) auto
      moreover have "fill_steps d raw (fset (fmdom raw)) A'" using st A'(2) by (auto simp: in_pass_def)
      ultimately show ?thesis using less.hyps [OF _ A'(1)] loop A'(4) neq by simp
    qed
  qed
qed

lemma capped_weights:
  assumes "\<And>xs. mset (walk xs) = mset xs" "3 \<le> fcard (fmdom raw)"
  shows "\<exists>E. filled d raw E \<and> (\<forall>p. fmlookup (cappedNormalizedWeights d walk raw (2 / 5)) p =
    (if p |\<in>| fmdom raw then Some (filled_weight d raw E p) else None))"
proof -
  have at: "at_venues raw (fset (fmdom raw)) fmempty 1 raw"
    by (auto simp: at_venues_def left_for_def intro: fmdom_notD)
  then have "\<not> length (sorted_list_of_fmap raw) \<le> 2" using at_venues_active(4) [OF at] assms(2) by (simp add: fcard.rep_eq)
  then show ?thesis using capped_loop_filled [OF at _ assms(1)] by (simp add: cappedNormalizedWeights_def)
qed

end

section \<open>Division rounded to sixteen places\<close>

definition round16 :: "rat \<Rightarrow> rat" where
  "round16 q = (if q < 0 then - (of_int \<lfloor>- q * 10 ^ 16 + 1 / 2\<rfloor> / 10 ^ 16) else of_int \<lfloor>q * 10 ^ 16 + 1 / 2\<rfloor> / 10 ^ 16)"

definition lib16 :: DecimalLib where
  "lib16 = \<lparr> dlDiv = (\<lambda>a b. round16 (a / b)), dlString = (\<lambda>_. []), dlParse = (\<lambda>_. None) \<rparr>"

lemma round16_mono:
  assumes "p \<le> q"
  shows "round16 p \<le> round16 q"
proof -
  have nonneg: "0 \<le> (of_int \<lfloor>x * 10 ^ 16 + 1 / 2\<rfloor> :: rat) / 10 ^ 16" if "0 \<le> x" for x :: rat
  proof -
    have "0 \<le> \<lfloor>x * 10 ^ 16 + 1 / 2\<rfloor>" using that by simp
    then show ?thesis by simp
  qed
  have mono: "(of_int \<lfloor>x * 10 ^ 16 + 1 / 2\<rfloor> :: rat) / 10 ^ 16 \<le> of_int \<lfloor>y * 10 ^ 16 + 1 / 2\<rfloor> / 10 ^ 16" if "x \<le> y" for x y :: rat
    by (intro divide_right_mono) (use that in \<open>auto intro!: floor_mono\<close>)
  consider "q < 0" | "p < 0" "0 \<le> q" | "0 \<le> p" using assms by linarith
  then show ?thesis
  proof cases
    case 1
    then show ?thesis using assms mono [of "- q" "- p"] by (simp add: round16_def)
  next
    case 2
    have "round16 p \<le> 0" using 2 nonneg [of "- p"] by (simp only: round16_def if_True neg_le_0_iff_le)
    also have "0 \<le> round16 q" using 2 nonneg [of q] by (simp add: round16_def)
    finally show ?thesis .
  next
    case 3
    then show ?thesis using assms mono [of p q] by (simp add: round16_def)
  qed
qed

lemma round16_exact: "q = of_int n / 10 ^ 16 \<Longrightarrow> round16 q = q"
proof -
  assume q: "q = of_int n / 10 ^ 16"
  have half: "\<lfloor>(of_int m + 1 / 2 :: rat)\<rfloor> = m" for m
    by (rule floor_unique) simp_all
  have "- q * 10 ^ 16 = of_int (- n)" "q * 10 ^ 16 = of_int n" by (simp_all add: q)
  then show ?thesis unfolding round16_def by (simp only: half) (simp add: q)
qed

lemma floor_half_error: "\<bar>of_int \<lfloor>x + 1 / 2\<rfloor> - x\<bar> \<le> 1 / 2" for x :: rat
proof -
  have "of_int \<lfloor>x + 1 / 2\<rfloor> \<le> x + 1 / 2" "x + 1 / 2 < of_int \<lfloor>x + 1 / 2\<rfloor> + 1" using floor_correct [of "x + 1 / 2"] by simp_all
  then have "of_int \<lfloor>x + 1 / 2\<rfloor> - x \<le> 1 / 2" "- (of_int \<lfloor>x + 1 / 2\<rfloor> - x) \<le> 1 / 2" by linarith+
  then show ?thesis by (rule abs_leI)
qed

lemma round16_error: "\<bar>round16 q - q\<bar> \<le> half_ulp"
proof -
  have e: "\<bar>of_int \<lfloor>x * 10 ^ 16 + 1 / 2\<rfloor> / 10 ^ 16 - x\<bar> \<le> half_ulp" for x :: rat
  proof -
    have "of_int \<lfloor>x * 10 ^ 16 + 1 / 2\<rfloor> / 10 ^ 16 - x = (of_int \<lfloor>x * 10 ^ 16 + 1 / 2\<rfloor> - x * 10 ^ 16) / 10 ^ 16" by (simp add: diff_divide_distrib)
    also have "\<bar>\<dots>\<bar> \<le> 1 / 2 / 10 ^ 16" unfolding abs_divide using floor_half_error [of "x * 10 ^ 16"] by (simp add: divide_right_mono)
    finally show ?thesis by (simp add: half_ulp_def)
  qed
  show ?thesis using e [of q] e [of "- q"] unfolding round16_def by (auto simp: abs_if split: if_splits)
qed

interpretation lib16: decimal_division lib16
proof
  show "dlDiv lib16 a b \<le> dlDiv lib16 a' b'" if "a / b \<le> a' / b'" for a b a' b'
    using round16_mono [OF that] by (simp add: lib16_def)
  show "dlDiv lib16 a b = a / b" if "a / b = of_int n / 10 ^ 16" for a b n
    using round16_exact [OF that] by (simp add: lib16_def)
  show "\<bar>dlDiv lib16 a b - a / b\<bar> \<le> half_ulp" for a b
    using round16_error [of "a / b"] by (simp add: lib16_def)
qed

section \<open>Sums of shares\<close>

context decimal_division
begin

lemma shares_sum:
  assumes "0 < b"
  shows "\<bar>sum_list (map (\<lambda>a. dlDiv d a b) as) - sum_list as / b\<bar> \<le> of_nat (length as) * half_ulp"
proof (induction as)
  case (Cons a as)
  have "sum_list (map (\<lambda>a. dlDiv d a b) (a # as)) - sum_list (a # as) / b =
      (dlDiv d a b - a / b) + (sum_list (map (\<lambda>a. dlDiv d a b) as) - sum_list as / b)"
    by (simp add: add_divide_distrib)
  also have "\<bar>\<dots>\<bar> \<le> half_ulp + of_nat (length as) * half_ulp"
    using div_error [OF assms, of a] Cons.IH by (intro order_trans [OF abs_triangle_ineq] add_mono)
  finally show ?case by (simp add: algebra_simps)
qed simp

end

lemma filter_no_key: "v \<notin> k ` set ws \<Longrightarrow> filter (\<lambda>w. k w = v) ws = []"
  by (induction ws) auto

lemma sum_list_ones: "sum_list (map (\<lambda>_. 1 :: nat) xs) = length xs"
  by (induction xs) auto

lemma venue_fold:
  "fmlookup (fold (\<lambda>w m. fmupd (k w) (fmget 0 m (k w) + f w) m) ws m0) v =
    (if v \<in> k ` set ws then Some (fmget 0 m0 v + sum_list (map f (filter (\<lambda>w. k w = v) ws))) else fmlookup m0 v)"
  for f :: "'a \<Rightarrow> 'b :: {zero, comm_monoid_add}"
proof (induction ws arbitrary: m0)
  case (Cons w ws)
  have "k w \<notin> k ` set ws \<Longrightarrow> filter (\<lambda>x. k x = k w) ws = []" by (rule filter_no_key)
  then show ?case unfolding fold_simps Cons.IH by (auto simp: add.assoc fmget_def)
qed simp

definition at_venue :: "string \<Rightarrow> weightedCandidate list \<Rightarrow> weightedCandidate list" where
  "at_venue v ws = filter (\<lambda>w. venue w = v) ws"

lemma venue_turnover_lookup:
  "fmlookup (venue_turnover ws) v = (if v \<in> venue ` set ws then Some (sum_list (map wcTurnover (at_venue v ws))) else None)"
  using venue_fold [of venue wcTurnover ws fmempty v] by (simp add: venue_turnover_def at_venue_def)

lemma venue_counts_lookup:
  "fmlookup (venue_counts ws) v = (if v \<in> venue ` set ws then Some (length (at_venue v ws)) else None)"
  using venue_fold [of venue "\<lambda>_. 1 :: nat" ws fmempty v] unfolding venue_counts_def at_venue_def
  by (simp only: sum_list_ones fmget_simps fmempty_lookup add_0)

lemma venue_dom: "fset (fmdom (venue_turnover ws)) = venue ` set ws"
  by (auto simp: fmlookup_dom_iff venue_turnover_lookup split: if_splits)

lemma sum_by_venue: "sum_list (map f ws) = (\<Sum>v \<in> venue ` set ws. sum_list (map f (at_venue v ws)))"
  for f :: "weightedCandidate \<Rightarrow> 'b :: comm_monoid_add"
proof (induction ws)
  case (Cons w ws)
  let ?V = "venue ` set ws"
  have same: "sum_list (map f (at_venue v (w # ws))) = (if v = venue w then f w else 0) + sum_list (map f (at_venue v ws))" for v
    by (simp add: at_venue_def)
  have "(\<Sum>v \<in> venue ` set (w # ws). sum_list (map f (at_venue v (w # ws)))) =
      (\<Sum>v \<in> insert (venue w) ?V. if v = venue w then f w else 0) + (\<Sum>v \<in> insert (venue w) ?V. sum_list (map f (at_venue v ws)))"
    by (simp only: same sum.distrib list.set image_insert)
  also have "(\<Sum>v \<in> insert (venue w) ?V. if v = venue w then f w else 0) = f w" by simp
  also have "(\<Sum>v \<in> insert (venue w) ?V. sum_list (map f (at_venue v ws))) = (\<Sum>v \<in> ?V. sum_list (map f (at_venue v ws)))"
  proof (cases "venue w \<in> ?V")
    case False
    then have "at_venue (venue w) ws = []" by (simp add: at_venue_def filter_no_key)
    then show ?thesis using False by simp
  qed (simp add: insert_absorb)
  finally show ?case using Cons.IH by simp
qed simp

section \<open>The weights of the markets\<close>

definition inside_weight :: "DecimalLib \<Rightarrow> weightedCandidate list \<Rightarrow> weightedCandidate \<Rightarrow> rat" where
  "inside_weight d ws w =
     (if fmget 0 (venue_turnover ws) (venue w) > 0
      then dlDiv d (wcTurnover w) (fmget 0 (venue_turnover ws) (venue w))
      else dlDiv d 1 (of_nat (fmget 0 (venue_counts ws) (venue w))))"

definition venue_weight :: "DecimalLib \<Rightarrow> (string list \<Rightarrow> string list) \<Rightarrow> weightedCandidate list \<Rightarrow> string \<Rightarrow> rat" where
  "venue_weight d walk ws v = fmget 0 (cappedNormalizedWeights d walk (raw_weights d ws) (2 / 5)) v"

lemma assign_weights:
  "assignCompositeWeights d walk ws = map (\<lambda>w. w\<lparr> wcWeight := venue_weight d walk ws (venue w) * inside_weight d ws w \<rparr>) ws"
  by (simp add: assignCompositeWeights_def venue_weight_def inside_weight_def compositeVenueWeightCap_def Let_def)

definition walks :: "(string list \<Rightarrow> string list) \<Rightarrow> bool" where
  "walks walk \<longleftrightarrow> (\<forall>xs. mset (walk xs) = mset xs)"

lemma raw_dom: "fset (fmdom (raw_weights d ws)) = venue ` set ws"
  by (simp add: raw_weights_def venue_dom Let_def)

lemma few_venues: "card (venue ` set ws) \<le> length ws"
  using card_image_le [of "set ws" venue] card_length [of ws] by simp

context decimal_division
begin

lemma inside_sum:
  assumes "v \<in> venue ` set ws" "\<forall>w \<in> set ws. 0 \<le> wcTurnover w"
  shows "\<bar>sum_list (map (inside_weight d ws) (at_venue v ws)) - 1\<bar> \<le> of_nat (length ws) * half_ulp"
    and "w \<in> set ws \<Longrightarrow> 0 \<le> inside_weight d ws w"
proof -
  let ?T = "sum_list (map wcTurnover (at_venue v ws))" and ?n = "length (at_venue v ws)"
  have n: "0 < ?n" "?n \<le> length ws" using assms(1) by (auto simp: at_venue_def filter_empty_conv)
  have T: "fmget 0 (venue_turnover ws) v = ?T" "fmget 0 (venue_counts ws) v = ?n"
    using assms(1) by (simp_all add: fmget_def venue_turnover_lookup venue_counts_lookup)
  have at: "venue w = v" if "w \<in> set (at_venue v ws)" for w using that by (simp add: at_venue_def)
  have "\<bar>sum_list (map (inside_weight d ws) (at_venue v ws)) - 1\<bar> \<le> of_nat ?n * half_ulp"
  proof (cases "?T > 0")
    case True
    have "map (inside_weight d ws) (at_venue v ws) = map (\<lambda>a. dlDiv d a ?T) (map wcTurnover (at_venue v ws))"
      using True T at by (simp add: inside_weight_def)
    moreover have "?T / ?T = 1" using True by simp
    ultimately show ?thesis using shares_sum [OF True, of "map wcTurnover (at_venue v ws)"] by (simp only: length_map)
  next
    case False
    have "map (inside_weight d ws) (at_venue v ws) = map (\<lambda>a. dlDiv d a (of_nat ?n)) (map (\<lambda>_. 1) (at_venue v ws))"
      using False T at by (simp add: inside_weight_def)
    moreover have "sum_list (map (\<lambda>_. 1 :: rat) (at_venue v ws)) = of_nat ?n" by (simp add: sum_list_triv)
    moreover have "(of_nat ?n :: rat) / of_nat ?n = 1" "0 < (of_nat ?n :: rat)" using n(1) by simp_all
    ultimately show ?thesis using shares_sum [of "of_nat ?n" "map (\<lambda>_. 1) (at_venue v ws)"] by (simp only: length_map)
  qed
  also have "\<dots> \<le> of_nat (length ws) * half_ulp" using n(2) by (intro mult_right_mono) (simp_all add: half_ulp_def)
  finally show "\<bar>sum_list (map (inside_weight d ws) (at_venue v ws)) - 1\<bar> \<le> of_nat (length ws) * half_ulp" .
  show "0 \<le> inside_weight d ws w" if "w \<in> set ws"
  proof -
    have "0 < length (at_venue (venue w) ws)" using that by (auto simp: at_venue_def filter_empty_conv)
    then have "0 < fmget 0 (venue_counts ws) (venue w)" using that by (simp add: fmget_def venue_counts_lookup)
    then show ?thesis using assms(2) that by (auto simp: inside_weight_def intro!: div_nonneg)
  qed
qed

lemma raw_nonneg:
  assumes "\<forall>w \<in> set ws. 0 \<le> wcTurnover w"
  shows "0 \<le> fmget 0 (raw_weights d ws) p"
proof (cases "p \<in> venue ` set ws")
  case True
  have "0 \<le> sum_list (map wcTurnover (at_venue p ws))" using assms by (auto simp: at_venue_def intro!: sum_list_nonneg)
  moreover have "0 < length (sorted_list_of_fmap (venue_turnover ws))"
    using True keys_of_fmap [of "venue_turnover ws"] venue_dom [of ws] by (metis emptyE length_greater_0_conv list.set(1) list.simps(8))
  ultimately show ?thesis using True by (auto simp: raw_weights_def fmget_def venue_turnover_lookup Let_def intro!: div_nonneg)
next
  case False
  then show ?thesis by (simp add: raw_weights_def fmget_def venue_turnover_lookup Let_def)
qed

lemma raw_sum:
  assumes "ws \<noteq> []" "\<forall>w \<in> set ws. 0 \<le> wcTurnover w"
  shows "\<bar>(\<Sum>v \<in> venue ` set ws. fmget 0 (raw_weights d ws) v) - 1\<bar> \<le> of_nat (length ws) * half_ulp"
proof -
  let ?V = "venue ` set ws" and ?T = "\<lambda>v. sum_list (map wcTurnover (at_venue v ws))" and ?total = "sum_list (map wcTurnover ws)"
  obtain vs where vs: "set vs = ?V" "distinct vs" using finite_distinct_list [of ?V] by auto
  have len: "length vs = card ?V" using distinct_card [OF vs(2)] vs(1) by simp
  have n: "length (sorted_list_of_fmap (venue_turnover ws)) = card ?V"
    using distinct_card [OF sorted_list_of_fmap_props(2) [of "venue_turnover ws"]] keys_of_fmap [of "venue_turnover ws"] venue_dom [of ws] by simp
  have pos: "0 < card ?V" using assms(1) by (simp add: card_gt_0_iff)
  have sum: "(\<Sum>v \<in> ?V. f v) = sum_list (map f vs)" for f :: "string \<Rightarrow> rat"
    using sum_list_distinct_conv_sum_set [OF vs(2), of f] vs(1) by simp
  have raw: "fmget 0 (raw_weights d ws) v = (if ?total > 0 then dlDiv d (?T v) ?total else dlDiv d 1 (of_nat (card ?V)))" if "v \<in> ?V" for v
    using that by (simp add: raw_weights_def fmget_def venue_turnover_lookup Let_def n)
  have "\<bar>(\<Sum>v \<in> ?V. fmget 0 (raw_weights d ws) v) - 1\<bar> \<le> of_nat (card ?V) * half_ulp"
  proof (cases "?total > 0")
    case True
    have "(\<Sum>v \<in> ?V. fmget 0 (raw_weights d ws) v) = sum_list (map (\<lambda>a. dlDiv d a ?total) (map ?T vs))"
      using raw True by (simp add: sum [symmetric] comp_def)
    moreover have "sum_list (map ?T vs) = ?total" unfolding sum [symmetric] by (rule sum_by_venue [symmetric])
    moreover have "?total / ?total = 1" using True by simp
    ultimately show ?thesis using shares_sum [OF True, of "map ?T vs"] by (simp only: length_map len)
  next
    case False
    have "(\<Sum>v \<in> ?V. fmget 0 (raw_weights d ws) v) = sum_list (map (\<lambda>a. dlDiv d a (of_nat (card ?V))) (map (\<lambda>_. 1) vs))"
      using raw False by (simp add: sum [symmetric] comp_def)
    moreover have "sum_list (map (\<lambda>_. 1 :: rat) vs) = of_nat (card ?V)" by (simp add: sum_list_triv len)
    moreover have "(of_nat (card ?V) :: rat) / of_nat (card ?V) = 1" "0 < (of_nat (card ?V) :: rat)"
      using pos by (simp_all only: of_nat_0_less_iff divide_self_if of_nat_eq_0_iff neq0_conv [symmetric] if_False not_False_eq_True)
    ultimately show ?thesis using shares_sum [of "of_nat (card ?V)" "map (\<lambda>_. 1) vs"] by (simp only: length_map len)
  qed
  also have "\<dots> \<le> of_nat (length ws) * half_ulp" using few_venues [of ws] by (intro mult_right_mono) (simp_all add: half_ulp_def)
  finally show ?thesis .
qed

lemma raw_locale: "\<forall>w \<in> set ws. 0 \<le> wcTurnover w \<Longrightarrow> venue_weights d (raw_weights d ws)"
  by (intro venue_weights.intro decimal_division_axioms venue_weights_axioms.intro raw_nonneg)

lemma venue_weight_sum:
  assumes "ws \<noteq> []" "\<forall>w \<in> set ws. 0 \<le> wcTurnover w" "walks walk"
  shows "\<bar>(\<Sum>v \<in> venue ` set ws. venue_weight d walk ws v) - 1\<bar> \<le> of_nat (length ws) * half_ulp"
    and "v \<in> venue ` set ws \<Longrightarrow> 0 \<le> venue_weight d walk ws v"
proof -
  let ?raw = "raw_weights d ws"
  have n: "length (sorted_list_of_fmap ?raw) = card (venue ` set ws)"
    using distinct_card [OF sorted_list_of_fmap_props(2) [of ?raw]] keys_of_fmap [of ?raw] raw_dom [of d ws] by simp
  have "\<bar>(\<Sum>v \<in> venue ` set ws. venue_weight d walk ws v) - 1\<bar> \<le> of_nat (length ws) * half_ulp \<and>
    (\<forall>v \<in> venue ` set ws. 0 \<le> venue_weight d walk ws v)"
  proof (cases "card (venue ` set ws) \<le> 2")
    case True
    then have "venue_weight d walk ws v = fmget 0 ?raw v" for v by (simp add: venue_weight_def cappedNormalizedWeights_def n)
    then show ?thesis using raw_sum [OF assms(1,2)] raw_nonneg [OF assms(2)] by simp
  next
    case False
    then have three: "3 \<le> fcard (fmdom ?raw)" by (simp add: fcard.rep_eq raw_dom)
    have "\<And>xs. mset (walk xs) = mset xs" using assms(3) by (simp add: walks_def)
    then obtain E where E: "filled d ?raw E"
      and w: "\<And>p. fmlookup (cappedNormalizedWeights d walk ?raw (2 / 5)) p = (if p |\<in>| fmdom ?raw then Some (filled_weight d ?raw E p) else None)"
      using venue_weights.capped_weights [OF raw_locale [OF assms(2)] _ three, of walk] by blast
    have v: "venue_weight d walk ws v = filled_weight d ?raw E v" if "v \<in> fset (fmdom ?raw)" for v
      using that w [of v] by (simp add: venue_weight_def fmget_def)
    have "\<bar>(\<Sum>v \<in> fset (fmdom ?raw). venue_weight d walk ws v) - 1\<bar> \<le> of_nat (fcard (fmdom ?raw)) * half_ulp"
      using venue_weights.filled_weight_sum [OF raw_locale [OF assms(2)] E three] v by simp
    also have "\<dots> \<le> of_nat (length ws) * half_ulp"
      using few_venues [of ws] by (intro mult_right_mono) (simp_all add: half_ulp_def fcard.rep_eq raw_dom)
    finally have "\<bar>(\<Sum>v \<in> venue ` set ws. venue_weight d walk ws v) - 1\<bar> \<le> of_nat (length ws) * half_ulp" by (simp add: raw_dom)
    moreover have "0 \<le> venue_weight d walk ws v" if "v \<in> venue ` set ws" for v
    proof -
      have "v |\<in>| fmdom ?raw" using that raw_dom [of d ws] by auto
      then show ?thesis using venue_weights.filled_weight_bounds(1) [OF raw_locale [OF assms(2)] E three] v by simp
    qed
    ultimately show ?thesis by blast
  qed
  then show "\<bar>(\<Sum>v \<in> venue ` set ws. venue_weight d walk ws v) - 1\<bar> \<le> of_nat (length ws) * half_ulp"
    "v \<in> venue ` set ws \<Longrightarrow> 0 \<le> venue_weight d walk ws v" by blast+
qed

end

text \<open>How far the weights of \<open>n\<close> markets can be from one.\<close>

definition weight_slack :: "nat \<Rightarrow> rat" where
  "weight_slack n = of_nat n * half_ulp * (2 + of_nat n * half_ulp)"

context decimal_division
begin

lemma market_weights:
  assumes "ws \<noteq> []" "\<forall>w \<in> set ws. 0 \<le> wcTurnover w" "walks walk"
  shows "\<bar>sum_list (map wcWeight (assignCompositeWeights d walk ws)) - 1\<bar> \<le> weight_slack (length ws)"
    and "w \<in> set (assignCompositeWeights d walk ws) \<Longrightarrow> 0 \<le> wcWeight w"
proof -
  let ?V = "venue ` set ws" and ?v = "venue_weight d walk ws" and ?e = "of_nat (length ws) * half_ulp"
  let ?S = "\<Sum>v \<in> ?V. ?v v" and ?I = "\<lambda>v. sum_list (map (inside_weight d ws) (at_venue v ws))"
  have e: "0 \<le> ?e" by (simp add: half_ulp_def)
  have S: "\<bar>?S - 1\<bar> \<le> ?e" by (rule venue_weight_sum(1) [OF assms])
  have v: "0 \<le> ?v v" if "v \<in> ?V" for v using venue_weight_sum(2) [OF assms that] .
  have "sum_list (map wcWeight (assignCompositeWeights d walk ws)) = sum_list (map (\<lambda>w. ?v (venue w) * inside_weight d ws w) ws)"
    by (simp add: assign_weights comp_def)
  also have "\<dots> = (\<Sum>x \<in> ?V. sum_list (map (\<lambda>w. ?v (venue w) * inside_weight d ws w) (at_venue x ws)))" by (rule sum_by_venue)
  also have "\<dots> = (\<Sum>x \<in> ?V. ?v x * ?I x)"
  proof (rule sum.cong [OF refl])
    fix x
    have "map (\<lambda>w. ?v (venue w) * inside_weight d ws w) (at_venue x ws) = map (\<lambda>w. ?v x * inside_weight d ws w) (at_venue x ws)"
      by (rule map_cong [OF refl]) (simp add: at_venue_def)
    then show "sum_list (map (\<lambda>w. ?v (venue w) * inside_weight d ws w) (at_venue x ws)) = ?v x * ?I x"
      by (simp only: sum_list_const_mult)
  qed
  finally have W: "sum_list (map wcWeight (assignCompositeWeights d walk ws)) - 1 = (\<Sum>x \<in> ?V. ?v x * (?I x - 1)) + (?S - 1)"
    by (simp add: right_diff_distrib sum_subtractf)
  have "\<bar>\<Sum>x \<in> ?V. ?v x * (?I x - 1)\<bar> \<le> (\<Sum>x \<in> ?V. ?v x * ?e)"
  proof (rule order_trans [OF sum_abs sum_mono])
    fix x
    assume x: "x \<in> ?V"
    show "\<bar>?v x * (?I x - 1)\<bar> \<le> ?v x * ?e"
      using inside_sum(1) [OF x assms(2)] v [OF x] by (simp add: abs_mult mult_left_mono)
  qed
  also have "\<dots> = ?S * ?e" by (simp add: sum_distrib_right)
  also have "\<dots> \<le> (1 + ?e) * ?e" using S e by (intro mult_right_mono) linarith
  finally have "\<bar>\<Sum>x \<in> ?V. ?v x * (?I x - 1)\<bar> \<le> (1 + ?e) * ?e" .
  then have "\<bar>sum_list (map wcWeight (assignCompositeWeights d walk ws)) - 1\<bar> \<le> (1 + ?e) * ?e + ?e"
    unfolding W using S by (intro order_trans [OF abs_triangle_ineq] add_mono)
  also have "\<dots> = weight_slack (length ws)" by (simp add: weight_slack_def algebra_simps)
  finally show "\<bar>sum_list (map wcWeight (assignCompositeWeights d walk ws)) - 1\<bar> \<le> weight_slack (length ws)" .
  show "0 \<le> wcWeight w" if "w \<in> set (assignCompositeWeights d walk ws)"
  proof -
    from that obtain x where x: "x \<in> set ws" "wcWeight w = ?v (venue x) * inside_weight d ws x" by (auto simp: assign_weights)
    then show ?thesis using v [OF imageI [OF x(1)]] inside_sum(2) [OF imageI [OF x(1)] assms(2) x(1)] by simp
  qed
qed

lemma weighted_mean:
  assumes "ws \<noteq> []" "\<forall>w \<in> set ws. 0 \<le> wcTurnover w" "walks walk" "\<forall>w \<in> set ws. lo \<le> wcPriceUSD w \<and> wcPriceUSD w \<le> hi" "0 \<le> lo"
  shows "lo * (1 - weight_slack (length ws)) \<le> sum_list (map (\<lambda>w. wcPriceUSD w * wcWeight w) (assignCompositeWeights d walk ws))"
    and "sum_list (map (\<lambda>w. wcPriceUSD w * wcWeight w) (assignCompositeWeights d walk ws)) \<le> hi * (1 + weight_slack (length ws))"
proof -
  let ?ws = "assignCompositeWeights d walk ws"
  let ?W = "sum_list (map wcWeight ?ws)"
  have p: "lo \<le> wcPriceUSD w \<and> wcPriceUSD w \<le> hi" if "w \<in> set ?ws" for w using that assms(4) by (auto simp: assign_weights)
  have hi: "0 \<le> hi" using assms(1,4,5) by (meson hd_in_set order_trans)
  have W: "1 - weight_slack (length ws) \<le> ?W" "?W \<le> 1 + weight_slack (length ws)" using market_weights(1) [OF assms(1-3)] by (simp_all add: abs_le_iff)
  have "lo * ?W = sum_list (map (\<lambda>w. lo * wcWeight w) ?ws)" by (simp add: sum_list_const_mult)
  also have "\<dots> \<le> sum_list (map (\<lambda>w. wcPriceUSD w * wcWeight w) ?ws)"
    using p market_weights(2) [OF assms(1-3)] by (intro sum_list_mono mult_right_mono) auto
  finally show "lo * (1 - weight_slack (length ws)) \<le> sum_list (map (\<lambda>w. wcPriceUSD w * wcWeight w) ?ws)"
    using mult_left_mono [OF W(1) assms(5)] by simp
  have "sum_list (map (\<lambda>w. wcPriceUSD w * wcWeight w) ?ws) \<le> sum_list (map (\<lambda>w. hi * wcWeight w) ?ws)"
    using p market_weights(2) [OF assms(1-3)] by (intro sum_list_mono mult_right_mono) auto
  also have "\<dots> = hi * ?W" by (simp add: sum_list_const_mult)
  finally show "sum_list (map (\<lambda>w. wcPriceUSD w * wcWeight w) ?ws) \<le> hi * (1 + weight_slack (length ws))"
    using mult_left_mono [OF W(2) hi] by simp
qed

end

section \<open>Candidates and the median\<close>

lemma admitted_positive:
  assumes "w \<in> set (fst (select_candidates d now cs))"
  shows "0 < wcPriceUSD w" "0 \<le> wcTurnover w"
proof -
  obtain c where c: "w = weigh d c" "exclusion_reason now c = []" using assms by (auto simp: select_candidates_def)
  then have "0 < ccPrice c" and r: "\<exists>rate. ccQuoteToUSD c = Some rate \<and> 0 < rate"
    by (auto simp: exclusion_reason_def not_le split: if_splits option.splits)
  then show "0 < wcPriceUSD w" "0 \<le> wcTurnover w" by (auto simp: c(1) weigh_def Let_def)
qed

lemma admitted_few: "length (fst (select_candidates d now cs)) \<le> length cs"
  by (simp add: select_candidates_def)

context decimal_division
begin

lemma median_nonneg:
  assumes "\<forall>p \<in> set ps. 0 < p"
  shows "0 \<le> decimalMedian d ps"
proof -
  have at: "0 < sort ps ! i" if "i < length ps" for i
  proof -
    have "sort ps ! i \<in> set (sort ps)" using that by (intro nth_mem) simp
    then show ?thesis using assms by simp
  qed
  show ?thesis
  proof (cases "ps = []")
    case False
    then have "0 < length ps" by simp
    then have "length ps div 2 < length ps" "length ps div 2 - 1 < length ps" by linarith+
    from at [OF this(1)] at [OF this(2)] show ?thesis
      by (auto simp: decimalMedian_def Let_def intro!: div_nonneg)
  qed (simp add: decimalMedian_def)
qed

lemma near_median:
  assumes "0 < m" "\<not> outlier d m w"
  shows "m * (97 / 100 - half_ulp) \<le> wcPriceUSD w" "wcPriceUSD w \<le> m * (103 / 100 + half_ulp)"
proof -
  have "\<bar>wcPriceUSD w - m\<bar> / m \<le> 3 / 100 + half_ulp"
    using assms(2) div_error [OF assms(1), of "\<bar>wcPriceUSD w - m\<bar>"] by (simp add: outlier_def compositeOutlierLimit_def)
  then have "\<bar>wcPriceUSD w - m\<bar> \<le> (3 / 100 + half_ulp) * m" using assms(1) by (simp add: pos_divide_le_eq)
  then show "m * (97 / 100 - half_ulp) \<le> wcPriceUSD w" "wcPriceUSD w \<le> m * (103 / 100 + half_ulp)"
    by (simp_all add: abs_le_iff algebra_simps)
qed

end

lemma weight_slack_mono: "m \<le> n \<Longrightarrow> weight_slack m \<le> weight_slack n"
  unfolding weight_slack_def by (intro mult_mono add_mono) (simp_all add: half_ulp_def)

lemma weight_slack_nonneg: "0 \<le> weight_slack n"
  by (simp add: weight_slack_def half_ulp_def)

definition admitted_markets :: "DecimalLib \<Rightarrow> int \<Rightarrow> CompositeCandidate list \<Rightarrow> weightedCandidate list" where
  "admitted_markets d now cs = fst (select_candidates d now cs)"

definition admitted_median :: "DecimalLib \<Rightarrow> int \<Rightarrow> CompositeCandidate list \<Rightarrow> rat" where
  "admitted_median d now cs = decimalMedian d (map wcPriceUSD (admitted_markets d now cs))"

definition surviving :: "DecimalLib \<Rightarrow> int \<Rightarrow> CompositeCandidate list \<Rightarrow> weightedCandidate list" where
  "surviving d now cs = filter (\<lambda>w. \<not> outlier d (admitted_median d now cs) w) (admitted_markets d now cs)"

lemma surviving_admitted: "w \<in> set (surviving d now cs) \<Longrightarrow> w \<in> set (admitted_markets d now cs) \<and> \<not> outlier d (admitted_median d now cs) w"
  by (simp add: surviving_def)

lemma surviving_turnover: "\<forall>w \<in> set (surviving d now cs). 0 \<le> wcTurnover w"
  using surviving_admitted admitted_positive(2) unfolding admitted_markets_def by blast

lemma surviving_few: "length (surviving d now cs) \<le> length cs"
  using admitted_few [of d now cs] length_filter_le unfolding surviving_def admitted_markets_def by (meson order_trans)

definition excluded :: "DecimalLib \<Rightarrow> int \<Rightarrow> CompositeCandidate list \<Rightarrow> CompositeExclusion list" where
  "excluded d now cs =
     snd (select_candidates d now cs) @ snd (drop_outliers d (admitted_median d now cs) (admitted_markets d now cs))"

lemma BuildComposite_eq:
  "BuildComposite d walk cs now =
     (if admitted_markets d now cs \<noteq> [] \<and> admitted_median d now cs = 0 then Inl Panic
      else if surviving d now cs = [] then Inr (unavailable (excluded d now cs))
      else Inr (composite_of d (assignCompositeWeights d walk (surviving d now cs)) (excluded d now cs)))"
proof -
  obtain valid exclusions where sel: "select_candidates d now cs = (valid, exclusions)" by fastforce
  have v: "admitted_markets d now cs = valid" by (simp add: admitted_markets_def sel)
  show ?thesis
    unfolding BuildComposite_def sel v Let_def prod.case admitted_median_def [symmetric] surviving_def excluded_def drop_outliers_def
    by (auto simp: admitted_median_def v)
qed

text \<open>The two ways in which the code answers.\<close>

lemma BuildComposite_cases:
  assumes "BuildComposite d walk cs now = Inr r"
  obtains (none) "surviving d now cs = []" "r = unavailable (excluded d now cs)"
    | (some) "surviving d now cs \<noteq> []" "admitted_median d now cs \<noteq> 0"
        "r = composite_of d (assignCompositeWeights d walk (surviving d now cs)) (excluded d now cs)"
proof (cases "surviving d now cs = []")
  case True
  then show ?thesis using assms none by (auto simp: BuildComposite_eq split: if_splits)
next
  case False
  then have "admitted_markets d now cs \<noteq> []" by (auto simp: surviving_def)
  then show ?thesis using assms some False by (auto simp: BuildComposite_eq split: if_splits)
qed

section \<open>Properties\<close>

text \<open>C26 (bounds) The cap of the venues' weights. With three or more venues and raw weights that are not
  negative, whatever the order in which Go walks the map, the weights that \<open>cappedNormalizedWeights\<close>
  returns are for the same venues, none is negative or larger than 40 percent, and their sum differs from
  one by at most half a unit of the sixteenth decimal place per venue, as the comment at the function
  promises. The hypothesis on \<open>d\<close> is the documented rounding of the decimal library's division.\<close>

theorem composite_weights_capped:
  assumes "decimal_division d" "walks walk" "\<forall>p. 0 \<le> fmget 0 raw p" "3 \<le> fcard (fmdom raw)"
  shows "fmdom (cappedNormalizedWeights d walk raw compositeVenueWeightCap) = fmdom raw \<and>
    (\<forall>p weight. fmlookup (cappedNormalizedWeights d walk raw compositeVenueWeightCap) p = Some weight \<longrightarrow>
       0 \<le> weight \<and> weight \<le> 2 / 5) \<and>
    \<bar>weight_sum (cappedNormalizedWeights d walk raw compositeVenueWeightCap) - 1\<bar> \<le> of_nat (fcard (fmdom raw)) * half_ulp"
proof -
  let ?w = "cappedNormalizedWeights d walk raw (2 / 5)"
  have loc: "venue_weights d raw" using assms(1,3) by (auto intro: venue_weights.intro venue_weights_axioms.intro)
  obtain E where E: "filled d raw E"
    and look: "\<And>p. fmlookup ?w p = (if p |\<in>| fmdom raw then Some (filled_weight d raw E p) else None)"
    using venue_weights.capped_weights [OF loc _ assms(4), of walk] assms(2) unfolding walks_def by blast
  have dom: "fmdom ?w = fmdom raw" by (rule fset_eqI) (simp add: fmlookup_dom_iff look)
  have b: "0 \<le> weight \<and> weight \<le> 2 / 5" if "fmlookup ?w p = Some weight" for p weight
    using that venue_weights.filled_weight_bounds [OF loc E assms(4), of p] by (auto simp: look split: if_splits)
  have "weight_sum ?w = (\<Sum>p \<in> fset (fmdom raw). filled_weight d raw E p)"
    unfolding weight_sum_eq dom by (intro sum.cong) (simp_all add: fmget_def look)
  then have "\<bar>weight_sum ?w - 1\<bar> \<le> of_nat (fcard (fmdom raw)) * half_ulp"
    using venue_weights.filled_weight_sum [OF loc E assms(4)] by simp
  then show ?thesis unfolding compositeVenueWeightCap_def using dom b by simp
qed

lemma walks_rev: "walks rev"
  by (simp add: walks_def)

lemma walks_id: "walks (\<lambda>xs. xs)"
  by (simp add: walks_def)

definition raw_90_5_5 :: "(string, rat) fmap" where
  "raw_90_5_5 = fmap_of_list [(''okx'', 9 / 10), (''bybit'', 1 / 20), (''coinbase'', 1 / 20)]"

theorem composite_weights_capped_witness:
  "fmlookup raw_90_5_5 ''okx'' = Some (9 / 10) \<and>
    fmdom (cappedNormalizedWeights lib16 rev raw_90_5_5 compositeVenueWeightCap) = fmdom raw_90_5_5 \<and>
    fmget 0 (cappedNormalizedWeights lib16 rev raw_90_5_5 compositeVenueWeightCap) ''okx'' \<le> 2 / 5"
proof -
  have nonneg: "\<forall>p. 0 \<le> fmget 0 raw_90_5_5 p" by (simp add: raw_90_5_5_def fmget_def fmlookup_of_list)
  have three: "3 \<le> fcard (fmdom raw_90_5_5)" by (simp add: raw_90_5_5_def fcard.rep_eq)
  have "fmlookup raw_90_5_5 ''okx'' = Some (9 / 10)" by (simp add: raw_90_5_5_def fmlookup_of_list)
  then show ?thesis using composite_weights_capped [OF lib16.decimal_division_axioms walks_rev nonneg three]
    by (auto simp: fmget_def split: option.split)
qed

lemma capped_weights_order:
  assumes "venue_weights d raw" "walks walk" "walks walk'"
  shows "cappedNormalizedWeights d walk raw (2 / 5) = cappedNormalizedWeights d walk' raw (2 / 5)"
proof (cases "3 \<le> fcard (fmdom raw)")
  case True
  have w: "\<And>xs. mset (walk xs) = mset xs" "\<And>xs. mset (walk' xs) = mset xs" using assms(2,3) by (simp_all add: walks_def)
  obtain E where E: "filled d raw E"
    and look: "\<And>p. fmlookup (cappedNormalizedWeights d walk raw (2 / 5)) p = (if p |\<in>| fmdom raw then Some (filled_weight d raw E p) else None)"
    using venue_weights.capped_weights [OF assms(1) w(1) True] by blast
  obtain E' where E': "filled d raw E'"
    and look': "\<And>p. fmlookup (cappedNormalizedWeights d walk' raw (2 / 5)) p = (if p |\<in>| fmdom raw then Some (filled_weight d raw E' p) else None)"
    using venue_weights.capped_weights [OF assms(1) w(2) True] by blast
  have "E = E'" by (rule venue_weights.filled_unique [OF assms(1) E E'])
  then show ?thesis by (intro fmap_ext) (simp add: look look')
next
  case False
  have "length (sorted_list_of_fmap raw) = fcard (fmdom raw)"
    using distinct_card [OF sorted_list_of_fmap_props(2) [of raw]] keys_of_fmap [of raw] by (simp add: fcard.rep_eq)
  then show ?thesis using False by (simp add: cappedNormalizedWeights_def)
qed

lemma assign_weights_order:
  assumes "decimal_division d" "walks walk" "walks walk'" "\<forall>w \<in> set ws. 0 \<le> wcTurnover w"
  shows "assignCompositeWeights d walk ws = assignCompositeWeights d walk' ws"
  using capped_weights_order [OF decimal_division.raw_locale [OF assms(1,4)] assms(2,3)]
  by (simp add: assignCompositeWeights_def compositeVenueWeightCap_def)

text \<open>C27 (equivalence) The composite does not depend on the order in which Go walks its maps: two walks that
  each visit every key once give the same result, although a pass removes venues from the map while it
  walks it and judges each venue with what the venues before it have left.\<close>

theorem composite_order_independent:
  assumes "decimal_division d" "walks walk" "walks walk'"
  shows "BuildComposite d walk candidates now = BuildComposite d walk' candidates now"
  using assign_weights_order [OF assms surviving_turnover] by (simp add: BuildComposite_eq)

definition spot_candidate :: "string \<Rightarrow> string \<Rightarrow> rat \<Rightarrow> rat \<Rightarrow> CompositeCandidate" where
  "spot_candidate market provider price turnover =
     \<lparr> ccMarketID = market, ccMarketCode = market, ccProvider = provider, ccMarketType = ''spot'', ccQuoteAsset = ''USD'',
       ccPrice = price, ccOpen24h = None, ccChange24hPct = None, ccTurnover24h = turnover, ccObservedAt = Some 0,
       ccSourceTime = None, ccQuoteToUSD = Some 1 \<rparr>"

definition three_spots :: "CompositeCandidate list" where
  "three_spots = [spot_candidate ''m1'' ''okx'' 100 90, spot_candidate ''m2'' ''bybit'' 101 5, spot_candidate ''m3'' ''coinbase'' 200 5]"

theorem composite_order_independent_witness:
  "BuildComposite lib16 rev three_spots 0 = BuildComposite lib16 (\<lambda>xs. xs) three_spots 0"
  by (rule composite_order_independent [OF lib16.decimal_division_axioms walks_rev walks_id])

text \<open>C28 (safety) No single market moves the composite price far: when a composite is available, its price is
  within three percent of the median of the admitted markets' prices in dollars, up to the rounding of the
  sixteen decimal places of the quotients, and that median is positive.\<close>

theorem composite_near_median:
  assumes "decimal_division d" "walks walk" "BuildComposite d walk candidates now = Inr result" "crAvailable result"
  shows "\<exists>price. crPriceUSD result = Some price \<and> 0 < admitted_median d now candidates \<and>
    admitted_median d now candidates * (97 / 100 - half_ulp) * (1 - weight_slack (length candidates)) \<le> price \<and>
    price \<le> admitted_median d now candidates * (103 / 100 + half_ulp) * (1 + weight_slack (length candidates))"
  using assms(3)
proof (cases rule: BuildComposite_cases)
  case none
  then show ?thesis using assms(4) by (simp add: unavailable_def)
next
  case some
  let ?m = "admitted_median d now candidates" and ?ws = "surviving d now candidates"
  let ?price = "sum_list (map (\<lambda>w. wcPriceUSD w * wcWeight w) (assignCompositeWeights d walk ?ws))"
  have "\<forall>p \<in> set (map wcPriceUSD (admitted_markets d now candidates)). 0 < p" using admitted_positive(1) by (auto simp: admitted_markets_def)
  then have "0 \<le> ?m" unfolding admitted_median_def by (rule decimal_division.median_nonneg [OF assms(1)])
  then have m: "0 < ?m" using some(2) by simp
  have range: "\<forall>w \<in> set ?ws. ?m * (97 / 100 - half_ulp) \<le> wcPriceUSD w \<and> wcPriceUSD w \<le> ?m * (103 / 100 + half_ulp)"
    using decimal_division.near_median [OF assms(1) m] surviving_admitted by blast
  have lo: "0 \<le> ?m * (97 / 100 - half_ulp)" and hi: "0 \<le> ?m * (103 / 100 + half_ulp)" using m by (simp_all add: half_ulp_def)
  note mean = decimal_division.weighted_mean [OF assms(1) some(1) surviving_turnover assms(2) range lo]
  have slack: "weight_slack (length ?ws) \<le> weight_slack (length candidates)" by (rule weight_slack_mono [OF surviving_few])
  have "?m * (97 / 100 - half_ulp) * (1 - weight_slack (length candidates)) \<le> ?price"
    by (rule order_trans [OF mult_left_mono [OF _ lo] mean(1)]) (use slack in simp)
  moreover have "?price \<le> ?m * (103 / 100 + half_ulp) * (1 + weight_slack (length candidates))"
    by (rule order_trans [OF mean(2) mult_left_mono [OF _ hi]]) (use slack in simp)
  moreover have "crPriceUSD result = Some ?price"
    by (subst some(3)) (simp add: composite_of_def Let_def)
  ultimately show ?thesis using m by blast
qed

lemma three_spots_median: "admitted_median lib16 0 three_spots = 101"
  by (simp add: admitted_median_def admitted_markets_def select_candidates_def three_spots_def spot_candidate_def exclusion_reason_def
      weigh_def open24h_of_def EqualFold_def CompositeFreshnessLimit_def seconds_def decimalMedian_def Let_def)

lemma three_spots_result: "\<exists>result. BuildComposite lib16 rev three_spots 0 = Inr result \<and> crAvailable result"
proof -
  let ?w = "weigh lib16 (spot_candidate ''m2'' ''bybit'' 101 5)"
  have "?w \<in> set (admitted_markets lib16 0 three_spots)"
    by (simp add: admitted_markets_def select_candidates_def three_spots_def spot_candidate_def exclusion_reason_def
        EqualFold_def CompositeFreshnessLimit_def seconds_def)
  moreover have "\<not> outlier lib16 101 ?w"
    by (simp add: outlier_def weigh_def spot_candidate_def lib16_def round16_def compositeOutlierLimit_def)
  ultimately have "surviving lib16 0 three_spots \<noteq> []"
    using three_spots_median by (auto simp: surviving_def filter_empty_conv)
  then show ?thesis by (simp add: BuildComposite_eq three_spots_median composite_of_def Let_def)
qed

theorem composite_near_median_witness:
  "\<exists>result price. BuildComposite lib16 rev three_spots 0 = Inr result \<and> crPriceUSD result = Some price \<and> 97 \<le> price"
proof -
  obtain result where r: "BuildComposite lib16 rev three_spots 0 = Inr result" "crAvailable result"
    using three_spots_result by blast
  have "97 \<le> 101 * (97 / 100 - half_ulp) * (1 - weight_slack (length three_spots))"
    by (simp add: half_ulp_def weight_slack_def three_spots_def)
  then show ?thesis
    using composite_near_median [OF lib16.decimal_division_axioms walks_rev r] r(1) unfolding three_spots_median by fastforce
qed

lemma mset_filter_split: "mset (map f (filter P xs)) + mset (map f (filter (\<lambda>x. \<not> P x) xs)) = mset (map f xs)"
  by (induction xs) auto

lemma surviving_ids:
  "mset (map (ccMarketID \<circ> wcCandidate) (surviving d now cs)) + mset (map ceMarketID (excluded d now cs)) = mset (map ccMarketID cs)"
proof -
  let ?id = "ccMarketID \<circ> wcCandidate" and ?m = "admitted_median d now cs"
  have adm: "admitted_markets d now cs = map (weigh d) (filter (\<lambda>c. exclusion_reason now c = []) cs)" by (simp add: admitted_markets_def select_candidates_def)
  have A: "map ceMarketID (excluded d now cs) =
      map ccMarketID (filter (\<lambda>c. exclusion_reason now c \<noteq> []) cs) @ map ?id (filter (outlier d ?m) (admitted_markets d now cs))"
    by (simp add: excluded_def select_candidates_def drop_outliers_def comp_def)
  have B: "mset (map ?id (surviving d now cs)) + mset (map ?id (filter (outlier d ?m) (admitted_markets d now cs))) = mset (map ?id (admitted_markets d now cs))"
    unfolding surviving_def using mset_filter_split [of ?id "outlier d ?m" "admitted_markets d now cs"] by (simp add: add.commute)
  have C: "map ?id (admitted_markets d now cs) = map ccMarketID (filter (\<lambda>c. exclusion_reason now c = []) cs)"
    by (simp add: adm weigh_def Let_def comp_def)
  have D: "mset (map ccMarketID (filter (\<lambda>c. exclusion_reason now c = []) cs)) + mset (map ccMarketID (filter (\<lambda>c. exclusion_reason now c \<noteq> []) cs)) = mset (map ccMarketID cs)"
    by (rule mset_filter_split)
  have move: "x + (y + z) = (x + z) + y" for x y z :: "string multiset" by (simp add: ac_simps)
  show ?thesis unfolding A mset_append move B C by (rule D)
qed

lemma contributors_of:
  "mset (crContributors (composite_of d (assignCompositeWeights d walk ws) ex)) = mset (map (contributor d) (assignCompositeWeights d walk ws))"
  by (simp add: composite_of_def Let_def)

lemma contributor_ids:
  "map cbMarketID (map (contributor d) (assignCompositeWeights d walk ws)) = map (ccMarketID \<circ> wcCandidate) ws"
  by (simp add: assign_weights contributor_def comp_def)

text \<open>C29 (functional) Every candidate market ends up exactly once among the contributors or among the
  exclusions. The composite is available exactly when it has contributors, and each contributor is a market
  for which no reason to exclude it applies.\<close>

theorem composite_partition:
  assumes "BuildComposite d walk candidates now = Inr result"
  shows "mset (map cbMarketID (crContributors result)) + mset (map ceMarketID (crExclusions result)) = mset (map ccMarketID candidates) \<and>
    crAvailable result = (crContributors result \<noteq> []) \<and>
    (\<forall>x \<in> set (crContributors result). \<exists>c \<in> set candidates. ccMarketID c = cbMarketID x \<and> exclusion_reason now c = [])"
  using assms
proof (cases rule: BuildComposite_cases)
  case none
  then show ?thesis using surviving_ids [of d now candidates] by (simp add: unavailable_def)
next
  case some
  let ?ws = "surviving d now candidates"
  have ex: "crExclusions result = excluded d now candidates" and av: "crAvailable result"
    by (subst some(3), simp add: composite_of_def Let_def)+
  have co: "mset (crContributors result) = mset (map (contributor d) (assignCompositeWeights d walk ?ws))"
    unfolding some(3) by (rule contributors_of)
  have ids: "mset (map cbMarketID (crContributors result)) = mset (map (ccMarketID \<circ> wcCandidate) ?ws)"
    by (metis co contributor_ids mset_map)
  have "crContributors result \<noteq> []" using co some(1) by (auto simp: assign_weights)
  moreover have "\<exists>c \<in> set candidates. ccMarketID c = cbMarketID x \<and> exclusion_reason now c = []" if "x \<in> set (crContributors result)" for x
  proof -
    have "cbMarketID x \<in> set (map (ccMarketID \<circ> wcCandidate) ?ws)"
      using that ids by (metis image_eqI list.set_map set_mset_mset)
    then obtain w where w: "w \<in> set ?ws" "cbMarketID x = ccMarketID (wcCandidate w)" by auto
    have "w \<in> set (admitted_markets d now candidates)" using surviving_admitted [OF w(1)] by simp
    then show ?thesis using w(2) by (auto simp: admitted_markets_def select_candidates_def weigh_def Let_def)
  qed
  ultimately show ?thesis using surviving_ids [of d now candidates] ids ex av by simp
qed

theorem composite_partition_witness:
  "\<exists>result. BuildComposite lib16 rev three_spots 0 = Inr result \<and>
    mset (map cbMarketID (crContributors result)) + mset (map ceMarketID (crExclusions result)) = {#''m1'', ''m2'', ''m3''#}"
proof -
  obtain result where r: "BuildComposite lib16 rev three_spots 0 = Inr result" using three_spots_result by blast
  have "mset (map ccMarketID three_spots) = {#''m1'', ''m2'', ''m3''#}" by (simp add: three_spots_def spot_candidate_def)
  then show ?thesis using composite_partition [OF r] r by (intro exI [of _ result]) simp
qed

section \<open>The indexer\<close>

definition asset_candidates ::
  "DecimalLib \<Rightarrow> (string, string) fmap \<Rightarrow> CompositeMarketCandidate list \<Rightarrow> string \<Rightarrow> CompositeCandidate list" where
  "asset_candidates d rates rows assetID = List.map_filter (row_candidate d rates) (filter (\<lambda>row. cmAssetID row = assetID) rows)"

definition venue_rows :: "string \<Rightarrow> CompositeMarketCandidate list \<Rightarrow> CompositeMarketCandidate list" where
  "venue_rows provider rows = filter (\<lambda>row. ToLower (TrimSpace (cmProvider row)) = provider) rows"

definition readable_assets :: "DecimalLib \<Rightarrow> (string, string) fmap \<Rightarrow> CompositeMarketCandidate list \<Rightarrow> string fset" where
  "readable_assets d rates rows = fset_of_list (map cmAssetID (filter (\<lambda>row. row_candidate d rates row \<noteq> None) rows))"

text \<open>What a group of candidates holds after some rows.\<close>

definition holds_rows :: "DecimalLib \<Rightarrow> (string, string) fmap \<Rightarrow> string fset \<Rightarrow> CompositeMarketCandidate list \<Rightarrow> groups \<Rightarrow> bool" where
  "holds_rows d rates topAssets rows g \<longleftrightarrow> (\<forall>a. fmlookup g a =
     (if a |\<in>| topAssets |\<union>| readable_assets d rates rows then Some (asset_candidates d rates rows a) else None))"

lemma map_filter_snoc: "List.map_filter f (xs @ [x]) = List.map_filter f xs @ (case f x of None \<Rightarrow> [] | Some y \<Rightarrow> [y])"
  by (induction xs) (simp_all add: List.map_filter_def split: option.split)

lemma asset_candidates_snoc:
  "asset_candidates d rates (rows @ [row]) a =
     asset_candidates d rates rows a @ (if cmAssetID row = a then (case row_candidate d rates row of None \<Rightarrow> [] | Some c \<Rightarrow> [c]) else [])"
  by (simp add: asset_candidates_def map_filter_snoc)

lemma readable_assets_snoc:
  "readable_assets d rates (rows @ [row]) =
     readable_assets d rates rows |\<union>| (if row_candidate d rates row = None then {||} else {|cmAssetID row|})"
  by (simp add: readable_assets_def)

lemma unreadable_candidates: "a |\<notin>| readable_assets d rates rows \<Longrightarrow> asset_candidates d rates rows a = []"
  by (induction rows rule: rev_induct)
    (auto simp: asset_candidates_snoc readable_assets_snoc asset_candidates_def List.map_filter_def split: if_splits)

lemma holds_rows_same:
  assumes "holds_rows d rates T rows g" "row_candidate d rates row = None"
  shows "holds_rows d rates T (rows @ [row]) g"
  using assms by (simp add: holds_rows_def asset_candidates_snoc readable_assets_snoc)

lemma holds_rows_add:
  assumes "holds_rows d rates T rows g" "row_candidate d rates row = Some c"
  shows "holds_rows d rates T (rows @ [row]) (fmupd (cmAssetID row) (fmget [] g (cmAssetID row) @ [c]) g)"
proof -
  have "fmget [] g (cmAssetID row) = asset_candidates d rates rows (cmAssetID row)"
    using assms(1) unreadable_candidates [of "cmAssetID row" d rates rows] by (simp add: holds_rows_def fmget_def)
  then show ?thesis using assms by (auto simp: holds_rows_def asset_candidates_snoc readable_assets_snoc)
qed

lemma empty_group: "holds_rows d rates T [] (fmap_of_list (map (\<lambda>assetID. (assetID, [])) (sorted_list_of_fset T)))"
proof -
  have "map_of (map (\<lambda>assetID. (assetID, [] :: CompositeCandidate list)) xs) a = (if a \<in> set xs then Some [] else None)" for xs :: "string list" and a
    by (induction xs) auto
  then show ?thesis
    by (simp add: holds_rows_def fmlookup_of_list readable_assets_def asset_candidates_def List.map_filter_def)
qed

lemma group_rows_holds:
  assumes "group_rows d rates T rows = (grouped, providerGroups)"
  shows "holds_rows d rates T rows grouped"
    "\<forall>p. case fmlookup providerGroups p of None \<Rightarrow> p \<notin> set indexed_providers
       | Some g \<Rightarrow> p \<in> set indexed_providers \<and> holds_rows d rates T (venue_rows p rows) g"
proof -
  define empty :: groups where "empty = fmap_of_list (map (\<lambda>assetID. (assetID, [])) (sorted_list_of_fset T))"
  define start where "start = fmap_of_list (map (\<lambda>provider. (provider, empty)) indexed_providers)"
  have "holds_rows d rates T rows (fst (fold (add_row d rates) rows (empty, start))) \<and>
    (\<forall>p. case fmlookup (snd (fold (add_row d rates) rows (empty, start))) p of None \<Rightarrow> p \<notin> set indexed_providers
       | Some g \<Rightarrow> p \<in> set indexed_providers \<and> holds_rows d rates T (venue_rows p rows) g)"
  proof (induction rows rule: rev_induct)
    case Nil
    show ?case using empty_group [of d rates T]
      by (auto simp: empty_def [symmetric] start_def venue_rows_def indexed_providers_def fmlookup_of_list)
  next
    case (snoc row rows)
    obtain g pg where fold: "fold (add_row d rates) rows (empty, start) = (g, pg)" by fastforce
    let ?p = "ToLower (TrimSpace (cmProvider row))"
    have h: "holds_rows d rates T rows g" and hp: "\<And>p. case fmlookup pg p of None \<Rightarrow> p \<notin> set indexed_providers
       | Some g \<Rightarrow> p \<in> set indexed_providers \<and> holds_rows d rates T (venue_rows p rows) g"
      using snoc.IH by (auto simp: fold)
    have vr: "venue_rows p (rows @ [row]) = venue_rows p rows @ (if ?p = p then [row] else [])" for p by (simp add: venue_rows_def)
    have step: "fold (add_row d rates) (rows @ [row]) (empty, start) = add_row d rates row (g, pg)" by (simp add: fold)
    show ?case
    proof (cases "row_candidate d rates row")
      case None
      have "case fmlookup pg p of None \<Rightarrow> p \<notin> set indexed_providers
         | Some g \<Rightarrow> p \<in> set indexed_providers \<and> holds_rows d rates T (venue_rows p (rows @ [row])) g" for p
        using hp [of p] holds_rows_same [OF _ None] by (auto simp: vr split: option.splits)
      then show ?thesis unfolding step using holds_rows_same [OF h None] by (simp add: add_row_def None)
    next
      case (Some c)
      have "case fmlookup (snd (add_row d rates row (g, pg))) p of None \<Rightarrow> p \<notin> set indexed_providers
         | Some g \<Rightarrow> p \<in> set indexed_providers \<and> holds_rows d rates T (venue_rows p (rows @ [row])) g" for p
        using hp [of p] hp [of ?p] holds_rows_add [OF _ Some]
        by (auto simp: add_row_def Some vr Let_def split: option.splits)
      then show ?thesis unfolding step using holds_rows_add [OF h Some] by (auto simp: add_row_def Some Let_def)
    qed
  qed
  then show "holds_rows d rates T rows grouped"
    "\<forall>p. case fmlookup providerGroups p of None \<Rightarrow> p \<notin> set indexed_providers
       | Some g \<Rightarrow> p \<in> set indexed_providers \<and> holds_rows d rates T (venue_rows p rows) g"
    using assms by (simp_all add: group_rows_def empty_def start_def Let_def)
qed

lemma index_groups_list:
  assumes "foldE (\<lambda>(a, cs) (is, ss). bindE (build cs) (\<lambda>r. Inr (is @ [f a r], ss @ [g a cs r]))) xs (is0, ss0) = Inr (is, ss)"
  shows "\<exists>js. is = is0 @ js \<and> list_all2 (\<lambda>(a, cs) i. \<exists>r. build cs = Inr r \<and> i = f a r) xs js"
  using assms
proof (induction xs arbitrary: is0 ss0)
  case (Cons x xs)
  obtain a cs where x: "x = (a, cs)" by fastforce
  from Cons.prems obtain r where r: "build cs = Inr r"
    and rest: "foldE (\<lambda>(a, cs) (is, ss). bindE (build cs) (\<lambda>r. Inr (is @ [f a r], ss @ [g a cs r]))) xs (is0 @ [f a r], ss0 @ [g a cs r]) = Inr (is, ss)"
    by (auto simp: x bindE_eq_Inr)
  from Cons.IH [OF rest] obtain js where "is = (is0 @ [f a r]) @ js"
    "list_all2 (\<lambda>(a, cs) i. \<exists>r. build cs = Inr r \<and> i = f a r) xs js" by blast
  then show ?case using r by (intro exI [of _ "f a r # js"]) (auto simp: x)
qed simp

lemma snapshot_group_list:
  assumes "foldE (\<lambda>(a, cs) ss. bindE (build cs) (\<lambda>r. Inr (ss @ [g a cs r]))) xs ss0 = Inr ss"
  shows "set ss0 \<subseteq> set ss" "(a, cs) \<in> set xs \<Longrightarrow> \<exists>r. build cs = Inr r \<and> g a cs r \<in> set ss"
proof -
  have "set ss0 \<subseteq> set ss \<and> (\<forall>(a, cs) \<in> set xs. \<exists>r. build cs = Inr r \<and> g a cs r \<in> set ss)"
    using assms
  proof (induction xs arbitrary: ss0)
    case (Cons x xs)
    obtain a cs where x: "x = (a, cs)" by fastforce
    from Cons.prems obtain r where r: "build cs = Inr r"
      and rest: "foldE (\<lambda>(a, cs) ss. bindE (build cs) (\<lambda>r. Inr (ss @ [g a cs r]))) xs (ss0 @ [g a cs r]) = Inr ss"
      by (auto simp: x bindE_eq_Inr)
    from Cons.IH [OF rest] r show ?case by (auto simp: x)
  qed simp
  then show "set ss0 \<subseteq> set ss" "(a, cs) \<in> set xs \<Longrightarrow> \<exists>r. build cs = Inr r \<and> g a cs r \<in> set ss" by auto
qed

lemma snapshot_groups_list:
  assumes "foldE (\<lambda>(p, byAsset) ss. foldE (\<lambda>(a, cs) ss. bindE (build cs) (\<lambda>r. Inr (ss @ [g p a cs r]))) (assets byAsset) ss) ps ss0 = Inr ss"
  shows "set ss0 \<subseteq> set ss \<and> (\<forall>(p, byAsset) \<in> set ps. \<forall>(a, cs) \<in> set (assets byAsset). \<exists>r. build cs = Inr r \<and> g p a cs r \<in> set ss)"
  using assms
proof (induction ps arbitrary: ss0)
  case (Cons x ps)
  obtain p byAsset where x: "x = (p, byAsset)" by fastforce
  from Cons.prems obtain ss1 where one: "foldE (\<lambda>(a, cs) ss. bindE (build cs) (\<lambda>r. Inr (ss @ [g p a cs r]))) (assets byAsset) ss0 = Inr ss1"
    and rest: "foldE (\<lambda>(p, byAsset) ss. foldE (\<lambda>(a, cs) ss. bindE (build cs) (\<lambda>r. Inr (ss @ [g p a cs r]))) (assets byAsset) ss) ps ss1 = Inr ss"
    by (auto simp: x bindE_eq_Inr)
  note first = snapshot_group_list [OF one] and later = Cons.IH [OF rest]
  have "\<exists>r. build cs = Inr r \<and> g p a cs r \<in> set ss" if "(a, cs) \<in> set (assets byAsset)" for a cs
    using first(2) [OF that] later by blast
  then show ?case using first(1) later by (auto simp: x)
qed simp

lemma sorted_pairs: "(k, v) \<in> set (sorted_list_of_fmap m) \<longleftrightarrow> fmlookup m k = Some v"
  using sorted_list_of_fmap_props(3) [of m] by auto

lemma sorted_keys: "map fst (sorted_list_of_fmap m) = sorted_list_of_fset (fmdom m)"
  by (simp add: sorted_list_of_fmap_def comp_def)

lemma index_groups_indexes:
  assumes "holds_rows d rates T rows g" "index_groups d walk j now g = Inr (ix, composites)"
  shows "map aiAssetGuid ix = sorted_list_of_fset (T |\<union>| readable_assets d rates rows)"
    and "i \<in> set ix \<Longrightarrow> \<exists>r. BuildComposite d walk (asset_candidates d rates rows (aiAssetGuid i)) now = Inr r \<and>
      i = asset_index d j now (aiAssetGuid i) r"
proof -
  obtain js where "ix = [] @ js" and "list_all2 (\<lambda>(a, cs) i. \<exists>r. BuildComposite d walk cs now = Inr r \<and> i = asset_index d j now a r)
      (sorted_list_of_fmap g) js"
    using index_groups_list [OF assms(2) [unfolded index_groups_def]] by blast
  then have all2: "list_all2 (\<lambda>(a, cs) i. \<exists>r. BuildComposite d walk cs now = Inr r \<and> i = asset_index d j now a r)
      (sorted_list_of_fmap g) ix" by simp
  have dom: "fmdom g = T |\<union>| readable_assets d rates rows"
    using assms(1) by (intro fset_eqI) (simp add: fmlookup_dom_iff holds_rows_def)
  have "map aiAssetGuid ix = map fst (sorted_list_of_fmap g)"
    using all2 by (induction rule: list_all2_induct) (auto simp: asset_index_def)
  then show "map aiAssetGuid ix = sorted_list_of_fset (T |\<union>| readable_assets d rates rows)" by (simp add: sorted_keys dom)
  show "\<exists>r. BuildComposite d walk (asset_candidates d rates rows (aiAssetGuid i)) now = Inr r \<and> i = asset_index d j now (aiAssetGuid i) r"
    if "i \<in> set ix"
  proof -
    have "\<exists>(a, cs) \<in> set (sorted_list_of_fmap g). \<exists>r. BuildComposite d walk cs now = Inr r \<and> i = asset_index d j now a r"
      using all2 that by (induction rule: list_all2_induct) auto
    then obtain a cs r where "(a, cs) \<in> set (sorted_list_of_fmap g)" "BuildComposite d walk cs now = Inr r" "i = asset_index d j now a r"
      by blast
    then show ?thesis using assms(1) by (auto simp: sorted_pairs holds_rows_def asset_index_def split: if_splits)
  qed
qed

lemma snapshot_groups_venues:
  assumes "\<forall>p. case fmlookup pg p of None \<Rightarrow> p \<notin> set indexed_providers
       | Some g \<Rightarrow> p \<in> set indexed_providers \<and> holds_rows d rates T (venue_rows p rows) g"
    and "snapshot_groups d walk j now pg = Inr venues" "p \<in> set indexed_providers" "a |\<in>| T"
  shows "\<exists>r. BuildComposite d walk (asset_candidates d rates (venue_rows p rows) a) now = Inr r \<and>
    venue_snapshot d j now p ''venue_spot'' a (asset_candidates d rates (venue_rows p rows) a) r \<in> set venues"
proof -
  obtain g where g: "fmlookup pg p = Some g" "holds_rows d rates T (venue_rows p rows) g"
    using assms(1) [rule_format, of p] assms(3) by (auto split: option.splits)
  have "fmlookup g a = Some (asset_candidates d rates (venue_rows p rows) a)" using g(2) assms(4) by (simp add: holds_rows_def)
  then show ?thesis
    using snapshot_groups_list [OF assms(2) [unfolded snapshot_groups_def]] g(1) by (force simp: sorted_pairs [symmetric])
qed

lemma sort_key_sorted_keys: "map key xs = sorted_list_of_fset A \<Longrightarrow> sort_key key xs = xs"
  by (intro sort_key_id_if_sorted) (simp add: sorted_list_of_fset.rep_eq)

text \<open>C30 (functional) A successful run of the indexer writes one price index for each asset that is selected or
  has a readable market, in the order of the assets, each the composite of all readable rows of that asset
  and no others; and for each selected asset and each of the four venues a snapshot made of the rows of
  that venue only, even when there are none.\<close>

theorem composite_indexer:
  assumes "RunOnce d walk j store now s = (s', Inr ())"
  shows "\<exists>topAssets rates rows indexes snapshots s1.
    indexed_assets store s = Inr topAssets \<and> csQueryUSDReferenceRates store StableRateFreshness now s = Inr rates \<and>
    csQueryCompositeMarketCandidates store s = Inr rows \<and>
    csUpsertAssetPriceIndexes store indexes s = (s1, Inr ()) \<and> csUpsertAssetVenueSnapshots store snapshots s1 = (s', Inr ()) \<and>
    map aiAssetGuid indexes = sorted_list_of_fset (topAssets |\<union>| readable_assets d rates rows) \<and>
    (\<forall>i \<in> set indexes. \<exists>r. BuildComposite d walk (asset_candidates d rates rows (aiAssetGuid i)) now = Inr r \<and>
       i = asset_index d j now (aiAssetGuid i) r) \<and>
    (\<forall>p \<in> set indexed_providers. \<forall>a. a |\<in>| topAssets \<longrightarrow>
       (\<exists>r. BuildComposite d walk (asset_candidates d rates (venue_rows p rows) a) now = Inr r \<and>
          venue_snapshot d j now p ''venue_spot'' a (asset_candidates d rates (venue_rows p rows) a) r \<in> set snapshots))"
proof -
  from assms obtain topAssets rates rows ix composites venues where
    q: "indexed_assets store s = Inr topAssets" "csQueryUSDReferenceRates store StableRateFreshness now s = Inr rates"
      "csQueryCompositeMarketCandidates store s = Inr rows"
    and ix: "index_groups d walk j now (fst (group_rows d rates topAssets rows)) = Inr (ix, composites)"
    and sg: "snapshot_groups d walk j now (snd (group_rows d rates topAssets rows)) = Inr venues"
    and up: "snd (csUpsertAssetPriceIndexes store (sort_key aiAssetGuid ix) s) = Inr ()"
      "csUpsertAssetVenueSnapshots store (sort_key (\<lambda>v. (avProvider v, avAssetGuid v)) (composites @ venues))
         (fst (csUpsertAssetPriceIndexes store (sort_key aiAssetGuid ix) s)) = (s', Inr ())"
    by (auto simp: RunOnce_def bindE_eq_Inr case_prod_beta split: sum.splits)
  note holds = group_rows_holds [OF surjective_pairing]
  note keys = index_groups_indexes(1) [OF holds(1) ix] and each = index_groups_indexes(2) [OF holds(1) ix]
  note venue = snapshot_groups_venues [OF holds(2) sg]
  have "csUpsertAssetPriceIndexes store ix s = (fst (csUpsertAssetPriceIndexes store ix s), Inr ())"
    using up(1) sort_key_sorted_keys [OF keys] by (metis surjective_pairing)
  moreover have "csUpsertAssetVenueSnapshots store (sort_key (\<lambda>v. (avProvider v, avAssetGuid v)) (composites @ venues))
      (fst (csUpsertAssetPriceIndexes store ix s)) = (s', Inr ())" using up(2) sort_key_sorted_keys [OF keys] by simp
  moreover have "\<exists>r. BuildComposite d walk (asset_candidates d rates (venue_rows p rows) a) now = Inr r \<and>
      venue_snapshot d j now p ''venue_spot'' a (asset_candidates d rates (venue_rows p rows) a) r
        \<in> set (sort_key (\<lambda>v. (avProvider v, avAssetGuid v)) (composites @ venues))"
    if "p \<in> set indexed_providers" "a |\<in>| topAssets" for p a using venue [OF that] by auto
  ultimately show ?thesis
    using q keys each
    by (intro exI [of _ topAssets] exI [of _ rates] exI [of _ rows] exI [of _ ix]
        exI [of _ "sort_key (\<lambda>v. (avProvider v, avAssetGuid v)) (composites @ venues)"]
        exI [of _ "fst (csUpsertAssetPriceIndexes store ix s)"] conjI ballI allI impI) simp_all
qed

text \<open>A store that counts its writes.\<close>

definition counting_store :: "(nat, string) CompositeStore" where
  "counting_store =
     \<lparr> csQueryTopAssetIDs = (\<lambda>_ _. Inr {|''btc''|}), csSelected = None, csQueryUSDReferenceRates = (\<lambda>_ _ _. Inr fmempty),
       csQueryCompositeMarketCandidates = (\<lambda>_. Inr []), csUpsertAssetPriceIndexes = (\<lambda>is n. (n + length is, Inr ())),
       csUpsertAssetVenueSnapshots = (\<lambda>ss n. (n + length ss, Inr ())) \<rparr>"

definition no_json :: "string CompositeJSON" where
  "no_json = \<lparr> cjContributors = (\<lambda>_. []), cjExclusions = (\<lambda>_. []), cjMetadata = (\<lambda>_ _. []) \<rparr>"

lemma counting_run: "RunOnce lib16 rev no_json counting_store 0 0 = (6, Inr ())"
proof -
  have b: "BuildComposite lib16 rev [] 0 = Inr (unavailable [])" by (simp add: BuildComposite_def select_candidates_def)
  let ?e = "fmupd ''btc'' [] fmempty :: groups"
  let ?pg = "fmap_of_list (map (\<lambda>provider. (provider, ?e)) indexed_providers)"
  have gr: "group_rows lib16 fmempty {|''btc''|} [] = (?e, ?pg)" by (simp add: group_rows_def sorted_list_of_fset.rep_eq Let_def)
  have e: "sorted_list_of_fmap ?e = [(''btc'', [])]" by (simp add: sorted_list_of_fmap_def sorted_list_of_fset.rep_eq fmlookup_of_list)
  have pg: "sorted_list_of_fmap ?pg = map (\<lambda>provider. (provider, ?e)) indexed_providers"
    by (simp add: sorted_list_of_fmap_def sorted_list_of_fset.rep_eq fmlookup_of_list indexed_providers_def)
  have ix: "\<exists>i t. index_groups lib16 rev no_json 0 ?e = Inr ([i], [t])" by (simp add: index_groups_def e b)
  have sn: "\<exists>a1 a2 a3 a4. snapshot_groups lib16 rev no_json 0 ?pg = Inr [a1, a2, a3, a4]"
    unfolding snapshot_groups_def pg by (simp add: indexed_providers_def e b)
  from ix sn show ?thesis by (auto simp: RunOnce_def indexed_assets_def counting_store_def gr)
qed

theorem composite_indexer_witness:
  "RunOnce lib16 rev no_json counting_store 0 0 = (6, Inr ()) \<and> (\<exists>indexes s1.
    csUpsertAssetPriceIndexes counting_store indexes 0 = (s1, Inr ()) \<and> map aiAssetGuid indexes = [''btc''])"
proof -
  have "indexed_assets counting_store 0 = Inr {|''btc''|}" "csQueryCompositeMarketCandidates counting_store 0 = Inr []"
    by (simp_all add: indexed_assets_def counting_store_def)
  then show ?thesis using composite_indexer [OF counting_run] counting_run
    by (fastforce simp: readable_assets_def sorted_list_of_fset.rep_eq)
qed

end
