(* ===== verification/Spec2Isabelle.thy ===== *)
theory Spec2Isabelle
  imports Prelude Decimal_Library Domain Decimal Recovery Recovery_Invariant Ledger Orderbook Book_Invariant Matching Store State Orders Exchange
    Exchange_Invariant Exchange_Run MarketMaker MarketMaker_Invariant Runner Runner_Invariant
    Quality QualityEval Quality_Invariant Quality_Monitor Exchange_History Reliability Reliability_Invariant
    Composite Composite_Invariant
begin

text \<open>
  Verification of the virtual exchange of Qiu Market (\<open>src/trading\<close>) and of the market data
  that stands beside it: its quality (\<open>src/marketdata/quality\<close>) and its composite prices
  (\<open>src/marketdata/composite.go\<close>).

  \<^bold>\<open>The program.\<close> A market of the virtual exchange is a deterministic state machine. Requests (fund an
  account, submit an order, cancel one) are checked, given the next sequence number, applied to a
  copy of the state, written to an event log, and only then made the state. The state has a
  double-entry ledger, a price-time priority book, the orders, and the results of earlier requests
  under their idempotency keys. After a restart the exchange is restored from the newest snapshot
  and the records behind it. A runner owns the exchange of a market and executes requests one at a
  time from a bounded queue; before it takes a request and again before it executes it, it asks the
  write gate, a coordinator that lets a market accept writes after a restart only when state,
  transport and programs were proved. A market maker submits quotes around an external reference
  price and withdraws them when the reference cannot be trusted. Separately, evidence about
  providers of market data is collected and evaluated in windows; a gate keeps a source that showed
  a fault in quarantine until enough healthy windows have passed. The markets of an asset on several
  venues are merged into a composite price with capped weights of the venues. Clients subscribe to the events of
  a market behind a cursor; an audit proves a complete history and its recovery.

  \<^bold>\<open>Theories and sources.\<close>
  \<^item> \<open>Prelude\<close>: errors as values (\<open>error\<close>, \<open>res\<close>, \<open>bindE\<close>, \<open>foldE\<close>), the arithmetic of \<open>int64\<close>,
    finite maps with a default, numerals, division.
  \<^item> \<open>Domain\<close> (\<open>trading/domain/types.go\<close>): orders, requests, the market and its validation, checked
    addition and the 128-bit multiply-divide, fees, idempotency keys.
  \<^item> \<open>Decimal\<close> (\<open>trading/decimal/decimal.go\<close>): parsing and formatting of amounts.
  \<^item> \<open>Ledger\<close> (\<open>trading/ledger/ledger.go\<close>): the record \<open>Ledger\<close> of balances, journal and transaction
    identifiers; \<open>Post\<close>, holds and releases, compaction, snapshots. Every asset sums to zero, only
    the named system accounts go below zero, snapshots give the ledger back.
  \<^item> \<open>Orderbook\<close>, \<open>Book_Invariant\<close>, \<open>Matching\<close> (\<open>trading/orderbook/orderbook.go\<close>): the record \<open>Book\<close>
    with prices and levels per side and an index; adding, cancelling, matching, the fill-or-kill
    scan, snapshots. The abstract view is the priority list of a side (\<open>side_list\<close>): adding inserts
    by priority, cancelling removes, a matching run consumes the opposite list from its head
    (\<open>match_spec\<close>), and the scan predicts the run.
  \<^item> \<open>Store\<close> (\<open>trading/store/store.go\<close>): the interfaces of the event log and of snapshots as records of
    functions, the in-memory store, and their contract, locale \<open>event_log\<close>.
  \<^item> \<open>State\<close>, \<open>Orders\<close>, \<open>Exchange\<close> (\<open>trading/exchange/state.go\<close>, \<open>orders.go\<close>, \<open>exchange.go\<close>): the state
    with its persisted form and validation, the commands with settlement of every fill, and the
    execution of a command, \<open>runLocked\<close>, with \<open>SaveSnapshot\<close>, \<open>Restore\<close> and the queries.
    \<open>Exchange_Invariant\<close> has the invariant \<open>state_ok\<close> and its preservation by every command;
    \<open>Exchange_Run\<close> has runs (\<open>exchange_step\<close>, \<open>reachable\<close>) and, in the locale \<open>exchange_log\<close>, that memory
    and log agree after every step; the hashes that a state can have (\<open>hashes_to\<close>) are one when
    the keys of its requests have different strings (\<open>keys_apart\<close>).
  \<^item> \<open>Recovery\<close>, \<open>Recovery_Invariant\<close> (\<open>trading/recovery/coordinator.go\<close>, \<open>memory_store.go\<close>): the coordinator
    of the write gate. Over the contract of the store, locale \<open>recovery_store\<close>, histories of a market
    follow the allowed transitions and writes are open only behind a complete proof.
  \<^item> \<open>MarketMaker\<close>, \<open>MarketMaker_Invariant\<close> (\<open>trading/marketmaker/marketmaker.go\<close>): the maker over an
    engine, a record of functions for the interface of the source; the contracts \<open>engine_invariant\<close>
    and \<open>cancelling_engine\<close> are met by every exchange over a store that keeps \<open>exchange_log\<close> (a
    sublocale). \<open>exchange_engine\<close> is this instance; the program itself connects the maker to the
    runner, which passes the commands on to the same operations.
  \<^item> \<open>Runner\<close>, \<open>Runner_Invariant\<close> (\<open>trading/runtime/runner.go\<close>): the runner as a step relation
    \<open>runner_step\<close> between callers, queue, loop, coordinator and close; the loop takes one step per
    phase of \<open>handle\<close>, and everything else may fall between two phases. The contract \<open>write_gate\<close> is
    met by the coordinator.
  \<^item> \<open>Exchange_History\<close>: what every record of a log says. \<open>Reliability\<close>, \<open>Reliability_Invariant\<close>
    (\<open>trading/reliability\<close>, \<open>SubscribeEvents\<close> of \<open>trading/rpc/server/server.go\<close>): the reconciler of event
    cursors, the subscription it drives and the audit. \<open>event_consumer\<close> is the contract of what the
    reconciler drives; a subscription is its instance.
  \<^item> \<open>Quality\<close>, \<open>QualityEval\<close>, \<open>Quality_Invariant\<close>, \<open>Quality_Monitor\<close> (\<open>marketdata/quality\<close>): the data, the
    evaluation of a window, the gate and the monitor. \<open>kept_by_steps\<close> is the contract of an
    invariant, met by gate and monitor.
  \<^item> \<open>Composite\<close>, \<open>Composite_Invariant\<close> (\<open>marketdata/composite.go\<close>): the composite price, with the loop
    that caps the weights of venues, and the indexer. \<open>decimal_division\<close> is what the code needs of the
    division of its decimal library; \<open>venue_weights\<close> has the lemmas on the cap.

  \<^bold>\<open>This theory\<close> joins the parts: the exchange over the in-memory store, the market maker on the
  exchange, and the runner between the exchange and the coordinator. Its properties say that a
  restart restores the exchange exactly, that every reachable exchange is safe, that requests act
  once, that a reference that cannot be trusted leaves no quotes, that a write reaches the exchange
  only after its admission was validated by the loop that executes it, that a subscription sends
  the log exactly once and in order, and that every log passes its audit.

  \<^bold>\<open>How the code is modelled.\<close>
  \<^item> An operation with a receiver takes and returns the state; a mutex makes it one step. Where calls
    run concurrently (the runner), the steps of the relation are the points at which they interleave.
    States are values: the aliasing that \<open>clone\<close> prevents in the source cannot arise in the model, so
    no property here depends on the copy; \<open>clone\<close> matters for the book that it rebuilds.
  \<^item> A context is its error; it may end in the middle of a call (\<open>enLate\<close> and the readings of a step).
  \<^item> \<open>int64\<close> values are integers with the wrap-around or the check of the source written out at every
    operation, \<open>uint64\<close> words of \<open>math/bits\<close> are 64-bit words; the sequence numbers and counters of
    records and requests (\<open>uint64\<close>, one more per command) are natural numbers that do not wrap.
  \<^item> Maps are finite maps. Where the source sorts the keys of a map, so does the model; where it walks
    a map in no order, the result does not depend on it, or the first of several errors is taken.
    Two walks have results that depend on the order, and there the order is an argument: the
    requests in \<open>persisted\<close>, whose sort leaves keys with the same string in the order of the walk
    (\<open>cWalk\<close>, chosen anew in every call), and the venues in \<open>cap_pass\<close>, where the order is proved
    not to matter.
  \<^item> Strings are texts that \<open>encoding/json\<close> gives back unchanged, that is, valid UTF-8: the copies of
    records in the in-memory store and the codec of states are the identity on them (\<open>memory_env\<close>,
    \<open>codec_ok\<close>). Requests reach the exchange through JSON and protocol buffers, whose strings are
    valid UTF-8.
  \<^item> Errors are values of \<open>error\<close>; the texts of wrapped errors are left out. A panic of the runtime
    (\<open>bits.Div64\<close>) is an error of its own.
  \<^item> Encoders, hashes, clocks, random identifiers, \<open>net/url\<close>, the reference source and the stores are
    arguments; what the code relies on is a hypothesis (\<open>codec_ok\<close>, the locales), and the witnesses
    have instances of it.
  \<^item> Every loop is a total function: the recursion is over a list or falls by a measure (\<open>Match_loop\<close>:
    \<open>match_measure\<close>, the open quantity or budget of the incoming order; \<open>Search_loop\<close>, \<open>isPowerOfTen_loop\<close>,
    \<open>scalePrecision_loop\<close>: the argument; \<open>capped_loop\<close>: the number of venues left). No fuel is used.

  \<^bold>\<open>Not modelled.\<close> The PostgreSQL stores and read models (\<open>trading/store/postgres\<close>,
  \<open>trading/readmodel\<close>, \<open>trading/recovery/postgres_store.go\<close>), whose meaning is that of SQL statements
  and transactions; the exchange and the coordinator are proved against the contracts they have to
  meet. HTTP, websocket and gRPC transport with authentication, generated protocol buffers, program
  start-up and demonstrations, crawlers, Redis and Doris access, configuration, the service layer,
  and the TypeScript frontend: input and output or glue. So are the outbox publisher and the query
  cursors (SQL rows), the contracts of market data providers and the adapters that turn their
  observations into evidence.
\<close>

section \<open>The exchange over the in-memory store\<close>

definition memory_env :: "'b Codec \<Rightarrow> ('b Memory, 'b) Env" where
  "memory_env c = \<lparr> enEventLog = Memory_EventStore Inr, enSnapshots = Memory_SnapshotStore, enCodec = c, enLate = None \<rparr>"

text \<open>A codec for the examples: the encoded state is the state, and its hash has the form of one.\<close>

definition value_codec :: "persistedState Codec" where
  "value_codec = \<lparr> cWalk = (\<lambda>_ xs. xs), cMarshal = Inr, cUnmarshal = Inr, cSum = (\<lambda>p. replicate 64 (if psSequence p = 0 then CHR ''0'' else CHR ''1'')),
     cFingerprintFund = (\<lambda>r. Inr (''f'' @ fRequestID r)),
     cFingerprintSubmit = (\<lambda>n. Inr (if nPostOnly n then ''p'' else ''s'')),
     cFingerprintCancel = (\<lambda>k. Inr (''c'' @ cRequestID k)) \<rparr>"

lemma codec_ok_value [simp]: "codec_ok value_codec"
  by (simp add: codec_ok_def value_codec_def permutes_def)

lemma value_codec_hash: "validStateHash (cSum value_codec d)"
  by (simp add: value_codec_def validStateHash_def hex_digit_def is_digit_def list_all_iff)

lemma exchange_log_memory:
  assumes "codec_ok c" "market_ok m"
  shows "exchange_log (Memory_EventStore Inr) Memory_SnapshotStore memRecords memSnapshot c m"
  using assms by (intro exchange_log.intro exchange_log_axioms.intro Memory_event_log) simp_all

interpretation memx: exchange_log "Memory_EventStore Inr" Memory_SnapshotStore memRecords memSnapshot
  value_codec DefaultBTCUSDTMarket
  by (rule exchange_log_memory [OF codec_ok_value market_ok_default])

lemma permutes_walk [simp]: "permutes (\<lambda>_ xs. xs)"
  by (simp add: permutes_def)

lemma memory_env_codec [simp]: "enCodec (memory_env c) = c"
  by (simp add: memory_env_def)

lemma memory_env_call: "call_env (cWalk c) None (memory_env c) = memory_env c"
  by (simp add: call_env_def memory_env_def)

lemma memory_reachable:
  assumes "codec_ok c" "market_ok m" "reachable (memory_env c) m NewMemory x"
  shows "log_ok c m (memRecords (fst x)) (memSnapshot (fst x)) (snd x)"
  using exchange_log.reachable_consistent [OF exchange_log_memory [OF assms(1,2)]] assms(3)
  by (simp add: memory_env_def NewMemory_def)

definition sample_request :: FundRequest where
  "sample_request = \<lparr> fRequestID = ''r1'', fAccountID = ''ann'', fAsset = ''USDT'', fAmount = 5000000 \<rparr>"

definition start :: "persistedState Memory exchange" where
  "start = (NewMemory, case newState DefaultBTCUSDTMarket of Inr s \<Rightarrow> s)"

lemma start_reachable: "reachable (memory_env value_codec) DefaultBTCUSDTMarket NewMemory start"
proof -
  obtain s where "newState DefaultBTCUSDTMarket = Inr s" using newState_ok [OF market_ok_default] by blast
  then show ?thesis by (auto simp: reachable_def start_def Exchange_New_def)
qed

lemma start_state: "snd start = s0 \<Longrightarrow> state_ok s0 \<and> sMarket s0 = DefaultBTCUSDTMarket \<and> sSequence s0 = 0 \<and> sRequests s0 = fmempty"
  "fst start = NewMemory"
  using newState_ok [OF market_ok_default] by (auto simp: start_def)

text \<open>A trial that succeeds on the fresh exchange is committed.\<close>

lemma start_run:
  assumes "run_trial value_codec (cmd\<lparr> cmdSequence := 1 \<rparr>) (snd start) = Inr (t, rec, res)" "rSequence res = 1"
    and "validateCommandIdentity cmd = Inr ()" "kMarketID (cmdRequestKey cmd) = ''BTC-USDT''" "command64 cmd"
  shows "\<exists>y. runLocked (memory_env value_codec) None cmd start = (y, Inr res) \<and> Sequence y = 1 \<and> snd y = t"
proof -
  obtain s0 where s0: "start = (NewMemory, s0)" "snd start = s0" using start_state(2) by (metis prod.collapse)
  note S = start_state(1) [OF s0(2)]
  have id: "mID DefaultBTCUSDTMarket = ''BTC-USDT''" by (simp add: DefaultBTCUSDTMarket_def)
  have c64: "command64 (cmd\<lparr> cmdSequence := 1 \<rparr>)" using assms(5) by (simp add: command64_def)
  have run: "run_trial value_codec (cmd\<lparr> cmdSequence := 1 \<rparr>) s0 = Inr (t, rec, res)" using assms(1) s0 by simp
  obtain j p h where rec: "rec = \<lparr> recSchemaVersion = CurrentSchemaVersion, recMarketID = ''BTC-USDT'',
      recCommand = cmd\<lparr> cmdSequence := 1 \<rparr>, recResult = res, recJournal = j, recProjection = p, recStateHash = h \<rparr>"
    using run_trial_InrD [OF run _ c64] S id by metis
  have "sSequence t = 1" using run_trial_ok(2) [OF run _ c64] S by simp
  moreover have "\<exists>st' :: persistedState Memory. Memory_Append Inr None 0 rec NewMemory = (st', Inr ())"
    using assms(2,4) by (simp add: rec Memory_Append_def NewMemory_def)
  ultimately show ?thesis using run assms(3,4) S id
    by (auto simp: runLocked_def s0(1) memory_env_def Memory_EventStore_def cloneResult_def Sequence_def)
qed

lemma sample_trial:
  "case run_trial value_codec ((fund_command ''BTC-USDT'' ''fr1'' sample_request)\<lparr> cmdSequence := 1 \<rparr>) (snd start) of
     Inl _ \<Rightarrow> False | Inr (t, rec, res) \<Rightarrow> rSequence res = 1 \<and> length (sorted_list_of_fmap (sRequests t)) = 1"
  by code_simp

lemma keys_apart_single: "length (sorted_list_of_fmap (sRequests s)) = 1 \<Longrightarrow> keys_apart s"
  by (auto simp: keys_apart_iff length_Suc_conv fmlookup_dom_iff sorted_list_of_fmap_mem [symmetric])

lemma funded_run:
  "\<exists>y res. Fund (memory_env value_codec) None sample_request start = (y, Inr res) \<and> Sequence y = 1 \<and> keys_apart (snd y)"
proof -
  obtain t rec res where run: "run_trial value_codec ((fund_command ''BTC-USDT'' ''fr1'' sample_request)\<lparr> cmdSequence := 1 \<rparr>)
      (snd start) = Inr (t, rec, res)" "rSequence res = 1" "keys_apart t"
    using sample_trial keys_apart_single by (auto split: sum.splits prod.splits)
  have v: "FundRequest_Validate sample_request DefaultBTCUSDTMarket = Inr ()" by code_simp
  have "validateCommandIdentity (fund_command ''BTC-USDT'' ''fr1'' sample_request) = Inr ()" by code_simp
  moreover have "kMarketID (cmdRequestKey (fund_command ''BTC-USDT'' ''fr1'' sample_request)) = ''BTC-USDT''" by code_simp
  moreover have "command64 (fund_command ''BTC-USDT'' ''fr1'' sample_request)"
    by (simp add: sample_request_def MaxInt64_def)
  ultimately obtain y where "runLocked (memory_env value_codec) None (fund_command ''BTC-USDT'' ''fr1'' sample_request) start = (y, Inr res)"
      "Sequence y = 1" "snd y = t" using start_run [OF run(1,2)] by blast
  moreover have "sMarket (snd start) = DefaultBTCUSDTMarket" using start_state(1) by blast
  moreover have "mID DefaultBTCUSDTMarket = ''BTC-USDT''" by (simp add: DefaultBTCUSDTMarket_def)
  moreover have "cFingerprintFund (enCodec (memory_env value_codec)) sample_request = Inr ''fr1''"
    by (simp add: memory_env_def value_codec_def sample_request_def)
  ultimately show ?thesis using v run(3) by (simp add: Fund_def)
qed

lemma funded: "\<exists>y res. Fund (memory_env value_codec) None sample_request start = (y, Inr res) \<and> Sequence y = 1"
  using funded_run by blast

section \<open>Properties\<close>

text \<open>Two requests of a reachable exchange have the same key string only when an identifier contains
  the separator.\<close>

lemma clashing_keys:
  assumes "validate s = Inr ()" "\<not> keys_apart s"
  shows "\<exists>k k'. k |\<in>| fmdom (sRequests s) \<and> k' |\<in>| fmdom (sRequests s) \<and> k \<noteq> k' \<and>
    IdempotencyKey_String k = IdempotencyKey_String k' \<and>
    char_of (31 :: nat) \<in> set (mID (sMarket s)) \<union> set (kAccountID k) \<union> set (kAccountID k')"
proof -
  obtain k k' where k: "k |\<in>| fmdom (sRequests s)" "k' |\<in>| fmdom (sRequests s)" "k \<noteq> k'"
    "IdempotencyKey_String k = IdempotencyKey_String k'" using assms(2) by (auto simp: keys_apart_iff)
  obtain r r' where r: "fmlookup (sRequests s) k = Some r" "fmlookup (sRequests s) k' = Some r'"
    using k(1,2) by (auto simp: fmlookup_dom_iff)
  note m = validate_requests(2) [OF assms(1) r(1)] validate_requests(2) [OF assms(1) r(2)]
  have "char_of (31 :: nat) \<in> set (mID (sMarket s)) \<union> set (kAccountID k) \<union> set (kAccountID k')"
    using IdempotencyKey_String_inj [of k k', unfolded m] k(3,4) by blast
  with k show ?thesis by blast
qed

text \<open>C1 Recovery is exact: whatever operations ran since the market opened, with whatever results,
  snapshots and earlier crashes, restoring from the store gives the state that was in memory.
  The one other outcome is a reported divergence that leaves the store alone. It needs two
  requests in memory whose different keys have the same string, because the order in which such
  requests are hashed is that of a Go map; some account or the market then has the separator in
  its identifier. The order of the walk may differ in every call of the run and in the recovery.\<close>

theorem restore_exact:
  assumes "codec_ok c" "market_ok m" "reachable (memory_env c) m NewMemory x"
  shows "Restore None m (Some (Memory_EventStore Inr)) (Some Memory_SnapshotStore) c (fst x) = (fst x, Inr x) \<or>
    Restore None m (Some (Memory_EventStore Inr)) (Some Memory_SnapshotStore) c (fst x) = (fst x, Inl ErrRecoveryDiverged) \<and>
    (\<exists>k k'. k |\<in>| fmdom (sRequests (snd x)) \<and> k' |\<in>| fmdom (sRequests (snd x)) \<and> k \<noteq> k' \<and>
       IdempotencyKey_String k = IdempotencyKey_String k' \<and>
       char_of (31 :: nat) \<in> set (mID m) \<union> set (kAccountID k) \<union> set (kAccountID k'))"
proof -
  note M = exchange_log_memory [OF assms(1,2)] and L = memory_reachable [OF assms]
  have v: "validate (snd x) = Inr ()" "sMarket (snd x) = m" using log_okD(1,2) [OF L] by (simp_all add: state_ok_def)
  note R = exchange_log.Restore_exact [OF M L exchange_log.walk_own [OF M], unfolded rewalk_simps]
  show ?thesis using R clashing_keys [OF v(1), unfolded v(2)] by blast
qed

lemma funded_reachable:
  "reachable (memory_env value_codec) DefaultBTCUSDTMarket NewMemory
     (fst (Fund (memory_env value_codec) ctx sample_request start))"
proof -
  have a: "in64 (fAmount sample_request)" by code_simp
  have p: "permutes (cWalk value_codec)" by (simp add: value_codec_def)
  from exchange_step.step_fund [OF a p, of "memory_env value_codec" DefaultBTCUSDTMarket start None ctx]
  show ?thesis unfolding memory_env_call using start_reachable
    by (auto simp: reachable_def intro: rtranclp.rtrancl_into_rtrancl)
qed

lemma funded_apart: "keys_apart (snd (fst (Fund (memory_env value_codec) None sample_request start)))"
  using funded_run by auto

theorem restore_exact_witness:
  "let x = fst (Fund (memory_env value_codec) None sample_request start)
   in Sequence x = 1 \<and>
     Restore None DefaultBTCUSDTMarket (Some (Memory_EventStore Inr)) (Some Memory_SnapshotStore) value_codec (fst x) =
       (fst x, Inr x)"
  using restore_exact [OF codec_ok_value market_ok_default funded_reachable, of None] funded funded_apart
  by (auto simp: Let_def keys_apart_iff)

text \<open>C2 Every reachable state passes the exchange's own validation, its book is not crossed, the
  balances of every asset sum to zero, and its sequence is the number of records in the store.\<close>

theorem reachable_safe:
  assumes "codec_ok c" "market_ok m" "reachable (memory_env c) m NewMemory x"
  shows "Exchange_Validate x = Inr () \<and> uncrossed (sBook (snd x)) \<and>
    asset_total (sLedger (snd x)) a = 0 \<and> Sequence x = RecordCount (fst x)"
proof -
  note L = log_okD [OF memory_reachable [OF assms]]
  have "core_ok (snd x)" "validate (snd x) = Inr ()" using L(1) by (auto simp: state_ok_def)
  with core_okD(4,5) L(3) ledger_ok_asset_total show ?thesis
    by (simp add: Exchange_Validate_def Sequence_def RecordCount_def)
qed

theorem reachable_safe_witness:
  "let x = fst (Fund (memory_env value_codec) None sample_request start)
   in Exchange_Validate x = Inr () \<and> asset_total (sLedger (snd x)) ''USDT'' = 0 \<and> RecordCount (fst x) = 1"
  using reachable_safe [OF codec_ok_value market_ok_default funded_reachable, of None "''USDT''"] funded
  by (auto simp: Let_def)

text \<open>Funding happens once: after a funding request succeeded, the same request is answered with the
  same result and moves no money, after any further operations and restarts; another payload
  under its identifier is refused.\<close>

theorem fund_exactly_once:
  assumes "codec_ok c" "market_ok m" "reachable (memory_env c) m NewMemory x" "in64 (fAmount r)"
    and "Fund (memory_env c) ctx r x = (y, Inr res)" "(exchange_step (memory_env c) m)\<^sup>*\<^sup>* y z"
    and "fAccountID r' = fAccountID r" "fRequestID r' = fRequestID r"
    and "FundRequest_Validate r' m = Inr ()" "cFingerprintFund c r' = Inr fp'"
  shows "Fund (call_env w late (memory_env c)) None r' z =
    (z, if cFingerprintFund c r = Inr fp' then Inr res else Inl ErrIdempotencyConflict)"
proof -
  note M = exchange_log_memory [OF assms(1,2)]
  show ?thesis
    using exchange_log.Fund_once [OF M memory_reachable [OF assms(1-3)] assms(4) _ _ exchange_log.walk_own [OF M], of None ctx y res z] assms(5-)
    by (simp add: memory_env_def exchange_log.call_env_of [OF M])
qed

theorem fund_exactly_once_witness:
  "\<exists>y res. Fund (memory_env value_codec) None sample_request start = (y, Inr res) \<and>
     Fund (memory_env value_codec) None sample_request y = (y, Inr res)"
proof -
  obtain y res where y: "Fund (memory_env value_codec) None sample_request start = (y, Inr res)" using funded by blast
  have a: "in64 (fAmount sample_request)" by code_simp
  have v: "FundRequest_Validate sample_request DefaultBTCUSDTMarket = Inr ()" by code_simp
  show ?thesis
    using fund_exactly_once [OF codec_ok_value market_ok_default start_reachable a y rtranclp.rtrancl_refl refl refl v,
        where w = "cWalk value_codec" and late = None] y unfolding memory_env_call
    by (simp add: value_codec_def)
qed

text \<open>C3 An order is placed once: after a submission succeeded, the same submission is answered with
  the same result and places no second order, after any further operations and restarts;
  another order under its identifier is refused, in whatever order that call would walk the
  requests. The account of the demonstration market maker is the exception, its requests are
  not kept.\<close>

theorem submit_exactly_once:
  assumes "codec_ok c" "market_ok m" "reachable (memory_env c) m NewMemory x" "request64 n"
    and "Submit (memory_env c) ctx n x = (y, Inr res)" "(exchange_step (memory_env c) m)\<^sup>*\<^sup>* y z"
    and "nAccountID n \<noteq> ephemeralDemoMakerAccount"
    and "nAccountID n' = nAccountID n" "nClientOrderID n' = nClientOrderID n"
    and "NewOrder_Validate n' m = Inr ()" "cFingerprintSubmit c n' = Inr fp'"
  shows "Submit (call_env w late (memory_env c)) None n' z =
    (z, if cFingerprintSubmit c n = Inr fp' then Inr res else Inl ErrIdempotencyConflict)"
proof -
  note M = exchange_log_memory [OF assms(1,2)]
  show ?thesis
    using exchange_log.Submit_once [OF M memory_reachable [OF assms(1-3)] assms(4) _ _ exchange_log.walk_own [OF M], of None ctx y res z] assms(5-)
    by (simp add: memory_env_def exchange_log.call_env_of [OF M])
qed

definition sample_order :: NewOrder where
  "sample_order = \<lparr> nClientOrderID = ''o1'', nAccountID = ''ann'', nSide = SideBuy, nType = OrderTypeLimit,
     nTimeInForce = TimeInForceGTC, nPrice = 60000000000, nQuantity = 10000, nQuoteBudget = 0, nPostOnly = False \<rparr>"

lemma sample_order_ok: "request64 sample_order" "NewOrder_Validate sample_order DefaultBTCUSDTMarket = Inr ()"
  "NewOrder_Validate (sample_order\<lparr> nPostOnly := True \<rparr>) DefaultBTCUSDTMarket = Inr ()"
  "nAccountID sample_order \<noteq> ephemeralDemoMakerAccount"
  by code_simp+

lemma sample_order_trial:
  "case run_trial value_codec ((submit_command ''BTC-USDT'' ''s'' sample_order)\<lparr> cmdSequence := 1 \<rparr>) (snd start) of
     Inl _ \<Rightarrow> False | Inr (t, rec, res) \<Rightarrow> rSequence res = 1"
  by code_simp

lemma ordered: "\<exists>y res. Submit (memory_env value_codec) None sample_order start = (y, Inr res)"
proof -
  let ?cmd = "submit_command ''BTC-USDT'' ''s'' sample_order"
  obtain t rec res where run: "run_trial value_codec (?cmd\<lparr> cmdSequence := 1 \<rparr>) (snd start) = Inr (t, rec, res)" "rSequence res = 1"
    using sample_order_trial by (auto split: sum.splits prod.splits)
  have "validateCommandIdentity ?cmd = Inr ()" by code_simp
  moreover have "kMarketID (cmdRequestKey ?cmd) = ''BTC-USDT''" by code_simp
  moreover have "command64 ?cmd" using sample_order_ok(1) by simp
  ultimately obtain y where "runLocked (memory_env value_codec) None ?cmd start = (y, Inr res)" using start_run [OF run] by blast
  moreover have "sMarket (snd start) = DefaultBTCUSDTMarket" using start_state(1) by blast
  moreover have "mID DefaultBTCUSDTMarket = ''BTC-USDT''" by (simp add: DefaultBTCUSDTMarket_def)
  moreover have "cFingerprintSubmit (enCodec (memory_env value_codec)) sample_order = Inr ''s''" by code_simp
  ultimately show ?thesis using sample_order_ok(2) by (simp add: Submit_def)
qed

theorem submit_exactly_once_witness:
  "\<exists>y res. Submit (memory_env value_codec) None sample_order start = (y, Inr res) \<and>
     Submit (memory_env value_codec) None sample_order y = (y, Inr res) \<and>
     Submit (memory_env value_codec) None (sample_order\<lparr> nPostOnly := True \<rparr>) y = (y, Inl ErrIdempotencyConflict)"
proof -
  obtain y res where y: "Submit (memory_env value_codec) None sample_order start = (y, Inr res)" using ordered by blast
  note once = submit_exactly_once [OF codec_ok_value market_ok_default start_reachable sample_order_ok(1) y
      rtranclp.rtrancl_refl sample_order_ok(4), where w = "cWalk value_codec" and late = None, unfolded memory_env_call]
  have "Submit (memory_env value_codec) None sample_order y = (y, Inr res)"
    using once [OF refl refl sample_order_ok(2)] by (simp add: value_codec_def)
  moreover have "cFingerprintSubmit value_codec sample_order \<noteq> cFingerprintSubmit value_codec (sample_order\<lparr> nPostOnly := True \<rparr>)"
    by (simp add: value_codec_def sample_order_def)
  then have "Submit (memory_env value_codec) None (sample_order\<lparr> nPostOnly := True \<rparr>) y = (y, Inl ErrIdempotencyConflict)"
    using once [OF _ _ sample_order_ok(3)] by (simp add: value_codec_def)
  ultimately show ?thesis using y by blast
qed

section \<open>The market maker on the exchange\<close>

text \<open>C18 A reference that cannot be read, is not positive, too old or from the future makes the maker
  pause and report \<open>ErrUnsafeReference\<close>; liquidity is then not reported as available, and unless a
  cancellation failed no order of the maker is left open on the exchange.\<close>

theorem unsafe_reference_withdraws_quotes:
  assumes "codec_ok c" "market_ok market" "reachable (memory_env c) market NewMemory e"
    and "cfAccountID (mkConfig m) = ephemeralDemoMakerAccount"
    and "case source of Inl _ \<Rightarrow> True | Inr ref \<Rightarrow> validateBasicReference clk m ref \<noteq> Inr ()"
    and "refresh (exchange_engine (memory_env c)) ctx cleanup clk source (e, m) = ((e', m'), r)"
  shows "mkPaused m' \<and> (\<exists>err. r = Some err \<and> errors_is err ErrUnsafeReference) \<and>
    (mkStatus m' \<noteq> None \<longrightarrow> \<not> SubmitEnabled (Tracker_Status (mkStatus m'))) \<and>
    (r = Some ErrUnsafeReference \<longrightarrow> Exchange_Orders ephemeralDemoMakerAccount True e' = [])"
proof -
  note M = exchange_log_memory [OF assms(1,2)]
  from exchange_log.unsafe_withdraws [OF M memory_reachable [OF assms(1-3)] assms(4,5)] assms(6) show ?thesis by (simp add: memory_env_def)
qed

theorem unsafe_reference_withdraws_quotes_witness:
  "\<exists>e' m' r. refresh (exchange_engine (memory_env value_codec)) None None (\<lambda>_. 9000000000) (Inl ErrContext)
       (start, sample_maker (Some (NewStatusTracker True))) = ((e', m'), r) \<and> mkPaused m' \<and>
     (\<exists>err. r = Some err \<and> errors_is err ErrUnsafeReference)"
proof -
  let ?r = "refresh (exchange_engine (memory_env value_codec)) None None (\<lambda>_. 9000000000) (Inl ErrContext)
       (start, sample_maker (Some (NewStatusTracker True)))"
  obtain e' m' r where r: "?r = ((e', m'), r)" by (metis prod.collapse)
  have a: "cfAccountID (mkConfig (sample_maker (Some (NewStatusTracker True)))) = ephemeralDemoMakerAccount" by code_simp
  show ?thesis
    using unsafe_reference_withdraws_quotes [OF codec_ok_value market_ok_default start_reachable a _ r] r by auto
qed

section \<open>The runner on the exchange\<close>

text \<open>C17 Whatever the interleaving of calls, the loop, recoveries and \<open>Close\<close>, the runner answers the
  commands that entered its queue in the order of the queue, each once: the channels it accepted
  are those it answered, the one it is working on and those still queued; the queue keeps its
  bound, and when the loop has ended every accepted command has been answered.\<close>

theorem runner_answers_in_order:
  assumes "NewMarketRunner ctx walk market es ss c config st = (st', Inr (r, x))"
    and "(runner_step env gate gstep)\<^sup>*\<^sup>* (initial_world g r x) w"
  shows "wAccepted w = map fst (wReplies w) @ busy_channels (wBusy w) @ map cmResponse (rnQueue (wRunner w)) \<and>
    distinct (wAccepted w) \<and> int (length (rnQueue (wRunner w))) \<le> rcQueueSize config \<and>
    (rnDone (wRunner w) \<longrightarrow> map fst (wReplies w) = wAccepted w)"
proof -
  note I = channels_initial [OF assms(1)]
  have w: "channels_ok w" "rnConfig (wRunner w) = rnConfig r"
    using channels_steps [OF assms(2) I(1)] by (simp_all add: initial_world_def)
  have a: "wAccepted w = map fst (wReplies w) @ busy_channels (wBusy w) @ map cmResponse (rnQueue (wRunner w))"
    using w(1) by (simp only: channels_ok_def)
  moreover have "fresh_ok w" "closing_ok (wRunner w)" using w(1) by (simp_all only: channels_ok_def)
  then have "distinct (wAccepted w)" "int (length (rnQueue (wRunner w))) \<le> rcQueueSize config"
    using w(2) I(2) by (simp_all add: fresh_ok_def closing_ok_def)
  moreover have "map fst (wReplies w) = wAccepted w" if "rnDone (wRunner w)"
    using w(1) that by (simp add: channels_ok_def closing_ok_def)
  ultimately show ?thesis by blast
qed

lemma sample_runner:
  obtains r w where "NewMarketRunner None (cWalk value_codec) DefaultBTCUSDTMarket (Some (Memory_EventStore Inr))
      (Some Memory_SnapshotStore) value_codec DefaultRunnerConfig NewMemory = (NewMemory, Inr (r, start))"
    "(runner_step (memory_env value_codec) None (\<lambda>(g :: unit) g'. True))\<^sup>*\<^sup>* (initial_world () r start) w"
    "rnDone (wRunner w)" "wAccepted w = [0]"
proof -
  have p: "permutes (cWalk value_codec)" by (simp add: value_codec_def)
  obtain r x where r: "NewMarketRunner None (cWalk value_codec) DefaultBTCUSDTMarket (Some (Memory_EventStore Inr))
      (Some Memory_SnapshotStore) value_codec DefaultRunnerConfig NewMemory = (NewMemory, Inr (r, (NewMemory, x)))"
    "newState DefaultBTCUSDTMarket = Inr x"
    "rnQueue r = []" "\<not> rnStop r" "\<not> rnDone r" "rnAccepting r" "rnState r = StateReady" "rnConfig r = DefaultRunnerConfig"
    using fresh_runner [OF codec_ok_value p] by metis
  have "start = (NewMemory, x)" using r(2) by (simp add: start_def)
  with r that sample_run [OF r(3-8), of "memory_env value_codec" "\<lambda>g g'. True" "()" start] show ?thesis by metis
qed

theorem runner_answers_in_order_witness:
  "\<exists>r w. (runner_step (memory_env value_codec) None (\<lambda>(g :: unit) g'. True))\<^sup>*\<^sup>* (initial_world () r start) w \<and>
     rnDone (wRunner w) \<and> wAccepted w = [0] \<and> map fst (wReplies w) = [0]"
proof -
  obtain r w where rw: "NewMarketRunner None (cWalk value_codec) DefaultBTCUSDTMarket (Some (Memory_EventStore Inr))
      (Some Memory_SnapshotStore) value_codec DefaultRunnerConfig NewMemory = (NewMemory, Inr (r, start))"
    "(runner_step (memory_env value_codec) None (\<lambda>(g :: unit) g'. True))\<^sup>*\<^sup>* (initial_world () r start) w"
    "rnDone (wRunner w)" "wAccepted w = [0]" using sample_runner by metis
  with runner_answers_in_order [OF rw(1,2)] show ?thesis by metis
qed

text \<open>C16 A runner that is started on the store of any earlier run, and everything that interleaves with
  it, keep the exchange valid and recoverable: restoring from the store gives the state in
  memory, or reports a divergence when two requests in memory have the same key string. What the
  runner reports lags behind the exchange by at most the command that the loop has executed and
  not yet reported; at every other moment it is the sequence and a hash of the state in
  memory. It takes commands only when ready.\<close>

theorem runner_keeps_exchange:
  assumes "codec_ok c" "market_ok market" "reachable (memory_env c) market NewMemory x0" "permutes walk"
    and "NewMarketRunner ctx walk market (Some (Memory_EventStore Inr)) (Some Memory_SnapshotStore) c config (fst x0) = (st, Inr (r, x))"
    and "(runner_step (memory_env c) gate gstep)\<^sup>*\<^sup>* (initial_world g r x) w"
  shows "(Restore None market (Some (Memory_EventStore Inr)) (Some Memory_SnapshotStore) c (fst (wExchange w)) =
       (fst (wExchange w), Inr (wExchange w)) \<or>
     \<not> keys_apart (snd (wExchange w)) \<and>
     Restore None market (Some (Memory_EventStore Inr)) (Some Memory_SnapshotStore) c (fst (wExchange w)) =
       (fst (wExchange w), Inl ErrRecoveryDiverged)) \<and>
    Exchange_Validate (wExchange w) = Inr () \<and>
    (if \<exists>request result before. wBusy w = Applied request result before
     then stSequence (Runner_Status (wRunner w)) \<le> Sequence (wExchange w) \<and>
       Sequence (wExchange w) \<le> stSequence (Runner_Status (wRunner w)) + 1
     else stSequence (Runner_Status (wRunner w)) = Sequence (wExchange w) \<and>
       (\<exists>walk'. permutes walk' \<and> StateHash (rewalk walk' c) (wExchange w) = Inr (stStateHash (Runner_Status (wRunner w))))) \<and>
    (rnAccepting (wRunner w) \<longrightarrow> rnState (wRunner w) = StateReady)"
proof -
  note M = exchange_log_memory [OF assms(1,2)]
  note I = exchange_log.runner_initial(1,2) [OF M assms(5) memory_reachable [OF assms(1-3)] assms(4), where g = g]
  note W = exchange_log.runner_steps_ok [OF M assms(6) [unfolded memory_env_def] I channels_initial(1) [OF assms(5)]]
  have L: "log_ok c market (memRecords (fst (wExchange w))) (memSnapshot (fst (wExchange w))) (snd (wExchange w))"
    and R: "reports c (wBusy w) (wRunner w) (wExchange w)" and A: "rnAccepting (wRunner w) \<longrightarrow> rnState (wRunner w) = StateReady"
    using W by blast+
  have "validate (snd (wExchange w)) = Inr ()" using log_okD(1) [OF L] by (simp add: state_ok_def)
  moreover have "if \<exists>request result before. wBusy w = Applied request result before
     then rnSequence (wRunner w) \<le> Sequence (wExchange w) \<and> Sequence (wExchange w) \<le> rnSequence (wRunner w) + 1
     else rnSequence (wRunner w) = Sequence (wExchange w) \<and> hashes_to c (snd (wExchange w)) (rnStateHash (wRunner w))"
    using R reports_Idle [OF R] by auto
  ultimately show ?thesis
    using exchange_log.Restore_exact [OF M L exchange_log.walk_own [OF M]] A
    unfolding Exchange_Validate_def Runner_Status_def StateHash_def hashes_to_def by auto
qed

theorem runner_keeps_exchange_witness:
  "\<exists>r w. (runner_step (memory_env value_codec) None (\<lambda>(g :: unit) g'. True))\<^sup>*\<^sup>* (initial_world () r start) w \<and>
     rnDone (wRunner w) \<and> Exchange_Validate (wExchange w) = Inr () \<and>
     stSequence (Runner_Status (wRunner w)) \<le> Sequence (wExchange w)"
proof -
  obtain r w where rw: "NewMarketRunner None (cWalk value_codec) DefaultBTCUSDTMarket (Some (Memory_EventStore Inr))
      (Some Memory_SnapshotStore) value_codec DefaultRunnerConfig NewMemory = (NewMemory, Inr (r, start))"
    "(runner_step (memory_env value_codec) None (\<lambda>(g :: unit) g'. True))\<^sup>*\<^sup>* (initial_world () r start) w"
    "rnDone (wRunner w)" using sample_runner by metis
  have "fst start = NewMemory" by (rule start_state(2))
  moreover have p: "permutes (cWalk value_codec)" by (simp add: value_codec_def)
  ultimately show ?thesis
    using runner_keeps_exchange [OF codec_ok_value market_ok_default start_reachable p _ rw(2), of None DefaultRunnerConfig NewMemory] rw
    by (metis order_refl)
qed

text \<open>C15 The runner enforces the gate. When the recovery coordinator guards it, a step that changes the
  state of the exchange executes one command, and the run passed an earlier moment, after the
  loop had taken that command from the queue and before it answered any other, at which the gate
  validated its admission. At that moment the durable row of the market was not uncertain and
  authorized the command: the row was writable, or the command cancels orders of, or funds, the
  account of the demonstration maker. Between that moment and the execution no lock is held, so
  the coordinator may change the row.\<close>

theorem runner_writes_gated:
  fixes renv :: "MemoryStore RecoveryEnv"
  defines "renv' \<equiv> renv\<lparr> reStore := Memory_RecoveryStore \<rparr>"
  defines "step \<equiv> \<lambda>c gstep. runner_step (memory_env c) (Some (coordinator_gate (renv\<lparr> reStore := Memory_RecoveryStore \<rparr>))) gstep"
  assumes "codec_ok c" "market_ok market" "reachable (memory_env c) market NewMemory x0" "permutes walk"
    and "NewMarketRunner ctx walk market (Some (Memory_EventStore Inr)) (Some Memory_SnapshotStore) c config (fst x0) = (st, Inr (r, x))"
    and "(step c gstep)\<^sup>*\<^sup>* (initial_world g r x) w" "step c gstep w w'" "snd (wExchange w') \<noteq> snd (wExchange w)"
  shows "\<exists>request result w1 w2 row.
    wBusy w = Cleared request \<and> wBusy w' = Applied request result (Sequence (wExchange w)) \<and>
    (step c gstep)\<^sup>*\<^sup>* (initial_world g r x) w1 \<and> step c gstep w1 w2 \<and> (step c gstep)\<^sup>*\<^sup>* w2 w \<and>
    wBusy w1 = Taken request \<and> wReplies w = wReplies w1 \<and>
    fmlookup (msCurrent (fst (wGate w2))) (coMarketID (snd (wGate w2))) = Some row \<and>
    \<not> rsContinuityUncertain (effectiveStatus (reUrls renv) (snd (wGate w2)) row) \<and>
    (writable (reUrls renv) (effectiveStatus (reUrls renv) (snd (wGate w2)) row) \<or>
     cmKind request \<in> {operationFund, operationCancel} \<and> admission_account request = demo_maker)"
proof -
  note M = exchange_log_memory [OF assms(3,4)]
  note I = exchange_log.runner_initial(1,2) [OF M assms(7) memory_reachable [OF assms(3-5)] assms(6), where g = g]
  have step: "step c gstep = runner_step (memory_env c) (Some (coordinator_gate renv')) gstep" by (simp add: step_def renv'_def)
  note run = assms(8,9) [unfolded step]
  note W = exchange_log.runner_steps_ok [OF M run(1) [unfolded memory_env_def] I channels_initial(1) [OF assms(7)]]
  have adm: "commands_ok coordinator.admitted w"
    using run(1) by (induction rule: rtranclp_induct) (use I(2) coordinator.admitted_step in \<open>auto simp: renv'_def\<close>)
  obtain request result where q: "wBusy w = Cleared request" "wBusy w' = Applied request result (Sequence (wExchange w))"
    using exchange_log.runner_step_executes [OF M run(2) [unfolded memory_env_def] _ assms(10)] W by blast
  have a: "coordinator.admitted request" using adm q(1) by (simp add: commands_ok_def)
  have "validated_before (step c gstep) (Some (coordinator_gate renv')) (initial_world g r x) w request"
    unfolding step by (rule validated_run [OF run(1)]) (simp_all add: initial_world_def q(1))
  then obtain w1 w2 ctx' where v: "(step c gstep)\<^sup>*\<^sup>* (initial_world g r x) w1" "step c gstep w1 w2" "(step c gstep)\<^sup>*\<^sup>* w2 w"
    "wBusy w1 = Taken request" "gate_check (Some (coordinator_gate renv')) ctx' request (wGate w1) = (wGate w2, Inr ())" "wReplies w = wReplies w1"
    unfolding validated_before_def by blast
  have "row_authorizes renv' (wGate w2) (admission_mode request) (admission_account request)"
    using coordinator.gate_check_authorized [OF v(5) [unfolded renv'_def] a] by (simp add: renv'_def)
  then obtain row where row: "fmlookup (msCurrent (fst (wGate w2))) (coMarketID (snd (wGate w2))) = Some row"
    "authorize (reUrls renv) (effectiveStatus (reUrls renv) (snd (wGate w2)) row) (admission_mode request) (admission_account request) = Inr ()"
    by (auto simp: row_authorizes_def renv'_def)
  have "\<not> rsContinuityUncertain (effectiveStatus (reUrls renv) (snd (wGate w2)) row)"
    using row(2) by (auto simp: authorize_def split: if_splits)
  moreover have "writable (reUrls renv) (effectiveStatus (reUrls renv) (snd (wGate w2)) row) \<or>
     cmKind request \<in> {operationFund, operationCancel} \<and> admission_account request = demo_maker"
    using a runner_call_safety row(2) authorize_normal by metis
  ultimately show ?thesis using q v(1-4,6) row(1) by blast
qed

lemma gated_run:
  obtains r w w' where "NewMarketRunner None (cWalk value_codec) DefaultBTCUSDTMarket (Some (Memory_EventStore Inr))
      (Some Memory_SnapshotStore) value_codec DefaultRunnerConfig NewMemory = (NewMemory, Inr (r, start))"
    "(runner_step (memory_env value_codec) (Some (coordinator_gate sample_env)) (\<lambda>g g'. False))\<^sup>*\<^sup>*
       (initial_world (sample_writable, sample_coordinator) r start) w"
    "runner_step (memory_env value_codec) (Some (coordinator_gate sample_env)) (\<lambda>g g'. False) w w'"
    "snd (wExchange w') \<noteq> snd (wExchange w)"
proof -
  let ?g = "(sample_writable, sample_coordinator)" and ?env = "memory_env value_codec"
  let ?call = "Runner_Fund sample_request" and ?gate = "Some (coordinator_gate sample_env)"
  let ?step = "runner_step ?env ?gate (\<lambda>g g'. False)"
  have p: "permutes (cWalk value_codec)" by (simp add: value_codec_def)
  obtain r x where r: "NewMarketRunner None (cWalk value_codec) DefaultBTCUSDTMarket (Some (Memory_EventStore Inr))
      (Some Memory_SnapshotStore) value_codec DefaultRunnerConfig NewMemory = (NewMemory, Inr (r, (NewMemory, x)))"
    "newState DefaultBTCUSDTMarket = Inr x"
    "rnQueue r = []" "\<not> rnStop r" "\<not> rnDone r" "rnAccepting r" "rnState r = StateReady" "rnConfig r = DefaultRunnerConfig"
    using fresh_runner [OF codec_ok_value p] by metis
  have st: "start = (NewMemory, x)" using r(2) by (simp add: start_def)
  obtain adm where adm: "Admit sample_env None AdmissionNormal ''ann'' ?g = (?g, Inr adm)"
    "ValidateAdmission sample_env None adm ?g = (?g, Inr ())" using sample_admitted by blast
  obtain y res where y: "Fund ?env None sample_request start = (y, Inr res)" "Sequence y = 1" using funded by blast
  let ?call' = "?call\<lparr> cmAdmission := Some adm, cmResponse := 0 \<rparr>"
  have "admission_mode ?call = AdmissionNormal" "admission_account ?call = ''ann''" by code_simp+
  then have a: "execute_admit ?gate None 0 ?call ?g = (?g, Inr ?call')" using adm(1) by (simp add: execute_admit_def coordinator_gate_def)
  have b: "runner_call ?call" by (auto simp: runner_call_def)
  have b': "runner_command64 ?call" by code_simp
  let ?w1 = "(initial_world ?g r start)\<lparr> wBusy := Taken ?call', wNext := 1, wAccepted := [cmResponse ?call'] \<rparr>"
  have s1: "?step\<^sup>*\<^sup>* (initial_world ?g r start) ?w1" by (rule call_taken [OF r(3,5,6,8) a b b'])
  have "gate_check ?gate None ?call' ?g = (?g, Inr ())" using adm(2) by (simp add: gate_check_def coordinator_gate_def)
  then have s2: "?step ?w1 (?w1\<lparr> wGate := ?g, wRunner := r, wExchange := start, wBusy := Validated ?call' \<rparr>)" (is "runner_step _ _ _ _ ?w2")
    by (intro runner_step.step_handled [where request = ?call' and rd = plain_readings]) (simp_all add: initial_world_def)
  have s3: "?step ?w2 (?w2\<lparr> wGate := ?g, wRunner := r, wExchange := start, wBusy := Cleared ?call' \<rparr>)" (is "runner_step _ _ _ _ ?w3")
    by (rule runner_step.step_handled [where request = ?call' and rd = plain_readings]) (use r(7) in \<open>simp_all add: initial_world_def\<close>)
  have "rdWalk plain_readings = cWalk value_codec" by (simp add: plain_readings_def value_codec_def)
  then have e: "call_env (rdWalk plain_readings) (rdLate plain_readings) ?env = ?env" using memory_env_call [of value_codec] by simp
  have s4: "?step ?w3 (?w3\<lparr> wGate := ?g, wRunner := r, wExchange := y, wBusy := Applied ?call' res (Sequence start) \<rparr>)"
    (is "runner_step _ _ _ _ ?w4")
    by (rule runner_step.step_handled [where request = ?call' and rd = plain_readings])
      (use y(1) e in \<open>simp_all add: initial_world_def apply_operation_def Runner_Fund_def zeroCommand_def\<close>)
  have "sSequence (snd start) = 0" using start_state(1) by blast
  with y(2) have changed: "snd (wExchange ?w4) \<noteq> snd (wExchange ?w3)" by (auto simp: initial_world_def Sequence_def)
  have path: "?step\<^sup>*\<^sup>* (initial_world ?g r start) ?w3" using s1 s2 s3 by (meson rtranclp.rtrancl_into_rtrancl)
  show ?thesis by (rule that [OF r(1) [folded st] path s4 changed])
qed

theorem runner_writes_gated_witness:
  "\<exists>r w w' request result w2 row.
     (runner_step (memory_env value_codec) (Some (coordinator_gate sample_env)) (\<lambda>g g'. False))\<^sup>*\<^sup>*
       (initial_world (sample_writable, sample_coordinator) r start) w \<and>
     runner_step (memory_env value_codec) (Some (coordinator_gate sample_env)) (\<lambda>g g'. False) w w' \<and>
     snd (wExchange w') \<noteq> snd (wExchange w) \<and> wBusy w = Cleared request \<and>
     wBusy w' = Applied request result (Sequence (wExchange w)) \<and>
     (runner_step (memory_env value_codec) (Some (coordinator_gate sample_env)) (\<lambda>g g'. False))\<^sup>*\<^sup>* w2 w \<and>
     fmlookup (msCurrent (fst (wGate w2))) (coMarketID (snd (wGate w2))) = Some row"
proof -
  obtain r w w' where rw: "NewMarketRunner None (cWalk value_codec) DefaultBTCUSDTMarket (Some (Memory_EventStore Inr))
      (Some Memory_SnapshotStore) value_codec DefaultRunnerConfig NewMemory = (NewMemory, Inr (r, start))"
    "(runner_step (memory_env value_codec) (Some (coordinator_gate sample_env)) (\<lambda>g g'. False))\<^sup>*\<^sup>*
       (initial_world (sample_writable, sample_coordinator) r start) w"
    "runner_step (memory_env value_codec) (Some (coordinator_gate sample_env)) (\<lambda>g g'. False) w w'"
    "snd (wExchange w') \<noteq> snd (wExchange w)" using gated_run by metis
  have env: "sample_env\<lparr> reStore := Memory_RecoveryStore \<rparr> = sample_env" by (simp add: sample_env_def)
  have p: "permutes (cWalk value_codec)" by (simp add: value_codec_def)
  have "fst start = NewMemory" by (rule start_state(2))
  then have n: "NewMarketRunner None (cWalk value_codec) DefaultBTCUSDTMarket (Some (Memory_EventStore Inr)) (Some Memory_SnapshotStore) value_codec
      DefaultRunnerConfig (fst start) = (NewMemory, Inr (r, start))" using rw(1) by simp
  obtain request result w2 row where "wBusy w = Cleared request" "wBusy w' = Applied request result (Sequence (wExchange w))"
    "(runner_step (memory_env value_codec) (Some (coordinator_gate sample_env)) (\<lambda>g g'. False))\<^sup>*\<^sup>* w2 w"
    "fmlookup (msCurrent (fst (wGate w2))) (coMarketID (snd (wGate w2))) = Some row"
    using runner_writes_gated [where renv = sample_env, unfolded env, OF codec_ok_value market_ok_default start_reachable p n rw(2-4)]
    by blast
  with rw(2-4) show ?thesis by blast
qed

section \<open>A market order that the exchange cannot settle\<close>

definition fund_of :: "nat \<Rightarrow> AccountID \<Rightarrow> Asset \<Rightarrow> int \<Rightarrow> Command" where
  "fund_of n account asset amount = (fund_command ''BTC-USDT'' ''f''
     \<lparr> fRequestID = ''r'', fAccountID = account, fAsset = asset, fAmount = amount \<rparr>)\<lparr> cmdSequence := n \<rparr>"

definition resting_ask :: NewOrder where
  "resting_ask = \<lparr> nClientOrderID = ''o1'', nAccountID = ''sam'', nSide = SideSell, nType = OrderTypeLimit,
     nTimeInForce = TimeInForceGTC, nPrice = 60000990000, nQuantity = 8400, nQuoteBudget = 0, nPostOnly = False \<rparr>"

definition market_bid :: NewOrder where
  "market_bid = \<lparr> nClientOrderID = ''o2'', nAccountID = ''bea'', nSide = SideBuy, nType = OrderTypeMarket,
     nTimeInForce = TimeInForceIOC, nPrice = 0, nQuantity = 0, nQuoteBudget = 5040083, nPostOnly = False \<rparr>"

definition quoted_state :: "state res" where
  "quoted_state =
     bindE (newState DefaultBTCUSDTMarket) (\<lambda>s0.
     bindE (apply_command (fund_of 1 ''sam'' ''BTC'' 8400) s0) (\<lambda>(s1, _).
     bindE (apply_command (fund_of 2 ''bea'' ''USDT'' 5040083) s1) (\<lambda>(s2, _).
     bindE (apply_command ((submit_command ''BTC-USDT'' ''f'' resting_ask)\<lparr> cmdSequence := 3 \<rparr>) s2) (\<lambda>(s3, _).
       Inr s3))))"

text \<open>A valid, funded market buy can be refused although the book could fill it. Rounding makes the
  run fill one resting order twice, the second time completely; the settlement of the first of
  the two fills then updates that order in the book, from which the run has removed it.\<close>

lemma market_buy_refused:
  "\<exists>s. quoted_state = Inr s \<and> validate s = Inr () \<and> NewOrder_Validate market_bid (sMarket s) = Inr () \<and>
     UserBalance (sLedger s) ''bea'' ''USDT'' = (nQuoteBudget market_bid, 0) \<and>
     apply_command ((submit_command ''BTC-USDT'' ''f'' market_bid)\<lparr> cmdSequence := 4 \<rparr>) s = Inl ErrBookOrderNotFound"
proof -
  have "case quoted_state of Inl _ \<Rightarrow> False | Inr s \<Rightarrow>
     validate s = Inr () \<and> NewOrder_Validate market_bid (sMarket s) = Inr () \<and>
     UserBalance (sLedger s) ''bea'' ''USDT'' = (nQuoteBudget market_bid, 0) \<and>
     apply_command ((submit_command ''BTC-USDT'' ''f'' market_bid)\<lparr> cmdSequence := 4 \<rparr>) s = Inl ErrBookOrderNotFound"
    by code_simp
  then show ?thesis unfolding case_Inr_iff .
qed

section \<open>Properties of the log\<close>

text \<open>C4 A subscription to a market delivers the events of its log exactly once and in order: whatever
  the polls of the event source return, as long as every event of them is one of the log (a batch
  may overlap another, repeat events, come out of order or leave some out), the messages that were
  sent on the stream are those of a prefix of the events of the log behind the cursor the client
  asked for, with no gap and no repetition, however the subscription ended.\<close>

theorem subscription_exactly_once:
  assumes "codec_ok c" "market_ok m" "reachable (memory_env c) m NewMemory x" "RecordCount (fst x) < 2 ^ 64"
    and "\<And>n k. batch n = Inr (Some k) \<Longrightarrow> batch_count (memRecords (fst x)) n = Some k"
    and "subscribe_start (Some batch) (Inr m) requested sequence eventIndex = Inr su"
    and "\<forall>p \<in> set polls. source_of (set (event_stream (memRecords (fst x)))) p"
    and "subscribe_loop convert (logged send) m polls (su, (a, [])) = ((su', (a', sent)), res)"
  shows "\<exists>es. prefix es (behind (suCursor su) (event_stream (memRecords (fst x)))) \<and>
    map (event_message convert m) es = map Inr sent"
  by (rule subscribe_sends_prefix [OF memory_reachable [OF assms(1-3)] _ assms(5-8)])
    (use assms(4) in \<open>simp add: RecordCount_def\<close>)

definition sample_subscription :: Subscription where
  "sample_subscription = \<lparr> suCursor = zeroCursor, suReconciler = \<lparr> rcCheckpoint = \<lparr> ckCursor = zeroCursor, ckBatchEventCount = 0 \<rparr>,
     rcHead = zeroCursor, rcReconcileStarted = False, rcComplete = False \<rparr> \<rparr>"

lemma sample_subscription_start:
  "subscribe_start (Some batch) (Inr DefaultBTCUSDTMarket) (mID DefaultBTCUSDTMarket) [] 0 = Inr sample_subscription"
  by (simp add: subscribe_start_def parseCursor_def NewEventReconciler_def validateCheckpoint_def validateCursor_def
      zeroCursor_def sample_subscription_def DefaultBTCUSDTMarket_def)

lemma funded_log: "length (memRecords (fst (fst (Fund (memory_env value_codec) None sample_request start)))) = 1"
  using log_okD(3) [OF memory_reachable [OF codec_ok_value market_ok_default funded_reachable, of None]] funded
  by (auto simp: Sequence_def)

lemma source_of_page: "source_of (set stream) (\<lambda>_. next_page i limit stream cursor)"
proof -
  have "stored_envelope \<lparr> seMarketID = i, seCursor = eeCursor e, seBatchEventCount = eeBatchEventCount e, seEvent = eeEvent e \<rparr> = e" for e
    by (simp add: stored_envelope_def)
  then show ?thesis by (auto simp: source_of_def next_page_def behind_def dest: in_set_takeD)
qed

text \<open>A source that gives every event twice.\<close>

theorem subscription_exactly_once_witness:
  "let recs = memRecords (fst (fst (Fund (memory_env value_codec) None sample_request start)));
       end = subscribe_loop (\<lambda>_ e. Inr (evIndex e)) (logged (\<lambda>_ a. (a, Inr ()))) DefaultBTCUSDTMarket
         (replicate 2 (\<lambda>_. next_page (mID DefaultBTCUSDTMarket) 10 (event_stream recs) zeroCursor)) (sample_subscription, ((), []))
   in length recs = 1 \<and> (\<exists>es. prefix es (behind (suCursor sample_subscription) (event_stream recs)) \<and>
     map (event_message (\<lambda>_ e. Inr (evIndex e)) DefaultBTCUSDTMarket) es = map Inr (snd (snd (fst end))))"
  unfolding Let_def
  by (intro conjI funded_log subscription_exactly_once [OF codec_ok_value market_ok_default funded_reachable _ _ sample_subscription_start,
        where batch = "\<lambda>n. Inr (batch_count (memRecords (fst (fst (Fund (memory_env value_codec) None sample_request start)))) n)"])
    (auto simp: RecordCount_def funded_log source_of_page simp del: One_nat_def split: prod.splits intro!: prod_eqI)

text \<open>C5 A subscription that is served delivers everything: when each round of the loop gets the next
  events behind the cursor it asks for, at most \<open>limit\<close> of them, and neither the conversion nor the
  stream fails, enough rounds send every event of the log behind the client's cursor, and the
  subscription is still open.\<close>

theorem subscription_delivers:
  assumes "codec_ok c" "market_ok m" "reachable (memory_env c) m NewMemory x" "RecordCount (fst x) < 2 ^ 64"
    and "\<And>n k. batch n = Inr (Some k) \<Longrightarrow> batch_count (memRecords (fst x)) n = Some k"
    and "subscribe_start (Some batch) (Inr m) requested sequence eventIndex = Inr su"
    and "\<And>e. e \<in> set (event_stream (memRecords (fst x))) \<Longrightarrow> \<exists>w. convert m (eeEvent e) = Inr w"
    and "\<And>msg a. \<exists>a'. send msg a = (a', Inr ())"
    and "length (event_stream (memRecords (fst x))) \<le> rounds * limit"
  shows "\<exists>su' a' sent. subscribe_loop convert (logged send) m
      (replicate rounds (next_page (mID m) limit (event_stream (memRecords (fst x))))) (su, (a, [])) =
        ((su', (a', sent)), Inl ErrContext) \<and>
    map (event_message convert m) (behind (suCursor su) (event_stream (memRecords (fst x)))) = map Inr sent"
  by (rule subscribe_delivers [where convert = convert and send = send, OF memory_reachable [OF assms(1-3)] _ assms(5-9)])
    (use assms(4) in \<open>simp add: RecordCount_def\<close>)

theorem subscription_delivers_witness:
  "let recs = memRecords (fst (fst (Fund (memory_env value_codec) None sample_request start)))
   in length recs = 1 \<and> (\<exists>su' a' sent.
     subscribe_loop (\<lambda>_ e. Inr (evIndex e)) (logged (\<lambda>_ a. (a, Inr ()))) DefaultBTCUSDTMarket
       (replicate (length (event_stream recs)) (next_page (mID DefaultBTCUSDTMarket) 1 (event_stream recs))) (sample_subscription, ((), [])) =
         ((su', (a', sent)), Inl ErrContext) \<and>
     map (event_message (\<lambda>_ e. Inr (evIndex e)) DefaultBTCUSDTMarket) (behind (suCursor sample_subscription) (event_stream recs)) = map Inr sent)"
  unfolding Let_def
  by (intro conjI funded_log subscription_delivers [OF codec_ok_value market_ok_default funded_reachable _ _ sample_subscription_start,
        where batch = "\<lambda>n. Inr (batch_count (memRecords (fst (fst (Fund (memory_env value_codec) None sample_request start)))) n)"])
    (auto simp: RecordCount_def funded_log)

text \<open>C6 The audit never fails on what the exchange writes: the log of every reachable exchange passes it,
  with all its records. The proof of recovery then succeeds, with the sequence and the hash of
  the state in memory. It can fail in one way, with a divergence, and only when two requests in
  memory have the same key string, so that a state has more than one hash.\<close>

theorem recovery_proved:
  assumes "codec_ok c" "market_ok m" "reachable (memory_env c) m NewMemory x" "permutes walk" "\<And>d. validStateHash (cSum c d)"
  shows "\<exists>p. AuditRecords m (memRecords (fst x)) = Inr p \<and> lpRecords p = RecordCount (fst x) \<and> lpFinalSequence p = Sequence x \<and>
    ((\<exists>h. ProveRecovery None walk m (Some (Memory_EventStore Inr)) (Some Memory_SnapshotStore) c (fst x) =
        (fst x, Inr \<lparr> rpLedger = p, rpRestoredSequence = Sequence x, rpRestoredStateHash = h \<rparr>) \<and>
        StateHash (rewalk walk c) x = Inr h) \<or>
     \<not> keys_apart (snd x) \<and>
     ProveRecovery None walk m (Some (Memory_EventStore Inr)) (Some Memory_SnapshotStore) c (fst x) = (fst x, Inl ErrRecoveryDiverged))"
proof -
  note L = memory_reachable [OF assms(1-3)] and M = exchange_log_memory [OF assms(1,2)]
  let ?recs = "memRecords (fst x)" and ?prove = "ProveRecovery None walk m (Some (Memory_EventStore Inr)) (Some Memory_SnapshotStore) c (fst x)"
  obtain p where p: "AuditRecords m ?recs = Inr p" "lpRecords p = length ?recs" "lpFinalSequence p = length ?recs"
    "?recs \<noteq> [] \<Longrightarrow> hashes_to c (snd x) (lpFinalStateHash p)"
    using audit_passes [OF L assms(2,5)] by blast
  have read: "esRecordsAfter (Memory_EventStore Inr) None 0 (fst x) = Inr ?recs"
    using exchange_log.axioms(1) [OF M, THEN event_log.records_after, of 0 "fst x"] by simp
  have cw: "codec_ok (rewalk walk c)" by (rule codec_ok_rewalk [OF assms(1,4)])
  obtain h where h: "StateHash (rewalk walk c) x = Inr h" using hash_total [OF cw] by (auto simp: StateHash_def)
  have v: "Exchange_Validate x = Inr ()" using log_okD(1) [OF L] by (simp add: Exchange_Validate_def state_ok_def)
  have s: "Sequence x = length ?recs" using log_okD(3) [OF L] by (simp add: Sequence_def)
  have eq: "lpRecords p > 0 \<Longrightarrow> keys_apart (snd x) \<Longrightarrow> h = lpFinalStateHash p"
    using p(2,4) h hashes_to_unique [OF _ _ cw, of "snd x"] by (auto simp: StateHash_def)
  have "(?prove = (fst x, Inr \<lparr> rpLedger = p, rpRestoredSequence = Sequence x, rpRestoredStateHash = h \<rparr>)) \<or>
    \<not> keys_apart (snd x) \<and> ?prove = (fst x, Inl ErrRecoveryDiverged)"
    using exchange_log.Restore_exact [OF M L exchange_log.walk_own [OF M]] read p(1,3) v h s eq
    by (cases "lpRecords p > 0 \<and> h \<noteq> lpFinalStateHash p") (auto simp: ProveRecovery_def)
  then show ?thesis using h p(1-3) s by (auto simp: RecordCount_def)
qed

theorem recovery_proved_witness:
  "let x = fst (Fund (memory_env value_codec) None sample_request start)
   in \<exists>p. ProveRecovery None (cWalk value_codec) DefaultBTCUSDTMarket (Some (Memory_EventStore Inr)) (Some Memory_SnapshotStore)
       value_codec (fst x) = (fst x, Inr p) \<and> rpRestoredSequence p = 1"
proof -
  have p: "permutes (cWalk value_codec)" by (simp add: value_codec_def)
  show ?thesis
    using recovery_proved [OF codec_ok_value market_ok_default funded_reachable p value_codec_hash, of None] funded funded_apart
    by (auto simp: Let_def)
qed

text \<open>C7 What passes the audit is a sound history.\<close>

theorem audit_history_sound:
  assumes "AuditRecords m recs = Inr p" "journal64 (concat (map recJournal recs))"
  shows "(\<forall>i < length recs. recMarketID (recs ! i) = mID m \<and> cmdSequence (recCommand (recs ! i)) = i + 1 \<and>
      rSequence (recResult (recs ! i)) = i + 1 \<and>
      (\<forall>k < length (rEvents (recResult (recs ! i))). evSequence (rEvents (recResult (recs ! i)) ! k) = i + 1 \<and>
         evIndex (rEvents (recResult (recs ! i)) ! k) = k + 1)) \<and>
    distinct (map txID (concat (map recJournal recs))) \<and> balanced (concat (map recJournal recs)) \<and>
    lpTransactions p = length (concat (map recJournal recs)) \<and>
    (recs \<noteq> [] \<longrightarrow> lpFinalSequence p = length recs \<and> lpFinalStateHash p = recStateHash (last recs))"
  using audit_sound [OF assms] by blast

lemma sample_audit:
  "case run_trial value_codec ((fund_command ''BTC-USDT'' ''fr1'' sample_request)\<lparr> cmdSequence := 1 \<rparr>) (snd start) of
     Inl _ \<Rightarrow> False
   | Inr (t, rec, res) \<Rightarrow> journal64 (recJournal rec) \<and>
       (case AuditRecords DefaultBTCUSDTMarket [rec] of Inl _ \<Rightarrow> False | Inr p \<Rightarrow> lpTransactions p = 1)"
  by code_simp

theorem audit_history_sound_witness:
  "\<exists>rec p. AuditRecords DefaultBTCUSDTMarket [rec] = Inr p \<and> lpTransactions p = 1 \<and> balanced (recJournal rec) \<and> lpFinalSequence p = 1"
proof -
  obtain rec p where r: "AuditRecords DefaultBTCUSDTMarket [rec] = Inr p" "lpTransactions p = 1" "journal64 (recJournal rec)"
    using sample_audit by (auto split: sum.splits prod.splits)
  then show ?thesis using audit_history_sound [OF r(1)] by auto
qed

end
